(* ===== verification/Prelude.thy ===== *)
theory Prelude
  imports Complex_Main "HOL-Library.AList"
begin

text \<open>
  Shared vocabulary of the development: Python exceptions as values, Python dictionaries as
  association lists in insertion order, integer limits of the sketches, and the generic lemmas
  on them that the component theories use.
\<close>

section \<open>Rewrite and introduction collections\<close>

named_theorems dict_simps \<open>rewrite rules for Python dictionaries\<close>
named_theorems res_simps \<open>rewrite rules that invert successful results\<close>

section \<open>Exceptions as values\<close>

text \<open>
  A raised Python exception is the left injection of the sum type, with the constant part of its
  message (and the status code for an HTTP error); a normal return is the right injection.
\<close>

datatype py_error =
    ValueError string
  | OverflowError string
  | TypeError string
  | KeyError string
  | ZeroDivisionError string
  | RuntimeError string
  | AttributeError string
  | HTTPException int string

type_synonym 'a result = "py_error + 'a"

definition rbind :: "'a result \<Rightarrow> ('a \<Rightarrow> 'b result) \<Rightarrow> 'b result" where
  "rbind m f = (case m of Inl e \<Rightarrow> Inl e | Inr x \<Rightarrow> f x)"

definition raise_if :: "bool \<Rightarrow> py_error \<Rightarrow> 'a result \<Rightarrow> 'a result" where
  "raise_if b e k = (if b then Inl e else k)"

fun is_ok :: "'a result \<Rightarrow> bool" where
  "is_ok (Inr _) = True"
| "is_ok (Inl _) = False"

text \<open>A loop whose body may raise: the first exception ends it.\<close>

fun rfold :: "('a \<Rightarrow> 's \<Rightarrow> 's result) \<Rightarrow> 'a list \<Rightarrow> 's \<Rightarrow> 's result" where
  "rfold f [] s = Inr s"
| "rfold f (x # xs) s = rbind (f x s) (rfold f xs)"

text \<open>A comprehension whose body may raise.\<close>

fun rmap :: "('a \<Rightarrow> 'b result) \<Rightarrow> 'a list \<Rightarrow> 'b list result" where
  "rmap f [] = Inr []"
| "rmap f (x # xs) = rbind (f x) (\<lambda>y. rbind (rmap f xs) (\<lambda>ys. Inr (y # ys)))"

text \<open>Two computations agree when they succeed with the same values; errors may differ.\<close>

definition res_eq :: "'a result \<Rightarrow> 'a result \<Rightarrow> bool" where
  "res_eq m n \<longleftrightarrow> (\<forall>y. m = Inr y \<longleftrightarrow> n = Inr y)"

lemma rbind_Inl [simp]: "rbind (Inl e) f = Inl e"
  and rbind_Inr [simp]: "rbind (Inr x) f = f x"
  by (simp_all add: rbind_def)

lemma rbind_eq_Inr [res_simps]: "rbind m f = Inr y \<longleftrightarrow> (\<exists>x. m = Inr x \<and> f x = Inr y)"
  by (cases m) auto

lemma rbind_eq_Inl: "rbind m f = Inl e \<longleftrightarrow> m = Inl e \<or> (\<exists>x. m = Inr x \<and> f x = Inl e)"
  by (cases m) auto

lemma raise_if_simps [simp]:
  "raise_if True e k = Inl e" "raise_if False e k = k"
  by (simp_all add: raise_if_def)

lemma raise_if_eq_Inr [res_simps]: "raise_if b e k = Inr y \<longleftrightarrow> \<not> b \<and> k = Inr y"
  by (simp add: raise_if_def)

lemma is_ok_iff: "is_ok m \<longleftrightarrow> (\<exists>x. m = Inr x)"
  by (cases m) auto

lemma is_ok_rbindE:
  assumes "is_ok (rbind m f)" "m = Inr x" obtains y where "f x = Inr y"
  using assms by (auto simp: is_ok_iff)

lemma res_eqI: "(\<And>y. m = Inr y \<longleftrightarrow> n = Inr y) \<Longrightarrow> res_eq m n"
  by (simp add: res_eq_def)

lemma res_eq_refl [simp]: "res_eq m m"
  by (simp add: res_eq_def)

lemma res_eq_sym: "res_eq m n \<Longrightarrow> res_eq n m"
  by (simp add: res_eq_def)

lemma res_eq_trans: "res_eq m n \<Longrightarrow> res_eq n k \<Longrightarrow> res_eq m k"
  by (simp add: res_eq_def)

lemma res_eq_rbind: "res_eq m n \<Longrightarrow> res_eq (rbind m f) (rbind n f)"
  by (simp add: res_eq_def rbind_eq_Inr)

lemma res_eq_Inr: "res_eq m (Inr y) \<longleftrightarrow> m = Inr y"
  by (auto simp: res_eq_def)

lemma rmap_eq_Inr:
  "rmap f xs = Inr ys \<longleftrightarrow> list_all2 (\<lambda>x y. f x = Inr y) xs ys"
  by (induction xs arbitrary: ys) (auto simp: rbind_eq_Inr list_all2_Cons1)

lemma rmap_ok: "\<forall>x \<in> set xs. f x = Inr (g x) \<Longrightarrow> rmap f xs = Inr (map g xs)"
  by (induction xs) auto

lemma rmap_raise_if:
  "rmap (\<lambda>x. raise_if (P x) e (Inr (g x))) xs = Inr ys \<longleftrightarrow> (\<forall>x \<in> set xs. \<not> P x) \<and> ys = map g xs"
  by (induction xs arbitrary: ys) (auto simp: rbind_eq_Inr raise_if_eq_Inr)

lemma rfold_append: "rfold f (xs @ ys) s = rbind (rfold f xs s) (rfold f ys)"
  by (induction xs arbitrary: s) (simp_all add: rbind_def split: sum.splits)

lemma rfold_invariant:
  assumes "rfold f xs s = Inr t" and "P s"
    and "\<And>x a b. x \<in> set xs \<Longrightarrow> P a \<Longrightarrow> f x a = Inr b \<Longrightarrow> P b"
  shows "P t"
  using assms by (induction xs arbitrary: s) (auto simp: rbind_eq_Inr)

section \<open>The contract of a mergeable sketch\<close>

text \<open>
  What the stream log relies on for each of its three sketches, and what the windowed, shared and
  clustered logs rely on for the stream log: adding an item keeps the invariant and the
  configuration, an empty sketch is neutral, and merging after one more addition is the same as
  adding to the merged sketch.  \<open>reset\<close> empties a sketch and keeps its configuration, so
  \<open>reset s = reset t\<close> says that two sketches are configured alike.
\<close>

locale mergeable_sketch =
  fixes add :: "'a \<Rightarrow> 's \<Rightarrow> 's result"
    and merge :: "'s \<Rightarrow> 's \<Rightarrow> 's result"
    and reset :: "'s \<Rightarrow> 's"
    and inv :: "'s \<Rightarrow> bool"
  assumes inv_reset: "inv s \<Longrightarrow> inv (reset s)"
    and inv_add: "inv s \<Longrightarrow> add x s = Inr t \<Longrightarrow> inv t"
    and inv_merge: "inv s \<Longrightarrow> inv t \<Longrightarrow> merge s t = Inr u \<Longrightarrow> inv u"
    and reset_reset: "reset (reset s) = reset s"
    and reset_add: "inv s \<Longrightarrow> add x s = Inr t \<Longrightarrow> reset t = reset s"
    and reset_merge: "inv s \<Longrightarrow> inv t \<Longrightarrow> merge s t = Inr u \<Longrightarrow> reset u = reset s"
    and merge_empty: "inv s \<Longrightarrow> merge s (reset s) = Inr s"
    and empty_merge: "inv s \<Longrightarrow> merge (reset s) s = Inr s"
    and merge_add: "inv s \<Longrightarrow> inv t \<Longrightarrow> reset s = reset t \<Longrightarrow> add x t = Inr t' \<Longrightarrow>
      res_eq (merge s t') (rbind (merge s t) (add x))"
begin

lemma inv_ingest:
  assumes "rfold add xs s = Inr t" "inv s"
  shows "inv t \<and> reset t = reset s"
proof (rule rfold_invariant [OF assms(1), where P = "\<lambda>u. inv u \<and> reset u = reset s"])
  show "inv s \<and> reset s = reset s" using assms(2) by simp
next
  fix x a b
  assume "inv a \<and> reset a = reset s" "add x a = Inr b"
  then show "inv b \<and> reset b = reset s" using inv_add reset_add by metis
qed

lemma merge_rfold:
  assumes "inv s" "inv t" "reset s = reset t" "rfold add ys t = Inr t'"
  shows "res_eq (merge s t') (rbind (merge s t) (rfold add ys))"
  using assms(2-)
proof (induction ys arbitrary: t)
  case Nil
  then show ?case by (cases "merge s t") simp_all
next
  case (Cons y ys)
  then obtain u where u: "add y t = Inr u" "rfold add ys u = Inr t'" by (auto simp: rbind_eq_Inr)
  have "inv u" "reset s = reset u" using Cons.prems u(1) inv_add reset_add by metis+
  then have "res_eq (merge s t') (rbind (merge s u) (rfold add ys))"
    using u(2) by (rule Cons.IH)
  also have "res_eq (rbind (merge s u) (rfold add ys))
      (rbind (rbind (merge s t) (add y)) (rfold add ys))"
    using assms(1) Cons.prems u(1) by (intro res_eq_rbind merge_add)
  finally (res_eq_trans) show ?case by (cases "merge s t") (simp_all add: rbind_def)
qed

text \<open>Merging two ingested sketches is ingesting the concatenated stream.\<close>

lemma merge_ingest:
  assumes "inv e" and s: "rfold add xs (reset e) = Inr s" and t: "rfold add ys (reset e) = Inr t"
  shows "res_eq (merge s t) (rfold add (xs @ ys) (reset e))"
proof -
  have s': "inv s" "reset s = reset e"
    using inv_ingest [OF s] inv_reset [OF assms(1)] by (auto simp: reset_reset)
  have "res_eq (merge s t) (rbind (merge s (reset e)) (rfold add ys))"
    using s' inv_reset [OF assms(1)] t by (intro merge_rfold) (auto simp: reset_reset)
  moreover have "merge s (reset e) = Inr s" using merge_empty [OF s'(1)] s'(2) by simp
  ultimately show ?thesis by (simp add: rfold_append s)
qed

end

section \<open>Integer limits\<close>

definition MAX_INT64 :: int where "MAX_INT64 = 2 ^ 63 - 1"
definition MAX_UINT64 :: int where "MAX_UINT64 = 2 ^ 64 - 1"

lemma MAX_values:
  "MAX_INT64 = 9223372036854775807" "MAX_UINT64 = 18446744073709551615"
  by (simp_all add: MAX_INT64_def MAX_UINT64_def)

lemma MAX_nonneg [simp]: "0 \<le> MAX_INT64" "0 \<le> MAX_UINT64" "0 < MAX_INT64" "0 < MAX_UINT64"
  by (simp_all add: MAX_values)

section \<open>Dictionaries\<close>

text \<open>
  A Python dictionary is an association list with distinct keys, in insertion order.  Assignment
  to a present key keeps its position, assignment to a new key appends: this is
  \<^const>\<open>AList.update\<close>.  Lookup is \<^const>\<open>map_of\<close>, removal is \<^const>\<open>AList.delete\<close>.
\<close>

type_synonym ('k, 'v) dict = "('k \<times> 'v) list"

abbreviation dict_keys :: "('k, 'v) dict \<Rightarrow> 'k list" where
  "dict_keys d \<equiv> map fst d"

abbreviation dict_ok :: "('k, 'v) dict \<Rightarrow> bool" where
  "dict_ok d \<equiv> distinct (map fst d)"

definition dict_get :: "('k, 'v) dict \<Rightarrow> 'k \<Rightarrow> 'v \<Rightarrow> 'v" where
  "dict_get d k dflt = (case map_of d k of None \<Rightarrow> dflt | Some v \<Rightarrow> v)"

definition dict_mem :: "'k \<Rightarrow> ('k, 'v) dict \<Rightarrow> bool" where
  "dict_mem k d \<longleftrightarrow> map_of d k \<noteq> None"

text \<open>\<open>d[k] = d.get(k, 0) + c\<close>, and the loop that adds a dictionary of counts to another.\<close>

definition dict_incr :: "'k \<Rightarrow> int \<Rightarrow> ('k, int) dict \<Rightarrow> ('k, int) dict" where
  "dict_incr k c d = AList.update k (dict_get d k 0 + c) d"

definition dict_add_all :: "('k, int) dict \<Rightarrow> ('k, int) dict \<Rightarrow> ('k, int) dict" where
  "dict_add_all d e = fold (\<lambda>(k, c). dict_incr k c) e d"

definition dict_sum :: "('k, int) dict \<Rightarrow> int" where
  "dict_sum d = sum_list (map snd d)"

lemma dict_get_simps [simp, dict_simps]:
  "dict_get [] k x = x"
  "dict_get ((k', v) # d) k x = (if k = k' then v else dict_get d k x)"
  by (auto simp: dict_get_def)

lemma dict_mem_iff [dict_simps]: "dict_mem k d \<longleftrightarrow> k \<in> fst ` set d"
  by (auto simp: dict_mem_def map_of_eq_None_iff)

lemma dict_get_absent: "k \<notin> fst ` set d \<Longrightarrow> dict_get d k x = x"
  by (simp add: dict_get_def map_of_eq_None_iff [THEN iffD2])

lemma dict_get_update [dict_simps]:
  "dict_get (AList.update k v d) k' x = (if k' = k then v else dict_get d k' x)"
  by (simp add: dict_get_def update_conv')

lemma dict_ok_update [dict_simps]: "dict_ok d \<Longrightarrow> dict_ok (AList.update k v d)"
  by (rule distinct_update)

lemma dict_get_present: "dict_ok d \<Longrightarrow> (k, v) \<in> set d \<Longrightarrow> dict_get d k x = v"
  by (simp add: dict_get_def)

lemma dict_update_append: "k \<notin> fst ` set d \<Longrightarrow> AList.update k v d = d @ [(k, v)]"
  by (induction d) auto

lemma length_update:
  "length (AList.update k v d) = (if k \<in> fst ` set d then length d else Suc (length d))"
  by (induction d) auto

lemma set_update_dict:
  "dict_ok d \<Longrightarrow> set (AList.update k v d) = insert (k, v) {p \<in> set d. fst p \<noteq> k}"
  by (induction d) (auto simp: image_iff)

lemma dict_get_incr [dict_simps]:
  "dict_get (dict_incr k c d) k' 0 = (if k' = k then dict_get d k 0 + c else dict_get d k' 0)"
  by (simp add: dict_incr_def dict_get_update)

lemma dict_ok_incr [dict_simps]: "dict_ok d \<Longrightarrow> dict_ok (dict_incr k c d)"
  by (simp add: dict_incr_def dict_ok_update)

lemma keys_incr [dict_simps]: "fst ` set (dict_incr k c d) = insert k (fst ` set d)"
  by (simp add: dict_incr_def dom_update)

lemma dict_sum_simps [simp]: "dict_sum [] = 0" "dict_sum ((k, c) # d) = c + dict_sum d"
  by (simp_all add: dict_sum_def)

lemma dict_sum_append [simp]: "dict_sum (d @ e) = dict_sum d + dict_sum e"
  by (simp add: dict_sum_def)

lemma dict_sum_incr [dict_simps]: "dict_sum (dict_incr k c d) = dict_sum d + c"
proof -
  have "dict_sum (AList.update k v d) = dict_sum d - dict_get d k 0 + v" for v
    by (induction d) auto
  then show ?thesis by (simp add: dict_incr_def)
qed

lemma dict_incr_incr: "dict_incr k a (dict_incr k b d) = dict_incr k (b + a) d"
  by (simp add: dict_incr_def dict_get_update add.assoc)

lemma dict_incr_swap:
  assumes "k \<in> fst ` set d"
  shows "dict_incr k a (dict_incr k' b d) = dict_incr k' b (dict_incr k a d)"
proof (cases "k = k'")
  case True
  then show ?thesis by (simp add: dict_incr_incr add.commute)
next
  case False
  have "AList.update k u (AList.update k' v d) = AList.update k' v (AList.update k u d)" for u v
    using assms False by (induction d) auto
  then show ?thesis using False by (simp add: dict_incr_def dict_get_update)
qed

lemma dict_add_all_simps [simp]:
  "dict_add_all d [] = d"
  "dict_add_all d ((k, c) # e) = dict_add_all (dict_incr k c d) e"
  by (simp_all add: dict_add_all_def)

lemma dict_add_all_append [simp]:
  "dict_add_all d (e @ f) = dict_add_all (dict_add_all d e) f"
  by (simp add: dict_add_all_def)

lemma dict_add_all_incr_swap:
  "k \<in> fst ` set d \<Longrightarrow> dict_add_all (dict_incr k c d) e = dict_incr k c (dict_add_all d e)"
proof (induction e arbitrary: d)
  case (Cons p e)
  obtain k' b where p: "p = (k', b)" by (cases p)
  have "dict_incr k' b (dict_incr k c d) = dict_incr k c (dict_incr k' b d)"
    using Cons.prems by (rule dict_incr_swap [symmetric])
  with Cons show ?case by (simp add: p keys_incr)
qed simp

text \<open>Adding an updated dictionary of counts is adding the old one and then the update.\<close>

lemma dict_add_all_incr:
  "dict_add_all d (dict_incr k c e) = dict_incr k c (dict_add_all d e)"
proof (cases "k \<in> fst ` set e")
  case True
  have "dict_add_all d (AList.update k (dict_get e k 0 + c) e) = dict_incr k c (dict_add_all d e)"
    using True
  proof (induction e arbitrary: d)
    case (Cons p e)
    obtain k' c' where p: "p = (k', c')" by (cases p)
    show ?case
    proof (cases "k = k'")
      case True
      then show ?thesis
        by (simp add: p dict_incr_incr [symmetric] dict_add_all_incr_swap keys_incr)
    next
      case False
      with Cons show ?thesis by (auto simp: p)
    qed
  qed simp
  then show ?thesis by (simp add: dict_incr_def)
next
  case False
  then show ?thesis
    by (simp add: dict_incr_def [of k c e] dict_update_append dict_get_absent)
qed

lemma dict_add_all_keys [dict_simps]:
  "fst ` set (dict_add_all d e) = fst ` set d \<union> fst ` set e"
proof (induction e arbitrary: d)
  case (Cons p e)
  then show ?case by (cases p) (simp add: keys_incr)
qed simp

lemma dict_add_all_ok [dict_simps]: "dict_ok d \<Longrightarrow> dict_ok (dict_add_all d e)"
  by (induction e arbitrary: d) (auto simp: dict_ok_incr)

lemma dict_add_all_sum [dict_simps]: "dict_sum (dict_add_all d e) = dict_sum d + dict_sum e"
  by (induction e arbitrary: d) (auto simp: dict_sum_incr)

lemma dict_add_all_get [dict_simps]:
  "dict_ok e \<Longrightarrow> dict_get (dict_add_all d e) k 0 = dict_get d k 0 + dict_get e k 0"
proof (induction e arbitrary: d)
  case (Cons p e)
  obtain k' c where p: "p = (k', c)" by (cases p)
  with Cons show ?case by (auto simp: dict_get_incr dict_get_absent image_iff)
qed simp

lemma dict_add_all_Nil: "dict_ok e \<Longrightarrow> dict_add_all [] e = e"
proof -
  have "dict_ok (d @ e) \<Longrightarrow> dict_add_all d e = d @ e" for d
  proof (induction e arbitrary: d)
    case (Cons p e)
    obtain k c where p: "p = (k, c)" by (cases p)
    with Cons.prems have "k \<notin> fst ` set d" by auto
    then have "dict_incr k c d = d @ [(k, c)]"
      by (simp add: dict_incr_def dict_update_append dict_get_absent)
    with Cons.IH [of "d @ [(k, c)]"] Cons.prems p show ?case by simp
  qed simp
  from this [of "[]"] show "dict_ok e \<Longrightarrow> dict_add_all [] e = e" by simp
qed

text \<open>Counting a list of keys one by one.\<close>

definition dict_tally :: "'k list \<Rightarrow> ('k, int) dict \<Rightarrow> ('k, int) dict" where
  "dict_tally ks d = fold (\<lambda>k. dict_incr k 1) ks d"

lemma dict_tally_simps [simp]:
  "dict_tally [] d = d"
  "dict_tally (k # ks) d = dict_tally ks (dict_incr k 1 d)"
  "dict_tally (ks @ ls) d = dict_tally ls (dict_tally ks d)"
  by (simp_all add: dict_tally_def)

lemma dict_add_all_tally: "dict_add_all d (dict_tally ks e) = dict_tally ks (dict_add_all d e)"
  by (induction ks arbitrary: e) (simp_all add: dict_add_all_incr)

lemma dict_get_tally [dict_simps]:
  "dict_get (dict_tally ks d) k 0 = dict_get d k 0 + int (count_list ks k)"
  by (induction ks arbitrary: d) (auto simp: dict_get_incr)

lemma dict_keys_tally [dict_simps]: "fst ` set (dict_tally ks d) = fst ` set d \<union> set ks"
  by (induction ks arbitrary: d) (auto simp: keys_incr)

lemma dict_ok_tally [dict_simps]: "dict_ok d \<Longrightarrow> dict_ok (dict_tally ks d)"
  by (induction ks arbitrary: d) (auto simp: dict_ok_incr)

lemma dict_sum_tally [dict_simps]: "dict_sum (dict_tally ks d) = dict_sum d + int (length ks)"
  by (induction ks arbitrary: d) (auto simp: dict_sum_incr)

lemma dict_len_card: "dict_ok d \<Longrightarrow> length d = card (fst ` set d)"
  using distinct_card [of "map fst d"] by simp

end
