(* ===== verification/PyFloat.thy ===== *)
theory PyFloat
  imports Prelude "HOL-Library.Log_Nat"
begin

text \<open>
  Python's \<^verbatim>\<open>float\<close>: IEEE-754 binary64 with round-to-nearest-even.  A finite
  value is the rational it denotes; every arithmetic operation computes exactly and then
  rounds with \<open>to_float\<close>.  The two zeros are one value (no operation of the
  program distinguishes them).  The functions of the platform's C library that the program
  calls (\<^verbatim>\<open>math.log\<close>, the power operator, \<^verbatim>\<open>math.sqrt\<close>, summation of a list of
  floats) differ between platforms and interpreter versions: they are the fields of a record that
  the definitions take as an argument.
\<close>

section \<open>Rounding to binary64\<close>

datatype pyfloat = Fin rat | PInf | NInf | NaN

text \<open>The binary exponent of a positive rational.\<close>

definition flog2 :: "rat \<Rightarrow> int" where
  "flog2 q = (case quotient_of q of (n, d) \<Rightarrow>
     let e = bitlen n - bitlen d in if 2 powi e \<le> q then e else e - 1)"

definition round_half_even :: "rat \<Rightarrow> int" where
  "round_half_even q = (let f = \<lfloor>q\<rfloor>; r = q - of_int f in
     if r < 1/2 then f else if 1/2 < r then f + 1 else if even f then f else f + 1)"

text \<open>The exponent of the last place: 53 significant bits, subnormals below \<open>2 powi -1022\<close>.\<close>

definition fexp :: "rat \<Rightarrow> int" where
  "fexp q = max (flog2 \<bar>q\<bar> - 52) (-1074)"

definition rnd :: "rat \<Rightarrow> rat" where
  "rnd q = (if q = 0 then 0
            else of_int (round_half_even (q / 2 powi fexp q)) * 2 powi fexp q)"

definition to_float :: "rat \<Rightarrow> pyfloat" where
  "to_float q = (let r = rnd q in
     if 2 ^ 1024 \<le> r then PInf else if r \<le> - (2 ^ 1024) then NInf else Fin r)"

definition is_double :: "rat \<Rightarrow> bool" where
  "is_double q \<longleftrightarrow> rnd q = q \<and> \<bar>q\<bar> < 2 ^ 1024"

definition DBL_MAX :: rat where "DBL_MAX = (2 ^ 53 - 1) * 2 ^ 971"
definition DBL_TRUE_MIN :: rat where "DBL_TRUE_MIN = 2 powi (-1074)"

section \<open>Arithmetic and comparisons\<close>

fun f_isnan :: "pyfloat \<Rightarrow> bool" where
  "f_isnan NaN = True"
| "f_isnan _ = False"

fun f_isinf :: "pyfloat \<Rightarrow> bool" where
  "f_isinf PInf = True"
| "f_isinf NInf = True"
| "f_isinf _ = False"

fun f_isfinite :: "pyfloat \<Rightarrow> bool" where
  "f_isfinite (Fin _) = True"
| "f_isfinite _ = False"

fun f_lt :: "pyfloat \<Rightarrow> pyfloat \<Rightarrow> bool" where
  "f_lt NaN _ = False"
| "f_lt _ NaN = False"
| "f_lt (Fin a) (Fin b) = (a < b)"
| "f_lt NInf y = (y \<noteq> NInf)"
| "f_lt x NInf = False"
| "f_lt x PInf = (x \<noteq> PInf)"
| "f_lt PInf y = False"

fun f_eq :: "pyfloat \<Rightarrow> pyfloat \<Rightarrow> bool" where
  "f_eq NaN _ = False"
| "f_eq x y = (x = y)"

definition f_le :: "pyfloat \<Rightarrow> pyfloat \<Rightarrow> bool" where
  "f_le x y \<longleftrightarrow> f_lt x y \<or> f_eq x y"

text \<open>Python's \<^verbatim>\<open>min(a, b)\<close> and \<^verbatim>\<open>max(a, b)\<close> keep the first argument on a tie.\<close>

definition f_min :: "pyfloat \<Rightarrow> pyfloat \<Rightarrow> pyfloat" where
  "f_min a b = (if f_lt b a then b else a)"

definition f_max :: "pyfloat \<Rightarrow> pyfloat \<Rightarrow> pyfloat" where
  "f_max a b = (if f_lt a b then b else a)"

fun f_neg :: "pyfloat \<Rightarrow> pyfloat" where
  "f_neg (Fin a) = Fin (- a)"
| "f_neg PInf = NInf"
| "f_neg NInf = PInf"
| "f_neg NaN = NaN"

fun f_abs :: "pyfloat \<Rightarrow> pyfloat" where
  "f_abs (Fin a) = Fin \<bar>a\<bar>"
| "f_abs NaN = NaN"
| "f_abs _ = PInf"

fun f_add :: "pyfloat \<Rightarrow> pyfloat \<Rightarrow> pyfloat" where
  "f_add (Fin a) (Fin b) = to_float (a + b)"
| "f_add NaN _ = NaN"
| "f_add _ NaN = NaN"
| "f_add PInf NInf = NaN"
| "f_add NInf PInf = NaN"
| "f_add PInf _ = PInf"
| "f_add NInf _ = NInf"
| "f_add _ y = y"

definition f_sub :: "pyfloat \<Rightarrow> pyfloat \<Rightarrow> pyfloat" where
  "f_sub x y = f_add x (f_neg y)"

fun f_sgn :: "pyfloat \<Rightarrow> int" where
  "f_sgn (Fin a) = (if a < 0 then - 1 else if a = 0 then 0 else 1)"
| "f_sgn PInf = 1"
| "f_sgn NInf = - 1"
| "f_sgn NaN = 0"

fun f_mul :: "pyfloat \<Rightarrow> pyfloat \<Rightarrow> pyfloat" where
  "f_mul (Fin a) (Fin b) = to_float (a * b)"
| "f_mul NaN _ = NaN"
| "f_mul _ NaN = NaN"
| "f_mul x y = (let s = f_sgn x * f_sgn y in if s = 0 then NaN else if s < 0 then NInf else PInf)"

text \<open>Division by zero raises in Python, whatever the dividend.\<close>

fun f_div :: "pyfloat \<Rightarrow> pyfloat \<Rightarrow> pyfloat result" where
  "f_div x (Fin b) = (if b = 0 then Inl (ZeroDivisionError ''float division by zero'')
     else case x of Fin a \<Rightarrow> Inr (to_float (a / b))
       | NaN \<Rightarrow> Inr NaN
       | PInf \<Rightarrow> Inr (if b < 0 then NInf else PInf)
       | NInf \<Rightarrow> Inr (if b < 0 then PInf else NInf))"
| "f_div x NaN = Inr NaN"
| "f_div x y = (case x of Fin a \<Rightarrow> Inr (Fin 0) | _ \<Rightarrow> Inr NaN)"

text \<open>An integer operand of a float operation is converted to the nearest float first.\<close>

definition f_of_int :: "int \<Rightarrow> pyfloat" where
  "f_of_int n = to_float (of_int n)"

fun f_ceil :: "pyfloat \<Rightarrow> int result" where
  "f_ceil (Fin a) = Inr \<lceil>a\<rceil>"
| "f_ceil NaN = Inl (ValueError ''cannot convert float NaN to integer'')"
| "f_ceil _ = Inl (OverflowError ''cannot convert float infinity to integer'')"

text \<open>\<^verbatim>\<open>int(x)\<close> truncates towards zero.\<close>

fun f_int :: "pyfloat \<Rightarrow> int result" where
  "f_int (Fin a) = Inr (if a < 0 then \<lceil>a\<rceil> else \<lfloor>a\<rfloor>)"
| "f_int NaN = Inl (ValueError ''cannot convert float NaN to integer'')"
| "f_int _ = Inl (OverflowError ''cannot convert float infinity to integer'')"

text \<open>
  \<^verbatim>\<open>round(x, n)\<close> for a float: the exact value is rounded half-even to \<open>n\<close> decimals, and that
  decimal to the nearest float.
\<close>

fun py_round :: "pyfloat \<Rightarrow> nat \<Rightarrow> pyfloat result" where
  "py_round (Fin a) n = (let r = to_float (of_int (round_half_even (a * 10 ^ n)) / 10 ^ n) in
     if f_isinf r then Inl (OverflowError ''rounded value too large to represent'') else Inr r)"
| "py_round x n = Inr x"

section \<open>The platform's mathematical library\<close>

record libm =
  c_log :: "rat \<Rightarrow> rat"
  c_pow :: "pyfloat \<Rightarrow> rat \<Rightarrow> pyfloat"
  c_sqrt :: "rat \<Rightarrow> rat"
  c_fsum :: "pyfloat list \<Rightarrow> pyfloat"

fun py_log :: "libm \<Rightarrow> pyfloat \<Rightarrow> pyfloat result" where
  "py_log L (Fin a) = (if a \<le> 0 then Inl (ValueError ''math domain error'') else Inr (Fin (c_log L a)))"
| "py_log L PInf = Inr PInf"
| "py_log L NInf = Inl (ValueError ''math domain error'')"
| "py_log L NaN = Inr NaN"

text \<open>
  \<^verbatim>\<open>x ** n\<close> for a float base and an integer exponent: the exponent is converted to a float, and
  an infinite result of a finite base raises.
\<close>

definition py_pow :: "libm \<Rightarrow> pyfloat \<Rightarrow> int \<Rightarrow> pyfloat result" where
  "py_pow L x n = (case f_of_int n of
     Fin e \<Rightarrow> (let r = c_pow L x e in
        if f_isfinite x \<and> f_isinf r then Inl (OverflowError ''Numerical result out of range'')
        else Inr r)
   | _ \<Rightarrow> Inl (OverflowError ''int too large to convert to float''))"

text \<open>The behaviour of \<^verbatim>\<open>log\<close> that the sketches rely on: it is weakly increasing.\<close>

definition log_mono :: "libm \<Rightarrow> bool" where
  "log_mono L \<longleftrightarrow> (\<forall>a b. 0 < a \<longrightarrow> a \<le> b \<longrightarrow> c_log L a \<le> c_log L b)"

section \<open>Facts about rounding\<close>

lemma powi2_pos [simp]: "0 < (2::rat) powi e"
  by simp

lemma powi2_le_iff [simp]: "(2::rat) powi a \<le> 2 powi b \<longleftrightarrow> a \<le> b"
  using power_int_increasing [of a b "2::rat"] power_int_strict_increasing [of b a "2::rat"]
  by (force simp: not_le [symmetric])

lemma powi2_less_iff [simp]: "(2::rat) powi a < 2 powi b \<longleftrightarrow> a < b"
  by (simp add: less_le_not_le)

lemma powi2_add: "(2::rat) powi (a + b) = 2 powi a * 2 powi b"
  by (simp add: power_int_add)

lemma powi2_diff: "(2::rat) powi (a - b) = 2 powi a / 2 powi b"
  by (simp add: power_int_diff)

lemma powi2_nat: "0 \<le> a \<Longrightarrow> (2::rat) powi a = of_int (2 ^ nat a)"
  by (simp add: power_int_nonneg_exp)

lemma flog2_bounds:
  assumes "0 < q"
  shows "2 powi flog2 q \<le> q" and "q < 2 powi (flog2 q + 1)"
proof -
  obtain n d where nd: "quotient_of q = (n, d)" by (cases "quotient_of q")
  have d: "0 < d" using nd by (rule quotient_of_denom_pos)
  have q: "q = of_int n / of_int d" using nd by (rule quotient_of_div)
  have n: "0 < n" using assms d by (simp add: q zero_less_divide_iff)
  have bit: "2 powi (bitlen x - 1) \<le> (of_int x :: rat) \<and> (of_int x :: rat) < 2 powi bitlen x"
    if "0 < x" for x
  proof -
    have "0 \<le> bitlen x - 1" "0 \<le> bitlen x" using that by (simp_all add: bitlen_alt_def)
    then show ?thesis
      using bitlen_bounds [OF that] by (simp only: powi2_nat of_int_le_iff of_int_less_iff)
  qed
  let ?e = "bitlen n - bitlen d"
  have "2 powi (?e - 1) < q"
  proof -
    have "2 powi (?e - 1) = 2 powi (bitlen n - 1) / (2 powi bitlen d :: rat)"
      by (simp add: powi2_diff [symmetric] algebra_simps)
    also have "\<dots> < of_int n / of_int d"
      using bit [OF n] bit [OF d] n d by (intro frac_less2) auto
    finally show ?thesis by (simp add: q)
  qed
  moreover have "q < 2 powi (?e + 1)"
  proof -
    have "of_int n / of_int d < 2 powi bitlen n / (2 powi (bitlen d - 1) :: rat)"
      using bit [OF n] bit [OF d] n d by (intro frac_less) auto
    also have "\<dots> = 2 powi (?e + 1)"
      by (simp add: powi2_diff [symmetric] algebra_simps)
    finally show ?thesis by (simp add: q)
  qed
  ultimately show "2 powi flog2 q \<le> q" and "q < 2 powi (flog2 q + 1)"
    by (simp_all add: flog2_def nd Let_def less_imp_le not_le)
qed

lemma flog2_le: "0 < q \<Longrightarrow> q < 2 powi (b + 1) \<Longrightarrow> flog2 q \<le> b"
  using flog2_bounds(1) [of q] order_le_less_trans [of "2 powi flog2 q" q "2 powi (b + 1)"] by simp

lemma flog2_ge: "0 < q \<Longrightarrow> 2 powi a \<le> q \<Longrightarrow> a \<le> flog2 q"
  using flog2_bounds(2) [of q] order_le_less_trans [of "2 powi a" q "2 powi (flog2 q + 1)"] by simp

lemma flog2_mono: "0 < a \<Longrightarrow> a \<le> b \<Longrightarrow> flog2 a \<le> flog2 b"
  by (rule flog2_ge) (use flog2_bounds(1) [of a] in auto)

lemma rhe_of_int [simp]: "round_half_even (of_int n) = n"
  by (simp add: round_half_even_def)

lemma rhe_bounds:
  "of_int (round_half_even q) \<le> q + 1/2" "q - 1/2 \<le> of_int (round_half_even q)"
  by (auto simp: round_half_even_def Let_def) linarith+

lemma rhe_mono: assumes "x \<le> y" shows "round_half_even x \<le> round_half_even y"
proof (cases "\<lfloor>x\<rfloor> = \<lfloor>y\<rfloor>")
  case True
  with assms show ?thesis by (auto simp: round_half_even_def Let_def)
next
  case False
  with assms have "\<lfloor>x\<rfloor> < \<lfloor>y\<rfloor>" using floor_mono [of x y] by linarith
  moreover have "round_half_even x \<le> \<lfloor>x\<rfloor> + 1" "\<lfloor>y\<rfloor> \<le> round_half_even y"
    by (simp_all add: round_half_even_def Let_def)
  ultimately show ?thesis by linarith
qed

lemma rhe_uminus: "round_half_even (- q) = - round_half_even q"
proof (cases "q \<in> \<int>")
  case True
  then obtain n where "q = of_int n" by (auto elim: Ints_cases)
  then show ?thesis using rhe_of_int [of "- n"] by simp
next
  case False
  then have fl: "\<lfloor>- q\<rfloor> = - \<lfloor>q\<rfloor> - 1"
    by (simp add: floor_minus ceiling_altdef) (metis Ints_of_int)
  show ?thesis
    by (auto simp: round_half_even_def Let_def fl)
qed

lemma rnd_0 [simp]: "rnd 0 = 0"
  by (simp add: rnd_def)

lemma rnd_uminus [simp]: "rnd (- q) = - rnd q"
  by (simp add: rnd_def fexp_def rhe_uminus)

lemma rnd_dyadic_strict:
  assumes q: "q = of_int m * 2 powi e" and m: "\<bar>m\<bar> < 2 ^ 53" and e: "-1074 \<le> e"
  shows "rnd q = q"
proof (cases "q = 0")
  case False
  have "\<bar>q\<bar> = of_int \<bar>m\<bar> * 2 powi e" by (simp add: q abs_mult)
  also have "\<dots> < 2 ^ 53 * 2 powi e"
    using m by (intro mult_strict_right_mono) (simp_all flip: of_int_less_iff [where 'a = rat])
  also have "\<dots> = 2 powi (52 + e + 1)" by (simp add: powi2_add)
  finally have "flog2 \<bar>q\<bar> \<le> 52 + e" using False by (intro flog2_le) auto
  with e have le: "fexp q \<le> e" by (simp add: fexp_def)
  have "q / 2 powi fexp q = of_int m * 2 powi (e - fexp q)"
    by (simp add: q powi2_diff)
  also have "\<dots> = of_int (m * 2 ^ nat (e - fexp q))" using le by (simp add: powi2_nat)
  finally have eq: "q / 2 powi fexp q = of_int (m * 2 ^ nat (e - fexp q))" .
  then have "of_int (round_half_even (q / 2 powi fexp q)) = q / 2 powi fexp q"
    by (simp only: rhe_of_int)
  then show ?thesis using False by (simp add: rnd_def)
qed simp

lemma rnd_dyadic:
  assumes q: "q = of_int m * 2 powi e" and m: "\<bar>m\<bar> \<le> 2 ^ 53" and e: "-1074 \<le> e"
  shows "rnd q = q"
proof (cases "\<bar>m\<bar> < 2 ^ 53")
  case False
  with m have "m = 2 ^ 53 \<or> m = - (2 ^ 53)" by auto
  then have "q = of_int (sgn m) * 2 powi (53 + e)" by (auto simp: q powi2_add)
  then show ?thesis by (rule rnd_dyadic_strict) (use e in \<open>auto simp: sgn_if\<close>)
qed (use assms in \<open>auto intro: rnd_dyadic_strict\<close>)

lemma rnd_int: "\<bar>n\<bar> \<le> 2 ^ 53 \<Longrightarrow> rnd (of_int n) = of_int n"
  by (rule rnd_dyadic [of _ n 0]) auto

lemma rnd_powi [simp]: "-1074 \<le> e \<Longrightarrow> rnd (2 powi e) = 2 powi e"
  by (rule rnd_dyadic [of _ 1 e]) auto

text \<open>Rounding is weakly increasing, which carries every ordering argument about floats.\<close>

lemma rnd_scaled: "q \<noteq> 0 \<Longrightarrow> rnd q = of_int (round_half_even (q / 2 powi fexp q)) * 2 powi fexp q"
  by (simp add: rnd_def)

lemma rnd_le_powi:
  assumes "0 < q" "q \<le> 2 powi k" "-1074 \<le> k" shows "rnd q \<le> 2 powi k"
proof -
  have "fexp q \<le> k"
    using assms flog2_le [of q k] by (simp add: fexp_def powi2_add)
  have "q / 2 powi fexp q \<le> 2 powi (k - fexp q)"
    using assms by (simp add: powi2_diff divide_right_mono)
  also have "\<dots> = of_int (2 ^ nat (k - fexp q))" using \<open>fexp q \<le> k\<close> by (simp add: powi2_nat)
  finally have "round_half_even (q / 2 powi fexp q) \<le> 2 ^ nat (k - fexp q)"
    using rhe_mono rhe_of_int by metis
  then have "(of_int (round_half_even (q / 2 powi fexp q)) :: rat) \<le> 2 powi (k - fexp q)"
    using \<open>fexp q \<le> k\<close> by (simp only: powi2_nat of_int_le_iff)
  then have "rnd q \<le> 2 powi (k - fexp q) * 2 powi fexp q"
    using assms(1) by (simp add: rnd_scaled)
  also have "\<dots> = 2 powi k" by (simp add: powi2_add [symmetric])
  finally show ?thesis .
qed

lemma rnd_ge_powi:
  assumes "2 powi k \<le> q" "fexp q \<le> k" shows "2 powi k \<le> rnd q"
proof -
  have q: "0 < q" using assms(1) powi2_pos [of k] by linarith
  have "2 powi (k - fexp q) \<le> q / 2 powi fexp q"
    using assms by (simp add: powi2_diff divide_right_mono)
  moreover have "2 powi (k - fexp q) = (of_int (2 ^ nat (k - fexp q)) :: rat)"
    using assms by (simp add: powi2_nat)
  ultimately have "2 ^ nat (k - fexp q) \<le> round_half_even (q / 2 powi fexp q)"
    using rhe_mono rhe_of_int by metis
  then have "2 powi (k - fexp q) \<le> (of_int (round_half_even (q / 2 powi fexp q)) :: rat)"
    using assms by (simp only: powi2_nat of_int_le_iff)
  then have "2 powi (k - fexp q) * 2 powi fexp q \<le> rnd q"
    using q by (simp add: rnd_scaled)
  then show ?thesis by (simp add: powi2_add [symmetric])
qed

lemma rnd_nonneg: "0 \<le> q \<Longrightarrow> 0 \<le> rnd q"
proof (cases "q = 0")
  case False
  assume "0 \<le> q"
  with rhe_mono [of 0 "q / 2 powi fexp q"] rhe_of_int [of 0] False show ?thesis
    by (simp add: rnd_scaled)
qed simp

lemma rnd_mono_pos:
  assumes "0 < x" "x \<le> y" shows "rnd x \<le> rnd y"
proof (cases "fexp x = fexp y")
  case True
  have "round_half_even (x / 2 powi fexp y) \<le> round_half_even (y / 2 powi fexp y)"
    using assms by (intro rhe_mono divide_right_mono) auto
  with assms True show ?thesis by (simp add: rnd_scaled)
next
  case False
  have "flog2 x \<le> flog2 y" using assms by (rule flog2_mono)
  with False assms have lt: "flog2 x < flog2 y" and fy: "fexp y = flog2 y - 52" and
    ge: "-1074 \<le> flog2 y" by (auto simp: fexp_def max_def split: if_splits)
  have "x \<le> 2 powi flog2 y"
  proof -
    have "x < 2 powi (flog2 x + 1)" using assms by (intro flog2_bounds)
    also have "\<dots> \<le> 2 powi flog2 y" using lt by (simp only: powi2_le_iff)
    finally show ?thesis by simp
  qed
  then have "rnd x \<le> 2 powi flog2 y" using assms ge by (intro rnd_le_powi) auto
  also have "\<dots> \<le> rnd y"
    using assms flog2_bounds(1) [of y] fy by (intro rnd_ge_powi) auto
  finally show ?thesis .
qed

lemma rnd_mono: assumes "x \<le> y" shows "rnd x \<le> rnd y"
proof -
  consider "0 < x" | "x \<le> 0" "0 \<le> y" | "y < 0" using assms by linarith
  then show ?thesis
  proof cases
    case 1 then show ?thesis using assms by (rule rnd_mono_pos)
  next
    case 2
    then show ?thesis using rnd_nonneg [of y] rnd_nonneg [of "- x"] by simp
  next
    case 3
    then show ?thesis using assms rnd_mono_pos [of "- y" "- x"] by simp
  qed
qed

lemma rnd_idem [simp]: "rnd (rnd q) = rnd q"
proof (cases "q = 0")
  case False
  let ?m = "round_half_even (q / 2 powi fexp q)"
  have "\<bar>q\<bar> < 2 powi (flog2 \<bar>q\<bar> + 1)" using False by (intro flog2_bounds) simp
  also have "\<dots> \<le> 2 powi (fexp q + 53)" by (simp only: powi2_le_iff) (simp add: fexp_def)
  finally have "\<bar>q / 2 powi fexp q\<bar> \<le> 2 powi 53"
    by (simp add: powi2_add field_simps abs_if split: if_splits)
  from abs_le_D1 [OF this] abs_le_D2 [OF this]
  have "q / 2 powi fexp q \<le> of_int (2 ^ 53)" "of_int (- (2 ^ 53)) \<le> q / 2 powi fexp q"
    by simp_all
  then have "?m \<le> 2 ^ 53" "- (2 ^ 53) \<le> ?m"
    using rhe_mono rhe_of_int by metis+
  then show ?thesis
    using False by (intro rnd_dyadic [of _ ?m "fexp q"]) (auto simp: rnd_scaled fexp_def)
qed simp

text \<open>Relative error of one rounding in the normal range.\<close>

lemma rnd_error:
  assumes "2 powi (-1022) \<le> \<bar>q\<bar>" shows "\<bar>rnd q - q\<bar> \<le> \<bar>q\<bar> * 2 powi (-53)"
proof -
  have q: "0 < \<bar>q\<bar>" using assms powi2_pos [of "-1022"] by linarith
  have "-1022 \<le> flog2 \<bar>q\<bar>" using q assms by (rule flog2_ge)
  then have e: "fexp q = flog2 \<bar>q\<bar> - 52" by (simp add: fexp_def)
  have "\<bar>of_int (round_half_even (q / 2 powi fexp q)) - q / 2 powi fexp q\<bar> \<le> 1/2"
    using rhe_bounds [of "q / 2 powi fexp q"] by linarith
  then have "\<bar>rnd q / 2 powi fexp q - q / 2 powi fexp q\<bar> \<le> 1/2"
    using q by (simp add: rnd_scaled)
  then have "\<bar>rnd q - q\<bar> / 2 powi fexp q \<le> 1/2"
    by (simp add: abs_divide diff_divide_distrib [symmetric])
  then have "\<bar>rnd q - q\<bar> \<le> 2 powi fexp q / 2" by (simp add: field_simps)
  also have "\<dots> = 2 powi flog2 \<bar>q\<bar> * 2 powi (-53)"
    by (simp add: e powi2_diff power_int_minus)
  also have "\<dots> \<le> \<bar>q\<bar> * 2 powi (-53)"
    using flog2_bounds(1) [OF q] by (intro mult_right_mono) auto
  finally show ?thesis .
qed

section \<open>Facts about the operations\<close>

lemma f_le_simps [simp]:
  "f_le (Fin a) (Fin b) \<longleftrightarrow> a \<le> b" "f_le NaN y \<longleftrightarrow> False" "f_le x NaN \<longleftrightarrow> False"
  "f_le (Fin a) PInf" "f_le NInf (Fin a)" "\<not> f_le PInf (Fin a)" "\<not> f_le (Fin a) NInf"
  by (cases x; auto simp: f_le_def)+

lemma f_lt_Fin_PInf [simp]: "f_lt (Fin a) PInf" "f_lt NInf (Fin a)" "f_lt NInf PInf"
  "\<not> f_lt PInf x" "\<not> f_lt x NInf" "\<not> f_lt x x"
  by (cases x; simp)+

lemma f_eq_Fin [simp]: "f_eq (Fin a) (Fin b) \<longleftrightarrow> a = b"
  by simp

lemma f_min_simps [simp]:
  "f_min (Fin a) (Fin b) = Fin (min a b)" "f_min PInf (Fin b) = Fin b" "f_min (Fin a) PInf = Fin a"
  "f_min PInf PInf = PInf"
  by (auto simp: f_min_def)

lemma f_max_simps [simp]:
  "f_max (Fin a) (Fin b) = Fin (max a b)" "f_max NInf (Fin b) = Fin b" "f_max (Fin a) NInf = Fin a"
  "f_max NInf NInf = NInf"
  by (auto simp: f_max_def)

lemma to_float_cases:
  obtains "to_float q = Fin (rnd q)" | "to_float q = PInf" "2 ^ 1024 \<le> rnd q"
  | "to_float q = NInf" "rnd q \<le> - (2 ^ 1024)"
  by (cases "2 ^ 1024 \<le> rnd q"; cases "rnd q \<le> - (2 ^ 1024)") (auto simp: to_float_def Let_def)

lemma to_float_Fin: "\<bar>rnd q\<bar> < 2 ^ 1024 \<Longrightarrow> to_float q = Fin (rnd q)"
  by (auto simp: to_float_def Let_def)

lemma to_float_double: "is_double q \<Longrightarrow> to_float q = Fin q"
  using to_float_Fin [of q] by (simp add: is_double_def)

lemma rnd_mono_neg: "q \<le> 0 \<Longrightarrow> rnd q \<le> 0"
  using rnd_mono [of q 0] by simp

lemma f_of_int_small: "\<bar>n\<bar> \<le> 2 ^ 53 \<Longrightarrow> f_of_int n = Fin (of_int n)"
proof -
  assume n: "\<bar>n\<bar> \<le> 2 ^ 53"
  then have "\<bar>of_int n :: rat\<bar> \<le> of_int (2 ^ 53)" by (simp only: of_int_le_iff of_int_abs [symmetric])
  also have "\<dots> < 2 ^ 1024" by simp
  finally show ?thesis using rnd_int [OF n] by (simp add: f_of_int_def to_float_Fin)
qed

lemma to_float_is_double: "to_float q = Fin y \<Longrightarrow> is_double y"
  by (auto simp: to_float_def Let_def is_double_def split: if_splits)

lemma f_mul_is_double: "f_mul x y = Fin z \<Longrightarrow> is_double z"
  by (cases x; cases y) (auto simp: Let_def dest: to_float_is_double split: if_splits)

lemma double_nonzero_ge:
  assumes "is_double q" "q \<noteq> 0" shows "DBL_TRUE_MIN \<le> \<bar>q\<bar>"
proof -
  let ?m = "round_half_even (q / 2 powi fexp q)"
  have q: "q = of_int ?m * 2 powi fexp q" using assms rnd_scaled [of q] by (simp add: is_double_def)
  then have "?m \<noteq> 0" using assms(2) by auto
  then have "1 \<le> \<bar>?m\<bar>" by simp
  then have "(1::rat) \<le> of_int \<bar>?m\<bar>" by (metis of_int_1 of_int_le_iff)
  have "(2 :: rat) powi (-1074) \<le> 2 powi fexp q"
    by (simp only: powi2_le_iff) (simp add: fexp_def)
  then have "DBL_TRUE_MIN \<le> 1 * 2 powi fexp q" by (simp only: DBL_TRUE_MIN_def mult_1)
  also have "\<dots> \<le> of_int \<bar>?m\<bar> * 2 powi fexp q"
    using \<open>(1::rat) \<le> of_int \<bar>?m\<bar>\<close> by (intro mult_right_mono) auto
  also have "\<dots> = \<bar>q\<bar>" by (subst (3) q) (simp add: abs_mult)
  finally show ?thesis .
qed

lemma double_le_max:
  assumes "is_double q" shows "\<bar>q\<bar> \<le> DBL_MAX"
proof (cases "q = 0")
  case False
  have a: "is_double \<bar>q\<bar>" using assms by (auto simp: is_double_def abs_if)
  let ?q = "\<bar>q\<bar>" and ?m = "round_half_even (\<bar>q\<bar> / 2 powi fexp \<bar>q\<bar>)"
  have q: "?q = of_int ?m * 2 powi fexp ?q" using a False rnd_scaled [of ?q] by (simp add: is_double_def)
  have "?q < 2 powi 1024" using a by (simp add: is_double_def)
  then have "flog2 ?q \<le> 1023" using False flog2_le [of ?q 1023] by simp
  show ?thesis
  proof (rule ccontr)
    assume "\<not> ?thesis"
    then have gt: "DBL_MAX < ?q" by simp
    have "2 powi 1023 \<le> DBL_MAX" by (simp add: DBL_MAX_def)
    then have "1023 \<le> flog2 ?q" using gt False by (intro flog2_ge) auto
    then have "fexp ?q = 971" using \<open>flog2 ?q \<le> 1023\<close> by (simp add: fexp_def)
    then have "?q = of_int ?m * 2 ^ 971" using q by simp
    then have "of_int (2 ^ 53 - 1) < (of_int ?m :: rat)" "of_int ?m < (of_int (2 ^ 53) :: rat)"
      using gt \<open>?q < 2 powi 1024\<close> by (simp_all add: DBL_MAX_def)
    then have "2 ^ 53 - 1 < ?m" "?m < 2 ^ 53" by (simp_all only: of_int_less_iff)
    then show False by simp
  qed
qed (simp add: DBL_MAX_def)

section \<open>Evaluation\<close>

text \<open>Rounding by integer arithmetic, for the evaluation of concrete examples.\<close>

definition rhe_frac :: "int \<Rightarrow> int \<Rightarrow> int" where
  "rhe_frac n d = (let f = n div d; r = 2 * (n mod d) in
     if r < d then f else if d < r then f + 1 else if even f then f else f + 1)"

lemma rhe_frac: assumes "0 < d" shows "round_half_even (of_int n / of_int d) = rhe_frac n d"
proof -
  let ?f = "n div d"
  have fl: "\<lfloor>of_int n / of_int d :: rat\<rfloor> = ?f" by (simp add: floor_divide_of_int_eq)
  have "(of_int n :: rat) = of_int (d * ?f + n mod d)" by simp
  then have r: "of_int n / of_int d - of_int ?f = (of_int (n mod d) / of_int d :: rat)"
    using assms by (simp only: of_int_add of_int_mult) (simp add: field_simps)
  have "(of_int (n mod d) / of_int d < (1/2 :: rat)) \<longleftrightarrow> 2 * (n mod d) < d"
    "((1/2 :: rat) < of_int (n mod d) / of_int d) \<longleftrightarrow> d < 2 * (n mod d)"
    using assms by (simp_all add: field_simps del: of_int_mult flip: of_int_mult)
      (metis of_int_less_iff of_int_mult of_int_numeral mult.commute)+
  then show ?thesis unfolding round_half_even_def rhe_frac_def fl r Let_def by simp
qed

lemma quotient_of_pos: "quotient_of q = (n, d) \<Longrightarrow> 0 < d \<and> q = of_int n / of_int d"
  by (simp add: quotient_of_denom_pos quotient_of_div)

lemma powi2_shift:
  "(2::rat) powi e = (if 0 \<le> e then of_int (2 ^ nat e) else 1 / of_int (2 ^ nat (- e)))"
  by (simp add: powi2_nat power_int_def power_one_over [symmetric] inverse_eq_divide)

lemma flog2_code [code]:
  "flog2 q = (case quotient_of q of (n, d) \<Rightarrow>
     let e = bitlen n - bitlen d in
     if (if 0 \<le> e then d * 2 ^ nat e \<le> n else d \<le> n * 2 ^ nat (- e)) then e else e - 1)"
proof -
  obtain n d where nd: "quotient_of q = (n, d)" by (cases "quotient_of q")
  note q = quotient_of_pos [OF nd]
  have "2 powi e \<le> q \<longleftrightarrow> (if 0 \<le> e then d * 2 ^ nat e \<le> n else d \<le> n * 2 ^ nat (- e))" for e
  proof (cases "0 \<le> e")
    case True
    have "2 powi e \<le> q \<longleftrightarrow> (of_int (d * 2 ^ nat e) :: rat) \<le> of_int n"
      using q True by (simp add: powi2_shift field_simps)
    then show ?thesis using True by (simp only: of_int_le_iff if_True)
  next
    case False
    have "2 powi e \<le> q \<longleftrightarrow> (of_int d :: rat) \<le> of_int (n * 2 ^ nat (- e))"
      using q False by (simp add: powi2_shift field_simps)
    then show ?thesis using False by (simp only: of_int_le_iff if_False)
  qed
  then show ?thesis by (simp add: flog2_def nd Let_def)
qed

lemma rnd_code [code]:
  "rnd q = (if q = 0 then 0 else case quotient_of q of (n, d) \<Rightarrow>
     let e = fexp q in
     if 0 \<le> e then of_int (rhe_frac n (d * 2 ^ nat e) * 2 ^ nat e)
     else Fract (rhe_frac (n * 2 ^ nat (- e)) d) (2 ^ nat (- e)))"
proof -
  obtain n d where nd: "quotient_of q = (n, d)" by (cases "quotient_of q")
  then have d: "0 < d" and q: "q = of_int n / of_int d" using quotient_of_pos by auto
  have pos: "rnd q = of_int (rhe_frac n (d * 2 ^ nat e) * 2 ^ nat e)" if "q \<noteq> 0" "0 \<le> e" "e = fexp q" for e
  proof -
    have "q / 2 powi e = of_int n / of_int (d * 2 ^ nat e)" using that(2) by (simp add: q powi2_shift)
    moreover have "0 < d * 2 ^ nat e" using d by simp
    ultimately have "round_half_even (q / 2 powi e) = rhe_frac n (d * 2 ^ nat e)" by (simp only: rhe_frac)
    then show ?thesis using that by (simp add: rnd_scaled) (simp add: powi2_shift)
  qed
  have neg: "rnd q = Fract (rhe_frac (n * 2 ^ nat (- e)) d) (2 ^ nat (- e))"
    if "q \<noteq> 0" "\<not> 0 \<le> e" "e = fexp q" for e
  proof -
    have "q / 2 powi e = of_int (n * 2 ^ nat (- e)) / of_int d" using that(2) by (simp add: q powi2_shift)
    then have "round_half_even (q / 2 powi e) = rhe_frac (n * 2 ^ nat (- e)) d" using d by (simp only: rhe_frac)
    then show ?thesis using that by (simp add: rnd_scaled) (simp add: powi2_shift Fract_of_int_quotient)
  qed
  show ?thesis using pos neg unfolding nd Let_def by (simp del: of_int_mult)
qed

lemma to_float_code [code]:
  "to_float q = (let r = rnd q in
     if \<bar>r\<bar> < 2 ^ 62 then Fin r
     else if 2 ^ 1024 \<le> r then PInf else if r \<le> - (2 ^ 1024) then NInf else Fin r)"
proof -
  have "(2::rat) ^ 62 \<le> 2 ^ 1024" by (rule power_increasing) simp_all
  then have "\<not> 2 ^ 1024 \<le> rnd q" "\<not> rnd q \<le> - (2 ^ 1024)" if "\<bar>rnd q\<bar> < 2 ^ 62"
    using that by linarith+
  then show ?thesis unfolding to_float_def Let_def by argo
qed

text \<open>
  A computable library: the piecewise linear interpolation of the binary logarithm, exact integer
  powers, plain summation.  Examples evaluate with it, and it has the behaviour the sketches rely on.
\<close>

definition libm_demo :: libm where
  "libm_demo = \<lparr>c_log = (\<lambda>x. of_int (flog2 x) + (x / 2 powi flog2 x - 1)),
     c_pow = (\<lambda>x n. if n = 0 then Fin 1 else case x of Fin a \<Rightarrow> to_float (a powi \<lfloor>n\<rfloor>) | y \<Rightarrow> y),
     c_sqrt = (\<lambda>x. x), c_fsum = (\<lambda>xs. fold f_add xs (Fin 0))\<rparr>"

lemma log_mono_demo: "log_mono libm_demo"
proof -
  have "of_int (flog2 a) + (a / 2 powi flog2 a - 1) \<le> of_int (flog2 b) + (b / 2 powi flog2 b - 1)"
    if a: "0 < a" and ab: "a \<le> b" for a b
  proof (cases "flog2 a = flog2 b")
    case True
    then show ?thesis using ab by (simp add: divide_right_mono)
  next
    case False
    then have "flog2 a + 1 \<le> flog2 b" using flog2_mono [OF a ab] by simp
    then have "(of_int (flog2 a + 1) :: rat) \<le> of_int (flog2 b)" by (simp only: of_int_le_iff)
    moreover have "a / 2 powi flog2 a < 2" "1 \<le> b / 2 powi flog2 b"
      using flog2_bounds [of a] flog2_bounds [of b] a ab
      by (simp_all add: pos_divide_less_eq pos_le_divide_eq powi2_add)
    ultimately show ?thesis unfolding of_int_add by linarith
  qed
  then show ?thesis by (simp add: log_mono_def libm_demo_def)
qed

end
