(* ===== verification/HyperLogLog.thy ===== *)
theory HyperLogLog
  imports PyFloat "HOL-Library.Word"
begin

unbundle bit_operations_syntax

text \<open>
  The cardinality sketch (\<^verbatim>\<open>core/hll.py\<close>): the 64-bit hash, the register update, the
  estimate, and the register-wise maximum of \<^verbatim>\<open>facade.py\<close> that merges two sketches.
  The masked Python integers of the hash are 64-bit words.
\<close>

section \<open>Hashing\<close>

type_synonym u64 = "64 word"
type_synonym byte = "8 word"

text \<open>
  The values a sketch accepts.  A Python string is given by its UTF-8 encoding, one character per
  byte; \<open>KOther\<close> is any other object, with the text that \<^verbatim>\<open>str\<close> gives for it.
\<close>

datatype event_key = KInt int | KStr string | KBytes "byte list" | KOther string

definition utf8 :: "string \<Rightarrow> byte list" where
  "utf8 s = map of_char s"

definition murmur_finalizer :: "u64 \<Rightarrow> u64" where
  "murmur_finalizer h0 =
    (let h1 = h0 XOR drop_bit 33 h0;
         h2 = h1 * 0xff51afd7ed558ccd;
         h3 = h2 XOR drop_bit 33 h2;
         h4 = h3 * 0xc4ceb9fe1a85ec53
     in h4 XOR drop_bit 33 h4)"

definition fnv1a :: "byte list \<Rightarrow> u64" where
  "fnv1a data = fold (\<lambda>b h. (h XOR ucast b) * 0x100000001b3) data 0xcbf29ce484222325"

definition hash_bytes :: "byte list \<Rightarrow> u64" where
  "hash_bytes data = murmur_finalizer (fnv1a data)"

text \<open>\<^verbatim>\<open>int.to_bytes(8, 'little')\<close> and \<^verbatim>\<open>int.bit_length\<close>.\<close>

definition le_bytes8 :: "int \<Rightarrow> byte list" where
  "le_bytes8 n = map (\<lambda>i. word_of_int (n div 256 ^ i)) [0..<8]"

definition bit_length :: "u64 \<Rightarrow> nat" where
  "bit_length w = nat (bitlen (uint w))"

definition in_uint64 :: "int \<Rightarrow> bool" where
  "in_uint64 n \<longleftrightarrow> 0 \<le> n \<and> n \<le> 0xFFFFFFFFFFFFFFFF"

section \<open>The sketch\<close>

record hll =
  hll_p :: nat
  hll_m :: nat
  hll_registers :: "nat list"
  hll_alpha :: pyfloat

definition hll_alpha_of :: "nat \<Rightarrow> pyfloat result" where
  "hll_alpha_of m =
    (if m = 16 then Inr (to_float (673/1000))
     else if m = 32 then Inr (to_float (697/1000))
     else if m = 64 then Inr (to_float (709/1000))
     else rbind (f_div (to_float (1079/1000)) (f_of_int (int m)))
       (\<lambda>x. f_div (to_float (7213/10000)) (f_add (Fin 1) x)))"

definition hll_init :: "int \<Rightarrow> hll result" where
  "hll_init precision =
    raise_if (\<not> (4 \<le> precision \<and> precision \<le> 18)) (ValueError ''precision must be in [4, 18]'')
      (let p = nat precision; m = 2 ^ p in
       rbind (hll_alpha_of m) (\<lambda>a.
         Inr \<lparr>hll_p = p, hll_m = m, hll_registers = replicate m 0, hll_alpha = a\<rparr>))"

definition hll_rho :: "u64 \<Rightarrow> nat \<Rightarrow> nat" where
  "hll_rho w p = (if w = 0 then 64 - p + 1 else 64 - bit_length w + 1)"

definition hll_hash :: "event_key \<Rightarrow> u64 result" where
  "hll_hash v = (case v of
     KInt n \<Rightarrow> raise_if (\<not> in_uint64 n)
       (ValueError ''HyperLogLog integer out of range for 64-bit unsigned'')
       (Inr (hash_bytes (le_bytes8 n)))
   | KBytes bs \<Rightarrow> Inr (hash_bytes bs)
   | KStr s \<Rightarrow> Inr (hash_bytes (utf8 s))
   | KOther s \<Rightarrow> Inr (hash_bytes (utf8 s)))"

definition hll_index :: "nat \<Rightarrow> u64 \<Rightarrow> nat" where
  "hll_index p h = unat (drop_bit (64 - p) h)"

definition hll_add :: "event_key \<Rightarrow> hll \<Rightarrow> hll result" where
  "hll_add v s = rbind (hll_hash v) (\<lambda>h.
     let idx = hll_index (hll_p s) h;
         w = push_bit (hll_p s) h;
         rho = hll_rho w (hll_p s)
     in if rho > hll_registers s ! idx
        then Inr (s\<lparr>hll_registers := (hll_registers s)[idx := min rho 255]\<rparr>)
        else Inr s)"

definition hll_estimate :: "libm \<Rightarrow> hll \<Rightarrow> pyfloat result" where
  "hll_estimate L s =
    (let m = f_of_int (int (hll_m s)); raw0 = f_mul (f_mul (hll_alpha s) m) m in
     rbind (rmap (\<lambda>r. py_pow L (Fin 2) (- int r)) (hll_registers s)) (\<lambda>terms.
     rbind (f_div raw0 (c_fsum L terms)) (\<lambda>raw.
       let zeros = count_list (hll_registers s) 0 in
       if f_le raw (f_mul (Fin (5/2)) m) \<and> zeros > 0
       then rbind (py_log L (to_float (of_nat (hll_m s) / of_nat zeros))) (\<lambda>l. Inr (f_mul m l))
       else Inr raw)))"

definition hll_memory_bytes :: "hll \<Rightarrow> int" where
  "hll_memory_bytes s = 32 + int (hll_m s)"

definition hll_reset :: "hll \<Rightarrow> hll" where
  "hll_reset s = s\<lparr>hll_registers := replicate (hll_m s) 0\<rparr>"

text \<open>The register-wise maximum, and the configuration check that precedes it in \<^verbatim>\<open>merge\<close>.\<close>

definition hll_merge_registers :: "nat list \<Rightarrow> nat list \<Rightarrow> nat list" where
  "hll_merge_registers r1 r2 = map (\<lambda>(l, r). max l r) (zip r1 r2)"

definition hll_merge :: "hll \<Rightarrow> hll \<Rightarrow> hll result" where
  "hll_merge s t = raise_if (hll_p s \<noteq> hll_p t)
     (ValueError ''Cannot merge: HLL precision mismatch'')
     (Inr (s\<lparr>hll_registers := hll_merge_registers (hll_registers s) (hll_registers t)\<rparr>))"

section \<open>Invariant and preservation\<close>

definition hll_inv :: "hll \<Rightarrow> bool" where
  "hll_inv s \<longleftrightarrow> 4 \<le> hll_p s \<and> hll_p s \<le> 18 \<and> hll_m s = 2 ^ hll_p s
     \<and> hll_alpha_of (2 ^ hll_p s) = Inr (hll_alpha s)
     \<and> length (hll_registers s) = 2 ^ hll_p s
     \<and> (\<forall>r \<in> set (hll_registers s). r \<le> 64 - hll_p s + 1)"

lemma hll_index_bound: "p \<le> 64 \<Longrightarrow> hll_index p h < 2 ^ p"
proof -
  assume p: "p \<le> 64"
  have "unat h < 2 ^ 64" using unsigned_less [of h, where 'a = nat] by simp
  also have "\<dots> = 2 ^ p * 2 ^ (64 - p)" using p by (simp flip: power_add)
  finally have "drop_bit (64 - p) (unat h) < 2 ^ p"
    by (simp only: drop_bit_eq_div) (rule less_mult_imp_div_less)
  then show ?thesis by (simp only: hll_index_def unat_drop_bit_eq)
qed

lemma bit_length_ge:
  assumes "push_bit p h \<noteq> (0 :: u64)" shows "p < bit_length (push_bit p h)"
proof -
  let ?x = "uint (push_bit p h)"
  have "?x = push_bit p (take_bit (64 - p) (uint h))"
    by (simp only: unsigned_push_bit_eq take_bit_push_bit) simp
  then have "?x = 2 ^ p * take_bit (64 - p) (uint h)"
    by (simp only: push_bit_eq_mult [where 'a = int] mult.commute)
  moreover have "?x \<noteq> 0" using assms by (simp only: uint_0_iff) simp
  ultimately have "2 ^ p * 1 \<le> ?x"
    by (metis mult_left_mono mult_zero_right take_bit_nonnegative zero_le_numeral zero_le_power
        int_one_le_iff_zero_less less_le)
  moreover from this have "0 < ?x" by (smt (verit) zero_less_power mult_1_right)
  ultimately have "(2::int) ^ p < 2 ^ nat (bitlen ?x)"
    using bitlen_bounds [of ?x] by linarith
  then show ?thesis by (simp add: bit_length_def)
qed

lemma hll_rho_bound:
  assumes "p \<le> 63" shows "1 \<le> hll_rho (push_bit p h) p" "hll_rho (push_bit p h) p \<le> 64 - p + 1"
  using bit_length_ge [of p h] by (auto simp: hll_rho_def)

lemma hll_init_inv: "hll_init p = Inr s \<Longrightarrow> hll_inv s"
proof -
  assume a: "hll_init p = Inr s"
  then have p: "4 \<le> p" "p \<le> 18" by (auto simp: hll_init_def raise_if_eq_Inr)
  then have "4 \<le> nat p" "nat p \<le> 18" by auto
  with a show ?thesis by (auto simp: hll_init_def raise_if_eq_Inr rbind_eq_Inr Let_def hll_inv_def)
qed

text \<open>
  One addition is a register-wise maximum with the rank of the item at its index: the saturation at
  255 never acts, since ranks are at most \<open>64 - p + 1\<close>.
\<close>

definition hll_rank :: "nat \<Rightarrow> u64 \<Rightarrow> nat" where
  "hll_rank p h = hll_rho (push_bit p h) p"

lemma hll_add_max:
  assumes "hll_inv s"
  shows "hll_add v s = rbind (hll_hash v) (\<lambda>h. let i = hll_index (hll_p s) h in
    Inr (s\<lparr>hll_registers := (hll_registers s)[i := max (hll_registers s ! i) (hll_rank (hll_p s) h)]\<rparr>))"
proof (cases "hll_hash v")
  case (Inr h)
  let ?i = "hll_index (hll_p s) h" and ?r = "hll_rank (hll_p s) h"
  have "?r \<le> 255"
    using hll_rho_bound(2) [of "hll_p s" h] assms by (simp add: hll_inv_def hll_rank_def)
  moreover have "(hll_registers s)[?i := hll_registers s ! ?i] = hll_registers s" by simp
  ultimately show ?thesis
    by (simp add: Inr hll_add_def Let_def hll_rank_def max_def min_def not_le)
qed (simp add: hll_add_def)

lemma hll_add_inv:
  assumes "hll_inv s" "hll_add v s = Inr t"
  shows "hll_inv t" "hll_p t = hll_p s" "hll_m t = hll_m s" "hll_alpha t = hll_alpha s"
proof -
  from assms obtain h where t: "t = s\<lparr>hll_registers := (hll_registers s)
      [hll_index (hll_p s) h := max (hll_registers s ! hll_index (hll_p s) h) (hll_rank (hll_p s) h)]\<rparr>"
    by (auto simp: hll_add_max rbind_eq_Inr Let_def)
  have i: "hll_index (hll_p s) h < length (hll_registers s)"
    using hll_index_bound [of "hll_p s" h] assms(1) by (simp add: hll_inv_def)
  then have "max (hll_registers s ! hll_index (hll_p s) h) (hll_rank (hll_p s) h) \<le> 64 - hll_p s + 1"
    using assms(1) hll_rho_bound(2) [of "hll_p s" h] by (simp add: hll_inv_def hll_rank_def)
  then show "hll_inv t" using assms(1) t
    by (auto simp: hll_inv_def dest!: set_update_subset_insert [THEN subsetD])
  show "hll_p t = hll_p s" "hll_m t = hll_m s" "hll_alpha t = hll_alpha s" by (simp_all add: t)
qed

lemma hll_reset_inv: "hll_inv s \<Longrightarrow> hll_inv (hll_reset s)"
  by (auto simp: hll_inv_def hll_reset_def)

lemma hll_reset_eqD:
  "hll_reset s = hll_reset t \<Longrightarrow> hll_p s = hll_p t \<and> hll_m s = hll_m t \<and> hll_alpha s = hll_alpha t"
  by (cases s; cases t) (simp add: hll_reset_def)

section \<open>Merging\<close>

lemma hll_merge_registers_nth:
  "i < length r1 \<Longrightarrow> length r1 = length r2 \<Longrightarrow>
    hll_merge_registers r1 r2 ! i = max (r1 ! i) (r2 ! i)"
  by (simp add: hll_merge_registers_def)

lemma length_hll_merge_registers [simp]:
  "length (hll_merge_registers r1 r2) = min (length r1) (length r2)"
  by (simp add: hll_merge_registers_def)

lemma hll_merge_registers_comm:
  "length r1 = length r2 \<Longrightarrow> hll_merge_registers r1 r2 = hll_merge_registers r2 r1"
  by (simp add: list_eq_iff_nth_eq hll_merge_registers_nth max.commute)

lemma hll_merge_registers_assoc:
  assumes "length r1 = length r2" "length r2 = length r3"
  shows "hll_merge_registers (hll_merge_registers r1 r2) r3
       = hll_merge_registers r1 (hll_merge_registers r2 r3)"
  using assms by (simp add: list_eq_iff_nth_eq hll_merge_registers_nth max.assoc)

lemma hll_merge_registers_idem: "hll_merge_registers r r = r"
  by (simp add: list_eq_iff_nth_eq hll_merge_registers_nth)

lemma hll_merge_registers_zero: "hll_merge_registers r (replicate (length r) 0) = r"
  by (simp add: list_eq_iff_nth_eq hll_merge_registers_nth)

lemma set_hll_merge_registers: "set (hll_merge_registers r1 r2) \<subseteq> set r1 \<union> set r2"
proof
  fix x assume "x \<in> set (hll_merge_registers r1 r2)"
  then obtain l r where lr: "(l, r) \<in> set (zip r1 r2)" and x: "x = max l r"
    by (auto simp: hll_merge_registers_def)
  have "l \<in> set r1" "r \<in> set r2" using lr by (rule set_zip_leftD, rule set_zip_rightD)
  then show "x \<in> set r1 \<union> set r2" by (simp add: x max_def)
qed

lemma hll_merge_inv:
  assumes "hll_inv s" "hll_inv t" "hll_merge s t = Inr u"
  shows "hll_inv u"
proof -
  let ?r = "hll_merge_registers (hll_registers s) (hll_registers t)"
  from assms have u: "u = s\<lparr>hll_registers := ?r\<rparr>" and p: "hll_p s = hll_p t"
    by (auto simp: hll_merge_def raise_if_eq_Inr)
  have len: "length (hll_registers s) = length (hll_registers t)"
    using assms(1,2) p by (simp add: hll_inv_def)
  have "\<forall>r \<in> set ?r. r \<le> 64 - hll_p s + 1"
    using set_hll_merge_registers assms(1,2) p by (fastforce simp: hll_inv_def)
  then show ?thesis using assms(1) len by (simp add: hll_inv_def u)
qed

lemma hll_merge_add:
  assumes "hll_inv s" "hll_inv t" "hll_reset s = hll_reset t" "hll_add v t = Inr t'"
  shows "hll_merge s t' = rbind (hll_merge s t) (hll_add v)"
proof -
  have p: "hll_p s = hll_p t" using hll_reset_eqD [OF assms(3)] by simp
  obtain h where h: "hll_hash v = Inr h" using assms(4) by (auto simp: hll_add_def rbind_eq_Inr)
  let ?i = "hll_index (hll_p t) h" and ?k = "hll_rank (hll_p t) h"
  let ?u = "s\<lparr>hll_registers := hll_merge_registers (hll_registers s) (hll_registers t)\<rparr>"
  have t': "t' = t\<lparr>hll_registers := (hll_registers t)[?i := max (hll_registers t ! ?i) ?k]\<rparr>"
    using assms(2,4) h by (simp add: hll_add_max Let_def)
  have i: "?i < 2 ^ hll_p t" using hll_index_bound [of "hll_p t" h] assms(2) by (simp add: hll_inv_def)
  have len: "length (hll_registers s) = 2 ^ hll_p t" "length (hll_registers t) = 2 ^ hll_p t"
    using assms(1,2) p by (simp_all add: hll_inv_def)
  have u: "hll_merge s t = Inr ?u" by (simp add: hll_merge_def p)
  have "hll_inv ?u" using hll_merge_inv [OF assms(1,2) u] .
  then have "hll_add v ?u = Inr (?u\<lparr>hll_registers := (hll_registers ?u)[?i := max (hll_registers ?u ! ?i) ?k]\<rparr>)"
    using h p by (simp add: hll_add_max Let_def)
  moreover have "hll_merge_registers (hll_registers s) ((hll_registers t)[?i := max (hll_registers t ! ?i) ?k])
      = (hll_registers ?u)[?i := max (hll_registers ?u ! ?i) ?k]"
    using i len by (auto simp: list_eq_iff_nth_eq hll_merge_registers_nth nth_list_update max.assoc)
  ultimately show ?thesis by (simp add: u) (simp add: hll_merge_def t' p)
qed

interpretation hll: mergeable_sketch hll_add hll_merge hll_reset hll_inv
proof
  show "hll_inv s \<Longrightarrow> hll_inv (hll_reset s)" for s by (rule hll_reset_inv)
  show "hll_inv s \<Longrightarrow> hll_add x s = Inr t \<Longrightarrow> hll_inv t" for s x t by (rule hll_add_inv)
  show "hll_inv s \<Longrightarrow> hll_inv t \<Longrightarrow> hll_merge s t = Inr u \<Longrightarrow> hll_inv u" for s t u
    by (rule hll_merge_inv)
  show "hll_reset (hll_reset s) = hll_reset s" for s by (simp add: hll_reset_def)
  show "hll_inv s \<Longrightarrow> hll_add x s = Inr t \<Longrightarrow> hll_reset t = hll_reset s" for s x t
    by (auto simp: hll_add_def rbind_eq_Inr Let_def hll_reset_def split: if_splits)
  show "hll_inv s \<Longrightarrow> hll_inv t \<Longrightarrow> hll_merge s t = Inr u \<Longrightarrow> hll_reset u = hll_reset s" for s t u
    by (auto simp: hll_merge_def raise_if_eq_Inr hll_reset_def)
  show "hll_inv s \<Longrightarrow> hll_merge s (hll_reset s) = Inr s" for s
    using hll_merge_registers_zero [of "hll_registers s"]
    by (simp add: hll_merge_def hll_reset_def hll_inv_def)
  show "hll_inv s \<Longrightarrow> hll_merge (hll_reset s) s = Inr s" for s
    using hll_merge_registers_zero [of "hll_registers s"]
      hll_merge_registers_comm [of "hll_registers s" "replicate (hll_m s) 0"]
    by (simp add: hll_merge_def hll_reset_def hll_inv_def)
  show "hll_inv s \<Longrightarrow> hll_inv t \<Longrightarrow> hll_reset s = hll_reset t \<Longrightarrow> hll_add x t = Inr t' \<Longrightarrow>
      res_eq (hll_merge s t') (rbind (hll_merge s t) (hll_add x))" for s t x t'
    by (simp add: hll_merge_add)
qed

section \<open>The set a sketch stands for\<close>

text \<open>
  The registers depend on the set of added items only: each holds the largest rank among the items
  that hash to it.
\<close>

definition hll_level :: "nat \<Rightarrow> event_key set \<Rightarrow> nat \<Rightarrow> nat" where
  "hll_level p vs i =
    Max (insert 0 {hll_rank p h |h. \<exists>v \<in> vs. hll_hash v = Inr h \<and> hll_index p h = i})"

lemma hll_level_finite: "finite vs \<Longrightarrow>
    finite {hll_rank p h |h. \<exists>v \<in> vs. hll_hash v = Inr h \<and> hll_index p h = i}"
proof -
  assume "finite vs"
  then have "finite ((\<lambda>v. case hll_hash v of Inr h \<Rightarrow> hll_rank p h | Inl _ \<Rightarrow> 0) ` vs)" by simp
  then show ?thesis by (rule rev_finite_subset) (force split: sum.splits)
qed

lemma hll_level_empty [simp]: "hll_level p {} i = 0"
  by (simp add: hll_level_def)

lemma hll_level_insert:
  assumes "finite vs" "hll_hash v = Inr h"
  shows "hll_level p (insert v vs) i =
    (if hll_index p h = i then max (hll_rank p h) (hll_level p vs i) else hll_level p vs i)"
proof -
  let ?S = "\<lambda>vs. {hll_rank p h |h. \<exists>v \<in> vs. hll_hash v = Inr h \<and> hll_index p h = i}"
  have "?S (insert v vs) = (if hll_index p h = i then insert (hll_rank p h) (?S vs) else ?S vs)"
    using assms(2) by auto
  then show ?thesis
    using hll_level_finite [OF assms(1)] by (simp add: hll_level_def insert_commute [of 0])
qed

lemma hll_ingest_level:
  assumes "hll_inv s" "rfold hll_add xs s = Inr t" "i < hll_m s"
  shows "hll_registers t ! i = max (hll_registers s ! i) (hll_level (hll_p s) (set xs) i)"
  using assms
proof (induction xs arbitrary: s)
  case Nil
  then show ?case by simp
next
  case (Cons x xs)
  then obtain u where u: "hll_add x s = Inr u" and t: "rfold hll_add xs u = Inr t"
    by (auto simp: rbind_eq_Inr)
  then obtain h where h: "hll_hash x = Inr h" by (auto simp: hll_add_def rbind_eq_Inr)
  note inv = hll_add_inv [OF Cons.prems(1) u]
  have IH: "hll_registers t ! i = max (hll_registers u ! i) (hll_level (hll_p s) (set xs) i)"
    using Cons.IH [OF inv(1) t] Cons.prems(3) inv by simp
  have "hll_registers u = (hll_registers s)[hll_index (hll_p s) h :=
      max (hll_registers s ! hll_index (hll_p s) h) (hll_rank (hll_p s) h)]"
    using u h Cons.prems(1) by (auto simp: hll_add_max Let_def)
  moreover have "length (hll_registers s) = hll_m s" using Cons.prems(1) by (simp add: hll_inv_def)
  ultimately show ?case
    using IH Cons.prems(3) by (simp add: hll_level_insert [OF _ h] nth_list_update max.assoc)
qed

lemma hll_ingest_ok:
  "hll_inv s \<Longrightarrow> is_ok (rfold hll_add xs s) \<longleftrightarrow> (\<forall>v \<in> set xs. is_ok (hll_hash v))"
proof (induction xs arbitrary: s)
  case (Cons x xs)
  show ?case
  proof (cases "hll_hash x")
    case (Inr h)
    then obtain u where u: "hll_add x s = Inr u" using Cons.prems by (simp add: hll_add_max Let_def)
    show ?thesis using Cons.IH [OF hll_add_inv(1) [OF Cons.prems u]] Inr by (simp add: u)
  qed (simp add: hll_add_def)
qed simp

lemma hll_ingest_frame:
  assumes "hll_inv s" "rfold hll_add xs s = Inr t"
  shows "hll_inv t \<and> t = s\<lparr>hll_registers := hll_registers t\<rparr>"
proof -
  note t = hll.inv_ingest [OF assms(2,1)]
  then show ?thesis using hll_reset_eqD [of t s] by simp
qed

lemma hll_ingest_length:
  assumes "hll_inv s" "rfold hll_add xs s = Inr t"
  shows "length (hll_registers t) = hll_m s"
proof -
  note t = hll.inv_ingest [OF assms(2,1)]
  then show ?thesis using hll_reset_eqD [of t s] assms(1) by (simp add: hll_inv_def)
qed

text \<open>Order and repetition of the additions do not matter.\<close>

lemma hll_ingest_set:
  assumes "hll_inv s" "set xs = set ys"
  shows "res_eq (rfold hll_add xs s) (rfold hll_add ys s)"
proof -
  have half: "rfold hll_add ys s = Inr t" if "rfold hll_add xs s = Inr t" "set xs = set ys" for xs ys t
  proof -
    have "is_ok (rfold hll_add ys s)"
      using that hll_ingest_ok [OF assms(1), of xs] hll_ingest_ok [OF assms(1), of ys] by simp
    then obtain u where u: "rfold hll_add ys s = Inr u" by (auto simp: is_ok_iff)
    note tu = hll_ingest_frame [OF assms(1) that(1)] hll_ingest_frame [OF assms(1) u]
    have "hll_registers t ! i = hll_registers u ! i" if "i < hll_m s" for i
      using hll_ingest_level [OF assms(1) _ that] \<open>rfold hll_add xs s = Inr t\<close> u \<open>set xs = set ys\<close>
      by simp
    moreover have "length (hll_registers t) = hll_m s" "length (hll_registers u) = hll_m s"
      using hll_ingest_length [OF assms(1)] \<open>rfold hll_add xs s = Inr t\<close> u by auto
    ultimately have "hll_registers t = hll_registers u" by (simp add: list_eq_iff_nth_eq)
    then have "t = u" using tu by metis
    then show ?thesis using u by simp
  qed
  show ?thesis
    using half [of xs _ ys] half [of ys _ xs] assms(2) by (intro res_eqI iffI) simp_all
qed

lemma hll_init_fresh: "hll_init p = Inr s \<Longrightarrow> hll_reset s = s \<and> int (hll_p s) = p"
  by (auto simp: hll_init_def hll_reset_def Let_def raise_if_eq_Inr rbind_eq_Inr)

section \<open>Properties\<close>

text \<open>
  C40: The cardinality sketch depends only on the set of the added values.  Two streams with the
  same values, in any order and with any repetitions, are both accepted or both rejected by a new
  sketch, and leave it in the same state.
\<close>

theorem hll_set_semantics:
  assumes "hll_init p = Inr e" and "set xs = set ys"
  shows "res_eq (rfold hll_add xs e) (rfold hll_add ys e)"
  using hll_init_inv [OF assms(1)] assms(2) by (rule hll_ingest_set)

theorem hll_set_semantics_witness:
  "\<exists>e. hll_init 4 = Inr e \<and>
    res_eq (rfold hll_add [KInt 1, KStr ''a'', KInt 1] e) (rfold hll_add [KStr ''a'', KInt 1] e)"
proof -
  obtain e where e: "hll_init 4 = Inr e" by (auto simp: hll_init_def hll_alpha_of_def Let_def)
  with hll_set_semantics [OF e, of "[KInt 1, KStr ''a'', KInt 1]" "[KStr ''a'', KInt 1]"]
  show ?thesis by auto
qed

text \<open>
  Merging the sketches of two streams always succeeds, in either direction, and gives the sketch
  of the concatenated stream.
\<close>

lemma hll_merge_is_union:
  assumes e: "hll_init p = Inr e" and s: "rfold hll_add xs e = Inr s" and t: "rfold hll_add ys e = Inr t"
  shows "\<exists>u. rfold hll_add (xs @ ys) e = Inr u \<and> hll_merge s t = Inr u \<and> hll_merge t s = Inr u"
proof -
  note inv = hll_init_inv [OF e]
  have fresh: "hll_reset e = e" using hll_init_fresh [OF e] by simp
  have "is_ok (rfold hll_add (xs @ ys) e)"
    using hll_ingest_ok [OF inv] s t by (metis UnE is_ok_iff set_append)
  then obtain u where u: "rfold hll_add (xs @ ys) e = Inr u" by (auto simp: is_ok_iff)
  then have u': "rfold hll_add (ys @ xs) e = Inr u"
    using hll_ingest_set [OF inv, of "xs @ ys" "ys @ xs"] by (auto simp: res_eq_def)
  show ?thesis
    using hll.merge_ingest [OF inv, of xs s ys t] hll.merge_ingest [OF inv, of ys t xs s] s t u u'
    by (auto simp: fresh res_eq_def)
qed

end
