(* ===== verification/CountMin.thy ===== *)
theory CountMin
  imports HyperLogLog
begin

unbundle bit_operations_syntax

text \<open>
  The frequency sketch (\<^verbatim>\<open>core/cms.py\<close>): splitmix64 seeds, one hashed column per row, checked
  64-bit counters, and the cell-wise addition of \<^verbatim>\<open>facade.py\<close> that merges two sketches.
\<close>

section \<open>The sketch\<close>

record cms =
  cms_width :: int
  cms_depth :: int
  cms_table :: "int list list"
  cms_total :: int
  cms_seeds :: "u64 list"

text \<open>The loop of \<^verbatim>\<open>__init__\<close> that derives one seed per row.\<close>

fun splitmix64 :: "nat \<Rightarrow> u64 \<Rightarrow> u64 list" where
  "splitmix64 0 state = []"
| "splitmix64 (Suc n) state0 =
    (let state = state0 + 0x9e3779b97f4a7c15;
         z1 = (state XOR drop_bit 30 state) * 0xbf58476d1ce4e5b9;
         z2 = (z1 XOR drop_bit 27 z1) * 0x94d049bb133111eb
     in (z2 XOR drop_bit 31 z2) # splitmix64 n state)"

definition cms_init :: "int \<Rightarrow> int \<Rightarrow> cms result" where
  "cms_init width depth =
    raise_if (width \<le> 0) (ValueError ''CountMinSketch width must be > 0'')
   (raise_if (depth \<le> 0) (ValueError ''CountMinSketch depth must be > 0'')
   (Inr \<lparr>cms_width = width, cms_depth = depth,
         cms_table = replicate (nat depth) (replicate (nat width) 0),
         cms_total = 0, cms_seeds = splitmix64 (nat depth) 42\<rparr>))"

definition cms_hash :: "u64 \<Rightarrow> u64 \<Rightarrow> u64" where
  "cms_hash key seed = murmur_finalizer (key XOR seed)"

text \<open>
  The key of an item: an integer is used as it is (the hash masks it to 64 bits), text and bytes
  are folded with FNV-1a, any other object fails when it is iterated.
\<close>

definition cms_key :: "event_key \<Rightarrow> u64 result" where
  "cms_key item = (case item of
     KInt n \<Rightarrow> Inr (word_of_int n)
   | KStr s \<Rightarrow> Inr (fnv1a (utf8 s))
   | KBytes bs \<Rightarrow> Inr (fnv1a bs)
   | KOther s \<Rightarrow> Inl (TypeError ''object is not iterable''))"

definition cms_col :: "int \<Rightarrow> u64 \<Rightarrow> u64 \<Rightarrow> nat" where
  "cms_col width key seed = unat (cms_hash key seed) mod nat width"

definition cms_columns :: "cms \<Rightarrow> u64 \<Rightarrow> nat list" where
  "cms_columns s key = map (cms_col (cms_width s) key) (cms_seeds s)"

definition row_add :: "int \<Rightarrow> int list \<Rightarrow> nat \<Rightarrow> int list" where
  "row_add count row col = row[col := row ! col + count]"

definition cms_add :: "event_key \<times> int \<Rightarrow> cms \<Rightarrow> cms result" where
  "cms_add ic s = (case ic of (item, count) \<Rightarrow>
    raise_if (count \<le> 0) (ValueError ''Event count must be strictly positive'')
   (raise_if (count > MAX_INT64) (OverflowError ''Event count exceeds int64 capacity'')
   (rbind (cms_key item) (\<lambda>key.
    raise_if (cms_total s > MAX_INT64 - count) (OverflowError ''CountMinSketch: total_count overflow'')
   (let columns = cms_columns s key in
    raise_if (list_ex (\<lambda>(row, col). row ! col > MAX_INT64 - count) (zip (cms_table s) columns))
      (OverflowError ''CountMinSketch: bucket counter overflow'')
      (Inr (s\<lparr>cms_table := map2 (row_add count) (cms_table s) columns,
              cms_total := cms_total s + count\<rparr>)))))))"

text \<open>The running minimum starts at infinity (\<open>None\<close>); converting infinity to an integer raises.\<close>

definition cms_min_step :: "int option \<Rightarrow> int \<Rightarrow> int option" where
  "cms_min_step r x = (case r of None \<Rightarrow> Some x | Some y \<Rightarrow> Some (min y x))"

definition cms_estimate :: "cms \<Rightarrow> event_key \<Rightarrow> int result" where
  "cms_estimate s item = rbind (cms_key item) (\<lambda>key.
     case foldl cms_min_step None (map2 (\<lambda>row col. row ! col) (cms_table s) (cms_columns s key)) of
       None \<Rightarrow> Inl (OverflowError ''cannot convert float infinity to integer'')
     | Some n \<Rightarrow> Inr n)"

definition cms_memory_bytes :: "cms \<Rightarrow> int" where
  "cms_memory_bytes s = 64 + cms_width s * cms_depth s * 8"

definition cms_reset :: "cms \<Rightarrow> cms" where
  "cms_reset s = s\<lparr>cms_table := replicate (nat (cms_depth s)) (replicate (nat (cms_width s)) 0),
                  cms_total := 0\<rparr>"

definition cms_merge_row :: "int list \<Rightarrow> int list \<Rightarrow> int list result" where
  "cms_merge_row r1 r2 = rmap (\<lambda>(left, right).
     raise_if (left > MAX_INT64 - right) (OverflowError ''CountMinSketch: bucket counter overflow'')
       (Inr (left + right))) (zip r1 r2)"

definition cms_merge_table :: "int list list \<Rightarrow> int list list \<Rightarrow> int list list result" where
  "cms_merge_table t1 t2 = rmap (\<lambda>(r1, r2). cms_merge_row r1 r2) (zip t1 t2)"

definition cms_merge :: "cms \<Rightarrow> cms \<Rightarrow> cms result" where
  "cms_merge s t =
    raise_if (cms_width s \<noteq> cms_width t \<or> cms_depth s \<noteq> cms_depth t)
      (ValueError ''Cannot merge: CMS dimensions mismatch'')
   (raise_if (cms_total s > MAX_INT64 - cms_total t)
      (OverflowError ''CountMinSketch: total_count overflow'')
   (rbind (cms_merge_table (cms_table s) (cms_table t)) (\<lambda>tab.
      Inr (s\<lparr>cms_table := tab, cms_total := cms_total s + cms_total t\<rparr>))))"

section \<open>Invariant\<close>

definition cms_inv :: "cms \<Rightarrow> bool" where
  "cms_inv s \<longleftrightarrow> 0 < cms_width s \<and> 0 < cms_depth s
     \<and> length (cms_table s) = nat (cms_depth s)
     \<and> (\<forall>row \<in> set (cms_table s). length row = nat (cms_width s)
          \<and> (\<forall>c \<in> set row. 0 \<le> c) \<and> sum_list row = cms_total s)
     \<and> cms_total s \<le> MAX_INT64
     \<and> cms_seeds s = splitmix64 (nat (cms_depth s)) 42"

lemma length_splitmix64 [simp]: "length (splitmix64 n x) = n"
  by (induction n arbitrary: x) (simp_all add: Let_def)

lemma sum_list_upd: "i < length xs \<Longrightarrow> sum_list (xs[i := y]) = sum_list xs - xs ! i + (y :: int)"
  by (induction xs arbitrary: i) (auto split: nat.splits)

lemma sum_list_map2_plus:
  "length xs = length ys \<Longrightarrow> sum_list (map2 (+) xs ys) = sum_list xs + (sum_list ys :: int)"
  by (induction xs ys rule: list_induct2) auto

lemma cell_le_sum: "c \<in> set xs \<Longrightarrow> \<forall>x \<in> set xs. 0 \<le> x \<Longrightarrow> c \<le> sum_list (xs :: int list)"
  by (rule member_le_sum_list) auto

lemma cms_col_bound: "0 < w \<Longrightarrow> cms_col w key seed < nat w"
  by (simp add: cms_col_def)

lemma cms_col_code [code]:
  "cms_col width key seed = (if width \<le> 0 then unat (cms_hash key seed)
     else nat (uint (cms_hash key seed) mod width))"
  by (simp add: cms_col_def nat_mod_distrib)

lemma cms_columns_bound: "0 < cms_width s \<Longrightarrow> c \<in> set (cms_columns s key) \<Longrightarrow> c < nat (cms_width s)"
  by (auto simp: cms_columns_def cms_col_bound)

lemma cms_inv_columns: "cms_inv s \<Longrightarrow> length (cms_columns s key) = length (cms_table s)"
  by (simp add: cms_inv_def cms_columns_def)

lemma cms_inv_cell:
  assumes "cms_inv s" "row \<in> set (cms_table s)" "c < nat (cms_width s)"
  shows "0 \<le> row ! c" "row ! c \<le> cms_total s"
proof -
  have "row ! c \<in> set row" using assms by (auto simp: cms_inv_def)
  then show "0 \<le> row ! c" "row ! c \<le> cms_total s"
    using assms(1,2) cell_le_sum [of "row ! c" row] by (auto simp: cms_inv_def)
qed

lemma cms_inv_total: "cms_inv s \<Longrightarrow> 0 \<le> cms_total s"
proof -
  assume s: "cms_inv s"
  then have "cms_table s \<noteq> []" "0 < nat (cms_width s)" by (auto simp: cms_inv_def)
  then show ?thesis using cms_inv_cell [OF s, of "hd (cms_table s)" 0] by fastforce
qed

text \<open>
  Under the invariant a cell never exceeds the total, so the bucket check of an addition cannot fire
  once the total check has passed.
\<close>

lemma cms_add_eq:
  assumes "cms_inv s"
  shows "cms_add (item, count) s =
    (if count \<le> 0 then Inl (ValueError ''Event count must be strictly positive'')
     else if count > MAX_INT64 then Inl (OverflowError ''Event count exceeds int64 capacity'')
     else rbind (cms_key item) (\<lambda>key.
       if cms_total s > MAX_INT64 - count
       then Inl (OverflowError ''CountMinSketch: total_count overflow'')
       else Inr (s\<lparr>cms_table := map2 (row_add count) (cms_table s) (cms_columns s key),
                   cms_total := cms_total s + count\<rparr>)))"
proof -
  have "\<not> list_ex (\<lambda>(row, col). row ! col > MAX_INT64 - count) (zip (cms_table s) (cms_columns s key))"
    if "\<not> cms_total s > MAX_INT64 - count" for key
  proof -
    have "\<not> row ! col > MAX_INT64 - count"
      if "(row, col) \<in> set (zip (cms_table s) (cms_columns s key))" for row col
      using cms_inv_cell(2) [OF assms set_zip_leftD [OF that]] \<open>\<not> cms_total s > MAX_INT64 - count\<close>
        cms_columns_bound [OF _ set_zip_rightD [OF that]] assms
      by (fastforce simp: cms_inv_def)
    then show ?thesis by (auto simp: list_ex_iff)
  qed
  then show ?thesis by (simp add: cms_add_def raise_if_def Let_def rbind_def split: sum.splits)
qed

lemma cms_add_inv:
  assumes "cms_inv s" "cms_add ic s = Inr t"
  shows "cms_inv t"
proof -
  obtain item count where ic: "ic = (item, count)" by (cases ic)
  from assms obtain key where key: "cms_key item = Inr key" and c: "0 < count"
    "cms_total s \<le> MAX_INT64 - count" and
    t: "t = s\<lparr>cms_table := map2 (row_add count) (cms_table s) (cms_columns s key),
              cms_total := cms_total s + count\<rparr>"
    by (auto simp: ic cms_add_eq rbind_eq_Inr split: if_splits)
  have "length r = nat (cms_width s) \<and> (\<forall>x \<in> set r. 0 \<le> x) \<and> sum_list r = cms_total s + count"
    if "r \<in> set (cms_table t)" for r
  proof -
    from that t obtain row col where rc: "(row, col) \<in> set (zip (cms_table s) (cms_columns s key))"
      and r: "r = row[col := row ! col + count]" by (auto simp: row_add_def)
    note row = set_zip_leftD [OF rc]
    have col: "col < nat (cms_width s)"
      using cms_columns_bound [OF _ set_zip_rightD [OF rc]] assms(1) by (simp add: cms_inv_def)
    have "0 \<le> row ! col + count" using cms_inv_cell(1) [OF assms(1) row col] c(1) by simp
    then show ?thesis
      using assms(1) row col
      by (auto simp: r cms_inv_def sum_list_upd dest!: set_update_subset_insert [THEN subsetD])
  qed
  then show ?thesis
    using assms(1) c by (simp add: cms_inv_def t cms_columns_def)
qed

lemma cms_init_inv: "cms_init w d = Inr s \<Longrightarrow> cms_inv s"
  by (auto simp: cms_init_def raise_if_eq_Inr cms_inv_def sum_list_replicate)

lemma cms_reset_inv: "cms_inv s \<Longrightarrow> cms_inv (cms_reset s)"
  by (auto simp: cms_inv_def cms_reset_def sum_list_replicate)

lemma cms_reset_eqD:
  "cms_reset s = cms_reset t \<Longrightarrow>
    cms_width s = cms_width t \<and> cms_depth s = cms_depth t \<and> cms_seeds s = cms_seeds t"
  by (cases s; cases t) (simp add: cms_reset_def)

section \<open>Merging\<close>

definition table_plus :: "int list list \<Rightarrow> int list list \<Rightarrow> int list list" where
  "table_plus = map2 (map2 (+))"

lemma cms_merge_row_eq:
  "cms_merge_row r1 r2 = Inr r \<longleftrightarrow>
    r = map2 (+) r1 r2 \<and> (\<forall>(x, y) \<in> set (zip r1 r2). x + y \<le> MAX_INT64)"
  unfolding cms_merge_row_def case_prod_unfold rmap_raise_if by (force simp: not_less)

lemma cms_merge_table_ok:
  assumes "\<forall>(r1, r2) \<in> set (zip t1 t2). \<forall>(x, y) \<in> set (zip r1 r2). x + y \<le> MAX_INT64"
  shows "cms_merge_table t1 t2 = Inr (table_plus t1 t2)"
  unfolding cms_merge_table_def table_plus_def using assms
  by (intro rmap_ok) (auto simp: cms_merge_row_eq)

lemma cms_merge_eq:
  assumes "cms_inv s" "cms_inv t" "cms_width s = cms_width t" "cms_depth s = cms_depth t"
  shows "cms_merge s t = (if cms_total s > MAX_INT64 - cms_total t
    then Inl (OverflowError ''CountMinSketch: total_count overflow'')
    else Inr (s\<lparr>cms_table := table_plus (cms_table s) (cms_table t),
                cms_total := cms_total s + cms_total t\<rparr>))"
proof -
  have "cms_merge_table (cms_table s) (cms_table t) = Inr (table_plus (cms_table s) (cms_table t))"
    if "\<not> cms_total s > MAX_INT64 - cms_total t"
  proof (intro cms_merge_table_ok ballI, clarify)
    fix r1 r2 x y
    assume r: "(r1, r2) \<in> set (zip (cms_table s) (cms_table t))" and xy: "(x, y) \<in> set (zip r1 r2)"
    have "x \<le> cms_total s" "y \<le> cms_total t"
      using assms(1,2) set_zip_leftD [OF r] set_zip_rightD [OF r]
        cell_le_sum [OF set_zip_leftD [OF xy]] cell_le_sum [OF set_zip_rightD [OF xy]]
      by (auto simp: cms_inv_def)
    with that show "x + y \<le> MAX_INT64" by linarith
  qed
  then show ?thesis using assms(3,4) by (simp add: cms_merge_def raise_if_def)
qed

lemma cms_merge_inv:
  assumes "cms_inv s" "cms_inv t" "cms_merge s t = Inr u"
  shows "cms_inv u" "cms_reset u = cms_reset s"
proof -
  have dim: "cms_width s = cms_width t" "cms_depth s = cms_depth t"
    using assms(3) by (auto simp: cms_merge_def raise_if_eq_Inr)
  from assms dim have u: "u = s\<lparr>cms_table := table_plus (cms_table s) (cms_table t),
      cms_total := cms_total s + cms_total t\<rparr>" and tot: "cms_total s + cms_total t \<le> MAX_INT64"
    by (auto simp: cms_merge_eq split: if_splits)
  have "length r = nat (cms_width s) \<and> (\<forall>x \<in> set r. 0 \<le> x) \<and> sum_list r = cms_total s + cms_total t"
    if r: "r \<in> set (table_plus (cms_table s) (cms_table t))" for r
  proof -
    from r obtain r1 r2 where rr: "(r1, r2) \<in> set (zip (cms_table s) (cms_table t))"
      and eq: "r = map2 (+) r1 r2" by (auto simp: table_plus_def)
    have r1: "length r1 = nat (cms_width s)" "\<forall>x \<in> set r1. 0 \<le> x" "sum_list r1 = cms_total s"
      using assms(1) set_zip_leftD [OF rr] by (auto simp: cms_inv_def)
    have r2: "length r2 = nat (cms_width s)" "\<forall>x \<in> set r2. 0 \<le> x" "sum_list r2 = cms_total t"
      using assms(2) set_zip_rightD [OF rr] dim by (auto simp: cms_inv_def)
    have "0 \<le> x + y" if "(x, y) \<in> set (zip r1 r2)" for x y
      using r1(2) r2(2) set_zip_leftD [OF that] set_zip_rightD [OF that] by simp
    then have "\<forall>x \<in> set r. 0 \<le> x" by (auto simp: eq)
    then show ?thesis using r1 r2 by (simp add: eq sum_list_map2_plus)
  qed
  then show "cms_inv u"
    using assms(1,2) dim tot by (simp add: cms_inv_def u) (simp add: table_plus_def)
  show "cms_reset u = cms_reset s" by (simp add: u cms_reset_def)
qed

lemma table_plus_row_add:
  assumes "length S = length T" "length C = length T" "\<forall>c \<in> set C. c < w"
    "\<forall>r \<in> set S. length r = w" "\<forall>r \<in> set T. length r = w"
  shows "table_plus S (map2 (row_add n) T C) = map2 (row_add n) (table_plus S T) C"
proof (rule nth_equalityI)
  show "length (table_plus S (map2 (row_add n) T C)) = length (map2 (row_add n) (table_plus S T) C)"
    using assms by (simp add: table_plus_def)
  fix i assume "i < length (table_plus S (map2 (row_add n) T C))"
  then have i: "i < length T" using assms by (simp add: table_plus_def)
  then have "length (S ! i) = w" "length (T ! i) = w" "C ! i < w" using assms by auto
  then have "map2 (+) (S ! i) (row_add n (T ! i) (C ! i)) = row_add n (map2 (+) (S ! i) (T ! i)) (C ! i)"
    by (auto simp: row_add_def list_eq_iff_nth_eq nth_list_update)
  then show "table_plus S (map2 (row_add n) T C) ! i = map2 (row_add n) (table_plus S T) C ! i"
    using i assms by (simp add: table_plus_def)
qed

lemma cms_merge_add:
  assumes "cms_inv s" "cms_inv t" "cms_reset s = cms_reset t" "cms_add ic t = Inr t'"
  shows "res_eq (cms_merge s t') (rbind (cms_merge s t) (cms_add ic))"
proof -
  obtain item n where ic: "ic = (item, n)" by (cases ic)
  note cfg = cms_reset_eqD [OF assms(3)]
  from assms(2,4) obtain key where key: "cms_key item = Inr key" and n: "0 < n" "n \<le> MAX_INT64"
    "cms_total t \<le> MAX_INT64 - n" and
    t': "t' = t\<lparr>cms_table := map2 (row_add n) (cms_table t) (cms_columns t key),
               cms_total := cms_total t + n\<rparr>"
    by (auto simp: ic cms_add_eq rbind_eq_Inr split: if_splits)
  have cols: "cms_columns s key = cms_columns t key" using cfg by (simp add: cms_columns_def)
  have inv': "cms_inv t'" using assms(2,4) by (rule cms_add_inv)
  have dim': "cms_width s = cms_width t'" "cms_depth s = cms_depth t'" using cfg by (simp_all add: t')
  have tab: "table_plus (cms_table s) (cms_table t')
      = map2 (row_add n) (table_plus (cms_table s) (cms_table t)) (cms_columns t key)"
    unfolding t' using assms(1,2) cfg cms_inv_columns [OF assms(2), of key]
    by (simp, intro table_plus_row_add [where w = "nat (cms_width t)"])
       (auto simp: cms_inv_def cms_columns_bound)
  show ?thesis
  proof (cases "cms_total s > MAX_INT64 - cms_total t")
    case True
    then show ?thesis
      using n by (simp add: cms_merge_eq assms(1,2) cfg cms_merge_eq [OF assms(1) inv' dim'] res_eq_def)
        (simp add: t')
  next
    case False
    let ?u = "s\<lparr>cms_table := table_plus (cms_table s) (cms_table t), cms_total := cms_total s + cms_total t\<rparr>"
    have u: "cms_merge s t = Inr ?u" using False assms(1,2) cfg by (simp add: cms_merge_eq)
    have "cms_inv ?u" using assms(1,2) u by (rule cms_merge_inv)
    moreover have "cms_columns ?u key = cms_columns t key" using cols by (simp add: cms_columns_def)
    ultimately show ?thesis
      using n key tab
      by (simp add: u ic cms_add_eq cms_merge_eq [OF assms(1) inv' dim'] res_eq_def)
        (simp add: t' algebra_simps)
  qed
qed

lemma cms_add_reset: "cms_inv s \<Longrightarrow> cms_add x s = Inr t \<Longrightarrow> cms_reset t = cms_reset s"
  by (auto simp: cms_add_def raise_if_eq_Inr rbind_eq_Inr Let_def cms_reset_def split: prod.splits)

lemma cms_add_total: "cms_add x s = Inr t \<Longrightarrow> cms_total t = cms_total s + snd x"
  by (auto simp: cms_add_def raise_if_eq_Inr rbind_eq_Inr Let_def split: prod.splits)

lemma table_plus_zero:
  assumes "\<forall>r \<in> set T. length r = w" "length T = d"
  shows "table_plus T (replicate d (replicate w 0)) = T" "table_plus (replicate d (replicate w 0)) T = T"
  using assms by (auto simp: table_plus_def list_eq_iff_nth_eq)

interpretation cms: mergeable_sketch cms_add cms_merge cms_reset cms_inv
proof
  show "cms_inv s \<Longrightarrow> cms_inv (cms_reset s)" for s by (rule cms_reset_inv)
  show "cms_inv s \<Longrightarrow> cms_add x s = Inr t \<Longrightarrow> cms_inv t" for s x t by (rule cms_add_inv)
  show "cms_inv s \<Longrightarrow> cms_inv t \<Longrightarrow> cms_merge s t = Inr u \<Longrightarrow> cms_inv u" for s t u
    by (rule cms_merge_inv)
  show "cms_reset (cms_reset s) = cms_reset s" for s by (simp add: cms_reset_def)
  show "cms_inv s \<Longrightarrow> cms_add x s = Inr t \<Longrightarrow> cms_reset t = cms_reset s" for s x t
    by (rule cms_add_reset)
  show "cms_inv s \<Longrightarrow> cms_inv t \<Longrightarrow> cms_merge s t = Inr u \<Longrightarrow> cms_reset u = cms_reset s" for s t u
    by (rule cms_merge_inv)
  show "cms_merge s (cms_reset s) = Inr s" if s: "cms_inv s" for s
    using s by (subst cms_merge_eq [OF s cms_reset_inv [OF s]])
      (auto simp: cms_reset_def cms_inv_def table_plus_zero)
  show "cms_merge (cms_reset s) s = Inr s" if s: "cms_inv s" for s
    using s by (subst cms_merge_eq [OF cms_reset_inv [OF s] s])
      (auto simp: cms_reset_def cms_inv_def table_plus_zero)
  show "cms_inv s \<Longrightarrow> cms_inv t \<Longrightarrow> cms_reset s = cms_reset t \<Longrightarrow> cms_add x t = Inr t' \<Longrightarrow>
      res_eq (cms_merge s t') (rbind (cms_merge s t) (cms_add x))" for s t x t'
    by (rule cms_merge_add)
qed

lemma cms_init_fresh:
  "cms_init w d = Inr s \<Longrightarrow> cms_reset s = s \<and> cms_total s = 0 \<and> cms_width s = w \<and> cms_depth s = d"
  by (auto simp: cms_init_def cms_reset_def raise_if_eq_Inr)

section \<open>Frequencies\<close>

text \<open>The number of occurrences of a key in a stream of additions, and of all keys of a column.\<close>

definition ops_sum :: "(u64 \<Rightarrow> bool) \<Rightarrow> (event_key \<times> int) list \<Rightarrow> int" where
  "ops_sum P ops = sum_list (map (\<lambda>(item, n). case cms_key item of Inl _ \<Rightarrow> 0 | Inr k \<Rightarrow> if P k then n else 0) ops)"

definition cms_true_count :: "event_key \<Rightarrow> (event_key \<times> int) list \<Rightarrow> int" where
  "cms_true_count item ops =
    (case cms_key item of Inl _ \<Rightarrow> 0 | Inr k \<Rightarrow> ops_sum (\<lambda>k'. k' = k) ops)"

lemma ops_sum_mono:
  assumes "\<forall>(item, n) \<in> set ops. 0 \<le> n" "\<And>k. P k \<Longrightarrow> Q k"
  shows "ops_sum P ops \<le> ops_sum Q ops"
  unfolding ops_sum_def using assms
  by (intro sum_list_mono) (force split: sum.splits)

lemma cms_ingest_cell:
  assumes "cms_inv s" "rfold cms_add ops s = Inr t" "i < length (cms_table s)" "c < nat (cms_width s)"
  shows "cms_table t ! i ! c = cms_table s ! i ! c
    + ops_sum (\<lambda>k. cms_col (cms_width s) k (cms_seeds s ! i) = c) ops"
  using assms
proof (induction ops arbitrary: s)
  case Nil
  then show ?case by (simp add: ops_sum_def)
next
  case (Cons x ops)
  obtain item n where x: "x = (item, n)" by (cases x)
  from Cons.prems obtain u where u: "cms_add (item, n) s = Inr u" and t: "rfold cms_add ops u = Inr t"
    by (auto simp: rbind_eq_Inr x)
  from u Cons.prems(1) obtain key where key: "cms_key item = Inr key" and
    ueq: "u = s\<lparr>cms_table := map2 (row_add n) (cms_table s) (cms_columns s key),
               cms_total := cms_total s + n\<rparr>"
    by (auto simp: cms_add_eq rbind_eq_Inr split: if_splits)
  have len: "length (cms_columns s key) = length (cms_table s)" using Cons.prems(1) by (rule cms_inv_columns)
  have "cms_columns s key ! i = cms_col (cms_width s) key (cms_seeds s ! i)"
    using len Cons.prems(3) by (simp add: cms_columns_def)
  moreover have "length (cms_table s ! i) = nat (cms_width s)"
    using Cons.prems(1,3) by (simp add: cms_inv_def)
  ultimately have "cms_table u ! i ! c = cms_table s ! i ! c
      + (if cms_col (cms_width s) key (cms_seeds s ! i) = c then n else 0)"
    using Cons.prems(3,4) len by (simp add: ueq row_add_def nth_list_update)
  moreover have "cms_table t ! i ! c = cms_table u ! i ! c
      + ops_sum (\<lambda>k. cms_col (cms_width s) k (cms_seeds s ! i) = c) ops"
    using Cons.IH [OF cms_add_inv [OF Cons.prems(1) u] t] Cons.prems(3,4) len by (simp add: ueq)
  ultimately show ?case by (simp add: ops_sum_def x key)
qed

lemma cms_ops_positive:
  "rfold cms_add ops s = Inr t \<Longrightarrow> \<forall>(item, n) \<in> set ops. 0 \<le> n"
  by (induction ops arbitrary: s) (auto simp: rbind_eq_Inr cms_add_def raise_if_eq_Inr)

lemma cms_min_foldl:
  "foldl cms_min_step (Some a) xs = Some (Min (insert a (set xs)))"
proof (induction xs arbitrary: a)
  case (Cons x xs)
  have "Min (insert a (insert x (set xs))) = Min (insert (min a x) (set xs))"
    by (cases "xs = []") (simp_all add: Min_insert min.assoc)
  with Cons show ?case by (simp add: cms_min_step_def)
qed (simp add: cms_min_step_def)

text \<open>The estimate of a sketch with at least one row is the smallest of the addressed cells.\<close>

lemma cms_estimate_Min:
  assumes "cms_inv s" "cms_key item = Inr key"
  shows "cms_estimate s item = Inr (Min ((\<lambda>i. cms_table s ! i ! cms_col (cms_width s) key (cms_seeds s ! i))
    ` {..<length (cms_table s)}))"
proof -
  let ?xs = "map2 (\<lambda>row col. row ! col) (cms_table s) (cms_columns s key)"
  have ne: "cms_table s \<noteq> []" using assms(1) by (auto simp: cms_inv_def)
  have len: "length (cms_columns s key) = length (cms_table s)" using assms(1) by (rule cms_inv_columns)
  with ne have "?xs \<noteq> []" by auto
  then obtain y ys where ys: "?xs = y # ys" by (cases ?xs) auto
  then have "foldl cms_min_step None ?xs = Some (Min (set ?xs))"
    by (simp add: cms_min_foldl) (simp add: cms_min_step_def cms_min_foldl)
  moreover have "?xs = map (\<lambda>i. cms_table s ! i ! cms_col (cms_width s) key (cms_seeds s ! i))
      [0..<length (cms_table s)]"
    using len by (intro nth_equalityI) (simp_all add: cms_columns_def)
  then have "set ?xs = (\<lambda>i. cms_table s ! i ! cms_col (cms_width s) key (cms_seeds s ! i))
      ` {..<length (cms_table s)}"
    by (simp only: set_map set_upt atLeast0LessThan)
  ultimately show ?thesis by (simp add: cms_estimate_def assms(2))
qed

text \<open>The estimate of an ingested stream is never below the true count and never above the total.\<close>

lemma cms_estimate_bounds:
  assumes inv: "cms_inv e" and t: "rfold cms_add ops (cms_reset e) = Inr t" and key: "cms_key item = Inr key"
  shows "\<exists>n. cms_estimate t item = Inr n \<and> cms_true_count item ops \<le> n \<and> n \<le> cms_total t"
proof -
  have it: "cms_inv t" and cfg: "cms_reset t = cms_reset (cms_reset e)"
    using cms.inv_ingest [OF t] cms_reset_inv [OF inv] by auto
  note eq = cms_reset_eqD [OF cfg]
  let ?d = "length (cms_table t)"
  let ?f = "\<lambda>i. cms_table t ! i ! cms_col (cms_width t) key (cms_seeds t ! i)"
  have d: "?d = length (cms_table (cms_reset e))" "0 < ?d"
    using it cms_reset_inv [OF inv] eq by (auto simp: cms_inv_def)
  have pos: "\<forall>(item, n) \<in> set ops. 0 \<le> n"
    using t by (rule cms_ops_positive)
  have lower: "cms_true_count item ops \<le> ?f i" if "i < ?d" for i
  proof -
    let ?c = "cms_col (cms_width t) key (cms_seeds t ! i)"
    have c: "?c < nat (cms_width t)" using it by (simp add: cms_inv_def cms_col_bound)
    have "?f i = ops_sum (\<lambda>k. cms_col (cms_width t) k (cms_seeds t ! i) = ?c) ops"
      using cms_ingest_cell [OF cms_reset_inv [OF inv] t, of i ?c] that d c eq
      by (simp add: cms_reset_def)
    moreover have "cms_true_count item ops \<le> \<dots>"
      unfolding cms_true_count_def key by (simp, rule ops_sum_mono [OF pos]) simp
    ultimately show ?thesis by simp
  qed
  have upper: "?f i \<le> cms_total t" if "i < ?d" for i
    using cms_inv_cell(2) [OF it nth_mem [OF that]] it by (simp add: cms_inv_def cms_col_bound)
  have "cms_true_count item ops \<le> Min (?f ` {..<?d})" using lower d by (subst Min_ge_iff) auto
  moreover have "Min (?f ` {..<?d}) \<le> cms_total t"
    using upper [of 0] d Min_le [of "?f ` {..<?d}" "?f 0"] by fastforce
  ultimately show ?thesis using cms_estimate_Min [OF it key] by simp
qed

text \<open>A stream of positive counts for usable keys is accepted when its total fits.\<close>

lemma cms_ingest_ok:
  assumes "cms_inv s" "\<forall>(item, n) \<in> set ops. 0 < n \<and> is_ok (cms_key item)"
    "cms_total s + sum_list (map snd ops) \<le> MAX_INT64"
  shows "is_ok (rfold cms_add ops s)"
  using assms
proof (induction ops arbitrary: s)
  case (Cons x ops)
  obtain item n where x: "x = (item, n)" by (cases x)
  have "\<forall>m \<in> set (map snd ops). 0 \<le> m" using Cons.prems(2) by fastforce
  then have "0 \<le> sum_list (map snd ops)" by (intro sum_list_nonneg) blast
  moreover obtain key where "cms_key item = Inr key" using Cons.prems(2) by (auto simp: x is_ok_iff)
  ultimately obtain u where u: "cms_add x s = Inr u"
    using Cons.prems cms_inv_total [OF Cons.prems(1)] by (simp add: x cms_add_eq)
  show ?case
    using Cons.IH [OF cms_add_inv [OF Cons.prems(1) u]] Cons.prems cms_add_total [OF u] u by (simp add: x)
qed simp

section \<open>Properties\<close>

text \<open>
  C39: After any accepted stream of additions, the frequency estimate of a key is returned, is never
  below the number of its occurrences and never above the total count.
\<close>

theorem cms_estimate_sound:
  assumes e: "cms_init w d = Inr e" and t: "rfold cms_add ops e = Inr t" and key: "cms_key item = Inr key"
  shows "\<exists>n. cms_estimate t item = Inr n \<and> cms_true_count item ops \<le> n \<and> n \<le> cms_total t"
proof -
  have "cms_reset e = e" using cms_init_fresh [OF e] by simp
  with cms_estimate_bounds [OF cms_init_inv [OF e] _ key, of ops t] t show ?thesis by simp
qed

theorem cms_estimate_sound_witness:
  "\<exists>e t n. cms_init 4 2 = Inr e \<and> rfold cms_add [(KInt 7, 3), (KStr ''a'', 2), (KInt 7, 1)] e = Inr t \<and>
    cms_estimate t (KInt 7) = Inr n \<and> 4 \<le> n \<and> n \<le> cms_total t"
proof -
  obtain e where e: "cms_init 4 2 = Inr e" by (simp add: cms_init_def)
  have "is_ok (rfold cms_add [(KInt 7, 3), (KStr ''a'', 2), (KInt 7, 1)] e)"
    using cms_init_inv [OF e] e by (intro cms_ingest_ok) (auto simp: cms_key_def cms_init_def MAX_values)
  then obtain t where t: "rfold cms_add [(KInt 7, 3), (KStr ''a'', 2), (KInt 7, 1)] e = Inr t"
    unfolding is_ok_iff by blast
  have "cms_true_count (KInt 7) [(KInt 7, 3), (KStr ''a'', 2), (KInt 7, 1)] = 4" by code_simp
  with cms_estimate_sound [OF e t, of "KInt 7"] e t show ?thesis by (auto simp: cms_key_def)
qed

text \<open>
  Every counter of a reachable frequency sketch is bounded by the total, so the bucket overflow
  check of an addition never fires: an addition with a positive count fails only for an unusable key
  or when the total would pass the signed 64-bit range.
\<close>

lemma cms_add_fails_only_on_total:
  assumes "cms_init w d = Inr e" and "rfold cms_add ops e = Inr s"
    and "0 < n" and "n \<le> MAX_INT64" and "cms_key item = Inr key"
  shows "is_ok (cms_add (item, n) s) \<longleftrightarrow> cms_total s + n \<le> MAX_INT64"
proof -
  have "cms_inv s" using cms.inv_ingest [OF assms(2)] cms_init_inv [OF assms(1)] by simp
  then show ?thesis using assms(3-) by (simp add: cms_add_eq not_le)
qed

end
