(* ===== verification/DDSketch.thy ===== *)
theory DDSketch
  imports PyFloat
begin

text \<open>
  The quantile sketch (\<^verbatim>\<open>core/ddsketch.py\<close>): logarithmic buckets with checked 64-bit counts, the
  single and the bulk insertion, quantile and rank queries, and the bucket-wise addition of
  \<^verbatim>\<open>facade.py\<close> that merges two sketches.
\<close>

section \<open>The sketch\<close>

record ddsketch =
  dd_alpha :: pyfloat
  dd_gamma :: pyfloat
  dd_log_gamma :: pyfloat
  dd_multiplier :: pyfloat
  dd_positive :: "(int, int) dict"
  dd_negative :: "(int, int) dict"
  dd_zero_count :: int
  dd_count :: int
  dd_min :: pyfloat
  dd_max :: pyfloat

definition MAX_BINS :: nat where "MAX_BINS = 1024"

definition dd_gamma_of :: "pyfloat \<Rightarrow> pyfloat result" where
  "dd_gamma_of alpha = f_div (f_add (Fin 1) alpha) (f_sub (Fin 1) alpha)"

definition dd_init :: "libm \<Rightarrow> pyfloat \<Rightarrow> ddsketch result" where
  "dd_init L alpha =
    raise_if (\<not> (f_le (to_float (1 / 10 ^ 6)) alpha \<and> f_lt alpha (Fin 1)))
      (ValueError ''relative_accuracy must be in [1e-6, 1.0)'')
   (rbind (dd_gamma_of alpha) (\<lambda>gamma.
    rbind (py_log L gamma) (\<lambda>log_gamma.
    rbind (f_div (Fin 1) log_gamma) (\<lambda>multiplier.
    Inr \<lparr>dd_alpha = alpha, dd_gamma = gamma, dd_log_gamma = log_gamma, dd_multiplier = multiplier,
         dd_positive = [], dd_negative = [], dd_zero_count = 0, dd_count = 0,
         dd_min = PInf, dd_max = NInf\<rparr>))))"

definition dd_key :: "libm \<Rightarrow> ddsketch \<Rightarrow> pyfloat \<Rightarrow> int result" where
  "dd_key L s value = rbind (py_log L value) (\<lambda>l. f_ceil (f_mul l (dd_multiplier s)))"

text \<open>The handler of \<^verbatim>\<open>OverflowError\<close> returns the largest float.\<close>

definition dd_bucket_value :: "libm \<Rightarrow> ddsketch \<Rightarrow> int \<Rightarrow> pyfloat result" where
  "dd_bucket_value L s index =
    (case rbind (f_div (Fin 2) (f_add (Fin 1) (dd_gamma s))) (\<lambda>c.
          rbind (py_pow L (dd_gamma s) index) (\<lambda>p.
          let val = f_mul c p in Inr (if f_eq val (Fin 0) then Fin DBL_TRUE_MIN else val))) of
       Inl (OverflowError _) \<Rightarrow> Inr (Fin DBL_MAX)
     | r \<Rightarrow> r)"

definition dd_store_can_fit :: "(int, int) dict \<Rightarrow> int \<Rightarrow> bool" where
  "dd_store_can_fit store index \<longleftrightarrow> dict_mem index store \<or> length store < MAX_BINS"

text \<open>
  The bucket of a non-zero magnitude, with the accuracy check that both insertion routines make:
  the representative of the bucket must lie within the relative accuracy.
\<close>

definition dd_index :: "libm \<Rightarrow> ddsketch \<Rightarrow> pyfloat \<Rightarrow> int result" where
  "dd_index L s abs_v =
    rbind (dd_key L s abs_v) (\<lambda>idx.
    rbind (dd_bucket_value L s idx) (\<lambda>rep.
    rbind (f_div (f_abs (f_sub rep abs_v)) abs_v) (\<lambda>err.
    raise_if (f_lt (dd_alpha s) err)
      (ValueError ''Value magnitude too small to satisfy relative accuracy'') (Inr idx))))"

definition dd_add_check :: "libm \<Rightarrow> ddsketch \<Rightarrow> pyfloat \<Rightarrow> int \<Rightarrow> unit result" where
  "dd_add_check L s value count =
    (if \<not> f_eq value (Fin 0)
     then rbind (dd_index L s (f_abs value)) (\<lambda>idx.
       let store = (if f_lt (Fin 0) value then dd_positive s else dd_negative s) in
       raise_if (\<not> dd_store_can_fit store idx)
         (ValueError ''DDSketch occupied bucket count exceeds bounded store capacity'')
      (raise_if (dict_get store idx 0 > MAX_INT64 - count)
         (OverflowError ''DDSketch: bin count overflow'') (Inr ())))
     else raise_if (dd_zero_count s > MAX_INT64 - count)
         (OverflowError ''DDSketch: zero count overflow'') (Inr ()))"

definition dd_add_commit :: "libm \<Rightarrow> ddsketch \<Rightarrow> pyfloat \<Rightarrow> int \<Rightarrow> ddsketch result" where
  "dd_add_commit L s value count =
    (let s1 = s\<lparr>dd_count := dd_count s + count\<rparr>;
         s2 = (if f_lt value (dd_min s1) then s1\<lparr>dd_min := value\<rparr> else s1);
         s3 = (if f_lt (dd_max s2) value then s2\<lparr>dd_max := value\<rparr> else s2)
     in if f_lt (Fin 0) value
        then rbind (dd_key L s3 value) (\<lambda>idx.
          Inr (s3\<lparr>dd_positive := dict_incr idx count (dd_positive s3)\<rparr>))
        else if f_lt value (Fin 0)
        then rbind (dd_key L s3 (f_neg value)) (\<lambda>idx.
          Inr (s3\<lparr>dd_negative := dict_incr idx count (dd_negative s3)\<rparr>))
        else Inr (s3\<lparr>dd_zero_count := dd_zero_count s3 + count\<rparr>))"

definition dd_add :: "libm \<Rightarrow> pyfloat \<times> int \<Rightarrow> ddsketch \<Rightarrow> ddsketch result" where
  "dd_add L vc s = (case vc of (value, count) \<Rightarrow>
    (if f_isnan value \<or> f_isinf value then Inr s
     else if count \<le> 0 then Inr s
     else raise_if (count > MAX_INT64) (OverflowError ''DDSketch: count exceeds int64 capacity'')
         (raise_if (dd_count s > MAX_UINT64 - count) (OverflowError ''DDSketch: total count overflow'')
         (rbind (dd_add_check L s value count) (\<lambda>_. dd_add_commit L s value count)))))"

section \<open>Bulk insertion\<close>

record dd_batch =
  tmp_pos :: "(int, int) dict"
  tmp_neg :: "(int, int) dict"
  tmp_count :: int
  tmp_min :: pyfloat
  tmp_max :: pyfloat
  tmp_zero_count :: int

definition dd_batch_empty :: dd_batch where
  "dd_batch_empty = \<lparr>tmp_pos = [], tmp_neg = [], tmp_count = 0, tmp_min = PInf, tmp_max = NInf,
     tmp_zero_count = 0\<rparr>"

definition dd_batch_extrema :: "pyfloat \<Rightarrow> dd_batch \<Rightarrow> dd_batch" where
  "dd_batch_extrema v b =
    (let b1 = b\<lparr>tmp_count := tmp_count b + 1\<rparr>;
         b2 = (if f_lt v (tmp_min b1) then b1\<lparr>tmp_min := v\<rparr> else b1)
     in if f_lt (tmp_max b2) v then b2\<lparr>tmp_max := v\<rparr> else b2)"

text \<open>The body of the accumulation loop.\<close>

definition dd_batch_step :: "libm \<Rightarrow> ddsketch \<Rightarrow> pyfloat \<Rightarrow> dd_batch \<Rightarrow> dd_batch result" where
  "dd_batch_step L s v b =
    (if f_isnan v \<or> f_isinf v then Inr b
     else if f_eq v (Fin 0)
     then Inr (dd_batch_extrema v (b\<lparr>tmp_zero_count := tmp_zero_count b + 1\<rparr>))
     else rbind (dd_index L s (f_abs v)) (\<lambda>idx.
       Inr (dd_batch_extrema v
         (if f_lt (Fin 0) v then b\<lparr>tmp_pos := dict_incr idx 1 (tmp_pos b)\<rparr>
          else b\<lparr>tmp_neg := dict_incr idx 1 (tmp_neg b)\<rparr>))))"

definition dd_union_size :: "(int, int) dict \<Rightarrow> (int, int) dict \<Rightarrow> nat" where
  "dd_union_size d e = length (remdups (dict_keys d @ dict_keys e))"

definition dd_bins_overflow :: "(int, int) dict \<Rightarrow> (int, int) dict \<Rightarrow> bool" where
  "dd_bins_overflow store tmp \<longleftrightarrow> list_ex (\<lambda>(idx, count). dict_get store idx 0 > MAX_INT64 - count) tmp"

definition dd_batch_commit :: "ddsketch \<Rightarrow> dd_batch \<Rightarrow> ddsketch" where
  "dd_batch_commit s b =
    s\<lparr>dd_positive := dict_add_all (dd_positive s) (tmp_pos b),
      dd_negative := dict_add_all (dd_negative s) (tmp_neg b),
      dd_count := dd_count s + tmp_count b,
      dd_zero_count := dd_zero_count s + tmp_zero_count b,
      dd_min := (if f_lt (tmp_min b) (dd_min s) then tmp_min b else dd_min s),
      dd_max := (if f_lt (dd_max s) (tmp_max b) then tmp_max b else dd_max s)\<rparr>"

definition dd_add_batch :: "libm \<Rightarrow> pyfloat list \<Rightarrow> ddsketch \<Rightarrow> ddsketch result" where
  "dd_add_batch L values s =
    rbind (rfold (dd_batch_step L s) values dd_batch_empty) (\<lambda>b.
      if tmp_count b = 0 then Inr s
      else raise_if (dd_union_size (dd_positive s) (tmp_pos b) > MAX_BINS)
          (ValueError ''DDSketch occupied bucket count exceeds bounded store capacity'')
        (raise_if (dd_union_size (dd_negative s) (tmp_neg b) > MAX_BINS)
          (ValueError ''DDSketch occupied bucket count exceeds bounded store capacity'')
        (raise_if (dd_count s > MAX_UINT64 - tmp_count b)
          (OverflowError ''DDSketch: total count overflow'')
        (raise_if (dd_zero_count s > MAX_INT64 - tmp_zero_count b)
          (OverflowError ''DDSketch: zero count overflow'')
        (raise_if (dd_bins_overflow (dd_positive s) (tmp_pos b))
          (OverflowError ''DDSketch: bin count overflow'')
        (raise_if (dd_bins_overflow (dd_negative s) (tmp_neg b))
          (OverflowError ''DDSketch: bin count overflow'')
          (Inr (dd_batch_commit s b))))))))"

section \<open>Queries\<close>

text \<open>
  The walk over the sorted buckets: \<open>Inl\<close> is the bucket in which the rank ran out, \<open>Inr\<close> the rank
  left after all of them.
\<close>

fun dd_walk :: "(int, int) dict \<Rightarrow> int list \<Rightarrow> pyfloat \<Rightarrow> int + pyfloat" where
  "dd_walk store [] rank = Inr rank"
| "dd_walk store (idx # idxs) rank =
    (let rank' = f_sub rank (f_of_int (dict_get store idx 0)) in
     if f_le rank' (Fin 0) then Inl idx else dd_walk store idxs rank')"

definition dd_quantile :: "libm \<Rightarrow> ddsketch \<Rightarrow> pyfloat \<Rightarrow> pyfloat result" where
  "dd_quantile L s q =
    raise_if (f_isnan q \<or> f_isinf q) (ValueError ''Quantile must be in [0, 1]'')
    (if dd_count s = 0 then Inr (Fin 0)
     else if f_le q (Fin 0) then Inr (dd_min s)
     else if f_le (Fin 1) q then Inr (dd_max s)
     else let rank = f_mul q (f_of_int (dd_count s)) in
       case dd_walk (dd_negative s) (rev (sort (dict_keys (dd_negative s)))) rank of
         Inl idx \<Rightarrow> rbind (dd_bucket_value L s idx) (\<lambda>v. Inr (f_neg v))
       | Inr rank1 \<Rightarrow>
           (let rank2 = f_sub rank1 (f_of_int (dd_zero_count s)) in
            if f_le rank2 (Fin 0) then Inr (Fin 0)
            else case dd_walk (dd_positive s) (sort (dict_keys (dd_positive s))) rank2 of
                Inl idx \<Rightarrow> dd_bucket_value L s idx
              | Inr _ \<Rightarrow> Inr (dd_max s)))"

definition dd_sum_where :: "(int \<Rightarrow> bool) \<Rightarrow> (int, int) dict \<Rightarrow> int" where
  "dd_sum_where P d = sum_list (map snd (filter (\<lambda>(k, v). P k) d))"

definition dd_count_greater_than :: "libm \<Rightarrow> ddsketch \<Rightarrow> pyfloat \<Rightarrow> int result" where
  "dd_count_greater_than L s threshold =
    (if dd_count s = 0 then Inr 0
     else if f_le (dd_max s) threshold then Inr 0
     else if f_lt threshold (dd_min s) then Inr (dd_count s)
     else if f_lt threshold (Fin 0)
     then rbind (dd_key L s (f_neg threshold)) (\<lambda>idx.
       Inr (dd_sum_where (\<lambda>k. k \<le> idx) (dd_negative s) + dd_zero_count s + dict_sum (dd_positive s)))
     else if f_eq threshold (Fin 0) then Inr (dict_sum (dd_positive s))
     else rbind (dd_key L s threshold) (\<lambda>idx. Inr (dd_sum_where (\<lambda>k. k \<ge> idx) (dd_positive s))))"

definition dd_min_prop :: "ddsketch \<Rightarrow> pyfloat" where
  "dd_min_prop s = (if dd_count s > 0 then dd_min s else Fin 0)"

definition dd_max_prop :: "ddsketch \<Rightarrow> pyfloat" where
  "dd_max_prop s = (if dd_count s > 0 then dd_max s else Fin 0)"

definition dd_memory_bytes :: "ddsketch \<Rightarrow> int" where
  "dd_memory_bytes s = 64 + int (length (dd_positive s) + length (dd_negative s)) * 24"

definition dd_reset :: "ddsketch \<Rightarrow> ddsketch" where
  "dd_reset s = s\<lparr>dd_positive := [], dd_negative := [], dd_zero_count := 0, dd_count := 0,
                 dd_min := PInf, dd_max := NInf\<rparr>"

section \<open>Merging\<close>

definition dd_merge_bins :: "(int, int) dict \<Rightarrow> (int, int) dict \<Rightarrow> (int, int) dict result" where
  "dd_merge_bins mine theirs = rfold (\<lambda>(idx, count) new.
     raise_if (dict_get new idx 0 > MAX_INT64 - count) (OverflowError ''DDSketch: bin count overflow'')
       (Inr (dict_incr idx count new))) theirs mine"

definition dd_merge :: "ddsketch \<Rightarrow> ddsketch \<Rightarrow> ddsketch result" where
  "dd_merge s t =
    raise_if (\<not> f_eq (dd_alpha s) (dd_alpha t)) (ValueError ''Cannot merge: DDSketch alpha mismatch'')
   (raise_if (dd_count s > MAX_UINT64 - dd_count t) (OverflowError ''DDSketch: total count overflow'')
   (raise_if (dd_zero_count s > MAX_INT64 - dd_zero_count t) (OverflowError ''DDSketch: zero count overflow'')
   (rbind (dd_merge_bins (dd_positive s) (dd_positive t)) (\<lambda>new_positive.
    raise_if (length new_positive > MAX_BINS)
      (ValueError ''DDSketch occupied positive bucket count exceeds bounded capacity'')
   (rbind (dd_merge_bins (dd_negative s) (dd_negative t)) (\<lambda>new_negative.
    raise_if (length new_negative > MAX_BINS)
      (ValueError ''DDSketch occupied negative bucket count exceeds bounded capacity'')
   (Inr (s\<lparr>dd_positive := new_positive, dd_negative := new_negative,
           dd_zero_count := dd_zero_count s + dd_zero_count t,
           dd_count := dd_count s + dd_count t,
           dd_min := (if dd_count t > 0 then f_min (dd_min s) (dd_min t) else dd_min s),
           dd_max := (if dd_count t > 0 then f_max (dd_max s) (dd_max t) else dd_max s)\<rparr>))))))))"

end
