(* ===== verification/DDSketch_Laws.thy ===== *)
theory DDSketch_Laws
  imports DDSketch
begin

text \<open>
  The meaning of the quantile sketch's operations: closed forms for insertion, bulk insertion and
  merging, the invariant they keep, the equivalence of bulk and repeated insertion, and the
  contract of a mergeable sketch.
\<close>

section \<open>Closed forms\<close>

text \<open>The bucket index of a number that the sketch accepts, and acceptance itself.\<close>

definition dd_idx :: "libm \<Rightarrow> ddsketch \<Rightarrow> rat \<Rightarrow> int" where
  "dd_idx L s x = (case dd_key L s (Fin \<bar>x\<bar>) of Inr k \<Rightarrow> k | Inl _ \<Rightarrow> 0)"

definition dd_accepts :: "libm \<Rightarrow> ddsketch \<Rightarrow> rat \<Rightarrow> bool" where
  "dd_accepts L s x \<longleftrightarrow> x = 0 \<or> is_ok (dd_index L s (Fin \<bar>x\<bar>))"

definition dd_put :: "libm \<Rightarrow> rat \<Rightarrow> int \<Rightarrow> ddsketch \<Rightarrow> ddsketch" where
  "dd_put L x n s =
    s\<lparr>dd_positive := (if 0 < x then dict_incr (dd_idx L s x) n (dd_positive s) else dd_positive s),
      dd_negative := (if x < 0 then dict_incr (dd_idx L s x) n (dd_negative s) else dd_negative s),
      dd_zero_count := (if x = 0 then dd_zero_count s + n else dd_zero_count s),
      dd_count := dd_count s + n,
      dd_min := f_min (dd_min s) (Fin x), dd_max := f_max (dd_max s) (Fin x)\<rparr>"

definition bins_fit :: "(int, int) dict \<Rightarrow> bool" where
  "bins_fit d \<longleftrightarrow> length d \<le> MAX_BINS \<and> (\<forall>k. dict_get d k 0 \<le> MAX_INT64)"

definition dd_fits :: "ddsketch \<Rightarrow> bool" where
  "dd_fits s \<longleftrightarrow> bins_fit (dd_positive s) \<and> bins_fit (dd_negative s)
     \<and> dd_zero_count s \<le> MAX_INT64 \<and> dd_count s \<le> MAX_UINT64"

definition bins_ok :: "(int, int) dict \<Rightarrow> bool" where
  "bins_ok d \<longleftrightarrow> dict_ok d \<and> (\<forall>(k, c) \<in> set d. 0 < c)"

definition dd_extrema_ok :: "ddsketch \<Rightarrow> bool" where
  "dd_extrema_ok s \<longleftrightarrow> (if dd_count s = 0 then dd_min s = PInf \<and> dd_max s = NInf
     else \<exists>a b. dd_min s = Fin a \<and> dd_max s = Fin b \<and> a \<le> b)"

definition dd_inv :: "libm \<Rightarrow> ddsketch \<Rightarrow> bool" where
  "dd_inv L s \<longleftrightarrow> dd_init L (dd_alpha s) = Inr (dd_reset s)
     \<and> bins_ok (dd_positive s) \<and> bins_ok (dd_negative s) \<and> 0 \<le> dd_zero_count s
     \<and> dd_count s = dd_zero_count s + dict_sum (dd_positive s) + dict_sum (dd_negative s)
     \<and> dd_fits s \<and> dd_extrema_ok s"

lemma bins_ok_get: "bins_ok d \<Longrightarrow> 0 \<le> dict_get d k 0"
  by (force simp: bins_ok_def dict_get_def split: option.splits dest: map_of_SomeD)

lemma bins_ok_Nil [simp]: "bins_ok []" by (simp add: bins_ok_def)

lemma bins_fit_Nil [simp]: "bins_fit []" by (simp add: bins_fit_def)

lemma bins_ok_incr:
  assumes "bins_ok d" "0 < n" shows "bins_ok (dict_incr k n d)"
  using assms bins_ok_get [OF assms(1), of k]
  by (auto simp: bins_ok_def dict_ok_incr) (auto simp: dict_incr_def set_update_dict)

lemma bins_ok_sum: "bins_ok d \<Longrightarrow> 0 \<le> dict_sum d"
  by (force simp: bins_ok_def dict_sum_def intro!: sum_list_nonneg)

lemma bins_ok_add_all:
  assumes "bins_ok d" "bins_ok e" shows "bins_ok (dict_add_all d e)"
proof -
  have "\<forall>(k, c) \<in> set e. 0 < c \<Longrightarrow> bins_ok d \<Longrightarrow> bins_ok (dict_add_all d e)" for d
  proof (induction e arbitrary: d)
    case (Cons p e)
    then show ?case by (cases p) (simp add: bins_ok_incr)
  qed simp
  with assms show ?thesis by (simp add: bins_ok_def [of e])
qed

lemma length_incr: "length (dict_incr k n d) = (if dict_mem k d then length d else Suc (length d))"
  by (simp add: dict_incr_def length_update dict_mem_iff)

lemma bins_fit_incr:
  assumes "bins_ok d" "bins_fit d"
  shows "bins_fit (dict_incr k n d) \<longleftrightarrow> dd_store_can_fit d k \<and> dict_get d k 0 + n \<le> MAX_INT64"
  using assms by (auto simp: bins_fit_def length_incr dd_store_can_fit_def dict_get_incr)

lemma bins_fit_incrD:
  assumes "bins_fit (dict_incr k n d)" "0 \<le> n" shows "bins_fit d"
proof -
  have "dict_get d k' 0 \<le> MAX_INT64" for k'
  proof -
    have "dict_get (dict_incr k n d) k' 0 \<le> MAX_INT64" using assms(1) by (simp add: bins_fit_def)
    then show ?thesis using assms(2) by (cases "k' = k") (simp_all add: dict_get_incr)
  qed
  then show ?thesis using assms(1) by (auto simp: bins_fit_def length_incr split: if_splits)
qed

lemma dd_idx_cong: "dd_multiplier s = dd_multiplier t \<Longrightarrow> dd_idx L s = dd_idx L t"
  by (simp add: dd_idx_def dd_key_def fun_eq_iff)

lemma dd_put_frame [simp]:
  "dd_alpha (dd_put L x n s) = dd_alpha s" "dd_gamma (dd_put L x n s) = dd_gamma s"
  "dd_multiplier (dd_put L x n s) = dd_multiplier s" "dd_log_gamma (dd_put L x n s) = dd_log_gamma s"
  "dd_reset (dd_put L x n s) = dd_reset s"
  by (simp_all add: dd_put_def dd_reset_def)

lemma dd_index_ok: "dd_index L s (Fin \<bar>x\<bar>) = Inr k \<Longrightarrow> dd_key L s (Fin \<bar>x\<bar>) = Inr k \<and> k = dd_idx L s x"
  by (auto simp: dd_index_def rbind_eq_Inr raise_if_eq_Inr dd_idx_def)

lemma dd_accepts_cong:
  "dd_reset s = dd_reset t \<Longrightarrow> dd_accepts L s x = dd_accepts L t x"
  by (cases s; cases t) (simp add: dd_reset_def dd_accepts_def dd_index_def dd_key_def dd_bucket_value_def)

text \<open>A positive count is inserted exactly when the number is accepted and the result fits.\<close>

lemma dd_add_eq:
  assumes inv: "dd_inv L s" and n: "0 < n"
  shows "dd_add L (Fin x, n) s = Inr t \<longleftrightarrow>
    dd_accepts L s x \<and> dd_fits (dd_put L x n s) \<and> t = dd_put L x n s"
proof -
  have fits: "dd_fits s" and ok: "bins_ok (dd_positive s)" "bins_ok (dd_negative s)" "0 \<le> dd_zero_count s"
    using inv by (auto simp: dd_inv_def)
  then have bf: "bins_fit (dd_positive s)" "bins_fit (dd_negative s)" "dd_zero_count s \<le> MAX_INT64"
    by (auto simp: dd_fits_def)
  have small: "n \<le> MAX_INT64" if "dd_fits (dd_put L x n s)"
  proof (cases "x = 0")
    case True
    then show ?thesis using that ok(3) by (simp add: dd_fits_def dd_put_def)
  next
    case False
    then show ?thesis
      using that bf ok bins_ok_get [OF ok(1), of "dd_idx L s x"] bins_ok_get [OF ok(2), of "dd_idx L s x"]
      by (cases "0 < x") (auto simp: dd_fits_def dd_put_def bins_fit_incr)
  qed
  have idx: "dd_accepts L s x \<longleftrightarrow> dd_index L s (Fin \<bar>x\<bar>) = Inr (dd_idx L s x)" if "x \<noteq> 0"
    using that by (auto simp: dd_accepts_def is_ok_iff dest: dd_index_ok)
  have commit: "dd_add_commit L s (Fin x) n = Inr (dd_put L x n s)" if acc: "dd_accepts L s x"
  proof (cases "x = 0")
    case True
    then show ?thesis by (simp add: dd_add_commit_def dd_put_def Let_def f_min_def f_max_def)
  next
    case False
    then have "dd_key L s (Fin \<bar>x\<bar>) = Inr (dd_idx L s x)"
      using acc idx dd_index_ok by blast
    then show ?thesis using False
      by (cases "0 < x") (simp_all add: dd_add_commit_def dd_put_def Let_def f_min_def f_max_def dd_key_def)
  qed
  have check: "dd_add_check L s (Fin x) n = Inr () \<longleftrightarrow> dd_accepts L s x \<and> dd_fits (dd_put L x n s)"
    if tot: "dd_count s + n \<le> MAX_UINT64"
  proof (cases "x = 0")
    case True
    then show ?thesis
      using tot bf by (auto simp: dd_add_check_def dd_accepts_def raise_if_eq_Inr dd_fits_def dd_put_def)
  next
    case False
    have fit: "dd_fits (dd_put L x n s) \<longleftrightarrow> (let store = (if 0 < x then dd_positive s else dd_negative s) in
        dd_store_can_fit store (dd_idx L s x) \<and> dict_get store (dd_idx L s x) 0 + n \<le> MAX_INT64)"
      using False tot bf ok by (auto simp: dd_fits_def dd_put_def bins_fit_incr Let_def)
    show ?thesis
    proof (cases "dd_index L s (Fin \<bar>x\<bar>)")
      case (Inl e)
      then show ?thesis using False idx by (simp add: dd_add_check_def)
    next
      case (Inr k)
      then show ?thesis using False idx dd_index_ok [OF Inr] unfolding fit
        by (auto simp: dd_add_check_def raise_if_eq_Inr Let_def)
    qed
  qed
  show ?thesis
  proof (cases "dd_count s + n \<le> MAX_UINT64")
    case True
    then show ?thesis
      using n small check commit
      by (auto simp: dd_add_def raise_if_eq_Inr rbind_eq_Inr)
  next
    case False
    then show ?thesis using n by (auto simp: dd_add_def raise_if_eq_Inr dd_fits_def dd_put_def)
  qed
qed

lemma dd_extrema_put:
  "dd_extrema_ok s \<Longrightarrow> 0 \<le> dd_count s \<Longrightarrow> 0 < n \<Longrightarrow> dd_extrema_ok (dd_put L x n s)"
  by (auto simp: dd_extrema_ok_def dd_put_def split: if_splits)

lemma dd_inv_count: "dd_inv L s \<Longrightarrow> 0 \<le> dd_count s"
  using bins_ok_sum [of "dd_positive s"] bins_ok_sum [of "dd_negative s"] by (simp add: dd_inv_def)

lemma dd_put_inv:
  assumes "dd_inv L s" "0 < n" "dd_fits (dd_put L x n s)"
  shows "dd_inv L (dd_put L x n s)"
proof -
  have "dd_extrema_ok (dd_put L x n s)"
    using assms dd_inv_count [OF assms(1)] by (intro dd_extrema_put) (simp_all add: dd_inv_def)
  then show ?thesis
    using assms by (auto simp: dd_inv_def) (auto simp: dd_put_def bins_ok_incr dict_sum_incr)
qed

lemma dd_add_skip: "\<not> (f_isfinite v \<and> 0 < n) \<Longrightarrow> dd_add L (v, n) s = Inr s"
  by (cases v) (simp_all add: dd_add_def)

text \<open>Every insertion keeps the invariant and the configuration.\<close>

lemma dd_add_inv:
  assumes "dd_inv L s" "dd_add L vn s = Inr t"
  shows "dd_inv L t" "dd_reset t = dd_reset s"
proof -
  obtain v n where vn: "vn = (v, n)" by (cases vn)
  have "dd_inv L t \<and> dd_reset t = dd_reset s"
  proof (cases "f_isfinite v \<and> 0 < n")
    case True
    then obtain x where v: "v = Fin x" by (cases v) auto
    with True assms vn show ?thesis by (auto simp: dd_add_eq dd_put_inv)
  next
    case False
    with assms show ?thesis by (simp add: vn dd_add_skip)
  qed
  then show "dd_inv L t" "dd_reset t = dd_reset s" by auto
qed

lemma dd_init_inv: "dd_init L a = Inr s \<Longrightarrow> dd_inv L s \<and> dd_alpha s = a \<and> dd_reset s = s"
proof -
  assume a: "dd_init L a = Inr s"
  then have s: "dd_alpha s = a" "dd_reset s = s" "dd_positive s = []" "dd_negative s = []"
    "dd_zero_count s = 0" "dd_count s = 0" "dd_min s = PInf" "dd_max s = NInf"
    by (auto simp: dd_init_def raise_if_eq_Inr rbind_eq_Inr dd_reset_def)
  with a show ?thesis by (simp add: dd_inv_def dd_fits_def dd_extrema_ok_def)
qed

lemma dd_init_count: "dd_init L a = Inr s \<Longrightarrow> dd_count s = 0"
  by (auto simp: dd_init_def raise_if_eq_Inr rbind_eq_Inr)

lemma dd_reset_inv: "dd_inv L s \<Longrightarrow> dd_inv L (dd_reset s)"
proof -
  assume "dd_inv L s"
  then have "dd_init L (dd_alpha s) = Inr (dd_reset s)" by (simp add: dd_inv_def)
  then show ?thesis by (simp add: dd_init_inv)
qed

section \<open>Bulk insertion is repeated insertion\<close>

definition finites :: "pyfloat list \<Rightarrow> rat list" where
  "finites vs = map (\<lambda>v. case v of Fin x \<Rightarrow> x | _ \<Rightarrow> 0) (filter f_isfinite vs)"

lemma finites_simps [simp]:
  "finites [] = []" "finites (Fin x # vs) = x # finites vs" "finites (PInf # vs) = finites vs"
  "finites (NInf # vs) = finites vs" "finites (NaN # vs) = finites vs"
  by (simp_all add: finites_def)

definition dd_puts :: "libm \<Rightarrow> rat list \<Rightarrow> ddsketch \<Rightarrow> ddsketch" where
  "dd_puts L xs s = fold (\<lambda>x. dd_put L x 1) xs s"

lemma dd_puts_simps [simp]: "dd_puts L [] s = s" "dd_puts L (x # xs) s = dd_puts L xs (dd_put L x 1 s)"
  by (simp_all add: dd_puts_def)

lemma dd_fits_putD: "dd_fits (dd_put L x n s) \<Longrightarrow> 0 \<le> n \<Longrightarrow> dd_fits s"
  by (auto simp: dd_fits_def dd_put_def split: if_splits dest: bins_fit_incrD)

lemma dd_fits_putsD: "dd_fits (dd_puts L xs s) \<Longrightarrow> dd_fits s"
proof (induction xs arbitrary: s)
  case (Cons x xs)
  then have "dd_fits (dd_put L x 1 s)" by simp
  then show ?case by (rule dd_fits_putD) simp
qed simp

lemma dd_add_rfold_eq:
  "dd_inv L s \<Longrightarrow> rfold (dd_add L) (map (\<lambda>v. (v, 1)) vs) s = Inr t \<longleftrightarrow>
    (\<forall>x \<in> set (finites vs). dd_accepts L s x) \<and> dd_fits (dd_puts L (finites vs) s)
    \<and> t = dd_puts L (finites vs) s"
proof (induction vs arbitrary: s)
  case Nil
  then show ?case by (auto simp: dd_inv_def)
next
  case (Cons v vs)
  show ?case
  proof (cases v)
    case (Fin x)
    have acc: "dd_accepts L (dd_put L x 1 s) y = dd_accepts L s y" for y
      by (rule dd_accepts_cong) simp
    have "dd_fits (dd_puts L (finites vs) (dd_put L x 1 s)) \<Longrightarrow> dd_fits (dd_put L x 1 s)"
      by (rule dd_fits_putsD)
    then show ?thesis
      using Cons.IH [OF dd_put_inv [OF Cons.prems]] Cons.prems
      by (auto simp: Fin rbind_eq_Inr dd_add_eq acc)
  qed (use Cons in \<open>simp_all add: dd_add_def\<close>)
qed

definition batch_put :: "libm \<Rightarrow> ddsketch \<Rightarrow> rat \<Rightarrow> dd_batch \<Rightarrow> dd_batch" where
  "batch_put L s x b =
    b\<lparr>tmp_pos := (if 0 < x then dict_incr (dd_idx L s x) 1 (tmp_pos b) else tmp_pos b),
      tmp_neg := (if x < 0 then dict_incr (dd_idx L s x) 1 (tmp_neg b) else tmp_neg b),
      tmp_zero_count := (if x = 0 then tmp_zero_count b + 1 else tmp_zero_count b),
      tmp_count := tmp_count b + 1,
      tmp_min := f_min (tmp_min b) (Fin x), tmp_max := f_max (tmp_max b) (Fin x)\<rparr>"

lemma dd_batch_step_eq:
  "dd_batch_step L s (Fin x) b = Inr b' \<longleftrightarrow> dd_accepts L s x \<and> b' = batch_put L s x b"
proof (cases "x = 0")
  case True
  then show ?thesis
    by (auto simp: dd_batch_step_def dd_accepts_def batch_put_def dd_batch_extrema_def Let_def
        f_min_def f_max_def)
next
  case False
  show ?thesis
  proof (cases "dd_index L s (Fin \<bar>x\<bar>)")
    case (Inr k)
    then show ?thesis using False dd_index_ok [OF Inr]
      by (auto simp: dd_batch_step_def dd_accepts_def batch_put_def dd_batch_extrema_def Let_def
          f_min_def f_max_def)
  qed (use False in \<open>simp add: dd_batch_step_def dd_accepts_def\<close>)
qed

lemma dd_batch_rfold_eq:
  "rfold (dd_batch_step L s) vs b = Inr b' \<longleftrightarrow>
    (\<forall>x \<in> set (finites vs). dd_accepts L s x) \<and> b' = fold (batch_put L s) (finites vs) b"
proof (induction vs arbitrary: b)
  case (Cons v vs)
  show ?case
    by (cases v) (auto simp: rbind_eq_Inr dd_batch_step_eq Cons.IH, auto simp: dd_batch_step_def Cons.IH)
qed auto

lemma f_min_assoc:
  "a \<noteq> NaN \<Longrightarrow> b \<noteq> NaN \<Longrightarrow> c \<noteq> NaN \<Longrightarrow> f_min (f_min a b) c = f_min a (f_min b c)"
  by (cases a; cases b; cases c) (auto simp: f_min_def)

lemma f_max_assoc:
  "a \<noteq> NaN \<Longrightarrow> b \<noteq> NaN \<Longrightarrow> c \<noteq> NaN \<Longrightarrow> f_max (f_max a b) c = f_max a (f_max b c)"
  by (cases a; cases b; cases c) (auto simp: f_max_def)

lemma f_min_not_NaN [simp]: "f_min a (Fin x) \<noteq> NaN \<longleftrightarrow> a \<noteq> NaN"
  "f_max a (Fin x) \<noteq> NaN \<longleftrightarrow> a \<noteq> NaN"
  by (cases a; simp add: f_min_def f_max_def)+

lemma dd_inv_NaN: "dd_inv L s \<Longrightarrow> dd_min s \<noteq> NaN \<and> dd_max s \<noteq> NaN"
  by (auto simp: dd_inv_def dd_extrema_ok_def split: if_splits)

text \<open>Committing one more accumulated value is inserting it into the committed sketch.\<close>

lemma dd_batch_commit_alt:
  "dd_batch_commit s b =
    s\<lparr>dd_positive := dict_add_all (dd_positive s) (tmp_pos b),
      dd_negative := dict_add_all (dd_negative s) (tmp_neg b),
      dd_zero_count := dd_zero_count s + tmp_zero_count b,
      dd_count := dd_count s + tmp_count b,
      dd_min := f_min (dd_min s) (tmp_min b), dd_max := f_max (dd_max s) (tmp_max b)\<rparr>"
  by (simp add: dd_batch_commit_def f_min_def f_max_def)

lemma dd_batch_commit_put:
  assumes "dd_min s \<noteq> NaN" "dd_max s \<noteq> NaN" "tmp_min b \<noteq> NaN" "tmp_max b \<noteq> NaN"
  shows "dd_batch_commit s (batch_put L s x b) = dd_put L x 1 (dd_batch_commit s b)"
proof -
  have "dd_idx L (dd_batch_commit s b) x = dd_idx L s x"
    by (simp add: dd_batch_commit_def dd_idx_def dd_key_def)
  moreover have "f_min (dd_min s) (f_min (tmp_min b) (Fin x)) = f_min (f_min (dd_min s) (tmp_min b)) (Fin x)"
    "f_max (dd_max s) (f_max (tmp_max b) (Fin x)) = f_max (f_max (dd_max s) (tmp_max b)) (Fin x)"
    using assms by (simp_all add: f_min_assoc f_max_assoc)
  ultimately show ?thesis
    unfolding dd_put_def batch_put_def dd_batch_commit_alt
    by (simp add: dict_add_all_incr add.assoc)
qed

lemma dd_batch_commit_puts:
  assumes "dd_min s \<noteq> NaN" "dd_max s \<noteq> NaN" "tmp_min b \<noteq> NaN" "tmp_max b \<noteq> NaN"
  shows "dd_batch_commit s (fold (batch_put L s) xs b) = dd_puts L xs (dd_batch_commit s b)"
  using assms(3,4)
proof (induction xs arbitrary: b)
  case (Cons x xs)
  have "tmp_min (batch_put L s x b) \<noteq> NaN" "tmp_max (batch_put L s x b) \<noteq> NaN"
    using Cons.prems by (simp_all add: batch_put_def)
  from Cons.IH [OF this] show ?case
    using assms(1,2) Cons.prems by (simp add: dd_batch_commit_put)
qed simp

lemma dd_union_size_eq:
  "dict_ok d \<Longrightarrow> dd_union_size d e = length (dict_add_all d e)"
  by (simp add: dd_union_size_def length_remdups_card_conv dict_len_card dict_add_all_ok dict_add_all_keys)

lemma dd_bins_overflow_eq:
  assumes "dict_ok e" "\<forall>k. dict_get d k 0 \<le> MAX_INT64"
  shows "dd_bins_overflow d e \<longleftrightarrow> \<not> (\<forall>k. dict_get (dict_add_all d e) k 0 \<le> MAX_INT64)"
proof -
  have "(\<exists>k. MAX_INT64 < dict_get d k 0 + dict_get e k 0) \<longleftrightarrow>
      (\<exists>(k, c) \<in> set e. MAX_INT64 < dict_get d k 0 + c)"
  proof
    assume "\<exists>k. MAX_INT64 < dict_get d k 0 + dict_get e k 0"
    then obtain k where k: "MAX_INT64 < dict_get d k 0 + dict_get e k 0" ..
    with assms(2) have "k \<in> fst ` set e"
      by (metis add_0_right dict_get_absent leD)
    then obtain c where "(k, c) \<in> set e" by auto
    then show "\<exists>(k, c) \<in> set e. MAX_INT64 < dict_get d k 0 + c"
      using k dict_get_present [OF assms(1), of k c 0] by (intro bexI [of _ "(k, c)"]) simp_all
  next
    assume "\<exists>(k, c) \<in> set e. MAX_INT64 < dict_get d k 0 + c"
    then obtain k c where kc: "(k, c) \<in> set e" "MAX_INT64 < dict_get d k 0 + c" by blast
    then show "\<exists>k. MAX_INT64 < dict_get d k 0 + dict_get e k 0"
      using dict_get_present [OF assms(1), of k c 0] by (intro exI [of _ k]) simp
  qed
  then show ?thesis
    using assms(1) by (simp add: dd_bins_overflow_def list_ex_iff dict_add_all_get not_le
        case_prod_unfold diff_less_eq)
qed

lemma batch_keys_ok:
  "dict_ok (tmp_pos b) \<Longrightarrow> dict_ok (tmp_neg b) \<Longrightarrow>
    dict_ok (tmp_pos (fold (batch_put L s) xs b)) \<and> dict_ok (tmp_neg (fold (batch_put L s) xs b))"
  by (induction xs arbitrary: b) (auto simp: batch_put_def dict_ok_incr)

lemma batch_count: "tmp_count (fold (batch_put L s) xs b) = tmp_count b + int (length xs)"
  by (induction xs arbitrary: b) (auto simp: batch_put_def)

lemma dd_add_batch_eq:
  assumes inv: "dd_inv L s"
  shows "dd_add_batch L vs s = Inr t \<longleftrightarrow>
    (\<forall>x \<in> set (finites vs). dd_accepts L s x) \<and> dd_fits (dd_puts L (finites vs) s)
    \<and> t = dd_puts L (finites vs) s"
proof -
  let ?b = "fold (batch_put L s) (finites vs) dd_batch_empty"
  have commit: "dd_batch_commit s ?b = dd_puts L (finites vs) s"
    using dd_inv_NaN [OF inv] dd_batch_commit_puts [of s dd_batch_empty L "finites vs"]
    by (simp add: dd_batch_empty_def) (simp add: dd_batch_commit_def)
  have bok: "dict_ok (tmp_pos ?b)" "dict_ok (tmp_neg ?b)"
    using batch_keys_ok [of dd_batch_empty] by (auto simp: dd_batch_empty_def)
  have s: "dict_ok (dd_positive s)" "dict_ok (dd_negative s)" "\<forall>k. dict_get (dd_positive s) k 0 \<le> MAX_INT64"
    "\<forall>k. dict_get (dd_negative s) k 0 \<le> MAX_INT64"
    using inv by (auto simp: dd_inv_def bins_ok_def dd_fits_def bins_fit_def)
  have empty: "tmp_count ?b = 0 \<longleftrightarrow> finites vs = []"
    by (simp add: batch_count) (simp add: dd_batch_empty_def)
  show ?thesis
  proof (cases "finites vs = []")
    case True
    then show ?thesis using inv empty
      by (auto simp: dd_add_batch_def rbind_eq_Inr dd_batch_rfold_eq dd_inv_def)
  next
    case False
    have "dd_fits (dd_batch_commit s ?b) \<longleftrightarrow>
        \<not> dd_union_size (dd_positive s) (tmp_pos ?b) > MAX_BINS
      \<and> \<not> dd_union_size (dd_negative s) (tmp_neg ?b) > MAX_BINS
      \<and> \<not> dd_count s > MAX_UINT64 - tmp_count ?b \<and> \<not> dd_zero_count s > MAX_INT64 - tmp_zero_count ?b
      \<and> \<not> dd_bins_overflow (dd_positive s) (tmp_pos ?b) \<and> \<not> dd_bins_overflow (dd_negative s) (tmp_neg ?b)"
      using bok s
      by (auto simp: dd_fits_def bins_fit_def dd_union_size_eq dd_bins_overflow_eq dd_batch_commit_def)
    then show ?thesis
      using False empty commit
      by (auto simp: dd_add_batch_def rbind_eq_Inr dd_batch_rfold_eq raise_if_eq_Inr)
  qed
qed

text \<open>The bulk routine succeeds exactly when one-by-one insertion does, with the same sketch.\<close>

lemma dd_add_batch_rfold:
  "dd_inv L s \<Longrightarrow> res_eq (dd_add_batch L vs s) (rfold (dd_add L) (map (\<lambda>v. (v, 1)) vs) s)"
  by (rule res_eqI) (simp add: dd_add_batch_eq dd_add_rfold_eq)

section \<open>Merging\<close>

definition dd_plus :: "ddsketch \<Rightarrow> ddsketch \<Rightarrow> ddsketch" where
  "dd_plus s t =
    s\<lparr>dd_positive := dict_add_all (dd_positive s) (dd_positive t),
      dd_negative := dict_add_all (dd_negative s) (dd_negative t),
      dd_zero_count := dd_zero_count s + dd_zero_count t,
      dd_count := dd_count s + dd_count t,
      dd_min := f_min (dd_min s) (dd_min t), dd_max := f_max (dd_max s) (dd_max t)\<rparr>"

lemma dd_plus_reset [simp]: "dd_reset (dd_plus s t) = dd_reset s"
  by (simp add: dd_plus_def dd_reset_def)

lemma dd_merge_bins_eq:
  "dict_ok e \<Longrightarrow> dd_merge_bins d e = Inr r \<longleftrightarrow> \<not> dd_bins_overflow d e \<and> r = dict_add_all d e"
proof (induction e arbitrary: d)
  case (Cons p e)
  obtain k c where p: "p = (k, c)" by (cases p)
  with Cons.prems have k: "k \<notin> fst ` set e" and ok: "dict_ok e" by auto
  have "dd_bins_overflow (dict_incr k c d) e \<longleftrightarrow> dd_bins_overflow d e"
    using k by (force simp: dd_bins_overflow_def list_ex_iff dict_get_incr image_iff)
  then show ?case
    using Cons.IH [OF ok, of "dict_incr k c d"]
    by (auto simp: p dd_merge_bins_def rbind_eq_Inr raise_if_eq_Inr) (auto simp: dd_bins_overflow_def)
qed (auto simp: dd_merge_bins_def dd_bins_overflow_def)

lemma dd_inv_alpha:
  assumes "dd_inv L s" obtains a where "dd_alpha s = Fin a"
proof -
  have "f_le (to_float (1 / 10 ^ 6)) (dd_alpha s)" "f_lt (dd_alpha s) (Fin 1)"
    using assms by (auto simp: dd_inv_def dd_init_def raise_if_eq_Inr)
  moreover have "to_float (1 / 10 ^ 6) \<noteq> NInf"
  proof
    assume n: "to_float (1 / 10 ^ 6) = NInf"
    have "0 \<le> rnd (1 / 10 ^ 6)" by (rule rnd_nonneg) simp
    with n show False by (cases rule: to_float_cases [of "1 / 10 ^ 6"]) simp_all
  qed
  ultimately show ?thesis using that by (cases "dd_alpha s"; cases "to_float (1 / 10 ^ 6)") (auto simp: f_le_def)
qed

lemma dd_inv_alpha_iff:
  assumes "dd_inv L s" "dd_inv L t"
  shows "f_eq (dd_alpha s) (dd_alpha t) \<longleftrightarrow> dd_reset s = dd_reset t"
proof -
  obtain a b where ab: "dd_alpha s = Fin a" "dd_alpha t = Fin b" using assms dd_inv_alpha by metis
  have "dd_init L (dd_alpha s) = Inr (dd_reset s)" "dd_init L (dd_alpha t) = Inr (dd_reset t)"
    using assms by (auto simp: dd_inv_def)
  then have "dd_alpha s = dd_alpha t \<longleftrightarrow> dd_reset s = dd_reset t"
    by (metis dd_init_inv sum.inject(2))
  with ab show ?thesis by simp
qed

lemma f_min_PInf [simp]: "f_min a PInf = a" "f_max a NInf = a"
  by (cases a; simp add: f_min_def f_max_def)+

lemma PInf_f_min: "a \<noteq> NaN \<Longrightarrow> f_min PInf a = a" "a \<noteq> NaN \<Longrightarrow> f_max NInf a = a"
  by (cases a; simp add: f_min_def f_max_def)+

lemma bins_fit_add_all:
  assumes "bins_ok d" "bins_fit d" "bins_ok e"
  shows "bins_fit (dict_add_all d e) \<longleftrightarrow>
    \<not> dd_bins_overflow d e \<and> \<not> MAX_BINS < length (dict_add_all d e)"
  using assms dd_bins_overflow_eq [of e d] by (auto simp: bins_fit_def bins_ok_def)

text \<open>Two valid sketches merge exactly when they are configured alike and the sum fits.\<close>

lemma dd_merge_eq:
  assumes s: "dd_inv L s" and t: "dd_inv L t"
  shows "dd_merge s t = Inr u \<longleftrightarrow>
    dd_reset s = dd_reset t \<and> dd_fits (dd_plus s t) \<and> u = dd_plus s t"
proof -
  have bins: "bins_ok (dd_positive s)" "bins_ok (dd_negative s)" "bins_ok (dd_positive t)"
    "bins_ok (dd_negative t)" "bins_fit (dd_positive s)" "bins_fit (dd_negative s)"
    "dict_ok (dd_positive t)" "dict_ok (dd_negative t)"
    using s t by (auto simp: dd_inv_def dd_fits_def bins_ok_def)
  have ext: "(if dd_count t > 0 then f_min (dd_min s) (dd_min t) else dd_min s) = f_min (dd_min s) (dd_min t)"
    "(if dd_count t > 0 then f_max (dd_max s) (dd_max t) else dd_max s) = f_max (dd_max s) (dd_max t)"
    using t dd_inv_count [OF t] by (auto simp: dd_inv_def dd_extrema_ok_def)
  show ?thesis
    unfolding dd_merge_def dd_inv_alpha_iff [OF s t] ext dd_plus_def dd_fits_def
    using bins by (auto simp: raise_if_eq_Inr rbind_eq_Inr dd_merge_bins_eq bins_fit_add_all)
qed

lemma dd_extrema_plus:
  assumes "dd_extrema_ok s" "dd_extrema_ok t" "0 \<le> dd_count s" "0 \<le> dd_count t"
  shows "dd_extrema_ok (dd_plus s t)"
  using assms by (auto simp: dd_extrema_ok_def dd_plus_def f_min_def f_max_def split: if_splits)

lemma dd_plus_inv:
  assumes "dd_inv L s" "dd_inv L t" "dd_fits (dd_plus s t)"
  shows "dd_inv L (dd_plus s t)"
proof -
  have "dd_extrema_ok (dd_plus s t)"
    using assms dd_inv_count by (intro dd_extrema_plus) (auto simp: dd_inv_def)
  moreover have "bins_ok (dd_positive (dd_plus s t))" "bins_ok (dd_negative (dd_plus s t))"
    using assms by (auto simp: dd_plus_def dd_inv_def bins_ok_add_all)
  moreover have "dd_alpha (dd_plus s t) = dd_alpha s" by (simp add: dd_plus_def)
  ultimately show ?thesis
    using assms by (simp add: dd_inv_def) (simp add: dd_plus_def dict_add_all_sum)
qed

lemma dd_plus_put:
  assumes "dd_multiplier s = dd_multiplier t" "dd_min s \<noteq> NaN" "dd_max s \<noteq> NaN"
    "dd_min t \<noteq> NaN" "dd_max t \<noteq> NaN"
  shows "dd_plus s (dd_put L x n t) = dd_put L x n (dd_plus s t)"
proof -
  have "dd_idx L (dd_plus s t) x = dd_idx L t x"
    using assms by (simp add: dd_plus_def dd_idx_def dd_key_def)
  then show ?thesis
    using assms by (simp add: dd_plus_def dd_put_def dict_add_all_incr add.assoc f_min_assoc f_max_assoc)
qed

lemma dd_merge_add:
  assumes s: "dd_inv L s" and t: "dd_inv L t" and st: "dd_reset s = dd_reset t"
    and add: "dd_add L vn t = Inr t'"
  shows "res_eq (dd_merge s t') (rbind (dd_merge s t) (dd_add L vn))"
proof (rule res_eqI)
  fix u
  obtain v n where vn: "vn = (v, n)" by (cases vn)
  show "dd_merge s t' = Inr u \<longleftrightarrow> rbind (dd_merge s t) (dd_add L vn) = Inr u"
  proof (cases "f_isfinite v \<and> 0 < n")
    case False
    with add have "t' = t" by (simp add: vn dd_add_skip)
    moreover have "dd_add L vn w = Inr w" for w using False by (simp add: vn dd_add_skip)
    ultimately show ?thesis by (simp add: rbind_eq_Inr)
  next
    case True
    then obtain x where v: "v = Fin x" by (cases v) auto
    have acc: "dd_accepts L t x" and t': "t' = dd_put L x n t" and fits: "dd_fits t'"
      using add True by (auto simp: vn v dd_add_eq [OF t])
    have inv': "dd_inv L t'" unfolding t' using t True fits [unfolded t'] by (intro dd_put_inv) simp_all
    have mult: "dd_multiplier s = dd_multiplier t"
      using st by (cases s; cases t) (simp add: dd_reset_def)
    have plus: "dd_plus s t' = dd_put L x n (dd_plus s t)"
      using mult dd_inv_NaN [OF s] dd_inv_NaN [OF t] by (simp add: t' dd_plus_put)
    have acc': "dd_accepts L (dd_plus s t) x" using acc st dd_accepts_cong [of "dd_plus s t" t] by simp
    have "rbind (dd_merge s t) (dd_add L vn) = Inr u \<longleftrightarrow> dd_fits (dd_plus s t) \<and>
        dd_add L (Fin x, n) (dd_plus s t) = Inr u"
      by (auto simp: rbind_eq_Inr dd_merge_eq [OF s t] st vn v)
    also have "\<dots> \<longleftrightarrow> dd_fits (dd_plus s t') \<and> u = dd_plus s t'"
      using acc' True dd_add_eq [OF dd_plus_inv [OF s t]] dd_fits_putD [of L x n "dd_plus s t"]
      by (auto simp: plus)
    also have "\<dots> \<longleftrightarrow> dd_merge s t' = Inr u"
      unfolding dd_merge_eq [OF s inv'] using st by (simp add: t')
    finally show ?thesis by simp
  qed
qed

lemma dd_merge_empty:
  assumes "dd_inv L s" shows "dd_merge s (dd_reset s) = Inr s" "dd_merge (dd_reset s) s = Inr s"
proof -
  have r: "dd_inv L (dd_reset s)" "dd_reset (dd_reset s) = dd_reset s"
    using dd_reset_inv [OF assms] by (simp_all add: dd_reset_def)
  have "dict_ok (dd_positive s)" "dict_ok (dd_negative s)" using assms by (auto simp: dd_inv_def bins_ok_def)
  then have "dd_plus (dd_reset s) s = s" "dd_plus s (dd_reset s) = s"
    using dd_inv_NaN [OF assms] by (simp_all add: dd_plus_def dd_reset_def dict_add_all_Nil PInf_f_min)
  moreover have "dd_fits s" using assms by (simp add: dd_inv_def)
  ultimately show "dd_merge s (dd_reset s) = Inr s" "dd_merge (dd_reset s) s = Inr s"
    using assms r by (simp_all add: dd_merge_eq [OF assms r(1)] dd_merge_eq [OF r(1) assms])
qed

text \<open>The quantile sketch keeps the contract of a mergeable sketch, for every mathematics library.\<close>

interpretation dd: mergeable_sketch "dd_add L" dd_merge dd_reset "dd_inv L" for L
proof
  fix s t u x
  show "dd_inv L s \<Longrightarrow> dd_inv L (dd_reset s)" by (rule dd_reset_inv)
  show "dd_inv L s \<Longrightarrow> dd_add L x s = Inr t \<Longrightarrow> dd_inv L t" by (rule dd_add_inv)
  show "dd_inv L s \<Longrightarrow> dd_add L x s = Inr t \<Longrightarrow> dd_reset t = dd_reset s" by (rule dd_add_inv)
  show "dd_inv L s \<Longrightarrow> dd_inv L t \<Longrightarrow> dd_merge s t = Inr u \<Longrightarrow> dd_inv L u"
    by (auto simp: dd_merge_eq dd_plus_inv)
  show "dd_inv L s \<Longrightarrow> dd_inv L t \<Longrightarrow> dd_merge s t = Inr u \<Longrightarrow> dd_reset u = dd_reset s"
    by (auto simp: dd_merge_eq)
  show "dd_reset (dd_reset s) = dd_reset s" by (simp add: dd_reset_def)
qed (simp_all add: dd_merge_empty dd_merge_add)

section \<open>Properties\<close>

lemma dd_ingest_inv:
  "dd_init L alpha = Inr e \<Longrightarrow> rfold (dd_add L) ops e = Inr s \<Longrightarrow> dd_inv L s"
  using dd.inv_ingest [of L ops e s] dd_init_inv [of L alpha e] by simp

text \<open>
  The bulk insertion of the quantile sketch is equivalent to inserting the values one by one,
  on every sketch that insertions can build: both succeed with the same sketch or both raise.  The
  bulk routine checks everything before it changes the sketch.
\<close>

lemma dd_batch_equiv:
  assumes "dd_init L alpha = Inr e" and "rfold (dd_add L) ops e = Inr s"
  shows "res_eq (dd_add_batch L vs s) (rfold (dd_add L) (map (\<lambda>v. (v, 1)) vs) s)"
  using dd_ingest_inv [OF assms] by (rule dd_add_batch_rfold)

text \<open>
  Merging the quantile sketches of two streams succeeds exactly when one sketch accepts the
  concatenated stream, and gives that sketch: same buckets, counts and extrema.
\<close>

lemma dd_merge_is_concat:
  assumes "dd_init L alpha = Inr e" and "rfold (dd_add L) xs e = Inr s" and "rfold (dd_add L) ys e = Inr t"
  shows "res_eq (dd_merge s t) (rfold (dd_add L) (xs @ ys) e)"
  using dd.merge_ingest [of L e xs s ys t] dd_init_inv [OF assms(1)] assms by simp

lemma dd_demo:
  obtains e s where "dd_init libm_demo (Fin (1/2)) = Inr e"
    "rfold (dd_add libm_demo) [(Fin 2, 1)] e = Inr s"
proof -
  have "is_ok (rbind (dd_init libm_demo (Fin (1/2))) (rfold (dd_add libm_demo) [(Fin 2, 1)]))"
    by code_simp
  then show ?thesis using that by (auto simp: is_ok_iff rbind_eq_Inr)
qed

end
