(* ===== verification/Stream_Log.thy ===== *)
theory Stream_Log
  imports CountMin DDSketch_Laws "HOL-Library.Sublist"
begin

text \<open>
  The stream log of \<^verbatim>\<open>facade.py\<close>: the pure Python engine \<^verbatim>\<open>_PythonStreamLog\<close>, which couples the
  three sketches with one event counter, and the wrapper \<^verbatim>\<open>StreamLog\<close> around it.  The wrapper is
  modelled for the configuration in which the optional C++ engine is absent.
\<close>

section \<open>The engine\<close>

record pystream =
  sl_latency :: ddsketch
  sl_events :: cms
  sl_uniques :: hll
  sl_total :: int
  sl_deterministic :: bool

definition MAX_CMS_CELLS :: int where "MAX_CMS_CELLS = 1000000"

definition sl_init :: "libm \<Rightarrow> pyfloat \<Rightarrow> int \<Rightarrow> int \<Rightarrow> int \<Rightarrow> bool \<Rightarrow> pystream result" where
  "sl_init L relative_accuracy hll_precision width depth det =
    raise_if (width \<le> 0 \<or> depth \<le> 0) (ValueError ''CountMinSketch width and depth must be > 0'')
   (raise_if (width > MAX_CMS_CELLS div depth) (ValueError ''CountMinSketch dimensions exceed cells'')
   (rbind (dd_init L relative_accuracy) (\<lambda>l.
    rbind (cms_init width depth) (\<lambda>e.
    rbind (hll_init hll_precision) (\<lambda>u.
    Inr \<lparr>sl_latency = l, sl_events = e, sl_uniques = u, sl_total = 0, sl_deterministic = det\<rparr>)))))"

definition sl_add_latency :: "libm \<Rightarrow> pyfloat \<Rightarrow> pystream \<Rightarrow> pystream result" where
  "sl_add_latency L value s =
    raise_if (f_isfinite value \<and> sl_total s = MAX_UINT64) (OverflowError ''StreamLog: total_events overflow'')
   (rbind (dd_add L (value, 1) (sl_latency s)) (\<lambda>l.
      let s1 = s\<lparr>sl_latency := l\<rparr> in
      Inr (if dd_count l > dd_count (sl_latency s) then s1\<lparr>sl_total := sl_total s + 1\<rparr> else s1)))"

definition sl_add_batch :: "libm \<Rightarrow> pyfloat list \<Rightarrow> pystream \<Rightarrow> pystream result" where
  "sl_add_batch L values s =
    (let valid_count = int (length (filter f_isfinite values)) in
     raise_if (sl_total s > MAX_UINT64 - valid_count) (OverflowError ''StreamLog: total_events overflow'')
    (rbind (dd_add_batch L values (sl_latency s)) (\<lambda>l.
       Inr (s\<lparr>sl_latency := l, sl_total := sl_total s + (dd_count l - dd_count (sl_latency s))\<rparr>))))"

definition sl_percentile :: "libm \<Rightarrow> pystream \<Rightarrow> pyfloat \<Rightarrow> pyfloat result" where
  "sl_percentile L s q = dd_quantile L (sl_latency s) q"

definition sl_p50 :: "libm \<Rightarrow> pystream \<Rightarrow> pyfloat result" where
  "sl_p50 L s = sl_percentile L s (to_float (50/100))"

definition sl_p95 :: "libm \<Rightarrow> pystream \<Rightarrow> pyfloat result" where
  "sl_p95 L s = sl_percentile L s (to_float (95/100))"

definition sl_p99 :: "libm \<Rightarrow> pystream \<Rightarrow> pyfloat result" where
  "sl_p99 L s = sl_percentile L s (to_float (99/100))"

definition sl_p999 :: "libm \<Rightarrow> pystream \<Rightarrow> pyfloat result" where
  "sl_p999 L s = sl_percentile L s (to_float (999/1000))"

definition sl_count_greater_than :: "libm \<Rightarrow> pystream \<Rightarrow> pyfloat \<Rightarrow> int result" where
  "sl_count_greater_than L s threshold = dd_count_greater_than L (sl_latency s) threshold"

definition key_out_of_range :: "event_key \<Rightarrow> bool" where
  "key_out_of_range k = (case k of KInt n \<Rightarrow> \<not> in_uint64 n | _ \<Rightarrow> False)"

definition sl_add_event :: "event_key \<Rightarrow> int \<Rightarrow> pystream \<Rightarrow> pystream result" where
  "sl_add_event name count s =
    raise_if (count \<le> 0) (ValueError ''Event count must be strictly positive'')
   (raise_if (count > MAX_INT64) (OverflowError ''Event count exceeds int64 capacity'')
   (raise_if (key_out_of_range name) (ValueError ''Event integer key out of range for 64-bit unsigned'')
   (raise_if (sl_total s > MAX_UINT64 - count) (OverflowError ''StreamLog: total_events overflow'')
   (rbind (cms_add (name, count) (sl_events s)) (\<lambda>e.
      Inr (s\<lparr>sl_events := e, sl_total := sl_total s + count\<rparr>))))))"

definition sl_event_count :: "pystream \<Rightarrow> event_key \<Rightarrow> int result" where
  "sl_event_count s event_name = cms_estimate (sl_events s) event_name"

definition sl_add_unique :: "event_key \<Rightarrow> pystream \<Rightarrow> pystream result" where
  "sl_add_unique item s =
    raise_if (key_out_of_range item) (ValueError ''Unique integer out of range for 64-bit unsigned'')
   (rbind (hll_add item (sl_uniques s)) (\<lambda>u. Inr (s\<lparr>sl_uniques := u\<rparr>)))"

definition sl_unique_count :: "libm \<Rightarrow> pystream \<Rightarrow> int result" where
  "sl_unique_count L s =
    rbind (hll_estimate L (sl_uniques s)) (\<lambda>est. rbind (f_int (f_add est (Fin (1/2)))) (\<lambda>n. Inr (max 0 n)))"

definition sl_latency_count :: "pystream \<Rightarrow> int" where
  "sl_latency_count s = dd_count (sl_latency s)"

definition sl_memory_bytes :: "pystream \<Rightarrow> int" where
  "sl_memory_bytes s = dd_memory_bytes (sl_latency s) + cms_memory_bytes (sl_events s) + hll_memory_bytes (sl_uniques s)"

definition sl_memory_kb :: "pystream \<Rightarrow> pyfloat result" where
  "sl_memory_kb s = f_div (f_of_int (sl_memory_bytes s)) (Fin 1024)"

record breakdown =
  ddsketch_bytes :: int
  ddsketch_kb :: pyfloat
  ddsketch_buckets :: int
  hyperloglog_bytes :: int
  hyperloglog_kb :: pyfloat
  hyperloglog_registers :: int
  countmin_bytes :: int
  countmin_kb :: pyfloat
  countmin_cells :: int
  total_bytes :: int
  total_kb :: pyfloat

definition kb_rounded :: "int \<Rightarrow> pyfloat result" where
  "kb_rounded n = py_round (to_float (of_int n / 1024)) 2"

definition sl_memory_breakdown :: "pystream \<Rightarrow> breakdown result" where
  "sl_memory_breakdown s =
    (let dd = dd_memory_bytes (sl_latency s); h = hll_memory_bytes (sl_uniques s); c = cms_memory_bytes (sl_events s);
         tot = dd + h + c in
     rbind (kb_rounded dd) (\<lambda>dd_kb. rbind (kb_rounded h) (\<lambda>h_kb. rbind (kb_rounded c) (\<lambda>c_kb. rbind (kb_rounded tot) (\<lambda>t_kb.
     Inr \<lparr>ddsketch_bytes = dd, ddsketch_kb = dd_kb,
          ddsketch_buckets = int (length (dd_positive (sl_latency s)) + length (dd_negative (sl_latency s))),
          hyperloglog_bytes = h, hyperloglog_kb = h_kb, hyperloglog_registers = int (hll_m (sl_uniques s)),
          countmin_bytes = c, countmin_kb = c_kb,
          countmin_cells = cms_width (sl_events s) * cms_depth (sl_events s),
          total_bytes = tot, total_kb = t_kb\<rparr>)))))"

record stats =
  stat_events :: int
  stat_memory_bytes :: int
  stat_memory_kb :: pyfloat
  stat_p50 :: pyfloat
  stat_p99 :: pyfloat
  stat_p999 :: pyfloat
  stat_unique_count :: int

definition sl_rounded :: "pystream \<Rightarrow> pyfloat result \<Rightarrow> pyfloat result" where
  "sl_rounded s p = (if dd_count (sl_latency s) > 0 then rbind p (\<lambda>v. py_round v 4) else Inr (Fin 0))"

definition sl_stats :: "libm \<Rightarrow> pystream \<Rightarrow> stats result" where
  "sl_stats L s =
    rbind (rbind (sl_memory_kb s) (\<lambda>v. py_round v 2)) (\<lambda>mkb.
    rbind (sl_rounded s (sl_p50 L s)) (\<lambda>a.
    rbind (sl_rounded s (sl_p99 L s)) (\<lambda>b.
    rbind (sl_rounded s (sl_p999 L s)) (\<lambda>c.
    rbind (sl_unique_count L s) (\<lambda>u.
    Inr \<lparr>stat_events = sl_total s, stat_memory_bytes = sl_memory_bytes s, stat_memory_kb = mkb,
         stat_p50 = a, stat_p99 = b, stat_p999 = c, stat_unique_count = u\<rparr>)))))"

definition sl_reset :: "pystream \<Rightarrow> pystream" where
  "sl_reset s = s\<lparr>sl_latency := dd_reset (sl_latency s), sl_events := cms_reset (sl_events s),
                 sl_uniques := hll_reset (sl_uniques s), sl_total := 0\<rparr>"

text \<open>Merging validates and computes every component first, in this order, and then commits.\<close>

definition sl_merge :: "pystream \<Rightarrow> pystream \<Rightarrow> pystream result" where
  "sl_merge s t =
    raise_if (\<not> f_eq (dd_alpha (sl_latency s)) (dd_alpha (sl_latency t)))
      (ValueError ''Cannot merge: DDSketch alpha mismatch'')
   (raise_if (hll_p (sl_uniques s) \<noteq> hll_p (sl_uniques t)) (ValueError ''Cannot merge: HLL precision mismatch'')
   (raise_if (cms_width (sl_events s) \<noteq> cms_width (sl_events t) \<or> cms_depth (sl_events s) \<noteq> cms_depth (sl_events t))
      (ValueError ''Cannot merge: CMS dimensions mismatch'')
   (raise_if (sl_total s > MAX_UINT64 - sl_total t) (OverflowError ''StreamLog: total_events overflow'')
   (raise_if (dd_count (sl_latency s) > MAX_UINT64 - dd_count (sl_latency t))
      (OverflowError ''DDSketch: total count overflow'')
   (raise_if (dd_zero_count (sl_latency s) > MAX_INT64 - dd_zero_count (sl_latency t))
      (OverflowError ''DDSketch: zero count overflow'')
   (raise_if (cms_total (sl_events s) > MAX_INT64 - cms_total (sl_events t))
      (OverflowError ''CountMinSketch: total_count overflow'')
   (rbind (dd_merge_bins (dd_positive (sl_latency s)) (dd_positive (sl_latency t))) (\<lambda>new_positive.
    raise_if (length new_positive > MAX_BINS)
      (ValueError ''DDSketch occupied positive bucket count exceeds bounded capacity'')
   (rbind (dd_merge_bins (dd_negative (sl_latency s)) (dd_negative (sl_latency t))) (\<lambda>new_negative.
    raise_if (length new_negative > MAX_BINS)
      (ValueError ''DDSketch occupied negative bucket count exceeds bounded capacity'')
   (let some = dd_count (sl_latency t) > 0;
        new_min = (if some then f_min (dd_min (sl_latency s)) (dd_min (sl_latency t)) else dd_min (sl_latency s));
        new_max = (if some then f_max (dd_max (sl_latency s)) (dd_max (sl_latency t)) else dd_max (sl_latency s));
        new_registers = hll_merge_registers (hll_registers (sl_uniques s)) (hll_registers (sl_uniques t)) in
    rbind (cms_merge_table (cms_table (sl_events s)) (cms_table (sl_events t))) (\<lambda>new_table.
    Inr (s\<lparr>sl_latency := (sl_latency s)\<lparr>dd_positive := new_positive, dd_negative := new_negative,
             dd_zero_count := dd_zero_count (sl_latency s) + dd_zero_count (sl_latency t),
             dd_count := dd_count (sl_latency s) + dd_count (sl_latency t),
             dd_min := new_min, dd_max := new_max\<rparr>,
           sl_uniques := (sl_uniques s)\<lparr>hll_registers := new_registers\<rparr>,
           sl_events := (sl_events s)\<lparr>cms_table := new_table,
             cms_total := cms_total (sl_events s) + cms_total (sl_events t)\<rparr>,
           sl_total := sl_total s + sl_total t\<rparr>)))))))))))))"

section \<open>The wrapper\<close>

record stream =
  st_relative_accuracy :: pyfloat
  st_hll_precision :: int
  st_cms_width :: int
  st_cms_depth :: int
  st_deterministic :: bool
  st_backend :: pystream

definition st_init :: "libm \<Rightarrow> pyfloat \<Rightarrow> int \<Rightarrow> int \<Rightarrow> int \<Rightarrow> bool \<Rightarrow> stream result" where
  "st_init L relative_accuracy hll_precision width depth det =
    rbind (sl_init L relative_accuracy hll_precision width depth det) (\<lambda>b.
      Inr \<lparr>st_relative_accuracy = relative_accuracy, st_hll_precision = hll_precision,
           st_cms_width = width, st_cms_depth = depth, st_deterministic = det, st_backend = b\<rparr>)"

definition clone_empty :: "libm \<Rightarrow> stream \<Rightarrow> stream result" where
  "clone_empty L s = st_init L (st_relative_accuracy s) (st_hll_precision s) (st_cms_width s)
     (st_cms_depth s) (st_deterministic s)"

text \<open>A method that only forwards to the engine.\<close>

definition st_lift :: "(pystream \<Rightarrow> pystream result) \<Rightarrow> stream \<Rightarrow> stream result" where
  "st_lift f s = rbind (f (st_backend s)) (\<lambda>b. Inr (s\<lparr>st_backend := b\<rparr>))"

definition st_add_latency :: "libm \<Rightarrow> pyfloat \<Rightarrow> stream \<Rightarrow> stream result" where
  "st_add_latency L value = st_lift (sl_add_latency L value)"

definition st_add_batch :: "libm \<Rightarrow> pyfloat list \<Rightarrow> stream \<Rightarrow> stream result" where
  "st_add_batch L values = st_lift (sl_add_batch L values)"

definition st_percentile :: "libm \<Rightarrow> stream \<Rightarrow> pyfloat \<Rightarrow> pyfloat result" where
  "st_percentile L s q = sl_percentile L (st_backend s) q"

definition st_count_greater_than :: "libm \<Rightarrow> stream \<Rightarrow> pyfloat \<Rightarrow> int result" where
  "st_count_greater_than L s threshold = sl_count_greater_than L (st_backend s) threshold"

definition st_add_event :: "event_key \<Rightarrow> int \<Rightarrow> stream \<Rightarrow> stream result" where
  "st_add_event name count s =
    raise_if (count \<le> 0) (ValueError ''Event count must be strictly positive'')
   (raise_if (count > MAX_INT64) (OverflowError ''Event count exceeds int64 capacity'')
   (raise_if (key_out_of_range name) (ValueError ''Event integer key out of range for 64-bit unsigned'')
   (st_lift (sl_add_event name count) s)))"

definition st_event_count :: "stream \<Rightarrow> event_key \<Rightarrow> int result" where
  "st_event_count s event_name =
    raise_if (key_out_of_range event_name) (ValueError ''Event integer key out of range for 64-bit unsigned'')
      (sl_event_count (st_backend s) event_name)"

definition st_add_unique :: "event_key \<Rightarrow> stream \<Rightarrow> stream result" where
  "st_add_unique item s = (case st_lift (sl_add_unique item) s of
     Inl (TypeError e) \<Rightarrow> if sublist ''incompatible function arguments'' e
       then Inl (ValueError ''Unique integer out of range for 64-bit unsigned'') else Inl (TypeError e)
   | r \<Rightarrow> r)"

definition st_unique_count :: "libm \<Rightarrow> stream \<Rightarrow> int result" where
  "st_unique_count L s = sl_unique_count L (st_backend s)"

definition st_total_events :: "stream \<Rightarrow> int" where
  "st_total_events s = sl_total (st_backend s)"

definition st_latency_count :: "stream \<Rightarrow> int" where
  "st_latency_count s = sl_latency_count (st_backend s)"

definition st_memory_bytes :: "stream \<Rightarrow> int" where
  "st_memory_bytes s = sl_memory_bytes (st_backend s)"

definition st_stats :: "libm \<Rightarrow> stream \<Rightarrow> stats result" where
  "st_stats L s = sl_stats L (st_backend s)"

definition st_reset :: "stream \<Rightarrow> stream" where
  "st_reset s = s\<lparr>st_backend := sl_reset (st_backend s)\<rparr>"

definition st_merge :: "stream \<Rightarrow> stream \<Rightarrow> stream result" where
  "st_merge s t = st_lift (\<lambda>b. sl_merge b (st_backend t)) s"

section \<open>Ingestion as a stream of calls\<close>

datatype sl_op = AddLatency pyfloat | AddBatch "pyfloat list" | AddEvent event_key int | AddUnique event_key

fun st_apply :: "libm \<Rightarrow> sl_op \<Rightarrow> stream \<Rightarrow> stream result" where
  "st_apply L (AddLatency v) s = st_add_latency L v s"
| "st_apply L (AddBatch vs) s = st_add_batch L vs s"
| "st_apply L (AddEvent k n) s = st_add_event k n s"
| "st_apply L (AddUnique k) s = st_add_unique k s"

fun sl_apply :: "libm \<Rightarrow> sl_op \<Rightarrow> pystream \<Rightarrow> pystream result" where
  "sl_apply L (AddLatency v) s = sl_add_latency L v s"
| "sl_apply L (AddBatch vs) s = sl_add_batch L vs s"
| "sl_apply L (AddEvent k n) s = sl_add_event k n s"
| "sl_apply L (AddUnique k) s = sl_add_unique k s"

end
