(* ===== verification/Stream_Laws.thy ===== *)
theory Stream_Laws
  imports Stream_Log
begin

text \<open>
  The meaning of the stream log: its invariant (the event counter is the sum of the latency count
  and the event total), the decomposition of every operation into the operations of the sketches,
  the contract of a mergeable sketch for the engine and for the wrapper, and the memory bound.
\<close>

section \<open>Invariant\<close>

definition sl_inv :: "libm \<Rightarrow> pystream \<Rightarrow> bool" where
  "sl_inv L s \<longleftrightarrow> dd_inv L (sl_latency s) \<and> cms_inv (sl_events s) \<and> hll_inv (sl_uniques s)
     \<and> sl_total s = dd_count (sl_latency s) + cms_total (sl_events s) \<and> sl_total s \<le> MAX_UINT64
     \<and> cms_width (sl_events s) \<le> MAX_CMS_CELLS div cms_depth (sl_events s)"

lemma sl_init_inv:
  assumes "sl_init L a p w d det = Inr s" shows "sl_inv L s \<and> sl_reset s = s"
proof -
  obtain l e u where leu: "dd_init L a = Inr l" "cms_init w d = Inr e" "hll_init p = Inr u"
    and s: "s = \<lparr>sl_latency = l, sl_events = e, sl_uniques = u, sl_total = 0, sl_deterministic = det\<rparr>"
    and w: "w \<le> MAX_CMS_CELLS div d"
    using assms by (auto simp: sl_init_def raise_if_eq_Inr rbind_eq_Inr)
  show ?thesis
    using dd_init_inv [OF leu(1)] dd_init_count [OF leu(1)] cms_init_inv [OF leu(2)]
      cms_init_fresh [OF leu(2)] hll_init_inv [OF leu(3)] hll_init_fresh [OF leu(3)] w
    by (simp add: sl_inv_def s sl_reset_def)
qed

section \<open>Decomposition of the operations\<close>

text \<open>The part of an operation that each sketch sees.\<close>

fun op_values :: "sl_op \<Rightarrow> pyfloat list" where
  "op_values (AddLatency v) = [v]"
| "op_values (AddBatch vs) = vs"
| "op_values _ = []"

fun op_events :: "sl_op \<Rightarrow> (event_key \<times> int) list" where
  "op_events (AddEvent k n) = [(k, n)]"
| "op_events _ = []"

fun op_uniques :: "sl_op \<Rightarrow> event_key list" where
  "op_uniques (AddUnique k) = [k]"
| "op_uniques _ = []"

fun op_keys_ok :: "sl_op \<Rightarrow> bool" where
  "op_keys_ok (AddEvent k n) = (\<not> key_out_of_range k)"
| "op_keys_ok (AddUnique k) = (\<not> key_out_of_range k)"
| "op_keys_ok _ = True"

abbreviation dd_ingest :: "libm \<Rightarrow> pyfloat list \<Rightarrow> ddsketch \<Rightarrow> ddsketch result" where
  "dd_ingest L vs \<equiv> rfold (dd_add L) (map (\<lambda>v. (v, 1)) vs)"

lemma dd_puts_count: "dd_count (dd_puts L xs s) = dd_count s + int (length xs)"
  by (induction xs arbitrary: s) (simp_all add: dd_put_def)

lemma length_finites: "length (finites vs) = length (filter f_isfinite vs)"
  by (simp add: finites_def)

lemma dd_ingest_count:
  "dd_inv L s \<Longrightarrow> dd_ingest L vs s = Inr t \<Longrightarrow> dd_count t = dd_count s + int (length (filter f_isfinite vs))"
  by (auto simp: dd_add_rfold_eq dd_puts_count length_finites)

lemma cms_ingest_total:
  "rfold cms_add ops s = Inr t \<Longrightarrow> cms_total t = cms_total s + sum_list (map snd ops)"
  by (induction ops arbitrary: s) (auto simp: rbind_eq_Inr dest!: cms_add_total)

text \<open>
  On a valid log an operation is the product of the three ingestions, and the event counter stays
  the sum of the latency count and the event total.
\<close>

lemma sl_apply_eq:
  assumes inv: "sl_inv L s"
  shows "sl_apply L op s = Inr t \<longleftrightarrow> op_keys_ok op \<and> (\<exists>l e u.
    dd_ingest L (op_values op) (sl_latency s) = Inr l \<and> rfold cms_add (op_events op) (sl_events s) = Inr e
    \<and> rfold hll_add (op_uniques op) (sl_uniques s) = Inr u
    \<and> dd_count l + cms_total e \<le> MAX_UINT64
    \<and> t = s\<lparr>sl_latency := l, sl_events := e, sl_uniques := u, sl_total := dd_count l + cms_total e\<rparr>)"
proof -
  have dd: "dd_inv L (sl_latency s)" and tot: "sl_total s = dd_count (sl_latency s) + cms_total (sl_events s)"
    "sl_total s \<le> MAX_UINT64" using inv by (auto simp: sl_inv_def)
  show ?thesis
  proof (cases op)
    case (AddLatency v)
    show ?thesis
    proof (cases "dd_add L (v, 1) (sl_latency s)")
      case (Inl err)
      then show ?thesis by (simp add: AddLatency sl_add_latency_def raise_if_def)
    next
      case (Inr l)
      have c: "dd_count l = dd_count (sl_latency s) + (if f_isfinite v then 1 else 0)"
        using dd_ingest_count [OF dd, of "[v]" l] Inr by simp
      show ?thesis
      proof (cases "f_isfinite v")
        case True
        then show ?thesis using tot c by (auto simp: AddLatency sl_add_latency_def raise_if_eq_Inr Inr ac_simps)
      next
        case False
        then show ?thesis using tot c by (simp add: AddLatency sl_add_latency_def Inr) auto
      qed
    qed
  next
    case (AddBatch vs)
    have "dd_add_batch L vs (sl_latency s) = Inr l \<longleftrightarrow> dd_ingest L vs (sl_latency s) = Inr l" for l
      using dd_add_batch_rfold [OF dd, of vs] by (simp add: res_eq_def)
    moreover have "dd_count l = dd_count (sl_latency s) + int (length (filter f_isfinite vs))"
      if "dd_ingest L vs (sl_latency s) = Inr l" for l
      using dd_ingest_count [OF dd that] .
    ultimately show ?thesis using tot
      by (auto simp: AddBatch sl_add_batch_def raise_if_eq_Inr rbind_eq_Inr Let_def)
  next
    case (AddEvent k n)
    have "cms_total e = cms_total (sl_events s) + n" if "cms_add (k, n) (sl_events s) = Inr e" for e
      using cms_add_total [OF that] by simp
    moreover have "0 < n \<and> n \<le> MAX_INT64" if "cms_add (k, n) (sl_events s) = Inr e" for e
      using that by (auto simp: cms_add_def raise_if_eq_Inr)
    ultimately show ?thesis using tot
      by (auto simp: AddEvent sl_add_event_def raise_if_eq_Inr rbind_eq_Inr)
  next
    case (AddUnique k)
    then show ?thesis using tot
      by (auto simp: AddUnique sl_add_unique_def raise_if_eq_Inr rbind_eq_Inr)
  qed
qed

lemma sl_merge_eq:
  "sl_merge s t = Inr v \<longleftrightarrow> sl_total s + sl_total t \<le> MAX_UINT64 \<and> (\<exists>l e u.
    dd_merge (sl_latency s) (sl_latency t) = Inr l \<and> cms_merge (sl_events s) (sl_events t) = Inr e
    \<and> hll_merge (sl_uniques s) (sl_uniques t) = Inr u
    \<and> v = s\<lparr>sl_latency := l, sl_events := e, sl_uniques := u, sl_total := sl_total s + sl_total t\<rparr>)"
  unfolding sl_merge_def dd_merge_def cms_merge_def hll_merge_def Let_def
  by (auto simp: raise_if_eq_Inr rbind_eq_Inr)

section \<open>The contract\<close>

lemma sl_apply_inv:
  assumes inv: "sl_inv L s" and "sl_apply L op s = Inr t"
  shows "sl_inv L t" "sl_reset t = sl_reset s"
proof -
  obtain l e u where leu: "dd_ingest L (op_values op) (sl_latency s) = Inr l"
    "rfold cms_add (op_events op) (sl_events s) = Inr e" "rfold hll_add (op_uniques op) (sl_uniques s) = Inr u"
    and le: "dd_count l + cms_total e \<le> MAX_UINT64"
    and t: "t = s\<lparr>sl_latency := l, sl_events := e, sl_uniques := u, sl_total := dd_count l + cms_total e\<rparr>"
    using assms sl_apply_eq by blast
  have c: "dd_inv L l \<and> dd_reset l = dd_reset (sl_latency s)" "cms_inv e \<and> cms_reset e = cms_reset (sl_events s)"
    "hll_inv u \<and> hll_reset u = hll_reset (sl_uniques s)"
    using inv dd.inv_ingest [OF leu(1)] cms.inv_ingest [OF leu(2)] hll.inv_ingest [OF leu(3)]
    by (auto simp: sl_inv_def)
  then show "sl_reset t = sl_reset s" by (simp add: sl_reset_def t)
  have "cms_width e = cms_width (sl_events s)" "cms_depth e = cms_depth (sl_events s)"
    using c cms_reset_eqD [of e "sl_events s"] by auto
  then show "sl_inv L t" using c le inv by (simp add: sl_inv_def t)
qed

lemma sl_batch_Cons:
  assumes b: "sl_inv L b"
  shows "res_eq (sl_apply L (AddBatch (v # vs)) b) (rbind (sl_apply L (AddLatency v) b) (sl_apply L (AddBatch vs)))"
proof -
  have dd: "dd_inv L (sl_latency b)" using b by (simp add: sl_inv_def)
  have mid: "dd_count l + cms_total (sl_events b) \<le> MAX_UINT64"
    if "dd_add L (v, 1) (sl_latency b) = Inr l" "dd_ingest L vs l = Inr l'"
      "dd_count l' + cms_total (sl_events b) \<le> MAX_UINT64" for l l'
    using dd_ingest_count [OF dd_add_inv(1) [OF dd that(1)] that(2)] that(3) by simp
  have inv: "sl_inv L c" if "sl_apply L (AddLatency v) b = Inr c" for c
    using sl_apply_inv(1) [OF b that] .
  show ?thesis
  proof (rule res_eqI)
    fix c
    have "rbind (sl_apply L (AddLatency v) b) (sl_apply L (AddBatch vs)) = Inr c \<longleftrightarrow>
        (\<exists>m. sl_apply L (AddLatency v) b = Inr m \<and> sl_inv L m \<and> sl_apply L (AddBatch vs) m = Inr c)"
      using inv by (auto simp: rbind_eq_Inr)
    also have "\<dots> \<longleftrightarrow> sl_apply L (AddBatch (v # vs)) b = Inr c"
      using sl_apply_eq [OF b] inv mid
      by (auto simp: sl_apply_eq rbind_eq_Inr simp del: sl_apply.simps)
    finally show "sl_apply L (AddBatch (v # vs)) b = Inr c \<longleftrightarrow>
      rbind (sl_apply L (AddLatency v) b) (sl_apply L (AddBatch vs)) = Inr c" by simp
  qed
qed

lemma sl_merge_inv:
  assumes "sl_inv L s" "sl_inv L t" "sl_merge s t = Inr v"
  shows "sl_inv L v" "sl_reset v = sl_reset s"
proof -
  obtain l e u where m: "dd_merge (sl_latency s) (sl_latency t) = Inr l"
    "cms_merge (sl_events s) (sl_events t) = Inr e" "hll_merge (sl_uniques s) (sl_uniques t) = Inr u"
    and le: "sl_total s + sl_total t \<le> MAX_UINT64"
    and v: "v = s\<lparr>sl_latency := l, sl_events := e, sl_uniques := u, sl_total := sl_total s + sl_total t\<rparr>"
    using assms(3) by (auto simp: sl_merge_eq)
  have i: "dd_inv L (sl_latency s)" "dd_inv L (sl_latency t)" "cms_inv (sl_events s)" "cms_inv (sl_events t)"
    "hll_inv (sl_uniques s)" "hll_inv (sl_uniques t)"
    using assms by (auto simp: sl_inv_def)
  note c = dd.inv_merge [OF i(1,2) m(1)] dd.reset_merge [OF i(1,2) m(1)] cms.inv_merge [OF i(3,4) m(2)]
    cms.reset_merge [OF i(3,4) m(2)] hll.inv_merge [OF i(5,6) m(3)] hll.reset_merge [OF i(5,6) m(3)]
  then show "sl_reset v = sl_reset s" by (simp add: sl_reset_def v)
  have "cms_width e = cms_width (sl_events s)" "cms_depth e = cms_depth (sl_events s)"
    using c cms_reset_eqD [of e "sl_events s"] by auto
  moreover have "dd_count l = dd_count (sl_latency s) + dd_count (sl_latency t)"
    using m(1) by (auto simp: dd_merge_eq [OF i(1,2)] dd_plus_def)
  moreover have "cms_total e = cms_total (sl_events s) + cms_total (sl_events t)"
    using m(2) by (auto simp: cms_merge_def raise_if_eq_Inr rbind_eq_Inr)
  ultimately show "sl_inv L v" using c le assms by (simp add: sl_inv_def v)
qed

lemma sl_reset_inv: "sl_inv L s \<Longrightarrow> sl_inv L (sl_reset s)"
  using dd.inv_reset [of L "sl_latency s"] cms.inv_reset [of "sl_events s"] hll.inv_reset [of "sl_uniques s"]
  by (simp add: sl_inv_def sl_reset_def) (simp add: dd_reset_def cms_reset_def)

lemma sl_reset_parts:
  "sl_reset s = sl_reset t \<Longrightarrow> dd_reset (sl_latency s) = dd_reset (sl_latency t)
    \<and> cms_reset (sl_events s) = cms_reset (sl_events t) \<and> hll_reset (sl_uniques s) = hll_reset (sl_uniques t)"
  by (cases s; cases t) (simp add: sl_reset_def)

lemma sl_merge_neutral:
  assumes "sl_inv L s" shows "sl_merge s (sl_reset s) = Inr s" "sl_merge (sl_reset s) s = Inr s"
  using assms dd.merge_empty [of L "sl_latency s"] cms.merge_empty [of "sl_events s"]
    hll.merge_empty [of "sl_uniques s"] dd.empty_merge [of L "sl_latency s"]
    cms.empty_merge [of "sl_events s"] hll.empty_merge [of "sl_uniques s"]
  by (simp_all add: sl_merge_eq sl_inv_def) (simp_all add: sl_reset_def)

text \<open>The event counter after a merge and after an operation, and its growth.\<close>

lemma merge_counts:
  assumes "dd_inv L l" "dd_inv L l'" "dd_merge l l' = Inr m" shows "dd_count m = dd_count l + dd_count l'"
  using assms(3) by (auto simp: dd_merge_eq [OF assms(1,2)] dd_plus_def)

lemma cms_merge_total: "cms_merge e e' = Inr m \<Longrightarrow> cms_total m = cms_total e + cms_total e'"
  by (auto simp: cms_merge_def raise_if_eq_Inr rbind_eq_Inr)

lemma cms_ingest_nonneg: "rfold cms_add ops s = Inr t \<Longrightarrow> 0 \<le> sum_list (map snd ops)"
  using cms_ops_positive [of ops s t] by (intro sum_list_nonneg) auto

lemma sl_merge_add:
  assumes s: "sl_inv L s" and t: "sl_inv L t" and cfg: "sl_reset s = sl_reset t"
    and add: "sl_apply L op t = Inr t'"
  shows "res_eq (sl_merge s t') (rbind (sl_merge s t) (sl_apply L op))"
proof (rule res_eqI)
  fix v
  let ?dd = "dd_ingest L (op_values op)" and ?cms = "rfold cms_add (op_events op)"
    and ?hll = "rfold hll_add (op_uniques op)"
  have i: "dd_inv L (sl_latency s)" "dd_inv L (sl_latency t)" "cms_inv (sl_events s)" "cms_inv (sl_events t)"
    "hll_inv (sl_uniques s)" "hll_inv (sl_uniques t)" using s t by (auto simp: sl_inv_def)
  note r = sl_reset_parts [OF cfg]
  obtain l e u where leu: "?dd (sl_latency t) = Inr l" "?cms (sl_events t) = Inr e" "?hll (sl_uniques t) = Inr u"
    and keys: "op_keys_ok op"
    and t': "t' = t\<lparr>sl_latency := l, sl_events := e, sl_uniques := u, sl_total := dd_count l + cms_total e\<rparr>"
    using add sl_apply_eq [OF t] by blast
  have parts: "dd_merge (sl_latency s) l = Inr L' \<longleftrightarrow> (\<exists>m. dd_merge (sl_latency s) (sl_latency t) = Inr m \<and> ?dd m = Inr L')"
    "cms_merge (sl_events s) e = Inr E' \<longleftrightarrow> (\<exists>m. cms_merge (sl_events s) (sl_events t) = Inr m \<and> ?cms m = Inr E')"
    "hll_merge (sl_uniques s) u = Inr U' \<longleftrightarrow> (\<exists>m. hll_merge (sl_uniques s) (sl_uniques t) = Inr m \<and> ?hll m = Inr U')"
    for L' E' U'
    using dd.merge_rfold [OF i(1,2) _ leu(1)] cms.merge_rfold [OF i(3,4) _ leu(2)]
      hll.merge_rfold [OF i(5,6) _ leu(3)] r by (simp_all add: res_eq_def rbind_eq_Inr)
  let ?k = "int (length (filter f_isfinite (op_values op))) + sum_list (map snd (op_events op))"
  have k: "sl_total t' = sl_total t + ?k" "0 \<le> ?k"
    using dd_ingest_count [OF i(2) leu(1)] cms_ingest_total [OF leu(2)] cms_ingest_nonneg [OF leu(2)] t
    by (simp_all add: t' sl_inv_def)
  show "sl_merge s t' = Inr v \<longleftrightarrow> rbind (sl_merge s t) (sl_apply L op) = Inr v"
  proof
    assume "sl_merge s t' = Inr v"
    then obtain L' E' U' where m: "dd_merge (sl_latency s) l = Inr L'" "cms_merge (sl_events s) e = Inr E'"
      "hll_merge (sl_uniques s) u = Inr U'" and le: "sl_total s + sl_total t' \<le> MAX_UINT64"
      and v: "v = s\<lparr>sl_latency := L', sl_events := E', sl_uniques := U', sl_total := sl_total s + sl_total t'\<rparr>"
      by (auto simp: sl_merge_eq t')
    from m obtain l0 e0 u0 where m0: "dd_merge (sl_latency s) (sl_latency t) = Inr l0"
      "cms_merge (sl_events s) (sl_events t) = Inr e0" "hll_merge (sl_uniques s) (sl_uniques t) = Inr u0"
      and a0: "?dd l0 = Inr L'" "?cms e0 = Inr E'" "?hll u0 = Inr U'" unfolding parts by blast
    let ?w = "s\<lparr>sl_latency := l0, sl_events := e0, sl_uniques := u0, sl_total := sl_total s + sl_total t\<rparr>"
    have w: "sl_merge s t = Inr ?w" using m0 le k by (simp add: sl_merge_eq)
    have wi: "sl_inv L ?w" using sl_merge_inv(1) [OF s t w] .
    have "dd_count L' + cms_total E' = sl_total s + sl_total t'"
      using dd_ingest_count [OF _ a0(1)] cms_ingest_total [OF a0(2)] wi k(1) by (simp add: sl_inv_def)
    then show "rbind (sl_merge s t) (sl_apply L op) = Inr v"
      using sl_apply_eq [OF wi, of op v] a0 keys le by (simp add: w v)
  next
    assume "rbind (sl_merge s t) (sl_apply L op) = Inr v"
    then obtain w where w: "sl_merge s t = Inr w" and a: "sl_apply L op w = Inr v" by (auto simp: rbind_eq_Inr)
    note wi = sl_merge_inv(1) [OF s t w]
    obtain L' E' U' where a0: "?dd (sl_latency w) = Inr L'" "?cms (sl_events w) = Inr E'" "?hll (sl_uniques w) = Inr U'"
      and le: "dd_count L' + cms_total E' \<le> MAX_UINT64"
      and v: "v = w\<lparr>sl_latency := L', sl_events := E', sl_uniques := U', sl_total := dd_count L' + cms_total E'\<rparr>"
      using a sl_apply_eq [OF wi] by blast
    have m: "dd_merge (sl_latency s) l = Inr L'" "cms_merge (sl_events s) e = Inr E'" "hll_merge (sl_uniques s) u = Inr U'"
      using w a0 unfolding parts by (auto simp: sl_merge_eq)
    have "dd_count L' + cms_total E' = sl_total s + sl_total t'"
      using dd_ingest_count [OF _ a0(1)] cms_ingest_total [OF a0(2)] wi k(1) w by (auto simp: sl_inv_def sl_merge_eq)
    then show "sl_merge s t' = Inr v"
      using m le w by (auto simp: sl_merge_eq v t')
  qed
qed

interpretation slog: mergeable_sketch "sl_apply L" sl_merge sl_reset "sl_inv L" for L
proof
  fix s t u x
  show "sl_inv L s \<Longrightarrow> sl_inv L (sl_reset s)" by (rule sl_reset_inv)
  show "sl_inv L s \<Longrightarrow> sl_apply L x s = Inr t \<Longrightarrow> sl_inv L t" by (rule sl_apply_inv)
  show "sl_inv L s \<Longrightarrow> sl_apply L x s = Inr t \<Longrightarrow> sl_reset t = sl_reset s" by (rule sl_apply_inv)
  show "sl_inv L s \<Longrightarrow> sl_inv L t \<Longrightarrow> sl_merge s t = Inr u \<Longrightarrow> sl_inv L u" by (rule sl_merge_inv)
  show "sl_inv L s \<Longrightarrow> sl_inv L t \<Longrightarrow> sl_merge s t = Inr u \<Longrightarrow> sl_reset u = sl_reset s" by (rule sl_merge_inv)
  show "sl_reset (sl_reset s) = sl_reset s"
    by (simp add: sl_reset_def dd.reset_reset cms.reset_reset hll.reset_reset)
qed (simp_all add: sl_merge_neutral sl_merge_add)

section \<open>The wrapper\<close>

definition st_inv :: "libm \<Rightarrow> stream \<Rightarrow> bool" where
  "st_inv L s \<longleftrightarrow> sl_inv L (st_backend s)
     \<and> st_relative_accuracy s = dd_alpha (sl_latency (st_backend s))
     \<and> st_hll_precision s = int (hll_p (sl_uniques (st_backend s)))
     \<and> st_cms_width s = cms_width (sl_events (st_backend s))
     \<and> st_cms_depth s = cms_depth (sl_events (st_backend s))
     \<and> st_deterministic s = sl_deterministic (st_backend s)"

lemma hll_add_no_type_error: "hll_add k s \<noteq> Inl (TypeError e)"
  by (auto simp: hll_add_def hll_hash_def rbind_eq_Inl raise_if_def Let_def split: event_key.splits)

text \<open>The wrapper's own checks repeat those of the engine, so every call is the engine's call.\<close>

lemma st_apply_lift: "st_apply L op s = st_lift (sl_apply L op) s"
proof (cases op)
  case (AddEvent k n)
  then show ?thesis by (simp add: st_add_event_def st_lift_def sl_add_event_def raise_if_def)
next
  case (AddUnique k)
  have "st_lift (sl_add_unique k) s \<noteq> Inl (TypeError e)" for e
    using hll_add_no_type_error
    by (simp add: st_lift_def sl_add_unique_def rbind_eq_Inl raise_if_def)
  then show ?thesis
    unfolding AddUnique st_apply.simps sl_apply.simps st_add_unique_def
    by (cases "st_lift (sl_add_unique k) s") (auto split: py_error.splits)
qed (simp_all add: st_add_latency_def st_add_batch_def st_lift_def)

lemma st_lift_eq_Inr: "st_lift f s = Inr t \<longleftrightarrow> (\<exists>b. f (st_backend s) = Inr b \<and> t = s\<lparr>st_backend := b\<rparr>)"
  by (auto simp: st_lift_def rbind_eq_Inr)

text \<open>The configuration that the wrapper keeps is the one a reset engine shows.\<close>

lemma sl_reset_config:
  assumes "sl_reset b = sl_reset c"
  shows "dd_alpha (sl_latency b) = dd_alpha (sl_latency c)" "hll_p (sl_uniques b) = hll_p (sl_uniques c)"
    "cms_width (sl_events b) = cms_width (sl_events c)" "cms_depth (sl_events b) = cms_depth (sl_events c)"
    "sl_deterministic b = sl_deterministic c"
proof -
  note r = sl_reset_parts [OF assms]
  show "hll_p (sl_uniques b) = hll_p (sl_uniques c)" using r hll_reset_eqD by blast
  show "cms_width (sl_events b) = cms_width (sl_events c)" "cms_depth (sl_events b) = cms_depth (sl_events c)"
    using r cms_reset_eqD by blast+
  show "sl_deterministic b = sl_deterministic c" using assms by (cases b; cases c) (simp add: sl_reset_def)
  have "dd_alpha (dd_reset l) = dd_alpha l" for l by (simp add: dd_reset_def)
  then show "dd_alpha (sl_latency b) = dd_alpha (sl_latency c)" using r by metis
qed

lemma st_inv_update:
  assumes "st_inv L s" "sl_inv L b" "sl_reset b = sl_reset (st_backend s)"
  shows "st_inv L (s\<lparr>st_backend := b\<rparr>) \<and> st_reset (s\<lparr>st_backend := b\<rparr>) = st_reset s"
  using assms sl_reset_config [OF assms(3)] by (simp add: st_inv_def st_reset_def)

lemma st_reset_backend: "st_reset s = st_reset t \<Longrightarrow> sl_reset (st_backend s) = sl_reset (st_backend t)"
  by (cases s; cases t) (simp add: st_reset_def)

lemma st_init_inv:
  assumes "st_init L a p w d det = Inr s" shows "st_inv L s \<and> st_reset s = s"
proof -
  obtain b where b: "sl_init L a p w d det = Inr b" and
    s: "s = \<lparr>st_relative_accuracy = a, st_hll_precision = p, st_cms_width = w, st_cms_depth = d,
          st_deterministic = det, st_backend = b\<rparr>"
    using assms by (auto simp: st_init_def rbind_eq_Inr)
  obtain l e u where leu: "dd_init L a = Inr l" "cms_init w d = Inr e" "hll_init p = Inr u"
    and b': "b = \<lparr>sl_latency = l, sl_events = e, sl_uniques = u, sl_total = 0, sl_deterministic = det\<rparr>"
    using b by (auto simp: sl_init_def raise_if_eq_Inr rbind_eq_Inr)
  show ?thesis
    using sl_init_inv [OF b] dd_init_inv [OF leu(1)] cms_init_fresh [OF leu(2)] hll_init_fresh [OF leu(3)]
    by (simp add: st_inv_def st_reset_def s b')
qed

lemma st_inv_backend: "st_inv L s \<Longrightarrow> sl_inv L (st_backend s)"
  by (simp add: st_inv_def)

lemma sl_init_parts:
  assumes inv: "sl_inv L s"
  shows "sl_init L (dd_alpha (sl_latency s)) (int (hll_p (sl_uniques s))) (cms_width (sl_events s))
    (cms_depth (sl_events s)) (sl_deterministic s) = Inr (sl_reset s)"
proof -
  have "dd_init L (dd_alpha (sl_latency s)) = Inr (dd_reset (sl_latency s))"
    "cms_init (cms_width (sl_events s)) (cms_depth (sl_events s)) = Inr (cms_reset (sl_events s))"
    "hll_init (int (hll_p (sl_uniques s))) = Inr (hll_reset (sl_uniques s))"
    using inv by (simp_all add: sl_inv_def dd_inv_def cms_inv_def cms_init_def cms_reset_def hll_inv_def hll_init_def
        hll_reset_def Let_def)
  then show ?thesis using inv by (simp add: sl_init_def sl_inv_def cms_inv_def sl_reset_def)
qed

text \<open>A fresh clone always succeeds, and is the log itself after a reset.\<close>

lemma clone_empty_eq:
  assumes "st_inv L s" shows "clone_empty L s = Inr (st_reset s)"
  using sl_init_parts [OF st_inv_backend [OF assms]] assms
  by (simp add: clone_empty_def st_init_def st_inv_def st_reset_def)

lemma st_lift_inv:
  assumes s: "st_inv L s" and "st_lift f s = Inr t"
    and f: "\<And>b. f (st_backend s) = Inr b \<Longrightarrow> sl_inv L b \<and> sl_reset b = sl_reset (st_backend s)"
  shows "st_inv L t \<and> st_reset t = st_reset s"
proof -
  obtain b where b: "f (st_backend s) = Inr b" and t: "t = s\<lparr>st_backend := b\<rparr>"
    using assms(2) by (auto simp: st_lift_eq_Inr)
  show ?thesis unfolding t using f [OF b] by (intro st_inv_update [OF s]) simp_all
qed

lemma st_apply_inv:
  assumes "st_inv L s" "st_apply L op s = Inr t" shows "st_inv L t \<and> st_reset t = st_reset s"
  using st_lift_inv [OF assms [unfolded st_apply_lift]] sl_apply_inv [OF st_inv_backend [OF assms(1)]]
  by blast

lemma st_merge_inv:
  assumes "st_inv L s" "st_inv L t" "st_merge s t = Inr u" shows "st_inv L u \<and> st_reset u = st_reset s"
  using st_lift_inv [OF assms(1) assms(3) [unfolded st_merge_def]]
    sl_merge_inv [OF assms(1,2) [THEN st_inv_backend]] by blast

interpretation st: mergeable_sketch "st_apply L" st_merge st_reset "st_inv L" for L
proof
  fix s t u x t'
  show "st_inv L s \<Longrightarrow> st_inv L (st_reset s)"
    using sl_reset_inv [of L "st_backend s"] slog.reset_reset [of "st_backend s"]
      st_inv_update [of L s "sl_reset (st_backend s)"] by (simp add: st_reset_def st_inv_def)
  show "st_reset (st_reset s) = st_reset s" by (simp add: st_reset_def slog.reset_reset)
  show "st_inv L s \<Longrightarrow> st_apply L x s = Inr t \<Longrightarrow> st_inv L t"
    and "st_inv L s \<Longrightarrow> st_apply L x s = Inr t \<Longrightarrow> st_reset t = st_reset s"
    using st_apply_inv [of L s x t] by simp_all
  show "st_inv L s \<Longrightarrow> st_inv L t \<Longrightarrow> st_merge s t = Inr u \<Longrightarrow> st_inv L u"
    and "st_inv L s \<Longrightarrow> st_inv L t \<Longrightarrow> st_merge s t = Inr u \<Longrightarrow> st_reset u = st_reset s"
    using st_merge_inv [of L s t u] by simp_all
  show "st_inv L s \<Longrightarrow> st_merge s (st_reset s) = Inr s" and "st_inv L s \<Longrightarrow> st_merge (st_reset s) s = Inr s"
    by (simp_all add: st_merge_def st_lift_def st_reset_def sl_merge_neutral [OF st_inv_backend])
  show "res_eq (st_merge s t') (rbind (st_merge s t) (st_apply L x))"
    if "st_inv L s" "st_inv L t" "st_reset s = st_reset t" "st_apply L x t = Inr t'"
  proof -
    have "res_eq (sl_merge (st_backend s) (st_backend t'))
        (rbind (sl_merge (st_backend s) (st_backend t)) (sl_apply L x))"
      using that st_reset_backend [OF that(3)]
      by (intro sl_merge_add) (auto simp: st_inv_def st_apply_lift st_lift_eq_Inr)
    then have "st_merge s t' = Inr v \<longleftrightarrow> rbind (st_merge s t) (st_apply L x) = Inr v" for v
      unfolding res_eq_def rbind_eq_Inr st_merge_def st_lift_eq_Inr st_apply_lift by auto
    then show ?thesis by (rule res_eqI)
  qed
qed

section \<open>Properties\<close>

lemma st_ingest_inv:
  "st_init L a p w d det = Inr e \<Longrightarrow> rfold (st_apply L) ops e = Inr s \<Longrightarrow> st_inv L s \<and> st_reset s = e"
  using st.inv_ingest [of L ops e s] st_init_inv [of L a p w d det e] by simp

text \<open>
  C1: Aggregation is distributive.  Ingesting two streams of calls into two logs of the same
  configuration and merging them succeeds exactly when one log accepts the concatenated stream, and
  then gives that log: every sketch and counter is the same.
\<close>

theorem stream_merge_is_concat:
  assumes "st_init L a p w d det = Inr e" and "rfold (st_apply L) xs e = Inr s"
    and "rfold (st_apply L) ys e = Inr t"
  shows "res_eq (st_merge s t) (rfold (st_apply L) (xs @ ys) e)"
  using st.merge_ingest [of L e xs s ys t] st_init_inv [OF assms(1)] assms by simp

text \<open>
  C24: Whatever was ingested, the event counter of a log is the number of recorded latencies plus the
  total of the recorded event counts, and stays within 64 bits.
\<close>

theorem stream_total_consistent:
  assumes "st_init L a p w d det = Inr e" and "rfold (st_apply L) ops e = Inr s"
  shows "st_total_events s = st_latency_count s + cms_total (sl_events (st_backend s))
    \<and> 0 \<le> st_latency_count s \<and> st_total_events s \<le> MAX_UINT64"
  using st_ingest_inv [OF assms] dd_inv_count [of L "sl_latency (st_backend s)"]
  by (auto simp: st_inv_def sl_inv_def st_total_events_def st_latency_count_def sl_latency_count_def)

text \<open>
  C25: The bulk call on a log is equivalent to recording the latencies one by one: both succeed with
  the same log, or both raise.
\<close>

theorem stream_batch_equiv:
  assumes "st_init L a p w d det = Inr e" and "rfold (st_apply L) ops e = Inr s"
  shows "res_eq (st_add_batch L vs s) (rfold (st_apply L) (map AddLatency vs) s)"
proof -
  have inv: "st_inv L s" using st_ingest_inv [OF assms] by simp
  have "st_apply L (AddBatch vs) s = Inr t \<longleftrightarrow> rfold (st_apply L) (map AddLatency vs) s = Inr t" for t
    using inv
  proof (induction vs arbitrary: s)
    case Nil
    show ?case using sl_apply_eq [OF st_inv_backend [OF Nil], of "AddBatch []"] st_inv_backend [OF Nil]
      by (auto simp: st_apply_lift st_lift_eq_Inr sl_inv_def)
  next
    case (Cons v vs)
    have step: "sl_apply L (AddBatch (v # vs)) b = Inr c \<longleftrightarrow>
        rbind (sl_apply L (AddLatency v) b) (sl_apply L (AddBatch vs)) = Inr c" if b: "sl_inv L b" for b c
      using sl_batch_Cons [OF b, of v vs] by (simp add: res_eq_def)
    have "st_apply L (AddBatch (v # vs)) s = Inr t \<longleftrightarrow>
        rbind (st_apply L (AddLatency v) s) (st_apply L (AddBatch vs)) = Inr t" for t
      using step [OF st_inv_backend [OF Cons.prems]]
      by (auto simp: st_apply_lift st_lift_eq_Inr rbind_eq_Inr)
    then show ?case using Cons.IH st_apply_inv [OF Cons.prems, of "AddLatency v"] by (auto simp: rbind_eq_Inr)
  qed
  then show ?thesis by (intro res_eqI) simp
qed

text \<open>
  A log uses constant memory: whatever was ingested, the reported size is bounded by its
  configuration alone, and never exceeds 8,311,456 bytes.
\<close>

lemma stream_memory_bounded:
  assumes "st_init L a p w d det = Inr e" and "rfold (st_apply L) ops e = Inr s"
  shows "st_memory_bytes s \<le> (64 + 2048 * 24) + (64 + 8 * (w * d)) + (32 + 2 ^ nat p)
    \<and> st_memory_bytes s \<le> 8311456"
proof -
  let ?b = "st_backend s"
  have inv: "st_inv L s" and cfg: "st_reset s = e" using st_ingest_inv [OF assms] by auto
  have e: "st_hll_precision e = p" "st_cms_width e = w" "st_cms_depth e = d"
    using assms(1) by (auto simp: st_init_def rbind_eq_Inr)
  have p: "int (hll_p (sl_uniques ?b)) = p" "cms_width (sl_events ?b) = w" "cms_depth (sl_events ?b) = d"
    using inv e by (auto simp: st_inv_def st_reset_def simp flip: cfg)
  have parts: "dd_fits (sl_latency ?b)" "cms_inv (sl_events ?b)" "hll_inv (sl_uniques ?b)" "w \<le> MAX_CMS_CELLS div d"
    using inv p by (auto simp: st_inv_def sl_inv_def dd_inv_def)
  have dd: "dd_memory_bytes (sl_latency ?b) \<le> 64 + 2048 * 24"
    using parts(1) by (auto simp: dd_memory_bytes_def dd_fits_def bins_fit_def MAX_BINS_def)
  have h: "hll_memory_bytes (sl_uniques ?b) = 32 + 2 ^ nat p" "(2 :: int) ^ nat p \<le> 2 ^ 18"
    using parts(3) power_increasing [of "hll_p (sl_uniques ?b)" 18 "2 :: int"]
    by (simp_all add: hll_memory_bytes_def hll_inv_def flip: p(1))
  have c: "cms_memory_bytes (sl_events ?b) = 64 + 8 * (w * d)" using p by (simp add: cms_memory_bytes_def)
  have d: "0 < d" using parts(2) p by (simp add: cms_inv_def)
  have "w * d \<le> MAX_CMS_CELLS div d * d" using parts(4) d by simp
  also have "\<dots> \<le> MAX_CMS_CELLS" using pos_mod_sign [OF d, of MAX_CMS_CELLS]
    by (simp add: minus_mod_eq_div_mult [symmetric])
  finally have "w * d \<le> 1000000" by (simp add: MAX_CMS_CELLS_def)
  then show ?thesis using dd h c by (simp add: st_memory_bytes_def sl_memory_bytes_def)
qed

text \<open>
  Cloning a log never fails, and the clone is the empty log of the same configuration, so the
  clone and the log can be merged.
\<close>

lemma stream_clone_empty:
  assumes "st_init L a p w d det = Inr e" and "rfold (st_apply L) ops e = Inr s"
  shows "clone_empty L s = Inr e \<and> st_merge s e = Inr s \<and> st_merge e s = Inr s"
proof -
  have inv: "st_inv L s" and cfg: "st_reset s = e" using st_ingest_inv [OF assms] by auto
  show ?thesis using clone_empty_eq [OF inv] st.merge_empty [OF inv] st.empty_merge [OF inv] by (simp add: cfg)
qed

text \<open>A concrete log for the examples.\<close>

definition demo_ops :: "sl_op list" where
  "demo_ops = [AddLatency (Fin 2), AddUnique (KInt 7), AddEvent (KStr ''a'') 3]"

lemma demo_stream:
  obtains e s where "st_init libm_demo (Fin (1/2)) 4 4 2 True = Inr e"
    "rfold (st_apply libm_demo) demo_ops e = Inr s"
proof -
  have "is_ok (rbind (st_init libm_demo (Fin (1/2)) 4 4 2 True) (rfold (st_apply libm_demo) demo_ops))"
    by code_simp
  then show ?thesis using that by (auto simp: is_ok_iff rbind_eq_Inr)
qed

theorem stream_merge_is_concat_witness:
  "\<exists>e s. st_init libm_demo (Fin (1/2)) 4 4 2 True = Inr e \<and> rfold (st_apply libm_demo) demo_ops e = Inr s
    \<and> res_eq (st_merge s s) (rfold (st_apply libm_demo) (demo_ops @ demo_ops) e)"
  by (rule demo_stream) (use stream_merge_is_concat in blast)

theorem stream_total_consistent_witness:
  "\<exists>e s. st_init libm_demo (Fin (1/2)) 4 4 2 True = Inr e \<and> rfold (st_apply libm_demo) demo_ops e = Inr s
    \<and> st_total_events s = st_latency_count s + cms_total (sl_events (st_backend s))"
  by (rule demo_stream) (use stream_total_consistent in blast)

theorem stream_batch_equiv_witness:
  "\<exists>e s. st_init libm_demo (Fin (1/2)) 4 4 2 True = Inr e \<and> rfold (st_apply libm_demo) demo_ops e = Inr s
    \<and> res_eq (st_add_batch libm_demo [Fin 1, PInf] s)
      (rfold (st_apply libm_demo) (map AddLatency [Fin 1, PInf]) s)"
  by (rule demo_stream) (use stream_batch_equiv in blast)

end
