(* ===== verification/PyValue.thy ===== *)
theory PyValue
  imports PyFloat
begin

text \<open>
  Python values as they come out of \<^verbatim>\<open>json.loads\<close> or go into \<^verbatim>\<open>json.dumps\<close>, the accessors that the
  deserializers use on them, and decimal notation of integers.
\<close>

section \<open>Values\<close>

datatype pyval =
    PNone
  | PBool bool
  | PInt int
  | PFloat pyfloat
  | PStr string
  | PList "pyval list"
  | PDict "(pyval \<times> pyval) list"

type_synonym pydict = "(pyval \<times> pyval) list"

text \<open>\<^verbatim>\<open>d.get(key)\<close>, \<^verbatim>\<open>d.get(key, default)\<close> and \<^verbatim>\<open>d[key]\<close> for a string key.\<close>

definition d_get :: "pydict \<Rightarrow> string \<Rightarrow> pyval \<Rightarrow> pyval" where
  "d_get d k dflt = (case map_of d (PStr k) of None \<Rightarrow> dflt | Some v \<Rightarrow> v)"

definition d_item :: "pydict \<Rightarrow> string \<Rightarrow> pyval result" where
  "d_item d k = (case map_of d (PStr k) of None \<Rightarrow> Inl (KeyError k) | Some v \<Rightarrow> Inr v)"

text \<open>Checked conversions: \<^verbatim>\<open>type(v) is int\<close> excludes booleans.\<close>

fun as_int :: "py_error \<Rightarrow> pyval \<Rightarrow> int result" where
  "as_int e (PInt n) = Inr n"
| "as_int e _ = Inl e"

fun as_bool :: "py_error \<Rightarrow> pyval \<Rightarrow> bool result" where
  "as_bool e (PBool b) = Inr b"
| "as_bool e _ = Inl e"

fun as_dict :: "py_error \<Rightarrow> pyval \<Rightarrow> pydict result" where
  "as_dict e (PDict d) = Inr d"
| "as_dict e _ = Inl e"

fun as_list :: "py_error \<Rightarrow> pyval \<Rightarrow> pyval list result" where
  "as_list e (PList xs) = Inr xs"
| "as_list e _ = Inl e"

text \<open>A number: an integer keeps its exact value in comparisons, and is rounded where a float is needed.\<close>

fun num_value :: "pyval \<Rightarrow> pyfloat" where
  "num_value (PInt n) = Fin (of_int n)"
| "num_value (PFloat f) = f"
| "num_value _ = NaN"

fun num_float :: "pyval \<Rightarrow> pyfloat" where
  "num_float (PInt n) = f_of_int n"
| "num_float (PFloat f) = f"
| "num_float _ = NaN"

fun num_neg :: "pyval \<Rightarrow> pyval" where
  "num_neg (PInt n) = PInt (- n)"
| "num_neg (PFloat f) = PFloat (f_neg f)"
| "num_neg v = v"

fun is_number :: "pyval \<Rightarrow> bool" where
  "is_number (PInt n) = True"
| "is_number (PFloat f) = True"
| "is_number _ = False"

fun num_isfinite :: "pyval \<Rightarrow> bool result" where
  "num_isfinite (PInt n) = raise_if (f_isinf (f_of_int n)) (OverflowError ''int too large to convert to float'') (Inr True)"
| "num_isfinite (PFloat f) = Inr (f_isfinite f)"
| "num_isfinite _ = Inl (TypeError ''must be real number'')"

text \<open>The truth value of a value, and of an optional string.\<close>

fun py_truth :: "pyval \<Rightarrow> bool" where
  "py_truth PNone = False"
| "py_truth (PBool b) = b"
| "py_truth (PInt n) = (n \<noteq> 0)"
| "py_truth (PFloat f) = (f \<noteq> Fin 0)"
| "py_truth (PStr s) = (s \<noteq> [])"
| "py_truth (PList xs) = (xs \<noteq> [])"
| "py_truth (PDict d) = (d \<noteq> [])"

definition opt_truth :: "string option \<Rightarrow> bool" where
  "opt_truth v = (case v of None \<Rightarrow> False | Some s \<Rightarrow> s \<noteq> [])"

lemma d_get_simps [simp]:
  "d_get [] k x = x"
  "d_get ((PStr k', v) # d) k x = (if k = k' then v else d_get d k x)"
  by (simp_all add: d_get_def)

lemma d_item_simps [simp]:
  "d_item [] k = Inl (KeyError k)"
  "d_item ((PStr k', v) # d) k = (if k = k' then Inr v else d_item d k)"
  by (simp_all add: d_item_def)

lemma as_int_eq [res_simps]: "as_int e v = Inr n \<longleftrightarrow> v = PInt n" by (cases v) auto
lemma as_bool_eq [res_simps]: "as_bool e v = Inr b \<longleftrightarrow> v = PBool b" by (cases v) auto
lemma as_dict_eq [res_simps]: "as_dict e v = Inr d \<longleftrightarrow> v = PDict d" by (cases v) auto
lemma as_list_eq [res_simps]: "as_list e v = Inr xs \<longleftrightarrow> v = PList xs" by (cases v) auto

section \<open>Decimal integers\<close>

definition digit_char :: "nat \<Rightarrow> char" where
  "digit_char n = char_of (48 + n)"

definition char_digit :: "char \<Rightarrow> nat option" where
  "char_digit c = (let n = of_char c :: nat in if 48 \<le> n \<and> n \<le> 57 then Some (n - 48) else None)"

fun nat_str :: "nat \<Rightarrow> string" where
  "nat_str n = (if n < 10 then [digit_char n] else nat_str (n div 10) @ [digit_char (n mod 10)])"

declare nat_str.simps [simp del]

text \<open>\<^verbatim>\<open>str(i)\<close> and the part of \<^verbatim>\<open>int(s)\<close> that can print back to the same text.\<close>

definition int_str :: "int \<Rightarrow> string" where
  "int_str i = (if i < 0 then CHR ''-'' # nat_str (nat (- i)) else nat_str (nat i))"

fun parse_digits :: "nat \<Rightarrow> string \<Rightarrow> nat option" where
  "parse_digits acc [] = Some acc"
| "parse_digits acc (c # cs) = (case char_digit c of None \<Rightarrow> None | Some d \<Rightarrow> parse_digits (10 * acc + d) cs)"

definition parse_int :: "string \<Rightarrow> int option" where
  "parse_int s = (case s of
     [] \<Rightarrow> None
   | c # cs \<Rightarrow> if c = CHR ''-'' then (if cs = [] then None else map_option (\<lambda>n. - int n) (parse_digits 0 cs))
               else map_option int (parse_digits 0 s))"

lemma char_digit_digit_char [simp]: "n < 10 \<Longrightarrow> char_digit (digit_char n) = Some n"
  by (simp add: char_digit_def digit_char_def Let_def of_char_of)

lemma parse_digits_append:
  "parse_digits acc (xs @ ys) = (case parse_digits acc xs of None \<Rightarrow> None | Some a \<Rightarrow> parse_digits a ys)"
  by (induction xs arbitrary: acc) (auto split: option.splits)

lemma parse_nat_str: "parse_digits 0 (nat_str n) = Some n"
proof (induction n rule: nat_str.induct)
  case (1 n)
  then show ?case by (subst nat_str.simps) (simp add: parse_digits_append)
qed

lemma nat_str_not_minus: "nat_str n \<noteq> [] \<and> hd (nat_str n) \<noteq> CHR ''-''"
proof (induction n rule: nat_str.induct)
  case (1 n)
  have "digit_char k \<noteq> CHR ''-''" if "k < 10" for k
    using char_digit_digit_char [OF that] by (auto simp: char_digit_def Let_def)
  with 1 show ?case by (subst (1 2) nat_str.simps) auto
qed

lemma parse_int_str: "parse_int (int_str i) = Some i"
proof (cases "i < 0")
  case True
  then show ?thesis using nat_str_not_minus by (simp add: parse_int_def int_str_def parse_nat_str)
next
  case False
  obtain c cs where "nat_str (nat i) = c # cs" "c \<noteq> CHR ''-''"
    using nat_str_not_minus [of "nat i"] by (cases "nat_str (nat i)") auto
  then show ?thesis using False parse_nat_str [of "nat i"] by (simp add: parse_int_def int_str_def)
qed

lemma int_str_inject [simp]: "int_str i = int_str j \<longleftrightarrow> i = j"
  using parse_int_str by (metis option.inject)

section \<open>A JSON round trip\<close>

text \<open>
  \<^verbatim>\<open>json.loads(json.dumps(v))\<close> for a value without unusual keys: integer keys of an object come back
  as their decimal text; numbers, text and lists come back unchanged.
\<close>

fun json_key :: "pyval \<Rightarrow> pyval" where
  "json_key (PInt n) = PStr (int_str n)"
| "json_key v = v"

fun json_trip :: "pyval \<Rightarrow> pyval" where
  "json_trip (PList xs) = PList (map json_trip xs)"
| "json_trip (PDict d) = PDict (map (\<lambda>(k, v). (json_key k, json_trip v)) d)"
| "json_trip v = v"

section \<open>Text\<close>

text \<open>\<^verbatim>\<open>strip\<close> and \<^verbatim>\<open>lower\<close> on ASCII text.\<close>

definition is_space :: "char \<Rightarrow> bool" where
  "is_space c \<longleftrightarrow> (let n = of_char c :: nat in n = 32 \<or> (9 \<le> n \<and> n \<le> 13) \<or> (28 \<le> n \<and> n \<le> 31))"

definition py_strip :: "string \<Rightarrow> string" where
  "py_strip s = rev (dropWhile is_space (rev (dropWhile is_space s)))"

definition char_lower :: "char \<Rightarrow> char" where
  "char_lower c = (let n = of_char c :: nat in if 65 \<le> n \<and> n \<le> 90 then char_of (n + 32) else c)"

fun py_join :: "string \<Rightarrow> string list \<Rightarrow> string" where
  "py_join sep [] = []"
| "py_join sep [x] = x"
| "py_join sep (x # xs) = x @ sep @ py_join sep xs"

text \<open>\<^verbatim>\<open>if b: errors.append(x)\<close> on a fresh list.\<close>

definition msg_if :: "bool \<Rightarrow> 'a \<Rightarrow> 'a list" where
  "msg_if b x = (if b then [x] else [])"

lemma msg_if_simps [simp]: "msg_if True x = [x]" "msg_if False x = []" "msg_if b x = [] \<longleftrightarrow> \<not> b"
  by (auto simp: msg_if_def)

lemma set_msg_if [simp]: "set (msg_if b x) = (if b then {x} else {})"
  by (cases b) simp_all

definition py_lower :: "string \<Rightarrow> string" where
  "py_lower s = map char_lower s"

text \<open>
  \<^verbatim>\<open>float(s)\<close>: an optional sign, then infinity, a NaN or a decimal number; digits may be grouped with
  single underscores.
\<close>

fun digit_part :: "string \<Rightarrow> nat list \<times> string" where
  "digit_part [] = ([], [])"
| "digit_part (c # cs) = (case char_digit c of
     None \<Rightarrow> ([], c # cs)
   | Some d \<Rightarrow> (case cs of
       CHR ''_'' # c' # cs' \<Rightarrow> (if char_digit c' = None then ([d], cs)
          else (case digit_part (c' # cs') of (ds, r) \<Rightarrow> (d # ds, r)))
     | _ \<Rightarrow> (case digit_part cs of (ds, r) \<Rightarrow> (d # ds, r))))"

definition digits_value :: "nat list \<Rightarrow> nat" where
  "digits_value ds = foldl (\<lambda>a d. 10 * a + d) 0 ds"

fun split_sign :: "string \<Rightarrow> bool \<times> string" where
  "split_sign [] = (False, [])"
| "split_sign (c # cs) = (if c = CHR ''-'' then (True, cs) else if c = CHR ''+'' then (False, cs) else (False, c # cs))"

definition parse_exponent :: "string \<Rightarrow> int option" where
  "parse_exponent s = (case s of
     [] \<Rightarrow> Some 0
   | c # cs \<Rightarrow> if c = CHR ''e'' then (case split_sign cs of (neg, r) \<Rightarrow> (case digit_part r of (ds, r') \<Rightarrow>
        if ds = [] \<or> r' \<noteq> [] then None else Some (if neg then - int (digits_value ds) else int (digits_value ds))))
      else None)"

definition parse_decimal :: "string \<Rightarrow> rat option" where
  "parse_decimal s = (case digit_part s of (whole, r) \<Rightarrow>
     (case (case r of c # r' \<Rightarrow> if c = CHR ''.'' then digit_part r' else ([], r) | [] \<Rightarrow> ([], [])) of (fracs, r') \<Rightarrow>
       if whole @ fracs = [] then None
       else map_option (\<lambda>e. of_nat (digits_value (whole @ fracs)) * 10 powi (e - int (length fracs))) (parse_exponent r')))"

definition py_float_of_str :: "string \<Rightarrow> pyfloat result" where
  "py_float_of_str s = (case split_sign (py_lower (py_strip s)) of (neg, body) \<Rightarrow>
     if body \<in> {''inf'', ''infinity''} then Inr (if neg then NInf else PInf)
     else if body = ''nan'' then Inr NaN
     else (case parse_decimal body of
        None \<Rightarrow> Inl (ValueError ''could not convert string to float'')
      | Some q \<Rightarrow> Inr (to_float (if neg then - q else q))))"

end
