(* ===== verification/Stream_Serial.thy ===== *)
theory Stream_Serial
  imports Stream_Laws PyValue
begin

text \<open>
  Serialization of the stream log (\<^verbatim>\<open>to_dict\<close> and \<^verbatim>\<open>from_dict\<close> of \<^verbatim>\<open>facade.py\<close>): the dictionary form
  and the validating reader, check by check in the order of the source.
\<close>

section \<open>Writing\<close>

definition bins_to_val :: "(int, int) dict \<Rightarrow> pyval" where
  "bins_to_val d = PDict (map (\<lambda>(k, v). (PInt k, PInt v)) d)"

definition sl_latency_dict :: "ddsketch \<Rightarrow> pyval" where
  "sl_latency_dict l = PDict
    [(PStr ''alpha'', PFloat (dd_alpha l)),
     (PStr ''positive'', bins_to_val (dd_positive l)),
     (PStr ''negative'', bins_to_val (dd_negative l)),
     (PStr ''zero_count'', PInt (dd_zero_count l)),
     (PStr ''count'', PInt (dd_count l)),
     (PStr ''min'', if dd_count l > 0 then PFloat (dd_min l) else PNone),
     (PStr ''max'', if dd_count l > 0 then PFloat (dd_max l) else PNone)]"

definition sl_uniques_dict :: "hll \<Rightarrow> pyval" where
  "sl_uniques_dict u = PDict
    [(PStr ''precision'', PInt (int (hll_p u))),
     (PStr ''registers'', PList (map (\<lambda>r. PInt (int r)) (hll_registers u)))]"

definition sl_events_dict :: "cms \<Rightarrow> pyval" where
  "sl_events_dict e = PDict
    [(PStr ''width'', PInt (cms_width e)),
     (PStr ''depth'', PInt (cms_depth e)),
     (PStr ''table'', PList (map (\<lambda>row. PList (map PInt row)) (cms_table e))),
     (PStr ''total'', PInt (cms_total e))]"

definition sl_to_dict :: "pystream \<Rightarrow> pyval" where
  "sl_to_dict s = PDict
    [(PStr ''version'', PInt 1),
     (PStr ''total'', PInt (sl_total s)),
     (PStr ''deterministic'', PBool (sl_deterministic s)),
     (PStr ''latency'', sl_latency_dict (sl_latency s)),
     (PStr ''uniques'', sl_uniques_dict (sl_uniques s)),
     (PStr ''events'', sl_events_dict (sl_events s))]"

section \<open>Reading\<close>

text \<open>\<^verbatim>\<open>if not (0 < alpha < 1)\<close>: integers never pass, other types raise.\<close>

fun fd_alpha :: "pyval \<Rightarrow> pyfloat result" where
  "fd_alpha (PFloat f) = raise_if (\<not> (f_lt (Fin 0) f \<and> f_lt f (Fin 1)))
     (ValueError ''DDSketch alpha must be in (0, 1)'') (Inr f)"
| "fd_alpha (PInt n) = Inl (ValueError ''DDSketch alpha must be in (0, 1)'')"
| "fd_alpha (PBool b) = Inl (ValueError ''DDSketch alpha must be in (0, 1)'')"
| "fd_alpha _ = Inl (TypeError ''<' not supported between instances'')"

fun fd_bucket_key :: "pyval \<Rightarrow> int result" where
  "fd_bucket_key (PInt k) = Inr k"
| "fd_bucket_key (PStr k) = (case parse_int k of
     None \<Rightarrow> Inl (ValueError ''DDSketch bucket keys must be convertible to int'')
   | Some ik \<Rightarrow> raise_if (int_str ik \<noteq> k)
       (ValueError ''DDSketch bucket keys must be convertible to int'') (Inr ik))"
| "fd_bucket_key _ = Inl (ValueError ''DDSketch bucket keys must be int or str'')"

definition validate_bucket :: "int \<Rightarrow> int \<Rightarrow> pyval \<times> pyval \<Rightarrow> (int, int) dict \<Rightarrow> (int, int) dict result" where
  "validate_bucket min_idx max_idx kv res = (case kv of (k, v) \<Rightarrow>
    rbind (fd_bucket_key k) (\<lambda>ik.
    raise_if (dict_mem ik res) (ValueError ''Duplicate canonical bucket index'')
   (rbind (as_int (ValueError ''DDSketch bucket counts must be positive int64 values'') v) (\<lambda>c.
    raise_if (\<not> (0 < c \<and> c \<le> MAX_INT64)) (ValueError ''DDSketch bucket counts must be positive int64 values'')
   (raise_if (ik < min_idx \<or> ik > max_idx) (ValueError ''DDSketch bucket index out of valid range'')
   (Inr (AList.update ik c res)))))))"

definition validate_buckets :: "int \<Rightarrow> int \<Rightarrow> pydict \<Rightarrow> (int, int) dict result" where
  "validate_buckets min_idx max_idx b_dict = rfold (validate_bucket min_idx max_idx) b_dict []"

text \<open>\<^verbatim>\<open>math.ceil(math.log(x) * multiplier)\<close> for a number of the input.\<close>

definition fd_index :: "libm \<Rightarrow> pyfloat \<Rightarrow> pyval \<Rightarrow> int result" where
  "fd_index L multiplier x = rbind (py_log L (num_float x)) (\<lambda>l. f_ceil (f_mul l multiplier))"

definition fd_check_positive :: "libm \<Rightarrow> pyfloat \<Rightarrow> (int, int) dict \<Rightarrow> pyval \<Rightarrow> pyval \<Rightarrow> unit result" where
  "fd_check_positive L multiplier positive lat_min lat_max =
    (if positive = [] then Inr () else
     raise_if (f_le (num_value lat_max) (Fin 0)) (ValueError ''DDSketch extrema contradict positive buckets'')
    (rbind (fd_index L multiplier lat_max) (\<lambda>i.
     raise_if (i \<noteq> Max (set (dict_keys positive))) (ValueError ''DDSketch max contradicts positive buckets'')
    (if f_lt (Fin 0) (num_value lat_min)
     then rbind (fd_index L multiplier lat_min) (\<lambda>j.
       raise_if (j \<noteq> Min (set (dict_keys positive))) (ValueError ''DDSketch min contradicts positive buckets'') (Inr ()))
     else Inr ()))))"

definition fd_check_negative :: "libm \<Rightarrow> pyfloat \<Rightarrow> (int, int) dict \<Rightarrow> pyval \<Rightarrow> pyval \<Rightarrow> unit result" where
  "fd_check_negative L multiplier negative lat_min lat_max =
    (if negative = [] then Inr () else
     raise_if (f_le (Fin 0) (num_value lat_min)) (ValueError ''DDSketch extrema contradict negative buckets'')
    (rbind (fd_index L multiplier (num_neg lat_min)) (\<lambda>i.
     raise_if (i \<noteq> Max (set (dict_keys negative))) (ValueError ''DDSketch min contradicts negative buckets'')
    (if f_lt (num_value lat_max) (Fin 0)
     then rbind (fd_index L multiplier (num_neg lat_max)) (\<lambda>j.
       raise_if (j \<noteq> Min (set (dict_keys negative))) (ValueError ''DDSketch max contradicts negative buckets'') (Inr ()))
     else Inr ()))))"

definition fd_check_zero :: "(int, int) dict \<Rightarrow> (int, int) dict \<Rightarrow> int \<Rightarrow> pyval \<Rightarrow> pyval \<Rightarrow> unit result" where
  "fd_check_zero positive negative zero_count lat_min lat_max =
    (let lo = num_value lat_min; hi = num_value lat_max in
     raise_if (zero_count > 0 \<and> (f_lt (Fin 0) lo \<or> f_lt hi (Fin 0)))
       (ValueError ''DDSketch extrema contradict zero buckets'')
    (raise_if (positive = [] \<and> f_lt (Fin 0) hi) (ValueError ''DDSketch max > 0 but no positive buckets'')
    (raise_if (negative = [] \<and> f_lt lo (Fin 0)) (ValueError ''DDSketch min < 0 but no negative buckets'')
    (raise_if (f_eq hi (Fin 0) \<and> zero_count = 0) (ValueError ''DDSketch max is 0 but zero_count is 0'')
    (raise_if (f_eq lo (Fin 0) \<and> zero_count = 0) (ValueError ''DDSketch min is 0 but zero_count is 0'')
    (Inr ()))))))"

definition fd_extrema :: "libm \<Rightarrow> pyfloat \<Rightarrow> (int, int) dict \<Rightarrow> (int, int) dict \<Rightarrow> int \<Rightarrow> int \<Rightarrow> pyval \<Rightarrow> pyval \<Rightarrow> unit result" where
  "fd_extrema L multiplier positive negative zero_count count lat_min lat_max =
    (if count > 0
     then raise_if (lat_min = PNone \<or> lat_max = PNone) (ValueError ''DDSketch min/max cannot be None when count > 0'')
         (raise_if (\<not> is_number lat_min \<or> \<not> is_number lat_max) (ValueError ''DDSketch min/max must be numeric'')
         (rbind (num_isfinite lat_min) (\<lambda>fmin.
          raise_if (\<not> fmin) (ValueError ''DDSketch min/max must be finite numbers'')
         (rbind (num_isfinite lat_max) (\<lambda>fmax.
          raise_if (\<not> fmax) (ValueError ''DDSketch min/max must be finite numbers'')
         (raise_if (f_lt (num_value lat_max) (num_value lat_min)) (ValueError ''DDSketch min cannot be greater than max'')
         (rbind (fd_check_positive L multiplier positive lat_min lat_max) (\<lambda>_.
          rbind (fd_check_negative L multiplier negative lat_min lat_max) (\<lambda>_.
          fd_check_zero positive negative zero_count lat_min lat_max)))))))))
     else raise_if (lat_min \<noteq> PNone \<or> lat_max \<noteq> PNone) (ValueError ''Empty DDSketch must have None for extrema'')
       (Inr ()))"

record fd_latency_parts =
  fl_alpha :: pyfloat
  fl_zero_count :: int
  fl_count :: int
  fl_positive :: "(int, int) dict"
  fl_negative :: "(int, int) dict"
  fl_min :: pyval
  fl_max :: pyval

definition fd_latency :: "libm \<Rightarrow> pydict \<Rightarrow> fd_latency_parts result" where
  "fd_latency L latency_data =
    rbind (rbind (d_item latency_data ''alpha'') fd_alpha) (\<lambda>alpha.
    rbind (d_item latency_data ''zero_count'') (\<lambda>zero_v.
    rbind (d_item latency_data ''count'') (\<lambda>count_v.
    rbind (as_int (ValueError ''DDSketch zero_count must be a non-negative int64'') zero_v) (\<lambda>zero_count.
    raise_if (\<not> (0 \<le> zero_count \<and> zero_count \<le> MAX_INT64))
      (ValueError ''DDSketch zero_count must be a non-negative int64'')
   (rbind (as_int (ValueError ''DDSketch count must be a non-negative integer within the uint64 range'') count_v) (\<lambda>count.
    raise_if (\<not> (0 \<le> count \<and> count \<le> MAX_UINT64))
      (ValueError ''DDSketch count must be a non-negative integer within the uint64 range'')
   (rbind (as_dict (ValueError ''DDSketch positive/negative buckets must be dictionaries'')
             (d_get latency_data ''positive'' PNone)) (\<lambda>pos_data.
    rbind (as_dict (ValueError ''DDSketch positive/negative buckets must be dictionaries'')
             (d_get latency_data ''negative'' PNone)) (\<lambda>neg_data.
    rbind (dd_gamma_of alpha) (\<lambda>gamma.
    rbind (rbind (py_log L gamma) (f_div (Fin 1))) (\<lambda>multiplier.
    rbind (rbind (py_log L (Fin DBL_MAX)) (\<lambda>l. f_ceil (f_mul l multiplier))) (\<lambda>max_idx.
    rbind (rbind (py_log L (Fin DBL_TRUE_MIN)) (\<lambda>l. f_ceil (f_mul l multiplier))) (\<lambda>min_idx.
    rbind (validate_buckets min_idx max_idx pos_data) (\<lambda>positive.
    rbind (validate_buckets min_idx max_idx neg_data) (\<lambda>negative.
    raise_if (length positive > MAX_BINS) (ValueError ''DDSketch positive buckets exceed bounded capacity'')
   (raise_if (length negative > MAX_BINS) (ValueError ''DDSketch negative buckets exceed bounded capacity'')
   (raise_if (count \<noteq> zero_count + dict_sum positive + dict_sum negative)
      (ValueError ''DDSketch bucket counts do not sum to total count'')
   (let lat_min = d_get latency_data ''min'' PNone; lat_max = d_get latency_data ''max'' PNone in
    rbind (fd_extrema L multiplier positive negative zero_count count lat_min lat_max) (\<lambda>_.
    Inr \<lparr>fl_alpha = alpha, fl_zero_count = zero_count, fl_count = count, fl_positive = positive,
         fl_negative = negative, fl_min = lat_min, fl_max = lat_max\<rparr>)))))))))))))))))))"

definition fd_registers :: "int \<Rightarrow> pyval list \<Rightarrow> nat list result" where
  "fd_registers precision registers =
    rmap (\<lambda>r. rbind (as_int (ValueError ''HyperLogLog register values must be integers'') r) (\<lambda>n.
      raise_if (n < 0 \<or> n > 64 - precision + 1) (ValueError ''HyperLogLog register values must be integers'')
        (Inr (nat n)))) registers"

definition fd_uniques :: "pydict \<Rightarrow> (int \<times> nat list) result" where
  "fd_uniques uniques_data =
    rbind (rbind (d_item uniques_data ''precision'')
      (as_int (ValueError ''HyperLogLog precision must be an integer in [4, 18]''))) (\<lambda>precision.
    raise_if (\<not> (4 \<le> precision \<and> precision \<le> 18)) (ValueError ''HyperLogLog precision must be an integer in [4, 18]'')
   (rbind (rbind (d_item uniques_data ''registers'') (as_list (ValueError ''HyperLogLog registers must be a list''))) (\<lambda>registers.
    raise_if (length registers \<noteq> 2 ^ nat precision) (ValueError ''HyperLogLog registers length'')
   (rbind (fd_registers precision registers) (\<lambda>regs. Inr (precision, regs))))))"

definition fd_row :: "int \<Rightarrow> int \<Rightarrow> pyval \<Rightarrow> int list result" where
  "fd_row width events_total row =
    rbind (as_list (ValueError ''CountMinSketch table row must be a list of columns'') row) (\<lambda>cells.
    raise_if (int (length cells) \<noteq> width) (ValueError ''CountMinSketch table row must be a list of columns'')
   (rbind (rmap (\<lambda>c. rbind (as_int (ValueError ''CountMinSketch cell values must be non-negative int64 values'') c) (\<lambda>n.
      raise_if (\<not> (0 \<le> n \<and> n \<le> MAX_INT64)) (ValueError ''CountMinSketch cell values must be non-negative int64 values'')
        (Inr n))) cells) (\<lambda>ns.
    raise_if (sum_list ns \<noteq> events_total) (ValueError ''CountMinSketch row sum does not match events total'')
      (Inr ns))))"

definition fd_events :: "pydict \<Rightarrow> (int \<times> int \<times> int \<times> int list list) result" where
  "fd_events events_data =
    rbind (d_item events_data ''width'') (\<lambda>width_v.
    rbind (d_item events_data ''depth'') (\<lambda>depth_v.
    rbind (as_int (ValueError ''CountMinSketch width must be >= 1'') width_v) (\<lambda>width.
    raise_if (width < 1) (ValueError ''CountMinSketch width must be >= 1'')
   (rbind (as_int (ValueError ''CountMinSketch depth must be >= 1'') depth_v) (\<lambda>depth.
    raise_if (depth < 1) (ValueError ''CountMinSketch depth must be >= 1'')
   (raise_if (width > MAX_CMS_CELLS div depth) (ValueError ''CountMinSketch dimensions exceed cells'')
   (rbind (rbind (d_item events_data ''total'')
      (as_int (ValueError ''CountMinSketch total must be a non-negative int64''))) (\<lambda>events_total.
    raise_if (\<not> (0 \<le> events_total \<and> events_total \<le> MAX_INT64))
      (ValueError ''CountMinSketch total must be a non-negative int64'')
   (rbind (rbind (d_item events_data ''table'') (as_list (ValueError ''CountMinSketch table must be a list of rows''))) (\<lambda>table.
    raise_if (int (length table) \<noteq> depth) (ValueError ''CountMinSketch table must be a list of rows'')
   (rbind (rmap (fd_row width events_total) table) (\<lambda>rows.
    Inr (width, depth, events_total, rows)))))))))))))"

definition fd_build :: "libm \<Rightarrow> int \<Rightarrow> bool \<Rightarrow> fd_latency_parts \<Rightarrow> int \<times> nat list \<Rightarrow> int \<times> int \<times> int \<times> int list list \<Rightarrow>
    pystream result" where
  "fd_build L tot det lp up ep = (case up of (precision, registers) \<Rightarrow> case ep of (width, depth, events_total, table) \<Rightarrow>
    rbind (sl_init L (fl_alpha lp) precision width depth det) (\<lambda>log.
      let l = (sl_latency log)\<lparr>dd_positive := fl_positive lp, dd_negative := fl_negative lp,
                dd_zero_count := fl_zero_count lp, dd_count := fl_count lp\<rparr>;
          l' = (if fl_count lp > 0 then l\<lparr>dd_min := num_value (fl_min lp), dd_max := num_value (fl_max lp)\<rparr> else l)
      in Inr (log\<lparr>sl_latency := l', sl_uniques := (sl_uniques log)\<lparr>hll_registers := registers\<rparr>,
                  sl_events := (sl_events log)\<lparr>cms_table := table, cms_total := events_total\<rparr>,
                  sl_total := tot\<rparr>)))"

definition from_dict_body :: "libm \<Rightarrow> pydict \<Rightarrow> pystream result" where
  "from_dict_body L data =
    rbind (as_int (ValueError ''Unsupported serialization version'') (d_get data ''version'' PNone)) (\<lambda>version.
    raise_if (version \<noteq> 1) (ValueError ''Unsupported serialization version'')
   (rbind (rbind (d_item data ''total'') (as_int (ValueError ''StreamLog total must be an unsigned 64-bit integer''))) (\<lambda>tot.
    raise_if (\<not> (0 \<le> tot \<and> tot \<le> MAX_UINT64)) (ValueError ''StreamLog total must be an unsigned 64-bit integer'')
   (rbind (as_bool (ValueError ''deterministic must be a boolean'') (d_get data ''deterministic'' (PBool False))) (\<lambda>det.
    rbind (rbind (d_item data ''latency'') (as_dict (ValueError ''latency data must be a dictionary''))) (\<lambda>latency_data.
    rbind (fd_latency L latency_data) (\<lambda>lp.
    rbind (rbind (d_item data ''uniques'') (as_dict (ValueError ''uniques data must be a dictionary''))) (\<lambda>uniques_data.
    rbind (fd_uniques uniques_data) (\<lambda>up.
    rbind (rbind (d_item data ''events'') (as_dict (ValueError ''events data must be a dictionary''))) (\<lambda>events_data.
    rbind (fd_events events_data) (\<lambda>ep.
    raise_if (tot \<noteq> fl_count lp + fst (snd (snd ep)))
      (ValueError ''StreamLog total does not match latency count + events total'')
      (fd_build L tot det lp up ep))))))))))))"

text \<open>The handler turns every failure of the body into one kind of error.\<close>

definition sl_from_dict :: "libm \<Rightarrow> pyval \<Rightarrow> pystream result" where
  "sl_from_dict L v = (case v of
     PDict data \<Rightarrow> (case from_dict_body L data of
        Inl (RuntimeError e) \<Rightarrow> Inl (RuntimeError e)
      | Inl _ \<Rightarrow> Inl (ValueError ''Malformed StreamLog state'')
      | Inr s \<Rightarrow> Inr s)
   | _ \<Rightarrow> Inl (ValueError ''StreamLog data must be a dictionary''))"

definition st_to_dict :: "stream \<Rightarrow> pyval" where
  "st_to_dict s = sl_to_dict (st_backend s)"

definition st_from_dict :: "libm \<Rightarrow> pyval \<Rightarrow> stream result" where
  "st_from_dict L data = (case data of
     PDict _ \<Rightarrow> rbind (sl_from_dict L data) (\<lambda>b.
       rbind (st_init L (dd_alpha (sl_latency b)) (int (hll_p (sl_uniques b))) (cms_width (sl_events b))
         (cms_depth (sl_events b)) (sl_deterministic b)) (\<lambda>log. Inr (log\<lparr>st_backend := b\<rparr>)))
   | _ \<Rightarrow> Inl (ValueError ''StreamLog data must be a dictionary''))"

end
