(* ===== verification/DDSketch_Order.thy ===== *)
theory DDSketch_Order
  imports DDSketch_Laws
begin

text \<open>
  The bucket index is weakly increasing in the magnitude, given the documented behaviour of the
  platform's mathematical library.
\<close>

section \<open>Monotonicity of the bucket index\<close>

text \<open>
  Documented behaviour of the platform's \<^verbatim>\<open>log\<close> and \<^verbatim>\<open>pow\<close>: the logarithm is weakly increasing and
  zero at one, a power of a positive base is never a NaN, and the power zero of anything is one.
\<close>

definition libm_ok :: "libm \<Rightarrow> bool" where
  "libm_ok L \<longleftrightarrow> log_mono L \<and> c_log L 1 = 0 \<and> (\<forall>a e. 0 < a \<longrightarrow> c_pow L (Fin a) e \<noteq> NaN)
     \<and> (\<forall>x. c_pow L x 0 = Fin 1)"

lemma f_sub_Fin: "f_sub (Fin a) (Fin b) = to_float (a - b)"
  by (simp add: f_sub_def)

lemma rnd_ge_1: "1 \<le> x \<Longrightarrow> 1 \<le> rnd x"
  using rnd_mono [of 1 x] rnd_int [of 1] by simp

lemma dd_gamma_ge_1:
  assumes "0 \<le> a" "a < 1" "dd_gamma_of (Fin a) = Inr g"
  shows "g = PInf \<or> (\<exists>q. g = Fin q \<and> 1 \<le> q)"
proof -
  have num: "1 \<le> rnd (1 + a)" "rnd (1 + a) \<le> 2"
    using assms rnd_ge_1 rnd_mono [of "1 + a" 2] rnd_int [of 2] by auto
  have den: "0 \<le> rnd (1 - a)" "rnd (1 - a) \<le> 1"
    using assms rnd_nonneg rnd_mono [of "1 - a" 1] rnd_int [of 1] by auto
  have "to_float (1 + a) = Fin (rnd (1 + a))" "to_float (1 - a) = Fin (rnd (1 - a))"
    using num den by (auto intro!: to_float_Fin)
  then have g: "rnd (1 - a) \<noteq> 0" "g = to_float (rnd (1 + a) / rnd (1 - a))"
    using assms(3) by (auto simp: dd_gamma_of_def f_sub_Fin split: if_splits)
  have "1 \<le> rnd (1 + a) / rnd (1 - a)" using num den g(1) by (simp add: le_divide_eq)
  then have "1 \<le> rnd (rnd (1 + a) / rnd (1 - a))" by (rule rnd_ge_1)
  then show ?thesis unfolding g(2)
    by (cases rule: to_float_cases [of "rnd (1 + a) / rnd (1 - a)"]) auto
qed

lemma dd_inv_config:
  assumes "dd_inv L s"
  obtains a where "dd_alpha s = Fin a" "rnd (1 / 10 ^ 6) \<le> a" "a < 1"
    "dd_gamma_of (Fin a) = Inr (dd_gamma s)" "py_log L (dd_gamma s) = Inr (dd_log_gamma s)"
    "f_div (Fin 1) (dd_log_gamma s) = Inr (dd_multiplier s)"
proof -
  obtain a where a: "dd_alpha s = Fin a" using assms by (rule dd_inv_alpha)
  have "dd_init L (Fin a) = Inr (dd_reset s)" using assms a by (simp add: dd_inv_def)
  moreover have "to_float (1 / 10 ^ 6) = Fin (rnd (1 / 10 ^ 6))"
    using rnd_nonneg [of "1 / 10 ^ 6"] rnd_mono [of "1 / 10 ^ 6" 1] rnd_int [of 1] by (intro to_float_Fin) simp
  ultimately obtain g l m where c: "rnd (1 / 10 ^ 6) \<le> a" "a < 1" "dd_gamma_of (Fin a) = Inr g"
    "py_log L g = Inr l" "f_div (Fin 1) l = Inr m"
    "dd_reset s = \<lparr>dd_alpha = Fin a, dd_gamma = g, dd_log_gamma = l, dd_multiplier = m, dd_positive = [],
      dd_negative = [], dd_zero_count = 0, dd_count = 0, dd_min = PInf, dd_max = NInf\<rparr>"
    by (auto simp: dd_init_def raise_if_eq_Inr rbind_eq_Inr)
  then have "dd_gamma s = g" "dd_log_gamma s = l" "dd_multiplier s = m"
    by (cases s; simp add: dd_reset_def)+
  with c a show ?thesis using that [of a] by simp
qed

lemma dd_multiplier_nonneg:
  assumes "dd_inv L s" "libm_ok L" "dd_multiplier s = Fin m" shows "0 \<le> m"
proof -
  obtain a where a: "rnd (1 / 10 ^ 6) \<le> a" "a < 1" "dd_gamma_of (Fin a) = Inr (dd_gamma s)"
    "py_log L (dd_gamma s) = Inr (dd_log_gamma s)" "f_div (Fin 1) (dd_log_gamma s) = Inr (dd_multiplier s)"
    using assms(1) by (rule dd_inv_config)
  have "0 \<le> a" using a(1) rnd_nonneg [of "1 / 10 ^ 6"] by simp
  then consider "dd_gamma s = PInf" | q where "dd_gamma s = Fin q" "1 \<le> q"
    using dd_gamma_ge_1 [OF _ a(2,3)] by blast
  then show ?thesis
  proof cases
    case 1
    then show ?thesis using a(4,5) assms(3) by auto
  next
    case (2 q)
    then have l: "dd_log_gamma s = Fin (c_log L q)" using a(4) by (simp split: if_splits)
    have "0 \<le> c_log L q" using assms(2) 2 by (force simp: libm_ok_def log_mono_def)
    then have "0 \<le> rnd (1 / c_log L q)" by (intro rnd_nonneg) simp
    moreover have "to_float (1 / c_log L q) = Fin m" using a(5) assms(3) l by (auto split: if_splits)
    ultimately show ?thesis by (cases rule: to_float_cases [of "1 / c_log L q"]) auto
  qed
qed

lemma dd_key_mono:
  assumes inv: "dd_inv L s" and L: "libm_ok L" and ab: "0 < a" "a \<le> b"
    and k: "dd_key L s (Fin a) = Inr i" "dd_key L s (Fin b) = Inr j"
  shows "i \<le> j"
proof (cases "dd_multiplier s")
  case (Fin m)
  have m: "0 \<le> m" using dd_multiplier_nonneg [OF inv L Fin] .
  have "c_log L a \<le> c_log L b" using L ab by (auto simp: libm_ok_def log_mono_def)
  then have le: "rnd (c_log L a * m) \<le> rnd (c_log L b * m)" using m by (intro rnd_mono mult_right_mono)
  have "i = \<lceil>rnd (c_log L a * m)\<rceil>" "j = \<lceil>rnd (c_log L b * m)\<rceil>"
    using k ab by (cases rule: to_float_cases [of "c_log L a * m"]; cases rule: to_float_cases [of "c_log L b * m"];
      auto simp: dd_key_def Fin)+
  then show ?thesis using le by (simp add: ceiling_mono)
qed (use k ab in \<open>auto simp: dd_key_def Let_def split: if_splits\<close>)

lemma dd_accepts_key:
  assumes "dd_accepts L s x" "x \<noteq> 0" shows "dd_key L s (Fin \<bar>x\<bar>) = Inr (dd_idx L s x)"
  using assms dd_index_ok [of L s x] by (auto simp: dd_accepts_def is_ok_iff)

lemma libm_ok_demo: "libm_ok libm_demo"
proof -
  have "c_pow libm_demo (Fin a) e \<noteq> NaN" for a e
    by (simp add: libm_demo_def) (metis pyfloat.distinct to_float_cases)
  moreover have "c_log libm_demo 1 = 0" by code_simp
  moreover have "c_pow libm_demo x 0 = Fin 1" for x by (simp add: libm_demo_def)
  ultimately show ?thesis using log_mono_demo by (simp add: libm_ok_def)
qed

end
