(* ===== verification/Serial_Laws.thy ===== *)
theory Serial_Laws
  imports Stream_Serial DDSketch_Order
begin

text \<open>
  What the validating reader guarantees: it fails only with \<^verbatim>\<open>ValueError\<close>, whatever it accepts is a valid
  log, and reading back what was written, directly or through JSON, restores the log.
\<close>

section \<open>Only one kind of error\<close>

named_theorems no_rt_intros \<open>computations that never raise \<open>RuntimeError\<close>\<close>

definition no_rt :: "'a result \<Rightarrow> bool" where
  "no_rt r \<longleftrightarrow> (\<forall>m. r \<noteq> Inl (RuntimeError m))"

lemma no_rt_Inr [no_rt_intros]: "no_rt (Inr x)" by (simp add: no_rt_def)

lemma no_rt_rbind [no_rt_intros]: "no_rt m \<Longrightarrow> (\<And>x. no_rt (f x)) \<Longrightarrow> no_rt (rbind m f)"
  by (auto simp: no_rt_def rbind_eq_Inl)

lemma no_rt_raise_if [no_rt_intros]: "no_rt (Inl e :: 'a result) \<Longrightarrow> no_rt k \<Longrightarrow> no_rt (raise_if b e k :: 'a result)"
  by (auto simp: no_rt_def raise_if_def)

lemma no_rt_errors [no_rt_intros]:
  "no_rt (Inl (ValueError m))" "no_rt (Inl (OverflowError m))" "no_rt (Inl (TypeError m))"
  "no_rt (Inl (KeyError m))" "no_rt (Inl (ZeroDivisionError m))"
  by (auto simp: no_rt_def)

lemma no_rt_if [no_rt_intros]: "no_rt a \<Longrightarrow> no_rt b \<Longrightarrow> no_rt (if c then a else b)"
  by simp

lemma no_rt_rmap [no_rt_intros]: "(\<And>x. no_rt (f x)) \<Longrightarrow> no_rt (rmap f xs)"
  by (induction xs) (auto intro!: no_rt_intros)

lemma no_rt_rfold [no_rt_intros]: "(\<And>x s. no_rt (f x s)) \<Longrightarrow> no_rt (rfold f xs s)"
  by (induction xs arbitrary: s) (auto intro!: no_rt_intros)

lemma no_rt_access [no_rt_intros]:
  "no_rt (d_item d k)"
  "no_rt (as_int (ValueError m) v)" "no_rt (as_bool (ValueError m) v)"
  "no_rt (as_dict (ValueError m) v)" "no_rt (as_list (ValueError m) v)"
  by (auto simp: d_item_def no_rt_def split: option.splits) (cases v; simp)+

lemma no_rt_float [no_rt_intros]:
  "no_rt (f_div x y)" "no_rt (f_ceil x)" "no_rt (py_log L x)" "no_rt (num_isfinite v)" "no_rt (fd_alpha v)"
  "no_rt (fd_bucket_key v)"
proof -
  show "no_rt (f_div x y)" by (cases y; cases x) (auto simp: no_rt_def)
  show "no_rt (f_ceil x)" "no_rt (py_log L x)" by (cases x; auto simp: no_rt_def)+
  show "no_rt (num_isfinite v)" "no_rt (fd_alpha v)" "no_rt (fd_bucket_key v)"
    by (cases v; auto simp: raise_if_def no_rt_def split: option.splits)+
qed

lemma no_rt_init [no_rt_intros]: "no_rt (dd_init L a)" "no_rt (cms_init w d)" "no_rt (hll_init p)"
  "no_rt (dd_gamma_of a)"
  unfolding dd_init_def cms_init_def hll_init_def dd_gamma_of_def hll_alpha_of_def Let_def
  by (intro no_rt_intros)+

lemma no_rt_validate [no_rt_intros]: "no_rt (validate_buckets lo hi d)"
  unfolding validate_buckets_def validate_bucket_def case_prod_unfold by (intro no_rt_intros)

lemma no_rt_extrema [no_rt_intros]: "no_rt (fd_extrema L m p n z c lo hi)"
  unfolding fd_extrema_def fd_check_positive_def fd_check_negative_def fd_check_zero_def fd_index_def Let_def
  by (intro no_rt_intros)

lemma no_rt_parts [no_rt_intros]: "no_rt (fd_latency L d)" "no_rt (fd_uniques d)" "no_rt (fd_events d)"
  unfolding fd_latency_def fd_uniques_def fd_events_def fd_row_def fd_registers_def Let_def
  by (intro no_rt_intros)+

lemma no_rt_body: "no_rt (from_dict_body L data)"
  unfolding from_dict_body_def fd_build_def sl_init_def case_prod_unfold Let_def
  by (intro no_rt_intros)

lemma from_dict_errors:
  assumes "sl_from_dict L v = Inl e" shows "\<exists>m. e = ValueError m"
  using assms no_rt_body [of L] by (auto simp: sl_from_dict_def no_rt_def split: pyval.splits sum.splits py_error.splits)

section \<open>Accepted states are valid\<close>

lemma validate_bucket_ok:
  assumes "validate_bucket lo hi kv res = Inr res'" "bins_ok res" "\<forall>(k, c) \<in> set res. c \<le> MAX_INT64"
  shows "bins_ok res' \<and> (\<forall>(k, c) \<in> set res'. c \<le> MAX_INT64)"
proof -
  obtain ik c where c: "0 < c" "c \<le> MAX_INT64" and ik: "\<not> dict_mem ik res" and res': "res' = AList.update ik c res"
    using assms(1) by (auto simp: validate_bucket_def rbind_eq_Inr raise_if_eq_Inr split: prod.splits)
  have "res' = res @ [(ik, c)]" using ik by (simp add: res' dict_update_append dict_mem_iff)
  then show ?thesis using c ik assms(2,3) by (auto simp: bins_ok_def dict_mem_iff)
qed

lemma validate_buckets_ok:
  assumes "validate_buckets lo hi d = Inr res"
  shows "bins_ok res \<and> (\<forall>(k, c) \<in> set res. c \<le> MAX_INT64)"
proof -
  have "rfold (validate_bucket lo hi) d [] = Inr res" using assms by (simp add: validate_buckets_def)
  then show ?thesis
    by (rule rfold_invariant [where P = "\<lambda>r. bins_ok r \<and> (\<forall>(k, c) \<in> set r. c \<le> MAX_INT64)"])
      (use validate_bucket_ok in auto)
qed

lemma bins_fitI:
  assumes "bins_ok d" "\<forall>(k, c) \<in> set d. c \<le> MAX_INT64" "length d \<le> MAX_BINS" shows "bins_fit d"
  using assms by (force simp: bins_fit_def dict_get_def split: option.splits dest: map_of_SomeD)

lemma num_isfinite_True: "num_isfinite v = Inr True \<Longrightarrow> \<exists>a. num_value v = Fin a"
  by (cases v) (auto simp: raise_if_eq_Inr elim: f_isfinite.elims)

lemma fd_extrema_ok:
  assumes "fd_extrema L m p n z c lo hi = Inr u" "0 < c"
  shows "\<exists>a b. num_value lo = Fin a \<and> num_value hi = Fin b \<and> a \<le> b"
proof -
  have "num_isfinite lo = Inr True" "num_isfinite hi = Inr True" "\<not> f_lt (num_value hi) (num_value lo)"
    using assms by (auto simp: fd_extrema_def raise_if_eq_Inr rbind_eq_Inr)
  then show ?thesis using num_isfinite_True [of lo] num_isfinite_True [of hi] by auto
qed

definition fl_ok :: "fd_latency_parts \<Rightarrow> bool" where
  "fl_ok lp \<longleftrightarrow> bins_ok (fl_positive lp) \<and> bins_ok (fl_negative lp) \<and> bins_fit (fl_positive lp) \<and> bins_fit (fl_negative lp)
     \<and> 0 \<le> fl_zero_count lp \<and> fl_zero_count lp \<le> MAX_INT64 \<and> 0 \<le> fl_count lp \<and> fl_count lp \<le> MAX_UINT64
     \<and> fl_count lp = fl_zero_count lp + dict_sum (fl_positive lp) + dict_sum (fl_negative lp)
     \<and> (0 < fl_count lp \<longrightarrow> (\<exists>a b. num_value (fl_min lp) = Fin a \<and> num_value (fl_max lp) = Fin b \<and> a \<le> b))"

lemma fd_latency_ok: assumes "fd_latency L d = Inr lp" shows "fl_ok lp"
proof -
  obtain lo hi pd nd m z c p n where v: "validate_buckets lo hi pd = Inr p" "validate_buckets lo hi nd = Inr n"
    and x: "fd_extrema L m p n z c (d_get d ''min'' PNone) (d_get d ''max'' PNone) = Inr ()"
    and len: "length p \<le> MAX_BINS" "length n \<le> MAX_BINS" and zc: "0 \<le> z" "z \<le> MAX_INT64" "0 \<le> c" "c \<le> MAX_UINT64"
      "c = z + dict_sum p + dict_sum n"
    and lp: "fl_positive lp = p" "fl_negative lp = n" "fl_zero_count lp = z" "fl_count lp = c"
      "fl_min lp = d_get d ''min'' PNone" "fl_max lp = d_get d ''max'' PNone"
    using assms unfolding fd_latency_def Let_def rbind_eq_Inr raise_if_eq_Inr by fastforce
  show ?thesis
    using validate_buckets_ok [OF v(1)] validate_buckets_ok [OF v(2)] len zc fd_extrema_ok [OF x]
    by (auto simp: fl_ok_def lp bins_fitI)
qed

lemma fd_uniques_ok:
  assumes "fd_uniques d = Inr (p, regs)"
  shows "4 \<le> p \<and> p \<le> 18 \<and> length regs = 2 ^ nat p \<and> (\<forall>r \<in> set regs. int r \<le> 64 - p + 1)"
proof -
  obtain rs where rs: "fd_registers p rs = Inr regs" "length rs = 2 ^ nat p" "4 \<le> p" "p \<le> 18"
    using assms by (auto simp: fd_uniques_def rbind_eq_Inr raise_if_eq_Inr)
  have "list_all2 (\<lambda>v r. \<exists>n. r = nat n \<and> 0 \<le> n \<and> n \<le> 64 - p + 1) rs regs"
    using rs(1) by (auto simp: fd_registers_def rmap_eq_Inr rbind_eq_Inr raise_if_eq_Inr elim!: list_all2_mono)
  then have "length regs = length rs" "\<forall>r \<in> set regs. int r \<le> 64 - p + 1"
    by (auto simp: list_all2_conv_all_nth all_set_conv_all_nth)
  then show ?thesis using rs by simp
qed

lemma fd_row_ok:
  assumes "fd_row w t v = Inr row"
  shows "int (length row) = w \<and> (\<forall>c \<in> set row. 0 \<le> c) \<and> sum_list row = t"
proof -
  let ?e = "ValueError ''CountMinSketch cell values must be non-negative int64 values''"
  obtain cells where c: "int (length cells) = w" "sum_list row = t"
    and l: "list_all2 (\<lambda>v n. as_int ?e v = Inr n \<and> 0 \<le> n \<and> n \<le> MAX_INT64) cells row"
    using assms by (auto simp: fd_row_def rmap_eq_Inr rbind_eq_Inr raise_if_eq_Inr)
  from l have "list_all2 (\<lambda>v n. 0 \<le> n) cells row" by (rule list_all2_mono) simp
  then show ?thesis using c by (auto simp: list_all2_conv_all_nth all_set_conv_all_nth)
qed

lemma fd_events_ok:
  assumes "fd_events d = Inr (w, n, t, rows)"
  shows "1 \<le> w \<and> 1 \<le> n \<and> w \<le> MAX_CMS_CELLS div n \<and> 0 \<le> t \<and> t \<le> MAX_INT64 \<and> int (length rows) = n
    \<and> (\<forall>row \<in> set rows. int (length row) = w \<and> (\<forall>c \<in> set row. 0 \<le> c) \<and> sum_list row = t)"
proof -
  obtain tab where tab: "rmap (fd_row w t) tab = Inr rows" "int (length tab) = n"
    and h: "1 \<le> w" "1 \<le> n" "w \<le> MAX_CMS_CELLS div n" "0 \<le> t" "t \<le> MAX_INT64"
    using assms by (auto simp: fd_events_def rbind_eq_Inr raise_if_eq_Inr)
  have "list_all2 (\<lambda>v row. int (length row) = w \<and> (\<forall>c \<in> set row. 0 \<le> c) \<and> sum_list row = t) tab rows"
    using tab(1) fd_row_ok by (auto simp: rmap_eq_Inr elim!: list_all2_mono)
  then have "length rows = length tab"
    "\<forall>row \<in> set rows. int (length row) = w \<and> (\<forall>c \<in> set row. 0 \<le> c) \<and> sum_list row = t"
    by (auto simp: list_all2_conv_all_nth all_set_conv_all_nth)
  then show ?thesis using tab h by simp
qed

lemma fd_build_inv:
  assumes b: "fd_build L tot det lp (p, regs) (w, n, t, rows) = Inr s" and lp: "fl_ok lp"
    and u: "4 \<le> p \<and> p \<le> 18 \<and> length regs = 2 ^ nat p \<and> (\<forall>r \<in> set regs. int r \<le> 64 - p + 1)"
    and e: "1 \<le> w \<and> 1 \<le> n \<and> w \<le> MAX_CMS_CELLS div n \<and> 0 \<le> t \<and> t \<le> MAX_INT64 \<and> int (length rows) = n
      \<and> (\<forall>row \<in> set rows. int (length row) = w \<and> (\<forall>c \<in> set row. 0 \<le> c) \<and> sum_list row = t)"
    and tot: "tot \<le> MAX_UINT64" "tot = fl_count lp + t"
  shows "sl_inv L s"
proof -
  obtain log where log: "sl_init L (fl_alpha lp) p w n det = Inr log"
    and s: "sl_uniques s = (sl_uniques log)\<lparr>hll_registers := regs\<rparr>"
      "sl_events s = (sl_events log)\<lparr>cms_table := rows, cms_total := t\<rparr>" "sl_total s = tot"
      "sl_latency s = (let l = (sl_latency log)\<lparr>dd_positive := fl_positive lp, dd_negative := fl_negative lp,
          dd_zero_count := fl_zero_count lp, dd_count := fl_count lp\<rparr> in
         if fl_count lp > 0 then l\<lparr>dd_min := num_value (fl_min lp), dd_max := num_value (fl_max lp)\<rparr> else l)"
    using b by (auto simp: fd_build_def rbind_eq_Inr Let_def)
  obtain l c h where i: "dd_init L (fl_alpha lp) = Inr l" "cms_init w n = Inr c" "hll_init p = Inr h"
    and log': "sl_latency log = l" "sl_events log = c" "sl_uniques log = h"
    using log by (auto simp: sl_init_def rbind_eq_Inr raise_if_eq_Inr)
  have l: "dd_alpha l = fl_alpha lp" "dd_reset l = l" "dd_min l = PInf" "dd_max l = NInf"
    using dd_init_inv [OF i(1)] i(1) by (auto simp: dd_init_def rbind_eq_Inr raise_if_eq_Inr)
  have "dd_reset (sl_latency s) = dd_reset l" by (simp add: s log' Let_def dd_reset_def)
  then have dd: "dd_inv L (sl_latency s)"
    using lp i(1) l unfolding dd_inv_def
    by (auto simp: s log' Let_def fl_ok_def dd_fits_def dd_extrema_ok_def)
  have cms: "cms_inv (sl_events s)"
    using e i(2) by (auto simp: s log' cms_inv_def cms_init_def raise_if_eq_Inr)
  have hll: "hll_inv (sl_uniques s)"
    using u i(3) by (auto simp: s log' hll_inv_def hll_init_def raise_if_eq_Inr rbind_eq_Inr Let_def)
  show ?thesis
    using dd cms hll tot e cms_init_fresh [OF i(2)] by (simp add: sl_inv_def s log' Let_def)
qed

lemma from_dict_inv:
  assumes "sl_from_dict L v = Inr s" shows "sl_inv L s"
proof -
  obtain data where "from_dict_body L data = Inr s"
    using assms by (auto simp: sl_from_dict_def split: pyval.splits sum.splits py_error.splits)
  then obtain tot det ld lp ud up ed ep where parts: "fd_latency L ld = Inr lp" "fd_uniques ud = Inr up"
    "fd_events ed = Inr ep" and tot: "tot \<le> MAX_UINT64" "tot = fl_count lp + fst (snd (snd ep))"
    and b: "fd_build L tot det lp up ep = Inr s"
    unfolding from_dict_body_def rbind_eq_Inr raise_if_eq_Inr by fastforce
  obtain p regs w n t rows where up: "up = (p, regs)" "ep = (w, n, t, rows)" by (cases up; cases ep) auto
  show ?thesis
    using fd_build_inv [OF b [unfolded up] fd_latency_ok [OF parts(1)] fd_uniques_ok [OF parts(2) [unfolded up]]
      fd_events_ok [OF parts(3) [unfolded up]]] tot by (simp add: up)
qed

section \<open>The support of a sketch\<close>

text \<open>
  The set of the recorded numbers, as far as the sketch shows it: the occupied buckets, whether a
  zero was recorded, and the extrema.  The reader's consistency checks hold for every such sketch.
\<close>

definition dd_support :: "libm \<Rightarrow> rat set \<Rightarrow> ddsketch \<Rightarrow> bool" where
  "dd_support L X s \<longleftrightarrow> finite X \<and> (\<forall>x \<in> X. is_double x \<and> dd_accepts L s x)
     \<and> fst ` set (dd_positive s) = dd_idx L s ` {x \<in> X. 0 < x}
     \<and> fst ` set (dd_negative s) = dd_idx L s ` {x \<in> X. x < 0}
     \<and> (0 < dd_zero_count s \<longleftrightarrow> 0 \<in> X) \<and> (dd_count s = 0 \<longleftrightarrow> X = {})
     \<and> (X \<noteq> {} \<longrightarrow> dd_min s = Fin (Min X) \<and> dd_max s = Fin (Max X))"

lemma dd_support_init: "dd_init L a = Inr s \<Longrightarrow> dd_support L {} s"
  by (auto simp: dd_init_def raise_if_eq_Inr rbind_eq_Inr dd_support_def)

lemma dd_support_put:
  assumes s: "dd_support L X s" and inv: "dd_inv L s" and x: "dd_accepts L s x" "is_double x" and n: "0 < n"
  shows "dd_support L (insert x X) (dd_put L x n s)"
proof -
  have c: "0 \<le> dd_count s" "0 \<le> dd_zero_count s" using dd_inv_count [OF inv] inv by (auto simp: dd_inv_def)
  have ext: "dd_min s = (if X = {} then PInf else Fin (Min X))" "dd_max s = (if X = {} then NInf else Fin (Max X))"
    using s inv by (auto simp: dd_support_def dd_inv_def dd_extrema_ok_def)
  have sides: "{y \<in> insert x X. 0 < y} = (if 0 < x then insert x {y \<in> X. 0 < y} else {y \<in> X. 0 < y})"
    "{y \<in> insert x X. y < 0} = (if x < 0 then insert x {y \<in> X. y < 0} else {y \<in> X. y < 0})" by auto
  have idx: "dd_idx L (dd_put L x n s) = dd_idx L s" by (rule dd_idx_cong) simp
  have acc: "dd_accepts L (dd_put L x n s) y = dd_accepts L s y" for y by (rule dd_accepts_cong) simp
  have "dd_min (dd_put L x n s) = Fin (Min (insert x X))" "dd_max (dd_put L x n s) = Fin (Max (insert x X))"
    using s ext by (auto simp: dd_put_def dd_support_def Min_insert Max_insert min.commute max.commute)
  then show ?thesis
    using s x n c unfolding dd_support_def idx acc sides
    by (auto simp: dd_put_def keys_incr)
qed

lemma dd_support_plus:
  assumes s: "dd_support L X s" "dd_inv L s" and t: "dd_support L Y t" "dd_inv L t" and cfg: "dd_reset s = dd_reset t"
  shows "dd_support L (X \<union> Y) (dd_plus s t)"
proof -
  have c: "0 \<le> dd_count s" "0 \<le> dd_zero_count s" "0 \<le> dd_count t" "0 \<le> dd_zero_count t"
    using dd_inv_count s t by (auto simp: dd_inv_def)
  have ext: "dd_min s = (if X = {} then PInf else Fin (Min X))" "dd_max s = (if X = {} then NInf else Fin (Max X))"
    "dd_min t = (if Y = {} then PInf else Fin (Min Y))" "dd_max t = (if Y = {} then NInf else Fin (Max Y))"
    using s t by (auto simp: dd_support_def dd_inv_def dd_extrema_ok_def)
  have fin: "finite X" "finite Y" using s t by (auto simp: dd_support_def)
  have sides: "{y \<in> X \<union> Y. 0 < y} = {y \<in> X. 0 < y} \<union> {y \<in> Y. 0 < y}"
    "{y \<in> X \<union> Y. y < 0} = {y \<in> X. y < 0} \<union> {y \<in> Y. y < 0}" by auto
  have m: "dd_multiplier s = dd_multiplier t" using cfg by (cases s; cases t) (simp add: dd_reset_def)
  then have idx: "dd_idx L (dd_plus s t) = dd_idx L s" "dd_idx L t = dd_idx L s"
    by (auto intro: dd_idx_cong simp: dd_plus_def)
  have acc: "dd_accepts L (dd_plus s t) y = dd_accepts L s y" "dd_accepts L t y = dd_accepts L s y" for y
    using cfg by (auto intro!: dd_accepts_cong)
  have "X \<union> Y \<noteq> {} \<longrightarrow> dd_min (dd_plus s t) = Fin (Min (X \<union> Y)) \<and> dd_max (dd_plus s t) = Fin (Max (X \<union> Y))"
    using fin ext by (auto simp: dd_plus_def Min_Un Max_Un)
  then show ?thesis
    using s t c unfolding dd_support_def idx acc sides
    by (auto simp: dd_plus_def dict_add_all_keys image_Un)
qed

section \<open>Round trip\<close>

lemma fd_index_key: "fd_index L (dd_multiplier s) (PFloat (Fin a)) = dd_key L s (Fin a)"
  by (simp add: fd_index_def dd_key_def)

lemma dd_support_Max:
  assumes "libm_ok L" "dd_inv L s" "dd_support L X s" "Y \<subseteq> X" "Y \<noteq> {}" "\<forall>y \<in> Y. y \<noteq> 0" "x \<in> Y"
  shows "\<forall>y \<in> Y. \<bar>y\<bar> \<le> \<bar>x\<bar> \<Longrightarrow> dd_key L s (Fin \<bar>x\<bar>) = Inr (Max (dd_idx L s ` Y))"
    and "\<forall>y \<in> Y. \<bar>x\<bar> \<le> \<bar>y\<bar> \<Longrightarrow> dd_key L s (Fin \<bar>x\<bar>) = Inr (Min (dd_idx L s ` Y))"
proof -
  have fin: "finite Y" using assms(3,4) by (auto simp: dd_support_def intro: finite_subset)
  have key: "dd_key L s (Fin \<bar>y\<bar>) = Inr (dd_idx L s y)" if "y \<in> Y" for y
    using that assms(3,4,6) by (intro dd_accepts_key) (auto simp: dd_support_def)
  have mono: "dd_idx L s y \<le> dd_idx L s z" if "y \<in> Y" "z \<in> Y" "\<bar>y\<bar> \<le> \<bar>z\<bar>" for y z
    using dd_key_mono [OF assms(2,1) _ that(3) key [OF that(1)] key [OF that(2)]] that(1) assms(6) by auto
  show "dd_key L s (Fin \<bar>x\<bar>) = Inr (Max (dd_idx L s ` Y))" if "\<forall>y \<in> Y. \<bar>y\<bar> \<le> \<bar>x\<bar>"
    using key [OF assms(7)] fin assms(7) mono that by (auto intro!: Max_eqI [symmetric])
  show "dd_key L s (Fin \<bar>x\<bar>) = Inr (Min (dd_idx L s ` Y))" if "\<forall>y \<in> Y. \<bar>x\<bar> \<le> \<bar>y\<bar>"
    using key [OF assms(7)] fin assms(7) mono that by (auto intro!: Min_eqI [symmetric])
qed

lemma fd_checks_pass:
  assumes L: "libm_ok L" and inv: "dd_inv L s" and sup: "dd_support L X s" and X: "X \<noteq> {}"
  defines "lo \<equiv> PFloat (Fin (Min X))" and "hi \<equiv> PFloat (Fin (Max X))"
  shows "fd_check_positive L (dd_multiplier s) (dd_positive s) lo hi = Inr ()"
    and "fd_check_negative L (dd_multiplier s) (dd_negative s) lo hi = Inr ()"
    and "fd_check_zero (dd_positive s) (dd_negative s) (dd_zero_count s) lo hi = Inr ()"
proof -
  let ?P = "{x \<in> X. 0 < x}" and ?N = "{x \<in> X. x < 0}"
  have fin: "finite X" and keys: "set (dict_keys (dd_positive s)) = dd_idx L s ` ?P"
    "set (dict_keys (dd_negative s)) = dd_idx L s ` ?N" and z: "0 < dd_zero_count s \<longleftrightarrow> 0 \<in> X"
    using sup by (auto simp: dd_support_def)
  have z0: "0 \<le> dd_zero_count s" using inv by (simp add: dd_inv_def)
  have mm: "Min X \<in> X" "Max X \<in> X" "\<And>x. x \<in> X \<Longrightarrow> Min X \<le> x \<and> x \<le> Max X" using fin X by auto
  have emp: "dd_positive s = [] \<longleftrightarrow> ?P = {}" "dd_negative s = [] \<longleftrightarrow> ?N = {}"
    using arg_cong [OF keys(1), of "\<lambda>A. A = {}"] arg_cong [OF keys(2), of "\<lambda>A. A = {}"] by simp_all
  have P: "?P \<noteq> {} \<longleftrightarrow> 0 < Max X" "?N \<noteq> {} \<longleftrightarrow> Min X < 0" using mm by (force dest: less_le_trans le_less_trans)+
  have sub: "?P \<subseteq> X" "?N \<subseteq> X" by auto
  have maxP: "dd_key L s (Fin (Max X)) = Inr (Max (dd_idx L s ` ?P))" if "0 < Max X"
    using dd_support_Max(1) [OF L inv sup sub(1), of "Max X"] that mm by force
  have minP: "dd_key L s (Fin (Min X)) = Inr (Min (dd_idx L s ` ?P))" if "0 < Min X"
    using dd_support_Max(2) [OF L inv sup sub(1), of "Min X"] that mm by force
  have maxN: "dd_key L s (Fin (- Min X)) = Inr (Max (dd_idx L s ` ?N))" if "Min X < 0"
    using dd_support_Max(1) [OF L inv sup sub(2), of "Min X"] that mm by force
  have minN: "dd_key L s (Fin (- Max X)) = Inr (Min (dd_idx L s ` ?N))" if "Max X < 0"
    using dd_support_Max(2) [OF L inv sup sub(2), of "Max X"] that mm by force
  have empP: "dd_positive s = [] \<longleftrightarrow> \<not> 0 < Max X" and empN: "dd_negative s = [] \<longleftrightarrow> \<not> Min X < 0"
    unfolding emp P [symmetric] by simp_all
  show "fd_check_positive L (dd_multiplier s) (dd_positive s) lo hi = Inr ()"
    unfolding fd_check_positive_def lo_def hi_def empP keys fd_index_key
    by (cases "0 < Max X"; cases "0 < Min X") (simp_all add: maxP minP)
  show "fd_check_negative L (dd_multiplier s) (dd_negative s) lo hi = Inr ()"
    unfolding fd_check_negative_def lo_def hi_def empN keys num_neg.simps f_neg.simps fd_index_key
    by (cases "Min X < 0"; cases "Max X < 0") (simp_all add: maxN minN)
  have "\<not> (0 < dd_zero_count s \<and> (0 < Min X \<or> Max X < 0))" using z mm by (meson leD)
  moreover have "\<not> (Max X = 0 \<and> dd_zero_count s = 0)" "\<not> (Min X = 0 \<and> dd_zero_count s = 0)" using z mm by auto
  ultimately show "fd_check_zero (dd_positive s) (dd_negative s) (dd_zero_count s) lo hi = Inr ()"
    unfolding fd_check_zero_def lo_def hi_def empP empN Let_def by (simp add: raise_if_def)
qed

lemma fd_extrema_pass:
  assumes L: "libm_ok L" and inv: "dd_inv L s" and sup: "dd_support L X s"
  shows "fd_extrema L (dd_multiplier s) (dd_positive s) (dd_negative s) (dd_zero_count s) (dd_count s)
    (if dd_count s > 0 then PFloat (dd_min s) else PNone) (if dd_count s > 0 then PFloat (dd_max s) else PNone) = Inr ()"
proof (cases "X = {}")
  case True
  then show ?thesis using sup by (simp add: dd_support_def fd_extrema_def)
next
  case False
  have fin: "finite X" and e: "dd_min s = Fin (Min X)" "dd_max s = Fin (Max X)" "dd_count s \<noteq> 0"
    using sup False by (auto simp: dd_support_def)
  have "Min X \<le> Max X" using fin False by (meson Max_in Min_le)
  then show ?thesis
    using dd_inv_count [OF inv] e fd_checks_pass [OF L inv sup False] by (simp add: fd_extrema_def)
qed

text \<open>Every occupied bucket lies between the buckets of the smallest and the largest float.\<close>

lemma dd_support_range:
  assumes L: "libm_ok L" and inv: "dd_inv L s" and sup: "dd_support L X s"
    and k: "k \<in> fst ` set (dd_positive s) \<or> k \<in> fst ` set (dd_negative s)"
    and hi: "dd_key L s (Fin DBL_MAX) = Inr hi" and lo: "dd_key L s (Fin DBL_TRUE_MIN) = Inr lo"
  shows "lo \<le> k \<and> k \<le> hi"
proof -
  obtain x where x: "x \<in> X" "x \<noteq> 0" "k = dd_idx L s x" using k sup by (auto simp: dd_support_def)
  have d: "is_double x" and key: "dd_key L s (Fin \<bar>x\<bar>) = Inr k"
    using sup x dd_accepts_key by (auto simp: dd_support_def)
  have pos: "0 < DBL_TRUE_MIN" unfolding DBL_TRUE_MIN_def by (rule powi2_pos)
  show ?thesis
    using dd_key_mono [OF inv L pos double_nonzero_ge [OF d x(2)] lo key]
      dd_key_mono [OF inv L _ double_le_max [OF d] key hi] x(2) by simp
qed

lemma validate_buckets_pass:
  assumes "dict_ok d" "\<forall>(k, c) \<in> set d. 0 < c \<and> c \<le> MAX_INT64 \<and> lo \<le> k \<and> k \<le> hi"
    and f: "\<And>k. fd_bucket_key (f k) = Inr k"
  shows "validate_buckets lo hi (map (\<lambda>(k, c). (f k, PInt c)) d) = Inr d"
proof -
  have "dict_ok (acc @ d) \<Longrightarrow> rfold (validate_bucket lo hi) (map (\<lambda>(k, c). (f k, PInt c)) d) acc = Inr (acc @ d)" for acc
    using assms(2)
  proof (induction d arbitrary: acc)
    case (Cons p d)
    obtain k c where p: "p = (k, c)" by (cases p)
    have new: "k \<notin> fst ` set acc" using Cons.prems(1) by (auto simp: p)
    have "validate_bucket lo hi (f k, PInt c) acc = Inr (acc @ [(k, c)])"
      using Cons.prems(2) new by (simp add: p validate_bucket_def f dict_mem_iff dict_update_append raise_if_def)
    then show ?case using Cons.IH [of "acc @ [(k, c)]"] Cons.prems by (simp add: p)
  qed simp
  then show ?thesis using assms(1) unfolding validate_buckets_def by (metis append_Nil)
qed

lemma fd_bucket_key_str: "fd_bucket_key (PStr (int_str k)) = Inr k"
  by (simp add: parse_int_str)

text \<open>The written form with bucket keys in either notation.\<close>

definition latency_items :: "(int \<Rightarrow> pyval) \<Rightarrow> ddsketch \<Rightarrow> pydict" where
  "latency_items f l =
    [(PStr ''alpha'', PFloat (dd_alpha l)),
     (PStr ''positive'', PDict (map (\<lambda>(k, c). (f k, PInt c)) (dd_positive l))),
     (PStr ''negative'', PDict (map (\<lambda>(k, c). (f k, PInt c)) (dd_negative l))),
     (PStr ''zero_count'', PInt (dd_zero_count l)),
     (PStr ''count'', PInt (dd_count l)),
     (PStr ''min'', if dd_count l > 0 then PFloat (dd_min l) else PNone),
     (PStr ''max'', if dd_count l > 0 then PFloat (dd_max l) else PNone)]"

definition stream_items :: "(int \<Rightarrow> pyval) \<Rightarrow> pystream \<Rightarrow> pydict" where
  "stream_items f s =
    [(PStr ''version'', PInt 1), (PStr ''total'', PInt (sl_total s)),
     (PStr ''deterministic'', PBool (sl_deterministic s)),
     (PStr ''latency'', PDict (latency_items f (sl_latency s))),
     (PStr ''uniques'', sl_uniques_dict (sl_uniques s)), (PStr ''events'', sl_events_dict (sl_events s))]"

lemma to_dict_items: "sl_to_dict s = PDict (stream_items PInt s)"
  by (simp add: sl_to_dict_def stream_items_def sl_latency_dict_def latency_items_def bins_to_val_def)

lemma json_trip_items: "json_trip (sl_to_dict s) = PDict (stream_items (\<lambda>k. PStr (int_str k)) s)"
  by (simp add: sl_to_dict_def stream_items_def sl_latency_dict_def latency_items_def bins_to_val_def
      sl_uniques_dict_def sl_events_dict_def comp_def case_prod_unfold)

definition latency_parts :: "ddsketch \<Rightarrow> fd_latency_parts" where
  "latency_parts l = \<lparr>fl_alpha = dd_alpha l, fl_zero_count = dd_zero_count l, fl_count = dd_count l,
     fl_positive = dd_positive l, fl_negative = dd_negative l,
     fl_min = (if dd_count l > 0 then PFloat (dd_min l) else PNone),
     fl_max = (if dd_count l > 0 then PFloat (dd_max l) else PNone)\<rparr>"

lemma rnd_1e6_pos: "0 < rnd (1 / 10 ^ 6)"
proof -
  have "(2 :: rat) powi (-20) = rnd (2 powi (-20))" by (rule rnd_powi [symmetric]) simp
  also have "\<dots> \<le> rnd (1 / 10 ^ 6)" by (intro rnd_mono) (simp add: power_int_minus)
  finally show ?thesis using powi2_pos [of "-20"] by linarith
qed

lemma fd_latency_pass:
  assumes L: "libm_ok L" and inv: "dd_inv L s" and sup: "dd_support L X s" and f: "\<And>k. fd_bucket_key (f k) = Inr k"
    and hi: "dd_key L s (Fin DBL_MAX) = Inr hi" and lo: "dd_key L s (Fin DBL_TRUE_MIN) = Inr lo"
  shows "fd_latency L (latency_items f s) = Inr (latency_parts s)"
proof -
  obtain a where a: "dd_alpha s = Fin a" "rnd (1 / 10 ^ 6) \<le> a" "a < 1" "dd_gamma_of (Fin a) = Inr (dd_gamma s)"
    "py_log L (dd_gamma s) = Inr (dd_log_gamma s)" "f_div (Fin 1) (dd_log_gamma s) = Inr (dd_multiplier s)"
    using inv by (rule dd_inv_config)
  have a0: "0 < a" using a(2) rnd_1e6_pos by simp
  have b: "bins_ok (dd_positive s)" "bins_ok (dd_negative s)" "dd_fits s" and sum: "dd_count s = dd_zero_count s
      + dict_sum (dd_positive s) + dict_sum (dd_negative s)" and z: "0 \<le> dd_zero_count s"
    using inv by (auto simp: dd_inv_def)
  have fit: "length (dd_positive s) \<le> MAX_BINS" "length (dd_negative s) \<le> MAX_BINS" "dd_zero_count s \<le> MAX_INT64"
    "dd_count s \<le> MAX_UINT64" using b(3) by (auto simp: dd_fits_def bins_fit_def)
  have entry: "\<forall>(k, c) \<in> set d. 0 < c \<and> c \<le> MAX_INT64 \<and> lo \<le> k \<and> k \<le> hi"
    if "bins_ok d" "bins_fit d" "set d \<subseteq> set (dd_positive s) \<union> set (dd_negative s)" for d
  proof (intro ballI, clarify)
    fix k c assume kc: "(k, c) \<in> set d"
    then have "k \<in> fst ` set (dd_positive s) \<or> k \<in> fst ` set (dd_negative s)" using that(3) by force
    then have "lo \<le> k \<and> k \<le> hi" by (rule dd_support_range [OF L inv sup _ hi lo])
    moreover have "0 < c" "dict_get d k 0 = c"
      using that(1) kc dict_get_present [of d k c 0] by (auto simp: bins_ok_def)
    moreover have "dict_get d k 0 \<le> MAX_INT64" using that(2) by (simp add: bins_fit_def)
    ultimately show "0 < c \<and> c \<le> MAX_INT64 \<and> lo \<le> k \<and> k \<le> hi" by simp
  qed
  have pos: "validate_buckets lo hi (map (\<lambda>(k, c). (f k, PInt c)) (dd_positive s)) = Inr (dd_positive s)"
    using b f by (intro validate_buckets_pass entry) (auto simp: bins_ok_def dd_fits_def)
  have neg: "validate_buckets lo hi (map (\<lambda>(k, c). (f k, PInt c)) (dd_negative s)) = Inr (dd_negative s)"
    using b f by (intro validate_buckets_pass entry) (auto simp: bins_ok_def dd_fits_def)
  have ends: "rbind (py_log L (Fin DBL_MAX)) (\<lambda>l. f_ceil (f_mul l (dd_multiplier s))) = Inr hi"
    "rbind (py_log L (Fin DBL_TRUE_MIN)) (\<lambda>l. f_ceil (f_mul l (dd_multiplier s))) = Inr lo"
    using hi lo by (simp_all add: dd_key_def)
  have x: "fd_extrema L (dd_multiplier s) (dd_positive s) (dd_negative s) (dd_zero_count s) (dd_count s)
      (fl_min (latency_parts s)) (fl_max (latency_parts s)) = Inr ()"
    using fd_extrema_pass [OF L inv sup] by (simp add: latency_parts_def)
  have items: "d_item (latency_items f s) ''alpha'' = Inr (PFloat (Fin a))"
    "d_item (latency_items f s) ''zero_count'' = Inr (PInt (dd_zero_count s))"
    "d_item (latency_items f s) ''count'' = Inr (PInt (dd_count s))"
    "d_get (latency_items f s) ''positive'' PNone = PDict (map (\<lambda>(k, c). (f k, PInt c)) (dd_positive s))"
    "d_get (latency_items f s) ''negative'' PNone = PDict (map (\<lambda>(k, c). (f k, PInt c)) (dd_negative s))"
    "d_get (latency_items f s) ''min'' PNone = fl_min (latency_parts s)"
    "d_get (latency_items f s) ''max'' PNone = fl_max (latency_parts s)"
    by (simp_all add: latency_items_def latency_parts_def a)
  have "0 \<le> dd_count s" using dd_inv_count [OF inv] .
  then show ?thesis
    unfolding fd_latency_def items Let_def
    using a(3-) a0 z fit sum [symmetric] by (simp add: pos neg ends x del: py_log.simps f_div.simps) (simp add: latency_parts_def a)
qed

lemma fd_uniques_pass:
  assumes "hll_inv u"
  shows "rbind (as_dict e (sl_uniques_dict u)) fd_uniques = Inr (int (hll_p u), hll_registers u)"
proof -
  have "fd_registers (int (hll_p u)) (map (\<lambda>r. PInt (int r)) rs) = Inr rs"
    if "\<forall>r \<in> set rs. r \<le> 64 - hll_p u + 1" for rs
    using that assms by (induction rs) (auto simp: fd_registers_def raise_if_def hll_inv_def)
  then show ?thesis using assms by (simp add: sl_uniques_dict_def fd_uniques_def hll_inv_def)
qed

lemma fd_events_pass:
  assumes "cms_inv c" "cms_width c \<le> MAX_CMS_CELLS div cms_depth c"
  shows "rbind (as_dict e (sl_events_dict c)) fd_events = Inr (cms_width c, cms_depth c, cms_total c, cms_table c)"
proof -
  have cells: "rmap (\<lambda>v. rbind (as_int ce v) (\<lambda>n. raise_if (\<not> (0 \<le> n \<and> n \<le> MAX_INT64)) ce (Inr n))) (map PInt row) = Inr row"
    if "\<forall>n \<in> set row. 0 \<le> n \<and> n \<le> MAX_INT64" for ce row
    using that by (induction row) (auto simp: raise_if_def)
  have row: "fd_row (cms_width c) (cms_total c) (PList (map PInt r)) = Inr r" if "r \<in> set (cms_table c)" for r
  proof -
    have "\<forall>n \<in> set r. 0 \<le> n \<and> n \<le> MAX_INT64" "int (length r) = cms_width c" "sum_list r = cms_total c"
      using that assms(1) cell_le_sum [of _ r] by (force simp: cms_inv_def)+
    then show ?thesis unfolding fd_row_def as_list.simps rbind_Inr by (simp only: cells) simp
  qed
  have "rmap (fd_row (cms_width c) (cms_total c)) (map (\<lambda>r. PList (map PInt r)) rs) = Inr rs"
    if "set rs \<subseteq> set (cms_table c)" for rs
    using that row by (induction rs) auto
  then show ?thesis
    using assms cms_inv_total [OF assms(1)] by (simp add: sl_events_dict_def fd_events_def cms_inv_def)
qed

lemma fd_build_pass:
  assumes inv: "sl_inv L s"
  shows "fd_build L (sl_total s) (sl_deterministic s) (latency_parts (sl_latency s))
    (int (hll_p (sl_uniques s)), hll_registers (sl_uniques s))
    (cms_width (sl_events s), cms_depth (sl_events s), cms_total (sl_events s), cms_table (sl_events s)) = Inr s"
proof -
  have "dd_extrema_ok (sl_latency s)" "0 \<le> dd_count (sl_latency s)"
    using inv dd_inv_count by (auto simp: sl_inv_def dd_inv_def)
  then show ?thesis
    unfolding fd_build_def using sl_init_parts [OF inv]
    by (auto simp: latency_parts_def Let_def sl_reset_def dd_reset_def cms_reset_def hll_reset_def dd_extrema_ok_def)
qed

lemma from_items:
  assumes L: "libm_ok L" and inv: "sl_inv L s" and sup: "dd_support L X (sl_latency s)"
    and f: "\<And>k. fd_bucket_key (f k) = Inr k"
    and hi: "dd_key L (sl_latency s) (Fin DBL_MAX) = Inr hi" and lo: "dd_key L (sl_latency s) (Fin DBL_TRUE_MIN) = Inr lo"
  shows "sl_from_dict L (PDict (stream_items f s)) = Inr s"
proof -
  have i: "dd_inv L (sl_latency s)" "hll_inv (sl_uniques s)" "cms_inv (sl_events s)"
    "cms_width (sl_events s) \<le> MAX_CMS_CELLS div cms_depth (sl_events s)" "sl_total s \<le> MAX_UINT64"
    "sl_total s = dd_count (sl_latency s) + cms_total (sl_events s)" using inv by (auto simp: sl_inv_def)
  have tot: "0 \<le> sl_total s" using i(6) dd_inv_count [OF i(1)] cms_inv_total [OF i(3)] by simp
  have items: "d_get (stream_items f s) ''version'' PNone = PInt 1" "d_item (stream_items f s) ''total'' = Inr (PInt (sl_total s))"
    "d_get (stream_items f s) ''deterministic'' (PBool False) = PBool (sl_deterministic s)"
    "d_item (stream_items f s) ''latency'' = Inr (PDict (latency_items f (sl_latency s)))"
    "d_item (stream_items f s) ''uniques'' = Inr (sl_uniques_dict (sl_uniques s))"
    "d_item (stream_items f s) ''events'' = Inr (sl_events_dict (sl_events s))"
    by (simp_all add: stream_items_def)
  obtain ud ed where d: "sl_uniques_dict (sl_uniques s) = PDict ud" "sl_events_dict (sl_events s) = PDict ed"
    by (simp add: sl_uniques_dict_def sl_events_dict_def)
  have "fd_uniques ud = Inr (int (hll_p (sl_uniques s)), hll_registers (sl_uniques s))"
    "fd_events ed = Inr (cms_width (sl_events s), cms_depth (sl_events s), cms_total (sl_events s), cms_table (sl_events s))"
    using fd_uniques_pass [OF i(2)] fd_events_pass [OF i(3,4)] d by auto
  moreover have "fl_count (latency_parts (sl_latency s)) = dd_count (sl_latency s)" by (simp add: latency_parts_def)
  ultimately have "from_dict_body L (stream_items f s) = Inr s"
    unfolding from_dict_body_def items d
    using fd_latency_pass [OF L i(1) sup f hi lo] fd_build_pass [OF inv] tot i(5,6) by simp
  then show ?thesis by (simp add: sl_from_dict_def)
qed

section \<open>Properties\<close>

definition op_double :: "sl_op \<Rightarrow> bool" where
  "op_double op \<longleftrightarrow> (\<forall>x \<in> set (finites (op_values op)). is_double x)"

lemma dd_ingest_support:
  assumes "dd_ingest L vs s = Inr t" "dd_inv L s" "dd_support L X s" "\<forall>x \<in> set (finites vs). is_double x"
  shows "\<exists>Y. dd_support L Y t"
  using assms
proof (induction vs arbitrary: s X)
  case (Cons v vs)
  then obtain u where u: "dd_add L (v, 1) s = Inr u" "dd_ingest L vs u = Inr t" by (auto simp: rbind_eq_Inr)
  show ?case
  proof (cases v)
    case (Fin x)
    then have "dd_support L (insert x X) u"
      using u(1) Cons.prems dd_support_put [OF Cons.prems(3,2), of x 1] by (auto simp: dd_add_eq)
    then show ?thesis using Cons.IH [OF u(2) dd_add_inv(1) [OF Cons.prems(2) u(1)]] Cons.prems(4) Fin by simp
  qed (use u Cons in \<open>auto simp: dd_add_def\<close>)
qed auto

lemma st_ingest_support:
  assumes e: "st_init L a p w d det = Inr e" and s: "rfold (st_apply L) ops e = Inr s"
    and doubles: "\<forall>op \<in> set ops. op_double op"
  shows "\<exists>X. dd_support L X (sl_latency (st_backend s))"
proof -
  let ?P = "\<lambda>s. st_inv L s \<and> (\<exists>X. dd_support L X (sl_latency (st_backend s)))"
  have "dd_init L a = Inr (sl_latency (st_backend e))"
    using e by (auto simp: st_init_def sl_init_def rbind_eq_Inr raise_if_eq_Inr)
  then have "?P e" using st_init_inv [OF e] dd_support_init by blast
  with s have "?P s"
  proof (rule rfold_invariant [where P = ?P])
    fix op s t assume op: "op \<in> set ops" and s: "?P s" and t: "st_apply L op s = Inr t"
    then obtain b where b: "sl_apply L op (st_backend s) = Inr b" "t = s\<lparr>st_backend := b\<rparr>"
      by (auto simp: st_apply_lift st_lift_eq_Inr)
    have inv: "sl_inv L (st_backend s)" using s st_inv_backend by blast
    have "dd_ingest L (op_values op) (sl_latency (st_backend s)) = Inr (sl_latency b)"
      using b(1) by (auto simp: sl_apply_eq [OF inv])
    then show "?P t"
      using s inv doubles op st_apply_inv [of L s op t] t b(2)
      by (auto simp: sl_inv_def op_double_def intro: dd_ingest_support)
  qed
  then show ?thesis by blast
qed


lemma dict_round_trip:
  assumes "st_init L a p w d det = Inr e" and "rfold (st_apply L) ops e = Inr s"
    and "\<forall>op \<in> set ops. op_double op" and "libm_ok L"
    and "is_ok (dd_key L (sl_latency (st_backend s)) (Fin DBL_MAX))"
    and "is_ok (dd_key L (sl_latency (st_backend s)) (Fin DBL_TRUE_MIN))"
  shows "st_from_dict L (st_to_dict s) = Inr s \<and> st_from_dict L (json_trip (st_to_dict s)) = Inr s"
proof -
  have inv: "st_inv L s" using st_ingest_inv [OF assms(1,2)] by simp
  obtain X where X: "dd_support L X (sl_latency (st_backend s))" using st_ingest_support [OF assms(1-3)] by blast
  have sl: "sl_from_dict L (PDict (stream_items f (st_backend s))) = Inr (st_backend s)"
    if "\<And>k. fd_bucket_key (f k) = Inr k" for f
    using from_items [OF assms(4) st_inv_backend [OF inv] X that] assms(5,6) by (auto simp: is_ok_iff)
  have "st_from_dict L (PDict (stream_items f (st_backend s))) = Inr s"
    if "\<And>k. fd_bucket_key (f k) = Inr k" for f
    using sl [OF that] inv sl_init_parts [OF st_inv_backend [OF inv]]
    by (simp add: st_from_dict_def st_init_def st_inv_def)
  then show ?thesis
    unfolding st_to_dict_def json_trip_items unfolding to_dict_items using fd_bucket_key_str by simp
qed

text \<open>
  C3: Saving and restoring is lossless.  A log built by any accepted stream of calls is read back
  exactly from its dictionary, and also after a passage through JSON, which turns the integer
  bucket keys into text.  The last two hypotheses say that the bucket bounds of the reader can be
  computed, for the largest and the smallest float.
\<close>

theorem to_dict_from_dict:
  assumes "st_init L a p w d det = Inr e" and "rfold (st_apply L) ops e = Inr s"
    and "\<forall>op \<in> set ops. op_double op" and "libm_ok L"
    and "is_ok (dd_key L (sl_latency (st_backend s)) (Fin DBL_MAX))"
    and "is_ok (dd_key L (sl_latency (st_backend s)) (Fin DBL_TRUE_MIN))"
  shows "st_from_dict L (st_to_dict s) = Inr s \<and> st_from_dict L (json_trip (st_to_dict s)) = Inr s"
  by (rule dict_round_trip [OF assms])

text \<open>The example library computes the bucket bounds.\<close>

lemma demo_log_bounds:
  assumes "0 < v" "2 powi a \<le> v" "v < 2 powi (b + 1)"
  shows "of_int a \<le> c_log libm_demo v \<and> c_log libm_demo v \<le> of_int (b + 1)"
proof -
  have f: "a \<le> flog2 v" "flog2 v \<le> b" using assms flog2_ge flog2_le by auto
  then have "of_int a \<le> (of_int (flog2 v) :: rat)" "(of_int (flog2 v) :: rat) \<le> of_int b" by simp_all
  moreover have "1 \<le> v / 2 powi flog2 v" "v / 2 powi flog2 v \<le> 2"
    using flog2_bounds [OF assms(1)] by (simp_all add: pos_le_divide_eq pos_divide_le_eq powi2_add)
  ultimately have "of_int a \<le> of_int (flog2 v) + (v / 2 powi flog2 v - 1)"
    "of_int (flog2 v) + (v / 2 powi flog2 v - 1) \<le> of_int b + 1" by linarith+
  then show ?thesis by (simp add: libm_demo_def)
qed

lemma demo_key_ok:
  assumes m: "dd_multiplier s = Fin m" "0 \<le> m" "m \<le> 1" and v: "0 < v" "2 powi (-1074) \<le> v" "v < 2 powi (1023 + 1)"
  shows "is_ok (dd_key libm_demo s (Fin v))"
proof -
  let ?c = "c_log libm_demo v"
  have "- 1074 \<le> ?c" "?c \<le> 1024" using demo_log_bounds [OF v] by simp_all
  then have "\<bar>?c\<bar> \<le> 1074" by (intro abs_leI) linarith+
  then have "\<bar>?c * m\<bar> \<le> 1074 * 1" unfolding abs_mult using m(2,3) by (intro mult_mono) simp_all
  then have "?c * m \<le> 1074" "- 1074 \<le> ?c * m" by linarith+
  then have "rnd (?c * m) \<le> rnd 1074" "rnd (- 1074) \<le> rnd (?c * m)" by (simp_all only: rnd_mono)
  moreover have "rnd 1074 = 1074" "rnd (- 1074) = - 1074" using rnd_int [of 1074] rnd_uminus [of 1074] by simp_all
  ultimately have "\<bar>rnd (?c * m)\<bar> \<le> 1074" by linarith
  moreover have "(1074 :: rat) < 2 ^ 1024" by simp
  ultimately have "\<bar>rnd (?c * m)\<bar> < 2 ^ 1024" by linarith
  then show ?thesis using v(1) m(1) by (simp add: dd_key_def to_float_Fin)
qed

lemma demo_bounds:
  assumes e: "st_init libm_demo (Fin (1/2)) 4 4 2 True = Inr e" and s: "rfold (st_apply libm_demo) ops e = Inr s"
  shows "is_ok (dd_key libm_demo (sl_latency (st_backend s)) (Fin DBL_MAX))"
    "is_ok (dd_key libm_demo (sl_latency (st_backend s)) (Fin DBL_TRUE_MIN))"
proof -
  have "case dd_init libm_demo (Fin (1/2)) of Inr s \<Rightarrow> dd_multiplier s = Fin (6004799503160661 / 9007199254740992) | _ \<Rightarrow> False"
    by code_simp
  moreover have "dd_init libm_demo (Fin (1/2)) = Inr (sl_latency (st_backend e))"
    using e by (auto simp: st_init_def sl_init_def rbind_eq_Inr raise_if_eq_Inr)
  moreover have "dd_reset (sl_latency (st_backend s)) = sl_latency (st_backend e)"
    using st_ingest_inv [OF e s] by (auto simp: st_reset_def sl_reset_def)
  then have "dd_multiplier (sl_latency (st_backend s)) = dd_multiplier (sl_latency (st_backend e))"
    by (metis dd_reset_def ddsketch.select_convs(4) ddsketch.surjective ddsketch.update_convs(5-10))
  ultimately have m: "dd_multiplier (sl_latency (st_backend s)) = Fin (6004799503160661 / 9007199254740992)" by simp
  have tm: "(2 :: rat) powi (-1074) < 2 powi (1023 + 1)" "(2 :: rat) powi (-1074) \<le> 2 powi 1023"
    by (simp_all only: powi2_less_iff powi2_le_iff)
  have mx: "2 powi 1023 \<le> DBL_MAX" "DBL_MAX < 2 powi (1023 + 1)" by (simp_all add: DBL_MAX_def)
  have pos: "0 < DBL_MAX" "2 powi (-1074) \<le> DBL_MAX" using mx(1) tm(2) powi2_pos [of 1023] by linarith+
  show "is_ok (dd_key libm_demo (sl_latency (st_backend s)) (Fin DBL_MAX))"
    by (rule demo_key_ok [OF m _ _ pos mx(2)]) simp_all
  show "is_ok (dd_key libm_demo (sl_latency (st_backend s)) (Fin DBL_TRUE_MIN))"
    unfolding DBL_TRUE_MIN_def by (rule demo_key_ok [OF m _ _ powi2_pos order_refl tm(1)]) simp_all
qed

theorem to_dict_from_dict_witness:
  "\<exists>e s. st_init libm_demo (Fin (1/2)) 4 4 2 True = Inr e \<and> rfold (st_apply libm_demo) demo_ops e = Inr s
    \<and> st_from_dict libm_demo (json_trip (st_to_dict s)) = Inr s"
proof -
  obtain e s where es: "st_init libm_demo (Fin (1/2)) 4 4 2 True = Inr e"
    "rfold (st_apply libm_demo) demo_ops e = Inr s" by (rule demo_stream)
  have "is_double 2" using rnd_int [of 2] by (simp add: is_double_def)
  then have "\<forall>op \<in> set demo_ops. op_double op" by (simp add: demo_ops_def op_double_def)
  then show ?thesis using to_dict_from_dict [OF es _ libm_ok_demo demo_bounds [OF es]] es by blast
qed

end
