(* ===== verification/Windowed.thy ===== *)
theory Windowed
  imports Stream_Laws PyValue
begin

text \<open>
  The sliding window (\<^verbatim>\<open>windowed.py\<close>): a ring of stream logs, one per slice of the window, and a cached
  merge of the live ones.  Clock readings are arguments; an operation that raises keeps what it
  changed before, so operations return the new state together with their outcome.  The lock makes
  every public operation one step.
\<close>

section \<open>Configuration\<close>

datatype window_arg = WindowInt int | WindowFloat pyfloat | WindowStr string

definition unit_seconds :: "char \<Rightarrow> int option" where
  "unit_seconds c = map_of [(CHR ''s'', 1), (CHR ''m'', 60), (CHR ''h'', 3600), (CHR ''d'', 86400)] c"

definition parse_window :: "window_arg \<Rightarrow> pyfloat result" where
  "parse_window window =
    rbind (case window of
        WindowInt n \<Rightarrow> raise_if (f_isinf (f_of_int n)) (OverflowError ''int too large to convert to float'') (Inr (f_of_int n))
      | WindowFloat f \<Rightarrow> Inr f
      | WindowStr s \<Rightarrow> (let w = py_lower (py_strip s) in
          raise_if (w = []) (ValueError ''Window string cannot be empty or whitespace'')
         (case unit_seconds (last w) of
            Some u \<Rightarrow> rbind (py_float_of_str (butlast w)) (\<lambda>f. Inr (f_mul f (f_of_int u)))
          | None \<Rightarrow> py_float_of_str w))) (\<lambda>result.
    raise_if (f_isnan result \<or> f_isinf result) (ValueError ''Window must be finite'')
   (raise_if (f_le result (Fin 0)) (ValueError ''Window must be positive'') (Inr result)))"

section \<open>State\<close>

record window =
  win_seconds :: pyfloat
  win_n :: int
  win_ns :: int
  win_duration :: int
  win_buckets :: "stream list"
  win_starts :: "int list"
  win_current :: nat
  win_merged :: stream
  win_expires :: "int option"

type_synonym 'a win_outcome = "window \<times> 'a result"

definition win_init :: "libm \<Rightarrow> window_arg \<Rightarrow> int \<Rightarrow> pyfloat \<Rightarrow> int \<Rightarrow> int \<Rightarrow> int \<Rightarrow> int \<Rightarrow> window result" where
  "win_init L window n_buckets relative_accuracy hll_precision width depth now =
    raise_if (n_buckets \<le> 0) (ValueError ''WindowedStreamLog n_buckets must be > 0'')
   (rbind (parse_window window) (\<lambda>seconds.
    rbind (f_ceil (f_mul seconds (Fin 1000000000))) (\<lambda>ns.
    rbind (st_init L relative_accuracy hll_precision width depth False) (\<lambda>log.
    Inr \<lparr>win_seconds = seconds, win_n = n_buckets, win_ns = ns,
         win_duration = (ns + n_buckets - 1) div n_buckets,
         win_buckets = replicate (nat n_buckets) log, win_starts = replicate (nat n_buckets) now,
         win_current = 0, win_merged = log, win_expires = None\<rparr>))))"

section \<open>Rotation\<close>

definition win_nonempty :: "libm \<Rightarrow> stream \<Rightarrow> bool result" where
  "win_nonempty L b = (if st_total_events b > 0 then Inr True
     else rbind (st_unique_count L b) (\<lambda>n. Inr (n > 0)))"

definition min_expiry :: "int option \<Rightarrow> int \<Rightarrow> int option" where
  "min_expiry e t = (case e of None \<Rightarrow> Some t | Some x \<Rightarrow> if t < x then Some t else Some x)"

fun win_rebuild_loop :: "libm \<Rightarrow> int \<Rightarrow> int \<Rightarrow> (stream \<times> int) list \<Rightarrow> stream \<Rightarrow> int option \<Rightarrow>
    stream \<times> int option result" where
  "win_rebuild_loop L now ns [] merged expires = (merged, Inr expires)"
| "win_rebuild_loop L now ns ((b, start) # rest) merged expires =
    (if now - start \<le> ns
     then (case win_nonempty L b of
         Inl e \<Rightarrow> (merged, Inl e)
       | Inr False \<Rightarrow> win_rebuild_loop L now ns rest merged expires
       | Inr True \<Rightarrow> (case st_merge merged b of
             Inl e \<Rightarrow> (merged, Inl e)
           | Inr m \<Rightarrow> win_rebuild_loop L now ns rest m (min_expiry expires (start + ns))))
     else win_rebuild_loop L now ns rest merged expires)"

definition win_rebuild_merged :: "libm \<Rightarrow> int \<Rightarrow> window \<Rightarrow> unit win_outcome" where
  "win_rebuild_merged L now w =
    (case win_rebuild_loop L now (win_ns w) (zip (win_buckets w) (win_starts w)) (st_reset (win_merged w)) None of
       (m, Inl e) \<Rightarrow> (w\<lparr>win_merged := m\<rparr>, Inl e)
     | (m, Inr expires) \<Rightarrow> (w\<lparr>win_merged := m, win_expires := expires\<rparr>, Inr ()))"

text \<open>One step of the ring, and the loop that makes as many steps as slices have passed.\<close>

definition win_advance :: "window \<Rightarrow> window" where
  "win_advance w =
    (let prev_start = win_starts w ! win_current w;
         cur = nat ((int (win_current w) + 1) mod win_n w)
     in w\<lparr>win_current := cur,
          win_buckets := (win_buckets w)[cur := st_reset (win_buckets w ! cur)],
          win_starts := (win_starts w)[cur := prev_start + win_duration w]\<rparr>)"

function win_rotate_loop :: "int \<Rightarrow> window \<Rightarrow> bool \<Rightarrow> window \<times> bool" where
  "win_rotate_loop elapsed w rotated =
    (if win_duration w \<le> 0 \<or> elapsed < win_duration w then (w, rotated)
     else win_rotate_loop (elapsed - win_duration w) (win_advance w) True)"
  by pat_completeness auto

lemma win_advance_config [simp]:
  "win_duration (win_advance w) = win_duration w" "win_n (win_advance w) = win_n w" "win_ns (win_advance w) = win_ns w"
  "win_merged (win_advance w) = win_merged w" "win_expires (win_advance w) = win_expires w"
  by (simp_all add: win_advance_def Let_def)

termination win_rotate_loop
  by (relation "measure (\<lambda>(elapsed, w, r). nat elapsed)") auto

declare win_rotate_loop.simps [simp del]

definition win_rotate :: "libm \<Rightarrow> int \<Rightarrow> int \<Rightarrow> window \<Rightarrow> unit win_outcome" where
  "win_rotate L now now' w =
    (let elapsed = now - win_starts w ! win_current w;
         expired = (case win_expires w of None \<Rightarrow> False | Some t \<Rightarrow> now > t)
     in if elapsed \<ge> win_n w * win_duration w
        then win_rebuild_merged L now'
               (w\<lparr>win_buckets := map st_reset (win_buckets w), win_starts := map (\<lambda>_. now) (win_starts w)\<rparr>)
        else case win_rotate_loop elapsed w expired of (w', rotated) \<Rightarrow>
          if rotated then win_rebuild_merged L now' w' else (w', Inr ()))"

section \<open>Operations\<close>

definition win_add :: "libm \<Rightarrow> int \<Rightarrow> int \<Rightarrow> sl_op \<Rightarrow> window \<Rightarrow> unit win_outcome" where
  "win_add L now now' op w = (case win_rotate L now now' w of
     (w1, Inl e) \<Rightarrow> (w1, Inl e)
   | (w1, Inr _) \<Rightarrow> (case st_apply L op (win_buckets w1 ! win_current w1) of
       Inl e \<Rightarrow> (w1, Inl e)
     | Inr b \<Rightarrow> (let w2 = w1\<lparr>win_buckets := (win_buckets w1)[win_current w1 := b]\<rparr> in
         case st_apply L op (win_merged w2) of
           Inl e \<Rightarrow> (w2, Inl e)
         | Inr m \<Rightarrow> (w2\<lparr>win_merged := m\<rparr>, Inr ()))))"

definition win_add_latency :: "libm \<Rightarrow> int \<Rightarrow> int \<Rightarrow> pyfloat \<Rightarrow> window \<Rightarrow> unit win_outcome" where
  "win_add_latency L now now' value = win_add L now now' (AddLatency value)"

definition win_add_event :: "libm \<Rightarrow> int \<Rightarrow> int \<Rightarrow> event_key \<Rightarrow> int \<Rightarrow> window \<Rightarrow> unit win_outcome" where
  "win_add_event L now now' name count = win_add L now now' (AddEvent name count)"

definition win_add_unique :: "libm \<Rightarrow> int \<Rightarrow> int \<Rightarrow> event_key \<Rightarrow> window \<Rightarrow> unit win_outcome" where
  "win_add_unique L now now' item = win_add L now now' (AddUnique item)"

text \<open>Every read rotates first and then asks the cached merge.\<close>

definition win_read :: "libm \<Rightarrow> int \<Rightarrow> int \<Rightarrow> (stream \<Rightarrow> 'a result) \<Rightarrow> window \<Rightarrow> 'a win_outcome" where
  "win_read L now now' query w = (case win_rotate L now now' w of
     (w1, Inl e) \<Rightarrow> (w1, Inl e)
   | (w1, Inr _) \<Rightarrow> (w1, query (win_merged w1)))"

definition win_percentile :: "libm \<Rightarrow> int \<Rightarrow> int \<Rightarrow> pyfloat \<Rightarrow> window \<Rightarrow> pyfloat win_outcome" where
  "win_percentile L now now' q = win_read L now now' (\<lambda>m. st_percentile L m q)"

definition win_unique_count :: "libm \<Rightarrow> int \<Rightarrow> int \<Rightarrow> window \<Rightarrow> int win_outcome" where
  "win_unique_count L now now' = win_read L now now' (st_unique_count L)"

definition win_event_count :: "libm \<Rightarrow> int \<Rightarrow> int \<Rightarrow> event_key \<Rightarrow> window \<Rightarrow> int win_outcome" where
  "win_event_count L now now' name = win_read L now now' (\<lambda>m. st_event_count m name)"

definition win_total_events :: "libm \<Rightarrow> int \<Rightarrow> int \<Rightarrow> window \<Rightarrow> int win_outcome" where
  "win_total_events L now now' = win_read L now now' (\<lambda>m. Inr (st_total_events m))"

definition win_memory_bytes :: "window \<Rightarrow> int" where
  "win_memory_bytes w = sum_list (map st_memory_bytes (win_buckets w)) + st_memory_bytes (win_merged w)"

definition win_memory_kb :: "window \<Rightarrow> pyfloat result" where
  "win_memory_kb w = f_div (f_of_int (win_memory_bytes w)) (Fin 1024)"

definition win_stats :: "libm \<Rightarrow> int \<Rightarrow> int \<Rightarrow> window \<Rightarrow> stats win_outcome" where
  "win_stats L now now' w = (case win_rotate L now now' w of
     (w1, Inl e) \<Rightarrow> (w1, Inl e)
   | (w1, Inr _) \<Rightarrow> (w1, rbind (st_stats L (win_merged w1)) (\<lambda>s. rbind (win_memory_kb w1) (\<lambda>kb.
       Inr (s\<lparr>stat_memory_bytes := win_memory_bytes w1, stat_memory_kb := kb\<rparr>)))))"

definition win_reset :: "int \<Rightarrow> window \<Rightarrow> window" where
  "win_reset now w = w\<lparr>win_buckets := map st_reset (win_buckets w), win_merged := st_reset (win_merged w),
     win_expires := None, win_starts := replicate (nat (win_n w)) now, win_current := 0\<rparr>"

end
