(* ===== verification/Windowed_Laws.thy ===== *)
theory Windowed_Laws
  imports Windowed "HOL-Library.Multiset"
begin

text \<open>
  The sliding-window contract.  A quantity that each bucket accumulates additively (the total
  number of events, the number of latencies) is reported by the window as a sum over the calls of
  its history: every call younger than the window less one slice counts, and no call older than the
  window does.  The proof keeps a ghost history per bucket.
\<close>

section \<open>Shape of the ring\<close>

definition win_ok :: "libm \<Rightarrow> window \<Rightarrow> bool" where
  "win_ok L w \<longleftrightarrow> 0 < win_n w \<and> 0 < win_ns w \<and> win_duration w = (win_ns w + win_n w - 1) div win_n w
     \<and> length (win_buckets w) = nat (win_n w) \<and> length (win_starts w) = nat (win_n w)
     \<and> win_current w < nat (win_n w) \<and> st_inv L (win_merged w)
     \<and> (\<forall>b \<in> set (win_buckets w). st_inv L b \<and> st_reset b = st_reset (win_merged w))"

abbreviation win_start :: "window \<Rightarrow> int" where
  "win_start w \<equiv> win_starts w ! win_current w"

lemma duration_bounds:
  assumes "win_ok L w"
  shows "0 < win_duration w" "win_ns w \<le> win_n w * win_duration w" "win_duration w \<le> win_ns w"
proof -
  have n: "0 < win_n w" "0 < win_ns w" and d: "win_duration w = (win_ns w + win_n w - 1) div win_n w"
    using assms by (auto simp: win_ok_def)
  have "1 \<le> win_duration w" unfolding d using n zdiv_mono1 [of "win_n w" "win_ns w + win_n w - 1" "win_n w"] by simp
  then show "0 < win_duration w" by simp
  have "win_ns w + win_n w - 1 = win_n w * win_duration w + (win_ns w + win_n w - 1) mod win_n w"
    unfolding d by simp
  moreover have "(win_ns w + win_n w - 1) mod win_n w < win_n w" using n by simp
  ultimately show "win_ns w \<le> win_n w * win_duration w" by linarith
  have "(win_ns w + win_n w - 1) div win_n w \<le> (win_ns w * win_n w) div win_n w"
  proof (rule zdiv_mono1)
    have "0 \<le> (win_ns w - 1) * (win_n w - 1)" using n by simp
    then show "win_ns w + win_n w - 1 \<le> win_ns w * win_n w" by (simp add: algebra_simps)
  qed (use n in simp)
  then show "win_duration w \<le> win_ns w" unfolding d using n by simp
qed

text \<open>How many slices bucket \<open>i\<close> lies behind the current one.\<close>

definition ring_age :: "window \<Rightarrow> nat \<Rightarrow> nat" where
  "ring_age w i = (win_current w + nat (win_n w) - i) mod nat (win_n w)"

lemma win_current_advance:
  "win_ok L w \<Longrightarrow> win_current (win_advance w) = (if Suc (win_current w) = nat (win_n w) then 0 else Suc (win_current w))"
proof -
  assume "win_ok L w"
  then have c: "win_current w < nat (win_n w)" "win_n w = int (nat (win_n w))" by (auto simp: win_ok_def)
  then have "(int (win_current w) + 1) mod win_n w = int (Suc (win_current w) mod nat (win_n w))"
    by (metis of_nat_Suc of_nat_mod add.commute)
  then show ?thesis using c by (simp add: win_advance_def Let_def)
qed

lemma ring_age_eq:
  "win_current w < nat (win_n w) \<Longrightarrow> i < nat (win_n w) \<Longrightarrow>
    ring_age w i = (if i \<le> win_current w then win_current w - i else win_current w + nat (win_n w) - i)"
  unfolding ring_age_def by (simp add: mod_if)

lemma ring_age_advance:
  assumes "win_ok L w" "i < nat (win_n w)"
  shows "ring_age (win_advance w) i = (if i = win_current (win_advance w) then 0 else Suc (ring_age w i))"
proof -
  have c: "win_current w < nat (win_n w)" using assms by (simp add: win_ok_def)
  have c': "win_current (win_advance w) < nat (win_n (win_advance w))"
    using c win_current_advance [OF assms(1)] by (simp split: if_splits)
  show ?thesis
    unfolding ring_age_eq [OF c assms(2)] ring_age_eq [OF c', unfolded win_advance_config, OF assms(2)]
      win_current_advance [OF assms(1)]
    using c assms(2) by (cases "Suc (win_current w) = nat (win_n w)"; cases "i \<le> win_current w"; simp; linarith?)
qed

lemma ring_age_next:
  assumes "win_ok L w" shows "ring_age w (win_current (win_advance w)) = nat (win_n w) - 1"
proof -
  have c: "win_current w < nat (win_n w)" using assms by (simp add: win_ok_def)
  have c': "win_current (win_advance w) < nat (win_n w)"
    using c win_current_advance [OF assms(1)] by (simp split: if_splits)
  show ?thesis unfolding ring_age_eq [OF c c'] unfolding win_current_advance [OF assms(1)] using c
    by (cases "Suc (win_current w) = nat (win_n w)"; simp; linarith?)
qed

lemma ring_age_bound: "0 < win_n w \<Longrightarrow> ring_age w i < nat (win_n w)"
  by (simp add: ring_age_def)

lemma win_advance_lists:
  assumes "win_ok L w"
  shows "length (win_buckets (win_advance w)) = length (win_buckets w)"
    "length (win_starts (win_advance w)) = length (win_starts w)"
    "win_starts (win_advance w) = (win_starts w)[win_current (win_advance w) := win_start w + win_duration w]"
    "win_buckets (win_advance w) = (win_buckets w)[win_current (win_advance w) := st_reset (win_buckets w ! win_current (win_advance w))]"
  by (simp_all add: win_advance_def Let_def)

lemma win_start_advance: "win_ok L w \<Longrightarrow> win_start (win_advance w) = win_start w + win_duration w"
  using win_current_advance [of L w] by (simp add: win_advance_lists) (auto simp: win_ok_def)

lemma win_advance_ok:
  assumes "win_ok L w" shows "win_ok L (win_advance w)"
proof -
  have cur: "win_current (win_advance w) < length (win_buckets w)"
    using assms win_current_advance [OF assms] by (auto simp: win_ok_def)
  have old: "st_inv L b \<and> st_reset b = st_reset (win_merged w)" if "b \<in> set (win_buckets w)" for b
    using assms that by (simp add: win_ok_def)
  have new: "st_inv L (st_reset b) \<and> st_reset (st_reset b) = st_reset (win_merged w)" if "b \<in> set (win_buckets w)" for b
    using old [OF that] st.inv_reset [of L b] st.reset_reset [of b] by simp
  have "set (win_buckets (win_advance w)) \<subseteq> insert (st_reset (win_buckets w ! win_current (win_advance w))) (set (win_buckets w))"
    unfolding win_advance_lists(4) [OF assms] by (rule set_update_subset_insert)
  then have "\<forall>b \<in> set (win_buckets (win_advance w)). st_inv L b \<and> st_reset b = st_reset (win_merged w)"
    using old new [OF nth_mem [OF cur]] by blast
  then show ?thesis using assms cur win_advance_lists(1,2) [OF assms] by (simp add: win_ok_def)
qed

lemma concat_update_mset: "i < length xss \<Longrightarrow> mset (concat (xss[i := []])) + mset (xss ! i) = mset (concat xss)"
  by (induction xss arbitrary: i) (auto simp: nth_Cons split: nat.splits)

lemma sum_filter_mset_nonneg: "\<forall>p \<in># M. (0::int) \<le> f p \<Longrightarrow> 0 \<le> (\<Sum>p \<in># filter_mset P M. f p)"
  by (induction M) auto

lemma sum_filter_mset_le: "\<forall>p \<in># M. (0::int) \<le> f p \<Longrightarrow> (\<Sum>p \<in># filter_mset P M. f p) \<le> (\<Sum>p \<in># M. f p)"
  by (induction M) auto

lemma sum_filter_sum: "(\<Sum>p \<in># filter_mset P (\<Sum>i < (n::nat). F i). f p) = (\<Sum>i < n. \<Sum>p \<in># filter_mset P (F i). f p)"
  by (induction n) simp_all

lemma sum_if_update:
  assumes "c < length xs" "P c"
  shows "(\<Sum>i < length xs. if P i then (v (xs[c := b] ! i) :: int) else 0)
    = (\<Sum>i < length xs. if P i then v (xs ! i) else 0) + (v b - v (xs ! c))"
proof -
  have "(\<Sum>i \<in> {..<length xs} - {c}. if P i then v (xs[c := b] ! i) else 0)
      = (\<Sum>i \<in> {..<length xs} - {c}. if P i then v (xs ! i) else 0)"
    by (intro sum.cong) auto
  then show ?thesis using assms by (simp add: sum.remove [of "{..<length xs}" c])
qed

section \<open>Quantities of the window\<close>

text \<open>The sum of a quantity over the buckets that are at most one window old at time \<open>x\<close>.\<close>

definition live_sum :: "(stream \<Rightarrow> int) \<Rightarrow> int \<Rightarrow> int \<Rightarrow> (stream \<times> int) list \<Rightarrow> int" where
  "live_sum view x ns slots = sum_list (map (\<lambda>(b, s). if x - s \<le> ns then view b else 0) slots)"

definition live_view :: "(stream \<Rightarrow> int) \<Rightarrow> int \<Rightarrow> window \<Rightarrow> int" where
  "live_view view x w = live_sum view x (win_ns w) (zip (win_buckets w) (win_starts w))"

definition fresh_at :: "int \<Rightarrow> window \<Rightarrow> bool" where
  "fresh_at x w \<longleftrightarrow> x - win_start w < win_duration w \<and> (case win_expires w of None \<Rightarrow> True | Some e \<Rightarrow> x \<le> e)"

definition cache_ok :: "(stream \<Rightarrow> int) \<Rightarrow> int \<Rightarrow> window \<Rightarrow> bool" where
  "cache_ok view T w \<longleftrightarrow> (\<forall>x \<ge> T. fresh_at x w \<longrightarrow> view (win_merged w) = live_view view x w)"

text \<open>Bookkeeping of the calls: \<open>H ! i\<close> lists the calls kept by bucket \<open>i\<close>, \<open>D\<close> the forgotten ones.\<close>

definition ring_ok :: "(stream \<Rightarrow> int) \<Rightarrow> int \<Rightarrow> (int \<times> int) list list \<Rightarrow> (int \<times> int) multiset \<Rightarrow> window \<Rightarrow> bool" where
  "ring_ok view T H D w \<longleftrightarrow> length H = nat (win_n w)
     \<and> (\<forall>i < nat (win_n w). view (win_buckets w ! i) = sum_list (map snd (H ! i)))
     \<and> (\<forall>i < nat (win_n w). H ! i = [] \<or> win_starts w ! i = win_start w - int (ring_age w i) * win_duration w)
     \<and> (\<forall>i < nat (win_n w). \<forall>p \<in> set (H ! i). win_starts w ! i \<le> fst p \<and> fst p < win_starts w ! i + win_duration w)
     \<and> (\<forall>p \<in># D. win_ns w - win_duration w < T - fst p)"

lemma ring_okD:
  assumes "ring_ok view T H D w"
  shows "length H = nat (win_n w)"
    "i < nat (win_n w) \<Longrightarrow> view (win_buckets w ! i) = sum_list (map snd (H ! i))"
    "i < nat (win_n w) \<Longrightarrow> H ! i = [] \<or> win_starts w ! i = win_start w - int (ring_age w i) * win_duration w"
    "i < nat (win_n w) \<Longrightarrow> p \<in> set (H ! i) \<Longrightarrow> win_starts w ! i \<le> fst p \<and> fst p < win_starts w ! i + win_duration w"
    "p \<in># D \<Longrightarrow> win_ns w - win_duration w < T - fst p"
  using assms by (auto simp: ring_ok_def)

lemma live_sum_mono_time:
  assumes "T \<le> x" and "\<And>b s. (b, s) \<in> set slots \<Longrightarrow> T - s \<le> ns \<Longrightarrow> view b \<noteq> 0 \<Longrightarrow> x - s \<le> ns"
  shows "live_sum view x ns slots = live_sum view T ns slots"
  unfolding live_sum_def using assms
  by (intro arg_cong [where f = sum_list] map_cong refl) fastforce

lemma live_view_nth:
  assumes "win_ok L w"
  shows "live_view view x w = (\<Sum>i < nat (win_n w). if x - win_starts w ! i \<le> win_ns w then view (win_buckets w ! i) else 0)"
  using assms by (simp add: live_view_def live_sum_def win_ok_def sum_list_sum_nth atLeast0LessThan)

section \<open>Additive quantities\<close>

text \<open>
  What the window needs of a quantity: it is zero for an empty log, grows by the weight of each
  call, and adds up under merging.
\<close>

locale additive_view =
  fixes L :: libm and view :: "stream \<Rightarrow> int" and weight :: "sl_op \<Rightarrow> int"
  assumes view_reset: "view (st_reset s) = 0"
    and view_apply: "st_inv L s \<Longrightarrow> st_apply L op s = Inr t \<Longrightarrow> view t = view s + weight op"
    and view_merge: "st_inv L s \<Longrightarrow> st_inv L t \<Longrightarrow> st_merge s t = Inr u \<Longrightarrow> view u = view s + view t"
    and view_none: "st_inv L s \<Longrightarrow> st_total_events s \<le> 0 \<Longrightarrow> view s = 0"
    and weight_nonneg: "st_inv L s \<Longrightarrow> st_apply L op s = Inr t \<Longrightarrow> 0 \<le> weight op"
begin

lemma rebuild_loop:
  assumes "win_rebuild_loop L T ns slots m e = (m', Inr e')" "st_inv L m" "\<forall>p \<in> set slots. st_inv L (fst p)"
  shows "st_inv L m' \<and> st_reset m' = st_reset m \<and> view m' = view m + live_sum view T ns slots
    \<and> (\<forall>x. e = Some x \<longrightarrow> (\<exists>y. e' = Some y \<and> y \<le> x))
    \<and> (\<forall>p \<in> set slots. T - snd p \<le> ns \<longrightarrow> view (fst p) \<noteq> 0 \<longrightarrow> (\<exists>y. e' = Some y \<and> y \<le> snd p + ns))"
  using assms
proof (induction slots arbitrary: m e)
  case Nil
  then show ?case by (simp add: live_sum_def)
next
  case (Cons p rest)
  obtain b s where p: "p = (b, s)" by fastforce
  have inv: "st_inv L b" "\<forall>p \<in> set rest. st_inv L (fst p)" using Cons.prems(3) by (simp_all add: p)
  have split: "live_sum view T ns (p # rest) = (if T - s \<le> ns then view b else 0) + live_sum view T ns rest"
    by (simp add: live_sum_def p)
  have skip: ?case if "\<not> T - s \<le> ns \<or> view b = 0" "win_rebuild_loop L T ns rest m e = (m', Inr e')"
  proof -
    have "live_sum view T ns (p # rest) = live_sum view T ns rest" using that(1) by (auto simp: split)
    then show ?thesis using Cons.IH [OF that(2) Cons.prems(2) inv(2)] that(1) by (auto simp: p)
  qed
  show ?case
  proof (cases "T - s \<le> ns")
    case False
    then show ?thesis using Cons.prems(1) by (intro skip) (simp_all add: p)
  next
    case live: True
    obtain ne where ne: "win_nonempty L b = Inr ne" using Cons.prems(1) live by (auto simp: p split: sum.splits)
    show ?thesis
    proof (cases ne)
      case False
      then have "st_total_events b \<le> 0" using ne by (auto simp: win_nonempty_def split: if_splits)
      then show ?thesis using Cons.prems(1) live ne False view_none [OF inv(1)] by (intro skip) (simp_all add: p)
    next
      case True
      obtain m1 where m1: "st_merge m b = Inr m1" and
        rec: "win_rebuild_loop L T ns rest m1 (min_expiry e (s + ns)) = (m', Inr e')"
        using Cons.prems(1) live ne True by (auto simp: p split: sum.splits)
      have m1_inv: "st_inv L m1 \<and> st_reset m1 = st_reset m" by (rule st_merge_inv [OF Cons.prems(2) inv(1) m1])
      obtain z where z: "min_expiry e (s + ns) = Some z" "z \<le> s + ns" "\<forall>x. e = Some x \<longrightarrow> z \<le> x"
        by (cases e; cases "s + ns < the e") (auto simp: min_expiry_def)
      note IH = Cons.IH [OF rec m1_inv [THEN conjunct1] inv(2)]
      then obtain y where y: "e' = Some y" "y \<le> z" using z(1) by blast
      have "view m' = view m + live_sum view T ns (p # rest)"
        using IH view_merge [OF Cons.prems(2) inv(1) m1] live by (simp add: split)
      then show ?thesis using IH m1_inv y z by (auto simp: p)
    qed
  qed
qed

lemma rebuild_merged:
  assumes "win_rebuild_merged L T w = (w', Inr ())" "win_ok L w"
  shows "win_ok L w' \<and> cache_ok view T w' \<and> view (win_merged w') = live_view view T w'
    \<and> (\<exists>m e. w' = w\<lparr>win_merged := m, win_expires := e\<rparr>)"
proof -
  let ?slots = "zip (win_buckets w) (win_starts w)"
  obtain m e where loop: "win_rebuild_loop L T (win_ns w) ?slots (st_reset (win_merged w)) None = (m, Inr e)"
    and w': "w' = w\<lparr>win_merged := m, win_expires := e\<rparr>"
    using assms(1) by (auto simp: win_rebuild_merged_def split: prod.splits sum.splits)
  have inv: "st_inv L (st_reset (win_merged w))" "\<forall>p \<in> set ?slots. st_inv L (fst p)"
    using assms(2) by (auto simp: win_ok_def st.inv_reset dest!: set_zip_leftD)
  note R = rebuild_loop [OF loop inv]
  have "view m = live_sum view T (win_ns w) ?slots" using R by (simp add: view_reset)
  moreover have "live_sum view x (win_ns w) ?slots = live_sum view T (win_ns w) ?slots"
    if "T \<le> x" "case e of None \<Rightarrow> True | Some y \<Rightarrow> x \<le> y" for x
    using R that(2) by (intro live_sum_mono_time that(1)) fastforce
  ultimately have "cache_ok view T w'" "view (win_merged w') = live_view view T w'"
    by (auto simp: cache_ok_def fresh_at_def live_view_def w')
  moreover have "win_ok L w'" using assms(2) R by (simp add: win_ok_def w' st.reset_reset)
  ultimately show ?thesis using w' by blast
qed

text \<open>One step of the ring forgets only calls older than the window less one slice.\<close>

lemma ring_forgets:
  assumes ok: "win_ok L w" and ring: "ring_ok view T H D w" and now: "win_start w + win_duration w \<le> now"
    and p: "p \<in> set (H ! win_current (win_advance w))"
  shows "win_ns w - win_duration w < now - fst p"
proof -
  let ?c = "win_current (win_advance w)"
  have c: "?c < nat (win_n w)" using ok win_current_advance [OF ok] by (auto simp: win_ok_def split: if_splits)
  have "win_starts w ! ?c = win_start w - int (nat (win_n w) - 1) * win_duration w"
    using ring_okD(3) [OF ring c] p ring_age_next [OF ok] by auto
  moreover have "int (nat (win_n w) - 1) = win_n w - 1" using ok by (simp add: win_ok_def)
  ultimately have "fst p < win_start w - (win_n w - 1) * win_duration w + win_duration w"
    using ring_okD(4) [OF ring c p] by simp
  then have "win_n w * win_duration w - win_duration w < now - fst p" using now by (simp add: algebra_simps)
  then show ?thesis using duration_bounds(2) [OF ok] by linarith
qed

lemma ring_advance:
  assumes ok: "win_ok L w" and ring: "ring_ok view T H D w" and now: "win_start w + win_duration w \<le> now" "T \<le> now"
  shows "\<exists>H' D'. ring_ok view now H' D' (win_advance w) \<and> mset (concat H') + D' = mset (concat H) + D"
proof -
  let ?c = "win_current (win_advance w)" let ?H = "H[?c := []]" let ?D = "D + mset (H ! ?c)"
  have c: "?c < nat (win_n w)" using ok win_current_advance [OF ok] by (auto simp: win_ok_def split: if_splits)
  have len: "length (win_buckets w) = nat (win_n w)" "length (win_starts w) = nat (win_n w)" "length H = nat (win_n w)"
    using ok ring_okD(1) [OF ring] by (auto simp: win_ok_def)
  have *: "view (win_buckets (win_advance w) ! i) = sum_list (map snd (?H ! i))"
    "?H ! i = [] \<or> win_starts (win_advance w) ! i = win_start (win_advance w) - int (ring_age (win_advance w) i) * win_duration w"
    "\<forall>p \<in> set (?H ! i). win_starts (win_advance w) ! i \<le> fst p \<and> fst p < win_starts (win_advance w) ! i + win_duration w"
    if i: "i < nat (win_n w)" for i
  proof -
    consider "i = ?c" | "i \<noteq> ?c" by blast
    then have "view (win_buckets (win_advance w) ! i) = sum_list (map snd (?H ! i))
      \<and> (?H ! i = [] \<or> win_starts (win_advance w) ! i = win_start (win_advance w) - int (ring_age (win_advance w) i) * win_duration w)
      \<and> (\<forall>p \<in> set (?H ! i). win_starts (win_advance w) ! i \<le> fst p \<and> fst p < win_starts (win_advance w) ! i + win_duration w)"
    proof cases
      case 1
      then show ?thesis using c len by (simp add: win_advance_lists(4) [OF ok] view_reset)
    next
      case 2
      then show ?thesis
        using c len ring_okD(2,3,4) [OF ring i] win_start_advance [OF ok] ring_age_advance [OF ok i]
        by (auto simp: win_advance_lists(3,4) [OF ok] algebra_simps)
    qed
    then show "view (win_buckets (win_advance w) ! i) = sum_list (map snd (?H ! i))"
      "?H ! i = [] \<or> win_starts (win_advance w) ! i = win_start (win_advance w) - int (ring_age (win_advance w) i) * win_duration w"
      "\<forall>p \<in> set (?H ! i). win_starts (win_advance w) ! i \<le> fst p \<and> fst p < win_starts (win_advance w) ! i + win_duration w"
      by blast+
  qed
  have D: "\<forall>p \<in># ?D. win_ns w - win_duration w < now - fst p"
    using ring_okD(5) [OF ring] now(2) ring_forgets [OF ok ring now(1)] by fastforce
  have "ring_ok view now ?H ?D (win_advance w)" using * D len by (simp add: ring_ok_def)
  moreover have "mset (concat ?H) + mset (H ! ?c) = mset (concat H)"
    using c len by (simp add: concat_update_mset)
  ultimately show ?thesis by (intro exI [of _ ?H] exI [of _ ?D]) (simp add: ac_simps)
qed

lemma rotate_loop:
  assumes "win_rotate_loop elapsed w r = (w', r')" "win_ok L w" "ring_ok view T H D w" "T \<le> now"
    "elapsed = now - win_start w" "win_start w \<le> now"
  shows "win_ok L w' \<and> (\<exists>H' D'. ring_ok view now H' D' w' \<and> mset (concat H') + D' = mset (concat H) + D)
    \<and> win_start w' \<le> now \<and> now - win_start w' < win_duration w' \<and> (\<not> r' \<longrightarrow> w' = w \<and> \<not> r)"
  using assms
proof (induction elapsed w r arbitrary: T H D rule: win_rotate_loop.induct)
  case (1 elapsed w r)
  note ok = "1.prems"(2) and ring = "1.prems"(3)
  have d: "0 < win_duration w" by (rule duration_bounds(1) [OF ok])
  show ?case
  proof (cases "elapsed < win_duration w")
    case True
    then have "w' = w" "r' = r" using "1.prems"(1) by (simp_all add: win_rotate_loop.simps)
    moreover have "ring_ok view now H D w"
      using ring "1.prems"(4) unfolding ring_ok_def by (auto intro: less_le_trans)
    ultimately show ?thesis using True "1.prems" by auto
  next
    case False
    have rec: "win_rotate_loop (elapsed - win_duration w) (win_advance w) True = (w', r')"
      using "1.prems"(1) False d by (simp add: win_rotate_loop.simps)
    have now: "win_start w + win_duration w \<le> now" using False "1.prems"(5) by simp
    obtain H1 D1 where H1: "ring_ok view now H1 D1 (win_advance w)" "mset (concat H1) + D1 = mset (concat H) + D"
      using ring_advance [OF ok ring now "1.prems"(4)] by blast
    have "win_ok L w' \<and> (\<exists>H' D'. ring_ok view now H' D' w' \<and> mset (concat H') + D' = mset (concat H1) + D1)
      \<and> win_start w' \<le> now \<and> now - win_start w' < win_duration w' \<and> (\<not> r' \<longrightarrow> w' = win_advance w \<and> \<not> True)"
      using False d now "1.prems"(5)
      by (intro "1.IH" [OF _ rec win_advance_ok [OF ok] H1(1) order_refl])
        (simp_all add: win_start_advance [OF ok])
    then show ?thesis using H1(2) by simp
  qed
qed

text \<open>The whole state at time \<open>T\<close>, with the ghost history.\<close>

definition win_state :: "int \<Rightarrow> (int \<times> int) multiset \<Rightarrow> (int \<times> int) list list \<Rightarrow> (int \<times> int) multiset \<Rightarrow> window \<Rightarrow> bool" where
  "win_state T hs H D w \<longleftrightarrow> win_ok L w \<and> ring_ok view T H D w \<and> cache_ok view T w \<and> win_start w \<le> T
     \<and> hs = mset (concat H) + D"

lemma idle_reset:
  assumes ok: "win_ok L w" and ring: "ring_ok view T H D w" and T: "T \<le> now"
    and idle: "win_n w * win_duration w \<le> now - win_start w"
    and w1: "w1 = w\<lparr>win_buckets := map st_reset (win_buckets w), win_starts := map (\<lambda>_. now) (win_starts w)\<rparr>"
  shows "win_ok L w1 \<and> ring_ok view now (replicate (nat (win_n w)) []) (D + mset (concat H)) w1 \<and> win_start w1 = now"
proof -
  have len: "length (win_buckets w) = nat (win_n w)" "length (win_starts w) = nat (win_n w)" "length H = nat (win_n w)"
    "win_current w < nat (win_n w)"
    using ok ring_okD(1) [OF ring] by (auto simp: win_ok_def)
  have old: "win_ns w - win_duration w < now - fst p" if p: "p \<in> set (concat H)" for p
  proof -
    obtain h where "h \<in> set H" "p \<in> set h" using p by auto
    then obtain i where i: "i < nat (win_n w)" "p \<in> set (H ! i)" using len by (metis in_set_conv_nth)
    then have "win_starts w ! i = win_start w - int (ring_age w i) * win_duration w" using ring_okD(3) [OF ring i(1)] by auto
    then have "fst p < win_start w + win_duration w"
      using ring_okD(4) [OF ring i] duration_bounds(1) [OF ok]
        mult_nonneg_nonneg [of "int (ring_age w i)" "win_duration w"] by linarith
    then show ?thesis using idle duration_bounds(2) [OF ok] by linarith
  qed
  have "win_ok L w1" using ok by (auto simp: win_ok_def w1 st.inv_reset st.reset_reset)
  moreover have "ring_ok view now (replicate (nat (win_n w)) []) (D + mset (concat H)) w1"
    using len old ring_okD(5) [OF ring] T by (fastforce simp: ring_ok_def w1 view_reset simp del: set_concat)
  ultimately show ?thesis using len by (simp add: w1)
qed

lemma cache_later: "cache_ok view T w \<Longrightarrow> T \<le> T' \<Longrightarrow> cache_ok view T' w"
  by (simp add: cache_ok_def)

lemma ring_later: "ring_ok view T H D w \<Longrightarrow> T \<le> T' \<Longrightarrow> ring_ok view T' H D w"
  unfolding ring_ok_def by (auto intro: less_le_trans)

lemma ring_cache_irrelevant: "ring_ok view T H D (w\<lparr>win_merged := m, win_expires := e\<rparr>) = ring_ok view T H D w"
  by (simp add: ring_ok_def ring_age_def)

lemma rebuild_state:
  assumes "win_rebuild_merged L now' w = (w', Inr ())" "win_ok L w" "ring_ok view now H D w"
    "win_start w \<le> now" "now \<le> now'" "now - win_start w < win_duration w"
  shows "win_state now' (mset (concat H) + D) H D w' \<and> win_start w' \<le> now
    \<and> now - win_start w' < win_duration w' \<and> view (win_merged w') = live_view view now' w'"
proof -
  note R = rebuild_merged [OF assms(1,2)]
  then obtain m e where w': "w' = w\<lparr>win_merged := m, win_expires := e\<rparr>" by blast
  have "ring_ok view now' H D w'" using ring_later [OF assms(3,5)] by (simp add: w' ring_cache_irrelevant)
  then show ?thesis using R assms(4-6) by (simp add: win_state_def w')
qed

lemma rotate_state:
  assumes "win_rotate L now now' w = (w', Inr ())" "win_state T hs H D w" "T \<le> now" "now \<le> now'"
  shows "\<exists>H' D' x. win_state now' hs H' D' w' \<and> win_start w' \<le> now \<and> now - win_start w' < win_duration w'
    \<and> now \<le> x \<and> x \<le> now' \<and> view (win_merged w') = live_view view x w'"
proof -
  have st: "win_ok L w" "ring_ok view T H D w" "cache_ok view T w" "win_start w \<le> T" "hs = mset (concat H) + D"
    using assms(2) by (auto simp: win_state_def)
  note d = duration_bounds [OF st(1)]
  show ?thesis
  proof (cases "win_n w * win_duration w \<le> now - win_start w")
    case True
    define w1 where "w1 = w\<lparr>win_buckets := map st_reset (win_buckets w), win_starts := map (\<lambda>_. now) (win_starts w)\<rparr>"
    have I: "win_ok L w1" "ring_ok view now (replicate (nat (win_n w)) []) (D + mset (concat H)) w1" "win_start w1 = now"
      using idle_reset [OF st(1,2) assms(3) True w1_def] by auto
    have "win_rebuild_merged L now' w1 = (w', Inr ())" using assms(1) True by (simp add: win_rotate_def w1_def)
    from rebuild_state [OF this I(1,2)] I(3) assms(4) d(1)
    have "win_state now' hs (replicate (nat (win_n w)) []) (D + mset (concat H)) w' \<and> win_start w' \<le> now
        \<and> now - win_start w' < win_duration w' \<and> view (win_merged w') = live_view view now' w'"
      by (simp add: st(5) ac_simps w1_def)
    then show ?thesis using assms(4) by blast
  next
    case False
    let ?e = "case win_expires w of None \<Rightarrow> False | Some t \<Rightarrow> now > t"
    obtain w1 r where loop: "win_rotate_loop (now - win_start w) w ?e = (w1, r)" by fastforce
    have "win_start w \<le> now" using st(4) assms(3) by simp
    note R = rotate_loop [OF loop st(1,2) assms(3) refl this]
    then obtain H1 D1 where H1: "ring_ok view now H1 D1 w1" "mset (concat H1) + D1 = mset (concat H) + D" by blast
    have L1: "win_ok L w1" "ring_ok view now H1 D1 w1" "hs = mset (concat H1) + D1" "win_start w1 \<le> now"
        "now - win_start w1 < win_duration w1" "\<not> r \<longrightarrow> w1 = w \<and> \<not> ?e"
      using R H1 st(5) by simp_all
    show ?thesis
    proof (cases r)
      case True
      then have "win_rebuild_merged L now' w1 = (w', Inr ())" using assms(1) False loop by (simp add: win_rotate_def)
      from rebuild_state [OF this L1(1,2,4) assms(4) L1(5)] L1(3) assms(4) show ?thesis by blast
    next
      case norot: False
      then have w': "w' = w" "w1 = w" "\<not> ?e" using assms(1) False loop L1(6) by (simp_all add: win_rotate_def)
      then have "fresh_at now w" using L1(5) by (auto simp: fresh_at_def split: option.splits)
      then have "view (win_merged w) = live_view view now w" using st(3) assms(3) by (simp add: cache_ok_def)
      moreover have "win_state now' hs H1 D1 w"
        using L1 w' cache_later [OF st(3)] ring_later [OF L1(2)] assms(3,4) by (simp add: win_state_def)
      ultimately show ?thesis using L1(4,5) w' assms(4) by blast
    qed
  qed
qed

text \<open>Recording a call in the current bucket and in the cache.\<close>

lemma record_state:
  assumes st: "win_state T hs H D w" and now: "win_start w \<le> now" "now - win_start w < win_duration w"
    and b: "st_apply L op (win_buckets w ! win_current w) = Inr b" and m: "st_apply L op (win_merged w) = Inr m"
    and w': "w' = w\<lparr>win_buckets := (win_buckets w)[win_current w := b], win_merged := m\<rparr>"
  shows "\<exists>H'. win_state T (add_mset (now, weight op) hs) H' D w'"
proof -
  let ?c = "win_current w" let ?H = "H[?c := (now, weight op) # H ! ?c]"
  have ok: "win_ok L w" and ring: "ring_ok view T H D w" and cache: "cache_ok view T w" and T: "win_start w \<le> T"
    and hs: "hs = mset (concat H) + D" using st by (auto simp: win_state_def)
  have len: "length (win_buckets w) = nat (win_n w)" "length (win_starts w) = nat (win_n w)" "length H = nat (win_n w)"
    "?c < nat (win_n w)" using ok ring_okD(1) [OF ring] by (auto simp: win_ok_def)
  have inv: "st_inv L (win_buckets w ! ?c)" "st_inv L (win_merged w)"
    "st_reset (win_buckets w ! ?c) = st_reset (win_merged w)"
    using ok len nth_mem [of ?c "win_buckets w"] by (auto simp: win_ok_def)
  note bi = st_apply_inv [OF inv(1) b] and mi = st_apply_inv [OF inv(2) m]
  have ok': "win_ok L w'" using ok bi mi inv(3)
    by (auto simp: win_ok_def w' dest!: subsetD [OF set_update_subset_insert])
  have age: "ring_age w ?c = 0" using ring_age_eq [OF len(4) len(4)] by simp
  have ring': "ring_ok view T ?H D w'"
    unfolding ring_ok_def using ring_okD [OF ring] len now view_apply [OF inv(1) b] age
    by (auto simp: w' ring_age_def nth_list_update)
  have "live_view view x w' = live_view view x w + weight op" if "fresh_at x w" for x
  proof -
    have "x - win_start w \<le> win_ns w" using that duration_bounds(3) [OF ok] by (simp add: fresh_at_def)
    then show ?thesis
      unfolding live_view_nth [OF ok'] live_view_nth [OF ok] using len view_apply [OF inv(1) b]
        sum_if_update [of ?c "win_buckets w" "\<lambda>i. x - win_starts w ! i \<le> win_ns w" view b]
      by (simp add: w' cong: if_cong)
  qed
  then have "cache_ok view T w'"
    using cache view_apply [OF inv(2) m] by (simp add: cache_ok_def fresh_at_def w')
  moreover have "add_mset (now, weight op) hs = mset (concat ?H) + D"
    unfolding hs using len concat_update_mset [of ?c H] concat_update_mset [of ?c ?H] by simp
  ultimately have "win_state T (add_mset (now, weight op) hs) ?H D w'"
    using ok' ring' T by (simp add: win_state_def w')
  then show ?thesis by blast
qed

lemma add_state:
  assumes "win_add L now now' op w = (w', Inr ())" "win_state T hs H D w" "T \<le> now" "now \<le> now'"
  shows "\<exists>H' D'. win_state now' (add_mset (now, weight op) hs) H' D' w' \<and> 0 \<le> weight op"
proof -
  obtain w1 b m where rot: "win_rotate L now now' w = (w1, Inr ())"
    and b: "st_apply L op (win_buckets w1 ! win_current w1) = Inr b" and m: "st_apply L op (win_merged w1) = Inr m"
    and w': "w' = w1\<lparr>win_buckets := (win_buckets w1)[win_current w1 := b], win_merged := m\<rparr>"
    using assms(1) by (auto simp: win_add_def Let_def split: prod.splits sum.splits)
  from rotate_state [OF rot assms(2-4)] obtain H1 D1 where
    st: "win_state now' hs H1 D1 w1" "win_start w1 \<le> now" "now - win_start w1 < win_duration w1" by blast
  have "st_inv L (win_merged w1)" using st(1) by (simp add: win_state_def win_ok_def)
  from weight_nonneg [OF this m] record_state [OF st b m w'] show ?thesis by blast
qed

text \<open>What the buckets hold at time \<open>x\<close>, in terms of the ages of the calls.\<close>

lemma live_bounds:
  assumes st: "win_state T hs H D w" and x: "T \<le> x1" "x0 \<le> x" "x \<le> x1" and nonneg: "\<forall>p \<in># hs. 0 \<le> snd p"
  shows "(\<Sum>p \<in># filter_mset (\<lambda>p. x1 - fst p \<le> win_ns w - win_duration w) hs. snd p) \<le> live_view view x w
    \<and> live_view view x w \<le> (\<Sum>p \<in># filter_mset (\<lambda>p. x0 - fst p \<le> win_ns w) hs. snd p)"
proof -
  let ?N = "nat (win_n w)"
  have ok: "win_ok L w" and ring: "ring_ok view T H D w" and hs: "hs = mset (concat H) + D"
    using st by (auto simp: win_state_def)
  have H: "mset (concat H) = (\<Sum>i < ?N. mset (H ! i))"
    using ring_okD(1) [OF ring] by (simp add: mset_concat sum_list_sum_nth atLeast0LessThan)
  have hs_split: "(\<Sum>p \<in># filter_mset P hs. snd p)
      = (\<Sum>i < ?N. \<Sum>p \<in># filter_mset P (mset (H ! i)). snd p) + (\<Sum>p \<in># filter_mset P D. snd p)" for P
    unfolding hs H by (simp add: sum_filter_sum)
  have pos: "0 \<le> snd p" if "p \<in># D \<or> (\<exists>i < ?N. p \<in> set (H ! i))" for p
    using that nonneg ring_okD(1) [OF ring] nth_mem [of _ H] by (fastforce simp: hs)
  have each: "(\<Sum>p \<in># filter_mset (\<lambda>p. x1 - fst p \<le> win_ns w - win_duration w) (mset (H ! i)). snd p)
      \<le> (if x - win_starts w ! i \<le> win_ns w then view (win_buckets w ! i) else 0)
    \<and> (if x - win_starts w ! i \<le> win_ns w then view (win_buckets w ! i) else 0)
      \<le> (\<Sum>p \<in># filter_mset (\<lambda>p. x0 - fst p \<le> win_ns w) (mset (H ! i)). snd p)" if i: "i < ?N" for i
  proof (cases "x - win_starts w ! i \<le> win_ns w")
    case True
    have "filter_mset (\<lambda>p. x0 - fst p \<le> win_ns w) (mset (H ! i)) = mset (H ! i)"
      using True x(2) ring_okD(4) [OF ring i] by (auto simp: filter_mset_eq_conv) fastforce
    moreover have "(\<Sum>p \<in># filter_mset P (mset (H ! i)). snd p) \<le> (\<Sum>p \<in># mset (H ! i). snd p)" for P
      using pos i by (intro sum_filter_mset_le) auto
    moreover have "(\<Sum>p \<in># mset (H ! i). snd p) = view (win_buckets w ! i)"
      using ring_okD(2) [OF ring i] by (metis sum_mset_sum_list mset_map)
    ultimately show ?thesis using True by simp
  next
    case False
    then have none: "filter_mset (\<lambda>p. x1 - fst p \<le> win_ns w - win_duration w) (mset (H ! i)) = {#}"
      using x(3) ring_okD(4) [OF ring i] by (auto simp: filter_mset_eq_conv) fastforce
    moreover have "0 \<le> (\<Sum>p \<in># filter_mset P (mset (H ! i)). snd p)" for P
      using pos i by (intro sum_filter_mset_nonneg) auto
    ultimately show ?thesis using False unfolding none by simp
  qed
  have none: "filter_mset (\<lambda>p. x1 - fst p \<le> win_ns w - win_duration w) D = {#}"
    using x(1) ring_okD(5) [OF ring] by (auto simp: filter_mset_eq_conv) fastforce
  have "0 \<le> (\<Sum>p \<in># filter_mset (\<lambda>p. x0 - fst p \<le> win_ns w) D. snd p)"
    using pos by (intro sum_filter_mset_nonneg) auto
  then show ?thesis
    unfolding hs_split live_view_nth [OF ok] none using each by (auto intro!: sum_mono add_increasing2)
qed

end

section \<open>Histories of calls\<close>

text \<open>
  A history: each call with the two clock readings made while it runs.  The clock is monotonic.
  \<open>win_run\<close> makes the calls one after the other and stops at the first exception.
\<close>

type_synonym win_history = "(int \<times> int \<times> sl_op) list"

fun win_run :: "libm \<Rightarrow> win_history \<Rightarrow> window \<Rightarrow> unit win_outcome" where
  "win_run L [] w = (w, Inr ())"
| "win_run L ((now, now', op) # rest) w = (case win_add L now now' op w of
     (w1, Inl e) \<Rightarrow> (w1, Inl e)
   | (w1, Inr _) \<Rightarrow> win_run L rest w1)"

fun clock_ok :: "int \<Rightarrow> win_history \<Rightarrow> bool" where
  "clock_ok T [] = True"
| "clock_ok T ((now, now', op) # rest) = (T \<le> now \<and> now \<le> now' \<and> clock_ok now' rest)"

fun last_reading :: "int \<Rightarrow> win_history \<Rightarrow> int" where
  "last_reading T [] = T"
| "last_reading T ((now, now', op) # rest) = last_reading now' rest"

definition calls :: "(sl_op \<Rightarrow> int) \<Rightarrow> win_history \<Rightarrow> (int \<times> int) multiset" where
  "calls weight hist = mset (map (\<lambda>(now, now', op). (now, weight op)) hist)"

text \<open>The weight of the calls at most \<open>age\<close> old at time \<open>x\<close>.\<close>

definition recent :: "(sl_op \<Rightarrow> int) \<Rightarrow> int \<Rightarrow> int \<Rightarrow> win_history \<Rightarrow> int" where
  "recent weight x age hist = sum_list (map (\<lambda>(now, now', op). weight op) (filter (\<lambda>(now, now', op). x - now \<le> age) hist))"

lemma recent_calls: "recent weight x age hist = (\<Sum>p \<in># filter_mset (\<lambda>p. x - fst p \<le> age) (calls weight hist). snd p)"
  by (induction hist) (auto simp: recent_def calls_def)

text \<open>The configuration never changes.\<close>

definition win_config :: "window \<Rightarrow> int \<times> int \<times> int" where
  "win_config w = (win_n w, win_ns w, win_duration w)"

lemma win_rebuild_config: "win_rebuild_merged L T w = (w', r) \<Longrightarrow> win_config w' = win_config w"
  by (auto simp: win_rebuild_merged_def win_config_def split: prod.splits sum.splits)

lemma win_rotate_loop_config: "win_rotate_loop e w r = (w', r') \<Longrightarrow> win_config w' = win_config w"
  by (induction e w r rule: win_rotate_loop.induct)
    (subst (asm) (2) win_rotate_loop.simps, auto simp: win_config_def split: if_splits)

lemma win_rotate_config: "win_rotate L now now' w = (w', r) \<Longrightarrow> win_config w' = win_config w"
  by (auto simp: win_rotate_def Let_def split: if_splits prod.splits dest!: win_rebuild_config win_rotate_loop_config)
    (simp_all add: win_config_def)

lemma win_add_config: "win_add L now now' op w = (w', r) \<Longrightarrow> win_config w' = win_config w"
  by (auto simp: win_add_def Let_def split: prod.splits sum.splits dest!: win_rotate_config) (simp_all add: win_config_def)

lemma win_run_config: "win_run L hist w = (w', r) \<Longrightarrow> win_config w' = win_config w"
  by (induction hist arbitrary: w) (auto split: prod.splits sum.splits dest!: win_add_config)

text \<open>A window argument that is a float is a double, and then the window is at least one nanosecond long.\<close>

fun window_arg_ok :: "window_arg \<Rightarrow> bool" where
  "window_arg_ok (WindowFloat (Fin q)) = is_double q"
| "window_arg_ok _ = True"

lemma py_float_of_str_is_double: "py_float_of_str s = Inr (Fin r) \<Longrightarrow> is_double r"
  by (auto simp: py_float_of_str_def split: prod.splits if_splits option.splits dest: to_float_is_double)

lemma parse_window_positive:
  assumes "parse_window a = Inr x" "window_arg_ok a" obtains q where "x = Fin q" "0 < q" "is_double q"
proof -
  have fin: "\<not> f_isnan x" "\<not> f_isinf x" "\<not> f_le x (Fin 0)"
    using assms(1) by (auto simp: parse_window_def rbind_eq_Inr raise_if_eq_Inr)
  then obtain q where q: "x = Fin q" "0 < q" by (cases x) auto
  have "is_double q"
  proof (cases a)
    case (WindowInt n)
    then show ?thesis using assms(1) q
      by (auto simp: parse_window_def rbind_eq_Inr raise_if_eq_Inr f_of_int_def dest: to_float_is_double)
  next
    case (WindowFloat f)
    then show ?thesis using assms q by (auto simp: parse_window_def rbind_eq_Inr raise_if_eq_Inr)
  next
    case (WindowStr s)
    then show ?thesis using assms(1) q
      by (auto simp: parse_window_def Let_def rbind_eq_Inr raise_if_eq_Inr
          split: option.splits dest: f_mul_is_double py_float_of_str_is_double)
  qed
  then show ?thesis using that q by blast
qed

lemma window_ns_positive:
  assumes "parse_window a = Inr x" "window_arg_ok a" "f_ceil (f_mul x (Fin 1000000000)) = Inr ns"
  shows "0 < ns"
proof -
  obtain q where q: "x = Fin q" "0 < q" "is_double q" by (rule parse_window_positive [OF assms(1,2)])
  have "q = rnd q" using q(3) by (simp add: is_double_def)
  also have "\<dots> \<le> rnd (q * 1000000000)" using q(2) by (intro rnd_mono) simp
  finally have "0 < rnd (q * 1000000000)" using q(2) by simp
  then show ?thesis using assms(3) unfolding q(1) by (cases rule: to_float_cases [of "q * 1000000000"]) auto
qed

context additive_view
begin

lemma run_state:
  assumes "win_run L hist w = (w', Inr ())" "win_state T hs H D w" "clock_ok T hist" "\<forall>p \<in># hs. 0 \<le> snd p"
  shows "\<exists>H' D'. win_state (last_reading T hist) (hs + calls weight hist) H' D' w'
    \<and> (\<forall>p \<in># hs + calls weight hist. 0 \<le> snd p)"
  using assms
proof (induction hist arbitrary: w T hs H D)
  case Nil
  then show ?case by (auto simp: calls_def)
next
  case (Cons c rest)
  obtain now now' op where c: "c = (now, now', op)" by (cases c)
  obtain w1 where add: "win_add L now now' op w = (w1, Inr ())" and run: "win_run L rest w1 = (w', Inr ())"
    using Cons.prems(1) by (auto simp: c split: prod.splits sum.splits)
  have T: "T \<le> now" "now \<le> now'" "clock_ok now' rest" using Cons.prems(3) by (simp_all add: c)
  obtain H1 D1 where st: "win_state now' (add_mset (now, weight op) hs) H1 D1 w1" "0 \<le> weight op"
    using add_state [OF add Cons.prems(2) T(1,2)] by blast
  have "\<forall>p \<in># add_mset (now, weight op) hs. 0 \<le> snd p" using st(2) Cons.prems(4) by simp
  from Cons.IH [OF run st(1) T(3) this] show ?case by (simp add: c calls_def)
qed

lemma init_state:
  assumes "win_init L window n_buckets a p wd dp now = Inr w" "window_arg_ok window"
  shows "win_state now {#} (replicate (nat n_buckets) []) {#} w"
proof -
  obtain secs ns log where i: "0 < n_buckets" "parse_window window = Inr secs" "f_ceil (f_mul secs (Fin 1000000000)) = Inr ns"
    "st_init L a p wd dp False = Inr log"
    and w: "w = \<lparr>win_seconds = secs, win_n = n_buckets, win_ns = ns, win_duration = (ns + n_buckets - 1) div n_buckets,
         win_buckets = replicate (nat n_buckets) log, win_starts = replicate (nat n_buckets) now,
         win_current = 0, win_merged = log, win_expires = None\<rparr>"
    using assms(1) by (auto simp: win_init_def raise_if_eq_Inr rbind_eq_Inr)
  have "0 < ns" by (rule window_ns_positive [OF i(2) assms(2) i(3)])
  note I = st_init_inv [OF i(4)]
  have v: "view log = 0" using view_reset [of log] I by simp
  have "win_ok L w" using i I \<open>0 < ns\<close> by (auto simp: win_ok_def w)
  moreover have "ring_ok view now (replicate (nat n_buckets) []) {#} w" using i v by (simp add: ring_ok_def w)
  moreover have "live_sum view x ns (replicate k (log, now)) = 0" for x k using v by (induction k) (simp_all add: live_sum_def)
  then have "cache_ok view now w" using v by (simp add: cache_ok_def live_view_def w zip_replicate)
  ultimately show ?thesis using i(1) by (simp add: win_state_def w)
qed

lemma window_bounds:
  assumes "win_init L window n_buckets a p wd dp start = Inr w0" "window_arg_ok window"
    "win_run L hist w0 = (w, Inr ())" "clock_ok start hist" "last_reading start hist \<le> now" "now \<le> now'"
    "win_rotate L now now' w = (w', Inr ())"
  shows "recent weight now' (win_ns w0 - win_duration w0) hist \<le> view (win_merged w')
    \<and> view (win_merged w') \<le> recent weight now (win_ns w0) hist"
proof -
  obtain H D where st: "win_state (last_reading start hist) (calls weight hist) H D w"
    and pos: "\<forall>p \<in># calls weight hist. 0 \<le> snd p"
    using run_state [OF assms(3) init_state [OF assms(1,2)] assms(4)] by auto
  obtain H' D' x where st': "win_state now' (calls weight hist) H' D' w'" "now \<le> x" "x \<le> now'"
    and v: "view (win_merged w') = live_view view x w'"
    using rotate_state [OF assms(7) st assms(5,6)] by blast
  have "win_config w' = win_config w0" using win_rotate_config [OF assms(7)] win_run_config [OF assms(3)] by simp
  then have "win_ns w' = win_ns w0" "win_duration w' = win_duration w0" by (simp_all add: win_config_def)
  then show ?thesis
    using live_bounds [OF st'(1) order_refl st'(2,3) pos] by (simp add: recent_calls v)
qed

end

section \<open>The total of the window\<close>

fun op_weight :: "sl_op \<Rightarrow> int" where
  "op_weight (AddLatency v) = (if f_isfinite v then 1 else 0)"
| "op_weight (AddBatch vs) = int (length (filter f_isfinite vs))"
| "op_weight (AddEvent k n) = n"
| "op_weight (AddUnique k) = 0"

lemma op_weight_eq: "op_weight op = int (length (filter f_isfinite (op_values op))) + sum_list (map snd (op_events op))"
  by (cases op) auto

lemma sl_apply_total:
  assumes inv: "sl_inv L s" and "sl_apply L op s = Inr t"
  shows "sl_total t = sl_total s + op_weight op \<and> 0 \<le> op_weight op"
proof -
  obtain l e where le: "dd_ingest L (op_values op) (sl_latency s) = Inr l" "rfold cms_add (op_events op) (sl_events s) = Inr e"
    and t: "sl_total t = dd_count l + cms_total e"
    using assms(2) unfolding sl_apply_eq [OF inv] by auto
  show ?thesis
    using dd_ingest_count [OF _ le(1)] cms_ingest_total [OF le(2)] cms_ingest_nonneg [OF le(2)] inv
    by (simp add: t op_weight_eq sl_inv_def)
qed

lemma sl_total_nonneg: "sl_inv L s \<Longrightarrow> 0 \<le> sl_total s"
  using cms_inv_total [of "sl_events s"] bins_ok_sum [of "dd_positive (sl_latency s)"]
    bins_ok_sum [of "dd_negative (sl_latency s)"] by (simp add: sl_inv_def dd_inv_def)

interpretation total_view: additive_view L st_total_events op_weight for L
proof
  fix s t u op
  show "st_total_events (st_reset s) = 0" by (simp add: st_total_events_def st_reset_def sl_reset_def)
  show "st_inv L s \<Longrightarrow> st_apply L op s = Inr t \<Longrightarrow> st_total_events t = st_total_events s + op_weight op"
    and "st_inv L s \<Longrightarrow> st_apply L op s = Inr t \<Longrightarrow> 0 \<le> op_weight op"
    using sl_apply_total [of L "st_backend s" op]
    by (auto simp: st_apply_lift st_lift_eq_Inr st_total_events_def dest!: st_inv_backend)
  show "st_merge s t = Inr u \<Longrightarrow> st_total_events u = st_total_events s + st_total_events t"
    by (auto simp: st_merge_def st_lift_eq_Inr sl_merge_eq st_total_events_def)
  show "st_total_events s = 0" if "st_inv L s" "st_total_events s \<le> 0"
    using that sl_total_nonneg [OF st_inv_backend [OF that(1)]] by (simp add: st_total_events_def)
qed

text \<open>
  C15: The sliding window forgets in time and not too early.  After any history of accepted calls
  under a monotonic clock, the reported total counts every call whose age is at most the window less
  one slice, and counts no call older than the window; in between the slices decide.
\<close>

theorem window_total_sliding:
  assumes "win_init L window n_buckets a p wd dp start = Inr w0" "window_arg_ok window"
    and "win_run L hist w0 = (w, Inr ())" "clock_ok start hist" "last_reading start hist \<le> now" "now \<le> now'"
    and "win_total_events L now now' w = (w', Inr n)"
  shows "recent op_weight now' (win_ns w0 - win_duration w0) hist \<le> n \<and> n \<le> recent op_weight now (win_ns w0) hist"
proof -
  have "win_rotate L now now' w = (w', Inr ())" "n = st_total_events (win_merged w')"
    using assms(7) by (auto simp: win_total_events_def win_read_def split: prod.splits sum.splits)
  then show ?thesis using total_view.window_bounds [OF assms(1-6)] by simp
qed

definition demo_history :: win_history where
  "demo_history = [(2500000000, 2500000000, AddEvent (KInt 2) 3)]"

lemma demo_window:
  obtains w0 w w' n where "win_init libm_demo (WindowStr ''2s'') 2 (Fin (1/2)) 4 2 1 0 = Inr w0"
    "win_ns w0 = 2000000000" "win_duration w0 = 1000000000" "win_run libm_demo demo_history w0 = (w, Inr ())"
    "win_total_events libm_demo 3200000000 3200000000 w = (w', Inr n)"
proof -
  have "case win_init libm_demo (WindowStr ''2s'') 2 (Fin (1/2)) 4 2 1 0 of Inl _ \<Rightarrow> False
    | Inr w0 \<Rightarrow> win_ns w0 = 2000000000 \<and> win_duration w0 = 1000000000 \<and> (case win_run libm_demo demo_history w0 of (w, r) \<Rightarrow>
        is_ok r \<and> is_ok (snd (win_total_events libm_demo 3200000000 3200000000 w)))"
    by code_simp
  then obtain w0 w r where w: "win_init libm_demo (WindowStr ''2s'') 2 (Fin (1/2)) 4 2 1 0 = Inr w0"
    "win_ns w0 = 2000000000" "win_duration w0 = 1000000000" "win_run libm_demo demo_history w0 = (w, r)"
    "is_ok r" "is_ok (snd (win_total_events libm_demo 3200000000 3200000000 w))"
    by (auto split: sum.splits prod.splits)
  then show ?thesis using that [OF w(1-3)] by (cases "win_total_events libm_demo 3200000000 3200000000 w")
      (auto simp: is_ok_iff)
qed

theorem window_total_sliding_witness:
  "\<exists>w0 w w' n. win_init libm_demo (WindowStr ''2s'') 2 (Fin (1/2)) 4 2 1 0 = Inr w0
    \<and> win_run libm_demo demo_history w0 = (w, Inr ())
    \<and> win_total_events libm_demo 3200000000 3200000000 w = (w', Inr n) \<and> n = 3"
proof -
  obtain w0 w w' n where d: "win_init libm_demo (WindowStr ''2s'') 2 (Fin (1/2)) 4 2 1 0 = Inr w0"
    "win_ns w0 = 2000000000" "win_duration w0 = 1000000000" "win_run libm_demo demo_history w0 = (w, Inr ())"
    "win_total_events libm_demo 3200000000 3200000000 w = (w', Inr n)" by (rule demo_window)
  have "window_arg_ok (WindowStr ''2s'')" "clock_ok 0 demo_history" "last_reading 0 demo_history \<le> 3200000000"
    by (simp_all add: demo_history_def)
  from window_total_sliding [OF d(1) this(1) d(4) this(2,3) order_refl d(5)]
  have "recent op_weight 3200000000 1000000000 demo_history \<le> n \<and> n \<le> recent op_weight 3200000000 2000000000 demo_history"
    by (simp add: d(2,3))
  then have "n = 3" by (simp add: recent_def demo_history_def)
  then show ?thesis using d by blast
qed

end
