(* ===== verification/Shared_Log.thy ===== *)
theory Shared_Log
  imports Stream_Laws Stream_Serial
begin

text \<open>
  The log shared between threads (\<^verbatim>\<open>concurrent.py\<close>).  Every method runs under one lock, so a run of
  several threads is a sequence of calls, each an atomic step; merging from another shared log first
  takes a snapshot of that log (one step there) and then merges it (one step here).  Readings of the
  wall clock are arguments.  A call that raises leaves the log and its time of update unchanged.
\<close>

section \<open>Operations\<close>

record shared_log =
  ts_log :: stream
  ts_updated :: pyfloat

definition ts_init :: "libm \<Rightarrow> pyfloat \<Rightarrow> int \<Rightarrow> int \<Rightarrow> int \<Rightarrow> bool \<Rightarrow> pyfloat \<Rightarrow> shared_log result" where
  "ts_init L relative_accuracy hll_precision width depth det now =
    rbind (st_init L relative_accuracy hll_precision width depth det) (\<lambda>log. Inr \<lparr>ts_log = log, ts_updated = now\<rparr>)"

definition ts_modify :: "(stream \<Rightarrow> stream result) \<Rightarrow> pyfloat \<Rightarrow> shared_log \<Rightarrow> shared_log result" where
  "ts_modify f now s = rbind (f (ts_log s)) (\<lambda>log. Inr (s\<lparr>ts_log := log, ts_updated := now\<rparr>))"

definition ts_add_latency :: "libm \<Rightarrow> pyfloat \<Rightarrow> pyfloat \<Rightarrow> shared_log \<Rightarrow> shared_log result" where
  "ts_add_latency L value = ts_modify (st_add_latency L value)"

definition ts_add_batch :: "libm \<Rightarrow> pyfloat list \<Rightarrow> pyfloat \<Rightarrow> shared_log \<Rightarrow> shared_log result" where
  "ts_add_batch L values = ts_modify (st_add_batch L values)"

definition ts_add_event :: "event_key \<Rightarrow> int \<Rightarrow> pyfloat \<Rightarrow> shared_log \<Rightarrow> shared_log result" where
  "ts_add_event name count = ts_modify (st_add_event name count)"

definition ts_add_unique :: "event_key \<Rightarrow> pyfloat \<Rightarrow> shared_log \<Rightarrow> shared_log result" where
  "ts_add_unique item = ts_modify (st_add_unique item)"

definition ts_reset :: "pyfloat \<Rightarrow> shared_log \<Rightarrow> shared_log" where
  "ts_reset now s = s\<lparr>ts_log := st_reset (ts_log s), ts_updated := now\<rparr>"

definition get_snapshot :: "libm \<Rightarrow> shared_log \<Rightarrow> stream result" where
  "get_snapshot L s = rbind (clone_empty L (ts_log s)) (\<lambda>snapshot. st_merge snapshot (ts_log s))"

definition ts_drain :: "libm \<Rightarrow> pyfloat \<Rightarrow> shared_log \<Rightarrow> (shared_log \<times> stream) result" where
  "ts_drain L now s = rbind (clone_empty L (ts_log s)) (\<lambda>fresh.
     Inr (s\<lparr>ts_log := fresh, ts_updated := now\<rparr>, ts_log s))"

text \<open>Merging a plain log, and merging another shared log through a snapshot of it.\<close>

definition ts_merge_log :: "stream \<Rightarrow> pyfloat \<Rightarrow> shared_log \<Rightarrow> shared_log result" where
  "ts_merge_log other = ts_modify (\<lambda>log. st_merge log other)"

definition ts_merge :: "libm \<Rightarrow> shared_log \<Rightarrow> pyfloat \<Rightarrow> shared_log \<Rightarrow> shared_log result" where
  "ts_merge L other now s = rbind (get_snapshot L other) (\<lambda>other_snap. ts_merge_log other_snap now s)"

text \<open>The readers of the log.\<close>

definition ts_percentile :: "libm \<Rightarrow> shared_log \<Rightarrow> pyfloat \<Rightarrow> pyfloat result" where
  "ts_percentile L s q = st_percentile L (ts_log s) q"

definition ts_event_count :: "shared_log \<Rightarrow> event_key \<Rightarrow> int result" where
  "ts_event_count s name = st_event_count (ts_log s) name"

definition ts_unique_count :: "libm \<Rightarrow> shared_log \<Rightarrow> int result" where
  "ts_unique_count L s = st_unique_count L (ts_log s)"

definition ts_total_events :: "shared_log \<Rightarrow> int" where
  "ts_total_events s = st_total_events (ts_log s)"

definition ts_memory_bytes :: "shared_log \<Rightarrow> int" where
  "ts_memory_bytes s = st_memory_bytes (ts_log s)"

definition ts_stats :: "libm \<Rightarrow> shared_log \<Rightarrow> stats result" where
  "ts_stats L s = st_stats L (ts_log s)"

definition ts_to_dict :: "shared_log \<Rightarrow> pyval" where
  "ts_to_dict s = st_to_dict (ts_log s)"

definition ts_from_dict :: "libm \<Rightarrow> pyfloat \<Rightarrow> pyval \<Rightarrow> shared_log result" where
  "ts_from_dict L now data = rbind (ts_init L (to_float (1/100)) 10 2048 5 False now) (\<lambda>inst.
     rbind (st_from_dict L data) (\<lambda>log. Inr (inst\<lparr>ts_log := log\<rparr>)))"

fun ts_add :: "libm \<Rightarrow> sl_op \<Rightarrow> pyfloat \<Rightarrow> shared_log \<Rightarrow> shared_log result" where
  "ts_add L (AddLatency v) now s = ts_add_latency L v now s"
| "ts_add L (AddBatch vs) now s = ts_add_batch L vs now s"
| "ts_add L (AddEvent k n) now s = ts_add_event k n now s"
| "ts_add L (AddUnique k) now s = ts_add_unique k now s"

lemma ts_add_eq: "ts_add L op now s = ts_modify (st_apply L op) now s"
  by (cases op) (simp_all add: ts_add_latency_def ts_add_batch_def ts_add_event_def ts_add_unique_def ts_modify_def)

section \<open>Runs of several threads\<close>

text \<open>
  The calls of all threads, in the order in which they get the lock.  The state carries the logs that
  drains have handed out so far.
\<close>

datatype ts_call = Recorded sl_op | Rejected sl_op | Snapshot stream | Drained stream

inductive ts_step :: "libm \<Rightarrow> shared_log \<times> stream list \<Rightarrow> ts_call \<Rightarrow> shared_log \<times> stream list \<Rightarrow> bool" for L where
  ts_recorded: "ts_add L op now s = Inr s' \<Longrightarrow> ts_step L (s, out) (Recorded op) (s', out)"
| ts_rejected: "ts_add L op now s = Inl err \<Longrightarrow> ts_step L (s, out) (Rejected op) (s, out)"
| ts_snapshot: "get_snapshot L s = Inr c \<Longrightarrow> ts_step L (s, out) (Snapshot c) (s, out)"
| ts_drained: "ts_drain L now s = Inr (s', d) \<Longrightarrow> ts_step L (s, out) (Drained d) (s', out @ [d])"

inductive_cases ts_stepE: "ts_step L (s, out) c (s', out')"

inductive ts_steps :: "libm \<Rightarrow> shared_log \<times> stream list \<Rightarrow> ts_call list \<Rightarrow> shared_log \<times> stream list \<Rightarrow> bool" for L where
  ts_done: "ts_steps L c [] c"
| ts_more: "ts_steps L c cs c' \<Longrightarrow> ts_step L c' x c'' \<Longrightarrow> ts_steps L c (cs @ [x]) c''"

fun recorded :: "ts_call list \<Rightarrow> sl_op list" where
  "recorded [] = []"
| "recorded (Recorded op # cs) = op # recorded cs"
| "recorded (_ # cs) = recorded cs"

lemma recorded_append [simp]: "recorded (cs @ ds) = recorded cs @ recorded ds"
  by (induction cs rule: recorded.induct) auto

text \<open>Merging logs one after the other.\<close>

definition merge_all :: "stream list \<Rightarrow> stream \<Rightarrow> stream result" where
  "merge_all ds e = rfold (\<lambda>d acc. st_merge acc d) ds e"

lemma ts_drain_eq:
  "st_inv L (ts_log s) \<Longrightarrow> ts_drain L now s = Inr (s\<lparr>ts_log := st_reset (ts_log s), ts_updated := now\<rparr>, ts_log s)"
  by (simp add: ts_drain_def clone_empty_eq)

lemma get_snapshot_eq: "st_inv L (ts_log s) \<Longrightarrow> get_snapshot L s = Inr (ts_log s)"
  by (simp add: get_snapshot_def clone_empty_eq st.empty_merge)

text \<open>
  The invariant of a run: every log handed out and the current one are the result of ingesting
  consecutive segments of the recorded calls.
\<close>

definition segments_ok :: "libm \<Rightarrow> stream \<Rightarrow> sl_op list list \<Rightarrow> stream list \<Rightarrow> bool" where
  "segments_ok L e segs logs \<longleftrightarrow> list_all2 (\<lambda>ops log. rfold (st_apply L) ops e = Inr log) segs logs"

lemma segments_merge:
  assumes "st_inv L e" "st_reset e = e" "segments_ok L e segs logs"
  shows "res_eq (merge_all logs e) (rfold (st_apply L) (concat segs) e)"
proof -
  have "list_all2 (\<lambda>ops log. rfold (st_apply L) ops e = Inr log) segs logs"
    using assms(3) by (simp add: segments_ok_def)
  then show ?thesis
  proof (induction segs arbitrary: logs rule: rev_induct)
    case Nil
    then show ?case by (simp add: merge_all_def)
  next
    case (snoc ops segs)
    obtain ls l where logs: "logs = ls @ [l]" "list_all2 (\<lambda>ops log. rfold (st_apply L) ops e = Inr log) segs ls"
      "rfold (st_apply L) ops e = Inr l" using snoc.prems by (auto simp: list_all2_append1 list_all2_Cons1)
    have IH: "res_eq (merge_all ls e) (rfold (st_apply L) (concat segs) e)" by (rule snoc.IH [OF logs(2)])
    show ?case
    proof (cases "rfold (st_apply L) (concat segs) e")
      case (Inl err)
      then show ?thesis using IH by (cases "merge_all ls e") (auto simp: merge_all_def logs(1) rfold_append res_eq_def)
    next
      case (Inr s)
      then have "merge_all ls e = Inr s" using IH by (simp add: res_eq_Inr)
      moreover have "res_eq (st_merge s l) (rfold (st_apply L) (concat segs @ ops) e)"
        using st.merge_ingest [OF assms(1), of "concat segs" s ops l] Inr logs(3) by (simp add: assms(2))
      ultimately show ?thesis by (cases "st_merge s l") (simp_all add: merge_all_def logs(1) rfold_append)
    qed
  qed
qed

lemma ts_steps_segments:
  assumes "ts_steps L (\<lparr>ts_log = e, ts_updated = t0\<rparr>, []) calls c" "st_inv L e" "st_reset e = e"
  shows "st_inv L (ts_log (fst c)) \<and> st_reset (ts_log (fst c)) = e
    \<and> (\<exists>segs. segments_ok L e segs (snd c @ [ts_log (fst c)]) \<and> concat segs = recorded calls)"
  using assms
proof (induction "(\<lparr>ts_log = e, ts_updated = t0\<rparr>, [] :: stream list)" calls c rule: ts_steps.induct)
  case ts_done
  then show ?case by (simp add: segments_ok_def) (rule exI [of _ "[[]]"], simp)
next
  case (ts_more cs c' x c'')
  obtain s out s'' out'' where c: "c' = (s, out)" "c'' = (s'', out'')" by (cases c'; cases c'')
  have IH: "st_inv L (ts_log s)" "st_reset (ts_log s) = e" using ts_more c by auto
  obtain segs where segs: "segments_ok L e segs (out @ [ts_log s])" "concat segs = recorded cs"
    using ts_more c by auto
  have "ts_step L (s, out) x (s'', out'')" using ts_more(3) by (simp add: c)
  then show ?case
  proof (cases rule: ts_step.cases)
    case (ts_recorded op now)
    then obtain log where log: "st_apply L op (ts_log s) = Inr log" "s'' = s\<lparr>ts_log := log, ts_updated := now\<rparr>"
      by (auto simp: ts_add_eq ts_modify_def rbind_eq_Inr)
    obtain pre ops where pre: "segs = pre @ [ops]" "segments_ok L e pre out" "rfold (st_apply L) ops e = Inr (ts_log s)"
      using segs(1) by (auto simp: segments_ok_def list_all2_append2 list_all2_Cons2)
    have "segments_ok L e (pre @ [ops @ [op]]) (out @ [log])"
      using pre log by (simp add: segments_ok_def list_all2_appendI rfold_append)
    moreover have "concat (pre @ [ops @ [op]]) = recorded (cs @ [x])" using segs(2) pre ts_recorded by simp
    ultimately show ?thesis using st_apply_inv [OF IH(1) log(1)] IH(2) log(2) ts_recorded by (auto simp: c)
  next
    case ts_rejected
    then show ?thesis using IH segs by (auto simp: c)
  next
    case ts_snapshot
    then show ?thesis using IH segs by (auto simp: c)
  next
    case (ts_drained now d)
    then have "s'' = s\<lparr>ts_log := e, ts_updated := now\<rparr>" "d = ts_log s" using ts_drain_eq [OF IH(1)] IH(2) by auto
    moreover have "segments_ok L e (segs @ [[]]) (out @ [ts_log s] @ [e])"
      using list_all2_appendI [OF segs(1) [unfolded segments_ok_def], of "[[]]" "[e]"] by (simp add: segments_ok_def)
    ultimately show ?thesis using ts_drained segs(2) ts_more.prems by (auto simp: c intro!: exI [of _ "segs @ [[]]"])
  qed
qed

section \<open>Properties\<close>


text \<open>
  A snapshot never fails and is the log of all the calls recorded since the last drain; merging
  another shared log is merging what that log held at its snapshot.
\<close>

lemma ts_snapshot_exact:
  assumes "ts_init L a p w d det t0 = Inr s0" and "ts_steps L (s0, []) calls (s, drained)"
  shows "get_snapshot L s = Inr (ts_log s) \<and> ts_merge L s now other = ts_merge_log (ts_log s) now other"
proof -
  obtain e where e: "st_init L a p w d det = Inr e" "s0 = \<lparr>ts_log = e, ts_updated = t0\<rparr>"
    using assms(1) by (auto simp: ts_init_def rbind_eq_Inr)
  have "st_inv L e" "st_reset e = e" using st_init_inv [OF e(1)] by auto
  then have "st_inv L (ts_log s)" using ts_steps_segments [OF assms(2) [unfolded e(2)]] by simp
  then show ?thesis by (simp add: get_snapshot_eq ts_merge_def)
qed

text \<open>An example run: record, drain, record.\<close>

lemma demo_shared:
  obtains s0 s d where "ts_init libm_demo (Fin (1/2)) 4 2 1 False (Fin 0) = Inr s0"
    "ts_steps libm_demo (s0, []) [Recorded (AddEvent (KInt 1) 2), Drained d, Recorded (AddUnique (KInt 5))] (s, [d])"
proof -
  have "is_ok (rbind (ts_init libm_demo (Fin (1/2)) 4 2 1 False (Fin 0)) (\<lambda>s0.
      rbind (ts_add libm_demo (AddEvent (KInt 1) 2) (Fin 1) s0) (\<lambda>s1.
      rbind (ts_drain libm_demo (Fin 2) s1) (\<lambda>(s2, d). ts_add libm_demo (AddUnique (KInt 5)) (Fin 3) s2))))"
    by code_simp
  then obtain s0 s1 s2 d s where s: "ts_init libm_demo (Fin (1/2)) 4 2 1 False (Fin 0) = Inr s0"
    "ts_add libm_demo (AddEvent (KInt 1) 2) (Fin 1) s0 = Inr s1" "ts_drain libm_demo (Fin 2) s1 = Inr (s2, d)"
    "ts_add libm_demo (AddUnique (KInt 5)) (Fin 3) s2 = Inr s"
    by (auto simp: is_ok_iff rbind_eq_Inr)
  have "ts_steps libm_demo (s0, []) ((([] @ [Recorded (AddEvent (KInt 1) 2)]) @ [Drained d]) @ [Recorded (AddUnique (KInt 5))]) (s, [] @ [d])"
    by (rule ts_more [OF ts_more [OF ts_more [OF ts_done ts_recorded [OF s(2)]] ts_drained [OF s(3)]] ts_recorded [OF s(4)]])
  then have "ts_steps libm_demo (s0, []) [Recorded (AddEvent (KInt 1) 2), Drained d, Recorded (AddUnique (KInt 5))] (s, [d])"
    by simp
  then show ?thesis by (rule that [OF s(1)])
qed


end
