(* ===== verification/Rate_Limit.thy ===== *)
theory Rate_Limit
  imports PyValue "HOL-Library.AList"
begin

text \<open>
  Rate limiting and quotas per namespace (\<^verbatim>\<open>rate_limit.py\<close>): the configuration and its validation,
  the token bucket, the hourly and daily counter, the enforcer and the configuration report.  The
  injected clock is a function from the number of the reading to its value; every operation takes
  the number of readings made so far and returns the new one.  Message texts are kept as
  constructors that carry the values printed in them.
\<close>

section \<open>Configuration\<close>

datatype limit_result = ALLOWED | RATE_LIMITED | QUOTA_EXCEEDED

record namespace_quota =
  nq_namespace :: string
  nq_rate_per_second :: pyfloat
  nq_burst :: int
  nq_hourly_quota :: int
  nq_daily_quota :: int

definition quota_errors :: "namespace_quota \<Rightarrow> string list" where
  "quota_errors q =
     msg_if (py_strip (nq_namespace q) = []) ''namespace must be a non-empty string''
   @ msg_if (f_le (nq_rate_per_second q) (Fin 0)) ''rate_per_second must be > 0''
   @ msg_if (nq_burst q < 1) ''burst must be >= 1''
   @ msg_if (nq_hourly_quota q < 0) ''hourly_quota must be >= 0''
   @ msg_if (nq_daily_quota q < 0) ''daily_quota must be >= 0''
   @ msg_if (nq_hourly_quota q > 0 \<and> nq_daily_quota q > 0 \<and> nq_hourly_quota q > nq_daily_quota q)
       ''hourly_quota cannot exceed daily_quota''"

definition NamespaceQuota :: "namespace_quota \<Rightarrow> namespace_quota result" where
  "NamespaceQuota q = raise_if (quota_errors q \<noteq> [])
     (ValueError (''NamespaceQuota errors: '' @ py_join ''; '' (quota_errors q))) (Inr q)"

record rate_limit_config =
  rc_quotas :: "namespace_quota list"
  rc_default_rate_per_second :: pyfloat
  rc_default_burst :: int
  rc_default_hourly_quota :: int
  rc_default_daily_quota :: int

definition config_errors :: "rate_limit_config \<Rightarrow> string list" where
  "config_errors c =
     msg_if (f_le (rc_default_rate_per_second c) (Fin 0)) ''default_rate_per_second must be > 0''
   @ msg_if (rc_default_burst c < 1) ''default_burst must be >= 1''
   @ msg_if (rc_default_hourly_quota c < 0) ''default_hourly_quota must be >= 0''
   @ msg_if (rc_default_daily_quota c < 0) ''default_daily_quota must be >= 0''"

definition RateLimitConfig :: "rate_limit_config \<Rightarrow> rate_limit_config result" where
  "RateLimitConfig c = raise_if (config_errors c \<noteq> [])
     (ValueError (''RateLimitConfig errors: '' @ py_join ''; '' (config_errors c))) (Inr c)"

text \<open>The loop of \<^verbatim>\<open>get_quota\<close>: it stops at an exact match and remembers the last wildcard before it.\<close>

fun quota_scan :: "string \<Rightarrow> namespace_quota list \<Rightarrow> namespace_quota option \<Rightarrow>
    namespace_quota option \<times> namespace_quota option" where
  "quota_scan ns [] wildcard = (None, wildcard)"
| "quota_scan ns (q # qs) wildcard =
    (if nq_namespace q = ns then (Some q, wildcard)
     else quota_scan ns qs (if nq_namespace q = ''*'' then Some q else wildcard))"

definition get_quota :: "rate_limit_config \<Rightarrow> string \<Rightarrow> namespace_quota result" where
  "get_quota c ns = (case quota_scan ns (rc_quotas c) None of
     (Some exact, _) \<Rightarrow> Inr exact
   | (None, Some wildcard) \<Rightarrow> Inr wildcard
   | (None, None) \<Rightarrow> NamespaceQuota \<lparr>nq_namespace = ns, nq_rate_per_second = rc_default_rate_per_second c,
       nq_burst = rc_default_burst c, nq_hourly_quota = rc_default_hourly_quota c,
       nq_daily_quota = rc_default_daily_quota c\<rparr>)"

section \<open>Token bucket\<close>

type_synonym clock = "nat \<Rightarrow> pyfloat"

record token_bucket =
  tb_rate :: pyfloat
  tb_burst :: int
  tb_tokens :: pyfloat
  tb_last :: pyfloat

definition tb_init :: "clock \<Rightarrow> nat \<Rightarrow> pyfloat \<Rightarrow> int \<Rightarrow> (token_bucket \<times> nat) result" where
  "tb_init clk n rate burst =
    raise_if (f_isinf (f_of_int burst)) (OverflowError ''int too large to convert to float'')
      (Inr (\<lparr>tb_rate = rate, tb_burst = burst, tb_tokens = f_of_int burst, tb_last = clk n\<rparr>, Suc n))"

definition tb_refill :: "clock \<Rightarrow> nat \<Rightarrow> token_bucket \<Rightarrow> token_bucket \<times> nat" where
  "tb_refill clk n b =
    (let now = clk n; elapsed = f_max (Fin 0) (f_sub now (tb_last b)) in
     (b\<lparr>tb_tokens := f_min (f_of_int (tb_burst b)) (f_add (tb_tokens b) (f_mul elapsed (tb_rate b))),
        tb_last := now\<rparr>, Suc n))"

text \<open>A float is compared with an integer exactly; subtraction converts the integer first.\<close>

definition tb_consume :: "clock \<Rightarrow> nat \<Rightarrow> int \<Rightarrow> token_bucket \<Rightarrow> token_bucket \<times> nat \<times> bool result" where
  "tb_consume clk n tokens b0 = (case tb_refill clk n b0 of (b, n') \<Rightarrow>
     if f_le (Fin (of_int tokens)) (tb_tokens b)
     then if f_isinf (f_of_int tokens) then (b, n', Inl (OverflowError ''int too large to convert to float''))
          else (b\<lparr>tb_tokens := f_sub (tb_tokens b) (f_of_int tokens)\<rparr>, n', Inr True)
     else (b, n', Inr False))"

definition tb_available :: "clock \<Rightarrow> nat \<Rightarrow> token_bucket \<Rightarrow> token_bucket \<times> nat \<times> pyfloat" where
  "tb_available clk n b0 = (case tb_refill clk n b0 of (b, n') \<Rightarrow> (b, n', tb_tokens b))"

section \<open>Quota counter\<close>

record quota_counter =
  qc_hourly_count :: int
  qc_daily_count :: int
  qc_hour_start :: pyfloat
  qc_day_start :: pyfloat

definition qc_init :: "clock \<Rightarrow> nat \<Rightarrow> quota_counter \<times> nat" where
  "qc_init clk n = (\<lparr>qc_hourly_count = 0, qc_daily_count = 0, qc_hour_start = clk n, qc_day_start = clk (Suc n)\<rparr>, n + 2)"

definition qc_reset_at :: "pyfloat \<Rightarrow> quota_counter \<Rightarrow> quota_counter" where
  "qc_reset_at now c =
    (let c1 = (if f_le (Fin 3600) (f_sub now (qc_hour_start c)) then c\<lparr>qc_hourly_count := 0, qc_hour_start := now\<rparr> else c) in
     if f_le (Fin 86400) (f_sub now (qc_day_start c)) then c1\<lparr>qc_daily_count := 0, qc_day_start := now\<rparr> else c1)"

definition qc_reset_if_needed :: "clock \<Rightarrow> nat \<Rightarrow> quota_counter \<Rightarrow> quota_counter \<times> nat" where
  "qc_reset_if_needed clk n c = (qc_reset_at (clk n) c, Suc n)"

definition qc_get_hourly :: "clock \<Rightarrow> nat \<Rightarrow> quota_counter \<Rightarrow> quota_counter \<times> nat \<times> int" where
  "qc_get_hourly clk n c0 = (case qc_reset_if_needed clk n c0 of (c, n') \<Rightarrow> (c, n', qc_hourly_count c))"

definition qc_get_daily :: "clock \<Rightarrow> nat \<Rightarrow> quota_counter \<Rightarrow> quota_counter \<times> nat \<times> int" where
  "qc_get_daily clk n c0 = (case qc_reset_if_needed clk n c0 of (c, n') \<Rightarrow> (c, n', qc_daily_count c))"

datatype limit_reason = OkReason | HourlyExceeded int int | DailyExceeded int int | RateReason int pyfloat

definition qc_check_and_increment :: "clock \<Rightarrow> nat \<Rightarrow> int \<Rightarrow> int \<Rightarrow> quota_counter \<Rightarrow>
    quota_counter \<times> nat \<times> limit_reason option" where
  "qc_check_and_increment clk n hourly_quota daily_quota c0 = (case qc_reset_if_needed clk n c0 of (c, n') \<Rightarrow>
     if hourly_quota > 0 \<and> qc_hourly_count c \<ge> hourly_quota
     then (c, n', Some (HourlyExceeded (qc_hourly_count c) hourly_quota))
     else if daily_quota > 0 \<and> qc_daily_count c \<ge> daily_quota
     then (c, n', Some (DailyExceeded (qc_daily_count c) daily_quota))
     else (c\<lparr>qc_hourly_count := qc_hourly_count c + 1, qc_daily_count := qc_daily_count c + 1\<rparr>, n', None))"

definition qc_decrement :: "quota_counter \<Rightarrow> quota_counter" where
  "qc_decrement c =
    (let c1 = (if qc_hourly_count c > 0 then c\<lparr>qc_hourly_count := qc_hourly_count c - 1\<rparr> else c) in
     if qc_daily_count c1 > 0 then c1\<lparr>qc_daily_count := qc_daily_count c1 - 1\<rparr> else c1)"

section \<open>Enforcer\<close>

record enforcer =
  rl_config :: rate_limit_config
  rl_buckets :: "(string, token_bucket) dict"
  rl_counters :: "(string, quota_counter) dict"

definition rl_init :: "rate_limit_config \<Rightarrow> enforcer" where
  "rl_init config = \<lparr>rl_config = config, rl_buckets = [], rl_counters = []\<rparr>"

record rate_limit_decision =
  rd_namespace :: string
  rd_result :: limit_result
  rd_reason :: limit_reason
  rd_tokens_remaining :: pyfloat
  rd_hourly_used :: int
  rd_daily_used :: int

definition rl_get_bucket :: "clock \<Rightarrow> nat \<Rightarrow> string \<Rightarrow> namespace_quota \<Rightarrow> enforcer \<Rightarrow> (token_bucket \<times> nat) result" where
  "rl_get_bucket clk n ns quota s = (case map_of (rl_buckets s) ns of
     Some b \<Rightarrow> Inr (b, n)
   | None \<Rightarrow> tb_init clk n (nq_rate_per_second quota) (nq_burst quota))"

definition rl_get_counter :: "clock \<Rightarrow> nat \<Rightarrow> string \<Rightarrow> enforcer \<Rightarrow> quota_counter \<times> nat" where
  "rl_get_counter clk n ns s = (case map_of (rl_counters s) ns of Some c \<Rightarrow> (c, n) | None \<Rightarrow> qc_init clk n)"

definition rl_put :: "string \<Rightarrow> token_bucket \<Rightarrow> quota_counter \<Rightarrow> enforcer \<Rightarrow> enforcer" where
  "rl_put ns b c s = s\<lparr>rl_buckets := AList.update ns b (rl_buckets s), rl_counters := AList.update ns c (rl_counters s)\<rparr>"

text \<open>The three queries that fill in a decision, in the order of its fields.\<close>

definition rl_decide :: "clock \<Rightarrow> nat \<Rightarrow> string \<Rightarrow> limit_result \<Rightarrow> limit_reason \<Rightarrow> token_bucket \<Rightarrow> quota_counter \<Rightarrow>
    token_bucket \<times> quota_counter \<times> nat \<times> rate_limit_decision" where
  "rl_decide clk n ns res reason b c =
    (case tb_available clk n b of (b1, n1, avail) \<Rightarrow>
     case qc_get_hourly clk n1 c of (c1, n2, hourly) \<Rightarrow>
     case qc_get_daily clk n2 c1 of (c2, n3, daily) \<Rightarrow>
     (b1, c2, n3, \<lparr>rd_namespace = ns, rd_result = res, rd_reason = reason, rd_tokens_remaining = avail,
                  rd_hourly_used = hourly, rd_daily_used = daily\<rparr>))"

definition rl_finish :: "clock \<Rightarrow> nat \<Rightarrow> string \<Rightarrow> limit_result \<Rightarrow> limit_reason \<Rightarrow> token_bucket \<Rightarrow> quota_counter \<Rightarrow>
    enforcer \<Rightarrow> enforcer \<times> nat \<times> rate_limit_decision result" where
  "rl_finish clk n ns res reason b c s =
    (case rl_decide clk n ns res reason b c of (b', c', n', d) \<Rightarrow> (rl_put ns b' c' s, n', Inr d))"

definition rl_check :: "clock \<Rightarrow> nat \<Rightarrow> string \<Rightarrow> int \<Rightarrow> enforcer \<Rightarrow> enforcer \<times> nat \<times> rate_limit_decision result" where
  "rl_check clk n ns tokens s = (case get_quota (rl_config s) ns of
     Inl e \<Rightarrow> (s, n, Inl e)
   | Inr quota \<Rightarrow> (case rl_get_bucket clk n ns quota s of
       Inl e \<Rightarrow> (s, n, Inl e)
     | Inr (b0, n0) \<Rightarrow> (case rl_get_counter clk n0 ns s of (c0, n1) \<Rightarrow>
         (case qc_check_and_increment clk n1 (nq_hourly_quota quota) (nq_daily_quota quota) c0 of
           (c1, n2, Some reason) \<Rightarrow> rl_finish clk n2 ns QUOTA_EXCEEDED reason b0 c1 s
         | (c1, n2, None) \<Rightarrow> (case tb_consume clk n2 tokens b0 of
             (b1, n3, Inl e) \<Rightarrow> (rl_put ns b1 c1 s, n3, Inl e)
           | (b1, n3, Inr False) \<Rightarrow> rl_finish clk n3 ns RATE_LIMITED (RateReason (nq_burst quota) (nq_rate_per_second quota))
               b1 (qc_decrement c1) s
           | (b1, n3, Inr True) \<Rightarrow> rl_finish clk n3 ns ALLOWED OkReason b1 c1 s)))))"

section \<open>Configuration report\<close>

datatype config_issue =
    FailDefaultRate | WarnDefaultRate | FailDefaultBurst | FailDefaultHourly | FailDefaultDaily
  | FailRate string | WarnRate string | WarnBurst string int pyfloat | WarnDailyUnreachable string int int

fun issue_is_fail :: "config_issue \<Rightarrow> bool" where
  "issue_is_fail FailDefaultRate = True"
| "issue_is_fail FailDefaultBurst = True"
| "issue_is_fail FailDefaultHourly = True"
| "issue_is_fail FailDefaultDaily = True"
| "issue_is_fail (FailRate _) = True"
| "issue_is_fail _ = False"

definition default_issues :: "rate_limit_config \<Rightarrow> config_issue list" where
  "default_issues c =
     (if f_le (rc_default_rate_per_second c) (Fin 0) then [FailDefaultRate]
      else msg_if (f_lt (rc_default_rate_per_second c) (Fin 1)) WarnDefaultRate)
   @ msg_if (rc_default_burst c < 1) FailDefaultBurst
   @ msg_if (rc_default_hourly_quota c < 0) FailDefaultHourly
   @ msg_if (rc_default_daily_quota c < 0) FailDefaultDaily"

definition quota_issues :: "namespace_quota \<Rightarrow> config_issue list" where
  "quota_issues q =
     (if f_le (nq_rate_per_second q) (Fin 0) then [FailRate (nq_namespace q)]
      else msg_if (f_lt (nq_rate_per_second q) (Fin 1)) (WarnRate (nq_namespace q)))
   @ msg_if (f_lt (Fin (of_int (nq_burst q))) (nq_rate_per_second q))
       (WarnBurst (nq_namespace q) (nq_burst q) (nq_rate_per_second q))
   @ msg_if (nq_hourly_quota q > 0 \<and> nq_daily_quota q > 0 \<and> nq_hourly_quota q * 24 < nq_daily_quota q)
       (WarnDailyUnreachable (nq_namespace q) (nq_hourly_quota q * 24) (nq_daily_quota q))"

datatype report_result = FAIL | WARN | PASS

record rate_report =
  rr_result :: report_result
  rr_namespaces :: int
  rr_issues :: "config_issue list"

definition check_rate_limit_config :: "rate_limit_config \<Rightarrow> rate_report" where
  "check_rate_limit_config config =
    (let issues = default_issues config @ concat (map quota_issues (rc_quotas config));
         fails = filter issue_is_fail issues; warns = filter (\<lambda>i. \<not> issue_is_fail i) issues in
     \<lparr>rr_result = (if fails \<noteq> [] then FAIL else if warns \<noteq> [] then WARN else PASS),
      rr_namespaces = int (length (rc_quotas config)), rr_issues = issues\<rparr>)"

definition rate_exit_code :: "rate_report \<Rightarrow> int" where
  "rate_exit_code report = (case rr_result report of PASS \<Rightarrow> 0 | WARN \<Rightarrow> 1 | FAIL \<Rightarrow> 2)"

end
