(* ===== verification/Rate_Limit_Laws.thy ===== *)
theory Rate_Limit_Laws
  imports Rate_Limit
begin

text \<open>
  What the limiter guarantees: the bucket never leaves its bounds, the counters never exceed their
  quotas however threads interleave, a sequence of checks within one hour admits at most the hourly
  quota, and the most specific quota applies.  Two configurations that the validation lets through
  are shown to misbehave.
\<close>

section \<open>Token bucket\<close>

definition tb_ok :: "token_bucket \<Rightarrow> bool" where
  "tb_ok b \<longleftrightarrow> \<not> f_le (tb_rate b) (Fin 0) \<and> 1 \<le> tb_burst b
     \<and> (\<exists>m q. f_of_int (tb_burst b) = Fin m \<and> tb_tokens b = Fin q \<and> 0 \<le> q \<and> q \<le> m \<and> rnd q = q)"

lemma f_of_int_rnd: "f_of_int n = Fin m \<Longrightarrow> m = rnd (of_int n) \<and> rnd m = m"
  by (auto simp: f_of_int_def to_float_def Let_def split: if_splits)

lemma to_float_below:
  assumes "to_float x = Fin m" "0 \<le> y" "y \<le> x" shows "to_float y = Fin (rnd y)" "0 \<le> rnd y" "rnd y \<le> m"
proof -
  have m: "m = rnd x" "rnd x < 2 ^ 1024" using assms(1) by (auto simp: to_float_def Let_def split: if_splits)
  have r: "0 \<le> rnd y" "rnd y \<le> rnd x" using rnd_nonneg [OF assms(2)] rnd_mono [OF assms(3)] by auto
  then show "0 \<le> rnd y" "rnd y \<le> m" using m by auto
  show "to_float y = Fin (rnd y)" using r m by (intro to_float_Fin) simp
qed

text \<open>The refill amount is never negative; it may be infinite or not a number.\<close>

lemma refill_amount:
  assumes "\<not> f_le r (Fin 0)"
  shows "f_mul (f_max (Fin 0) x) r = NaN \<or> f_mul (f_max (Fin 0) x) r = PInf
    \<or> (\<exists>a \<ge> 0. f_mul (f_max (Fin 0) x) r = Fin a)"
proof -
  have *: "to_float a = NaN \<or> to_float a = PInf \<or> (\<exists>b \<ge> 0. to_float a = Fin b)" if "0 \<le> a" for a
    using rnd_nonneg [OF that] by (auto simp: to_float_def Let_def)
  show ?thesis using assms * by (cases x; cases r) (auto simp: f_max_def f_le_def Let_def)
qed

lemma tb_refill_ok:
  assumes "tb_ok b" shows "tb_ok (fst (tb_refill clk n b))"
proof -
  obtain m q where b: "\<not> f_le (tb_rate b) (Fin 0)" "1 \<le> tb_burst b" "f_of_int (tb_burst b) = Fin m"
    "tb_tokens b = Fin q" "0 \<le> q" "q \<le> m" "rnd q = q" using assms by (auto simp: tb_ok_def)
  have m: "rnd m = m" "0 \<le> m" using f_of_int_rnd [OF b(3)] b(5,6) by auto
  let ?x = "f_mul (f_max (Fin 0) (f_sub (clk n) (tb_last b))) (tb_rate b)"
  have sum: "f_add (Fin q) ?x = NaN \<or> f_add (Fin q) ?x = PInf \<or> (\<exists>a. f_add (Fin q) ?x = Fin a \<and> 0 \<le> a \<and> rnd a = a)"
  proof -
    consider "?x = NaN" | "?x = PInf" | a where "0 \<le> a" "?x = Fin a" using refill_amount [OF b(1)] by blast
    then show ?thesis
    proof cases
      case 3
      then have "0 \<le> rnd (q + a)" using b(5) by (intro rnd_nonneg) simp
      then show ?thesis using 3 by (auto simp: to_float_def Let_def)
    qed simp_all
  qed
  have "\<exists>q'. f_min (Fin m) (f_add (Fin q) ?x) = Fin q' \<and> 0 \<le> q' \<and> q' \<le> m \<and> rnd q' = q'"
    using sum m by (auto simp: f_min_def)
  then show ?thesis using b by (simp add: tb_ok_def tb_refill_def Let_def)
qed

lemma tb_consume_ok:
  assumes "tb_ok b" "0 \<le> k" shows "tb_ok (fst (tb_consume clk n k b)) \<and> is_ok (snd (snd (tb_consume clk n k b)))"
proof -
  obtain b1 n1 where r: "tb_refill clk n b = (b1, n1)" by fastforce
  have "tb_ok b1" using tb_refill_ok [OF assms(1), of clk n] by (simp add: r)
  then obtain m q where b: "f_of_int (tb_burst b1) = Fin m" "tb_tokens b1 = Fin q" "0 \<le> q" "q \<le> m" "rnd q = q"
    by (auto simp: tb_ok_def)
  show ?thesis
  proof (cases "of_int k \<le> q")
    case True
    have "rnd (of_int k) \<le> q" "0 \<le> rnd (of_int k)" using rnd_mono [OF True] assms(2) rnd_nonneg b(5) by simp_all
    have mm: "to_float m = Fin m" using b(1) f_of_int_rnd [OF b(1)] unfolding f_of_int_def
      by (metis to_float_def)
    have k: "f_of_int k = Fin (rnd (of_int k))"
      using to_float_below(1) [OF mm, of "of_int k"] assms(2) True b(4) by (simp add: f_of_int_def)
    have "to_float (q - rnd (of_int k)) = Fin (rnd (q - rnd (of_int k)))" "0 \<le> rnd (q - rnd (of_int k))"
      "rnd (q - rnd (of_int k)) \<le> m"
      using to_float_below [OF mm, of "q - rnd (of_int k)"] \<open>rnd (of_int k) \<le> q\<close> \<open>0 \<le> rnd (of_int k)\<close> b(4) by auto
    then show ?thesis using True k b \<open>tb_ok b1\<close>
      by (auto simp: tb_consume_def r f_sub_def tb_ok_def is_ok_iff)
  next
    case False
    then show ?thesis using \<open>tb_ok b1\<close> b by (auto simp: tb_consume_def r is_ok_iff f_le_def)
  qed
qed

fun tb_run :: "clock \<Rightarrow> nat \<Rightarrow> int list \<Rightarrow> token_bucket \<Rightarrow> token_bucket \<times> int" where
  "tb_run clk n [] b = (b, 0)"
| "tb_run clk n (k # ks) b = (case tb_consume clk n k b of (b1, n1, r) \<Rightarrow>
     case tb_run clk n1 ks b1 of (b2, granted) \<Rightarrow> (b2, granted + (if r = Inr True then k else 0)))"

lemma tb_consume_burst: "tb_consume clk n k b = (b', n', r) \<Longrightarrow> tb_burst b' = tb_burst b"
  by (auto simp: tb_consume_def tb_refill_def Let_def split: if_splits)

lemma tb_run_burst: "tb_burst (fst (tb_run clk n ks b)) = tb_burst b"
proof (induction ks arbitrary: b n)
  case (Cons k ks)
  obtain b1 n1 r where c: "tb_consume clk n k b = (b1, n1, r)" by (metis prod_cases3)
  then show ?case using Cons.IH [of n1 b1] tb_consume_burst [OF c] by (simp add: case_prod_unfold)
qed simp

lemma tb_run_ok: "tb_ok b \<Longrightarrow> \<forall>k \<in> set ks. 0 \<le> k \<Longrightarrow> tb_ok (fst (tb_run clk n ks b))"
proof (induction ks arbitrary: b n)
  case (Cons k ks)
  obtain b1 n1 r where c: "tb_consume clk n k b = (b1, n1, r)" by (metis prod_cases3)
  have "tb_ok b1" using tb_consume_ok [OF Cons.prems(1), of k clk n] Cons.prems(2) by (simp add: c)
  then show ?case using Cons.IH [of b1 n1] Cons.prems(2) by (cases "tb_run clk n1 ks b1") (simp add: c)
qed simp

text \<open>With a standing clock and a finite rate nothing is refilled, and the grants come out of the bucket.\<close>

lemma tb_consume_frozen:
  assumes "tb_rate b = Fin r" "tb_last b = Fin t" "tb_tokens b = Fin (of_int a)" "0 \<le> a" "a \<le> tb_burst b"
    "tb_burst b \<le> 2 ^ 53" "0 \<le> k"
  shows "tb_consume (\<lambda>_. Fin t) n k b = (if k \<le> a then (b\<lparr>tb_tokens := Fin (of_int (a - k))\<rparr>, Suc n, Inr True)
    else (b, Suc n, Inr False))"
proof -
  have burst: "f_of_int (tb_burst b) = Fin (of_int (tb_burst b))" using assms by (intro f_of_int_small) simp
  have a: "to_float (of_int a) = Fin (of_int a)" using f_of_int_small [of a] assms by (simp add: f_of_int_def)
  have z: "to_float 0 = Fin 0" using f_of_int_small [of 0] by (simp add: f_of_int_def)
  have refill: "tb_refill (\<lambda>_. Fin t) n b = (b, Suc n)"
    using assms by (simp add: tb_refill_def Let_def f_sub_def burst a z f_max_def f_min_def)
  have k: "f_of_int k = Fin (of_int k)" if "k \<le> a" using that assms by (intro f_of_int_small) simp
  have "to_float (of_int a - of_int k) = Fin (of_int (a - k))" if "k \<le> a"
    using f_of_int_small [of "a - k"] that assms by (simp add: f_of_int_def)
  then show ?thesis using assms(3) k by (simp add: tb_consume_def refill f_sub_def)
qed

lemma tb_run_frozen:
  assumes "tb_rate b = Fin r" "tb_last b = Fin t" "tb_tokens b = Fin (of_int a)" "0 \<le> a" "a \<le> tb_burst b"
    "tb_burst b \<le> 2 ^ 53" "\<forall>k \<in> set ks. 0 \<le> k"
  shows "snd (tb_run (\<lambda>_. Fin t) n ks b) \<le> a"
  using assms
proof (induction ks arbitrary: b n a)
  case (Cons k ks)
  note step = tb_consume_frozen [OF Cons.prems(1-6), of k n]
  show ?case
  proof (cases "k \<le> a")
    case True
    have "snd (tb_run (\<lambda>_. Fin t) (Suc n) ks (b\<lparr>tb_tokens := Fin (of_int (a - k))\<rparr>)) \<le> a - k"
      using Cons.prems True by (intro Cons.IH) simp_all
    then show ?thesis using step True Cons.prems(7) by (simp add: case_prod_unfold)
  next
    case False
    have "snd (tb_run (\<lambda>_. Fin t) (Suc n) ks b) \<le> a" using Cons.prems by (intro Cons.IH) simp_all
    then show ?thesis using step False Cons.prems(7) by (simp add: case_prod_unfold)
  qed
qed simp

section \<open>Quota counter\<close>

definition qc_ok :: "int \<Rightarrow> int \<Rightarrow> quota_counter \<Rightarrow> bool" where
  "qc_ok h d c \<longleftrightarrow> 0 \<le> qc_hourly_count c \<and> 0 \<le> qc_daily_count c
     \<and> (0 < h \<longrightarrow> qc_hourly_count c \<le> h) \<and> (0 < d \<longrightarrow> qc_daily_count c \<le> d)"

lemma qc_reset_ok: "qc_ok h d c \<Longrightarrow> qc_ok h d (qc_reset_at now c)"
  by (auto simp: qc_ok_def qc_reset_at_def Let_def)

lemma qc_decrement_ok: "qc_ok h d c \<Longrightarrow> qc_ok h d (qc_decrement c)"
  by (auto simp: qc_ok_def qc_decrement_def Let_def)

lemma qc_check_ok:
  assumes "qc_ok h d c" "qc_check_and_increment clk n h d c = (c', n', r)" shows "qc_ok h d c'"
  using assms qc_reset_ok [OF assms(1), of "clk n"]
  by (auto simp: qc_check_and_increment_def qc_reset_if_needed_def qc_ok_def split: if_splits)

text \<open>
  The enforcer's lock is released before the counter and the bucket are used, so the requests of
  several threads interleave at the granularity of the counter's own operations.  The state is the
  counter of one namespace and the number of requests between their quota check and their bucket
  check.
\<close>

inductive quota_step :: "int \<Rightarrow> int \<Rightarrow> quota_counter \<times> nat \<Rightarrow> quota_counter \<times> nat \<Rightarrow> bool" for h d where
  enter: "qc_check_and_increment clk n h d c = (c', n', None) \<Longrightarrow> quota_step h d (c, p) (c', Suc p)"
| refuse: "qc_check_and_increment clk n h d c = (c', n', Some r) \<Longrightarrow> quota_step h d (c, p) (c', p)"
| serve: "quota_step h d (c, Suc p) (c, p)"
| rollback: "quota_step h d (c, Suc p) (qc_decrement c, p)"
| observe: "quota_step h d (c, p) (qc_reset_at now c, p)"

inductive_cases quota_stepE: "quota_step h d (c, p) (c', p')"

lemma quota_steps_ok:
  assumes "(quota_step h d)\<^sup>*\<^sup>* s s'" "qc_ok h d (fst s)" shows "qc_ok h d (fst s')"
  using assms
proof (induction rule: rtranclp_induct)
  case (step y z)
  obtain c p c' p' where yz: "y = (c, p)" "z = (c', p')" by (cases y; cases z)
  have "qc_ok h d c" using step yz by simp
  moreover have "quota_step h d (c, p) (c', p')" using step(2) by (simp add: yz)
  ultimately show ?case unfolding yz
    by (auto elim!: quota_stepE intro: qc_check_ok qc_decrement_ok qc_reset_ok)
qed simp

section \<open>Sequences of checks\<close>

fun rl_run :: "clock \<Rightarrow> nat \<Rightarrow> (string \<times> int) list \<Rightarrow> enforcer \<Rightarrow> rate_limit_decision result list" where
  "rl_run clk n [] s = []"
| "rl_run clk n ((ns, tokens) # calls) s = (case rl_check clk n ns tokens s of (s', n', r) \<Rightarrow> r # rl_run clk n' calls s')"

definition allowed :: "string \<Rightarrow> rate_limit_decision result list \<Rightarrow> nat" where
  "allowed ns rs = length (filter (\<lambda>r. case r of Inl _ \<Rightarrow> False | Inr d \<Rightarrow> rd_namespace d = ns \<and> rd_result d = ALLOWED) rs)"

text \<open>All readings of the clock lie within one hour.\<close>

definition one_hour :: "clock \<Rightarrow> bool" where
  "one_hour clk \<longleftrightarrow> (\<forall>m n. \<not> f_le (Fin 3600) (f_sub (clk m) (clk n)))"

definition hour_ok :: "clock \<Rightarrow> quota_counter \<Rightarrow> bool" where
  "hour_ok clk c \<longleftrightarrow> (\<exists>m. qc_hour_start c = clk m) \<and> 0 \<le> qc_hourly_count c"

lemma hour_reset:
  assumes "one_hour clk" "hour_ok clk c"
  shows "hour_ok clk (qc_reset_at (clk n) c) \<and> qc_hourly_count (qc_reset_at (clk n) c) = qc_hourly_count c"
proof -
  have "\<not> f_le (Fin 3600) (f_sub (clk n) (qc_hour_start c))" using assms by (auto simp: one_hour_def hour_ok_def)
  then show ?thesis using assms(2) by (simp add: qc_reset_at_def Let_def hour_ok_def)
qed

lemma rl_finish_hour:
  assumes "one_hour clk" "hour_ok clk c" "rl_finish clk n ns res reason b c s = (s', n', r)"
  shows "\<exists>c'. map_of (rl_counters s') ns = Some c' \<and> hour_ok clk c' \<and> qc_hourly_count c' = qc_hourly_count c
    \<and> (\<forall>ns'. ns' \<noteq> ns \<longrightarrow> map_of (rl_counters s') ns' = map_of (rl_counters s) ns') \<and> rl_config s' = rl_config s
    \<and> (\<exists>d. r = Inr d \<and> rd_namespace d = ns \<and> rd_result d = res)"
proof -
  let ?c1 = "qc_reset_at (clk (Suc n)) c" let ?c2 = "qc_reset_at (clk (Suc (Suc n))) ?c1"
  have "hour_ok clk ?c2 \<and> qc_hourly_count ?c2 = qc_hourly_count c"
    using hour_reset [OF assms(1,2), of "Suc n"] hour_reset [OF assms(1), of ?c1 "Suc (Suc n)"] by simp
  then show ?thesis using assms(3)
    by (auto simp: rl_finish_def rl_decide_def tb_available_def tb_refill_def qc_get_hourly_def qc_get_daily_def
        qc_reset_if_needed_def rl_put_def Let_def update_conv')
qed

definition hourly_of :: "string \<Rightarrow> enforcer \<Rightarrow> int" where
  "hourly_of ns s = (case map_of (rl_counters s) ns of None \<Rightarrow> 0 | Some c \<Rightarrow> qc_hourly_count c)"

definition seq_ok :: "clock \<Rightarrow> string \<Rightarrow> int \<Rightarrow> enforcer \<Rightarrow> bool" where
  "seq_ok clk ns h s \<longleftrightarrow> (\<forall>c. map_of (rl_counters s) ns = Some c \<longrightarrow> hour_ok clk c \<and> qc_hourly_count c \<le> h)"

lemma rl_get_counter_hour:
  assumes "seq_ok clk ns h s" "0 < h" "rl_get_counter clk n ns s = (c, n')"
  shows "hour_ok clk c \<and> qc_hourly_count c = hourly_of ns s \<and> qc_hourly_count c \<le> h"
  using assms by (auto simp: rl_get_counter_def seq_ok_def hourly_of_def qc_init_def hour_ok_def split: option.splits)

lemma qc_check_hour:
  assumes "one_hour clk" "hour_ok clk c" "0 < h" "qc_hourly_count c \<le> h"
    "qc_check_and_increment clk n h d c = (c', n', r)"
  shows "hour_ok clk c' \<and> qc_hourly_count c' \<le> h
    \<and> qc_hourly_count c' = (if r = None then qc_hourly_count c + 1 else qc_hourly_count c)"
  using hour_reset [OF assms(1,2), of n] assms(3-5)
  by (auto simp: qc_check_and_increment_def qc_reset_if_needed_def hour_ok_def split: if_splits)

lemma qc_decrement_hour:
  "hour_ok clk c \<Longrightarrow> 0 < qc_hourly_count c \<Longrightarrow>
    hour_ok clk (qc_decrement c) \<and> qc_hourly_count (qc_decrement c) = qc_hourly_count c - 1"
  by (auto simp: qc_decrement_def Let_def hour_ok_def)

definition grants :: "rate_limit_decision result \<Rightarrow> bool" where
  "grants r = (case r of Inl _ \<Rightarrow> False | Inr d \<Rightarrow> rd_result d = ALLOWED)"

text \<open>One check: only a granted request raises the count, and never above the quota.\<close>

lemma rl_check_hour:
  assumes clk: "one_hour clk" and q: "get_quota (rl_config s) ns = Inr quota" "nq_hourly_quota quota = h" "0 < h"
    and ok: "seq_ok clk ns h s" and chk: "rl_check clk n ns tokens s = (s', n', r)"
  shows "seq_ok clk ns h s' \<and> hourly_of ns s + (if grants r then 1 else 0) \<le> hourly_of ns s'
    \<and> hourly_of ns s' \<le> h \<and> rl_config s' = rl_config s \<and> (\<forall>d. r = Inr d \<longrightarrow> rd_namespace d = ns)"
proof (cases "rl_get_bucket clk n ns quota s")
  case (Inl e)
  then show ?thesis using chk q ok by (auto simp: rl_check_def grants_def seq_ok_def hourly_of_def split: option.splits)
next
  case (Inr bn)
  obtain b0 n0 where b0: "bn = (b0, n0)" by (cases bn)
  obtain c0 n1 where c0: "rl_get_counter clk n0 ns s = (c0, n1)" by fastforce
  obtain c1 n2 why where c1: "qc_check_and_increment clk n1 h (nq_daily_quota quota) c0 = (c1, n2, why)" by (metis prod_cases3)
  have i0: "hour_ok clk c0" "qc_hourly_count c0 = hourly_of ns s" "qc_hourly_count c0 \<le> h"
    using rl_get_counter_hour [OF ok q(3) c0] by auto
  have i1: "hour_ok clk c1" "qc_hourly_count c1 \<le> h"
    "qc_hourly_count c1 = (if why = None then qc_hourly_count c0 + 1 else qc_hourly_count c0)"
    using qc_check_hour [OF clk i0(1) q(3) i0(3) c1] by auto
  have finish: ?thesis if fin: "rl_finish clk m ns res reason b c s = (s', n', r)" and c: "hour_ok clk c" "qc_hourly_count c \<le> h"
    "hourly_of ns s + (if res = ALLOWED then 1 else 0) \<le> qc_hourly_count c" for m res reason b c
    using rl_finish_hour [OF clk c(1) fin] c by (auto simp: seq_ok_def hourly_of_def grants_def)
  show ?thesis
  proof (cases why)
    case (Some reason)
    then have "rl_finish clk n2 ns QUOTA_EXCEEDED reason b0 c1 s = (s', n', r)"
      using chk by (simp add: rl_check_def q Inr b0 c0 c1)
    then show ?thesis using i0 i1 Some by (intro finish [of n2 QUOTA_EXCEEDED reason b0 c1]) simp_all
  next
    case None
    obtain b1 n3 cons where b1: "tb_consume clk n2 tokens b0 = (b1, n3, cons)" by (metis prod_cases3)
    have run: "(case cons of Inl e \<Rightarrow> (rl_put ns b1 c1 s, n3, Inl e)
      | Inr False \<Rightarrow> rl_finish clk n3 ns RATE_LIMITED (RateReason (nq_burst quota) (nq_rate_per_second quota)) b1 (qc_decrement c1) s
      | Inr True \<Rightarrow> rl_finish clk n3 ns ALLOWED OkReason b1 c1 s) = (s', n', r)"
      using chk None by (simp add: rl_check_def q Inr b0 c0 c1 b1)
    show ?thesis
    proof (cases cons)
      case (Inl e)
      then show ?thesis using run i0 i1 None
        by (auto simp: rl_put_def seq_ok_def hourly_of_def grants_def update_conv')
    next
      case (Inr served)
      have pos: "0 < qc_hourly_count c1" using i1(3) None i0(1) by (simp add: hour_ok_def)
      show ?thesis
      proof (cases served)
        case True
        then show ?thesis using run i0 i1 None Inr by (intro finish [of n3 ALLOWED OkReason b1 c1]) simp_all
      next
        case False
        then show ?thesis using run i0 i1 None Inr qc_decrement_hour [OF i1(1) pos]
          by (intro finish [of n3 RATE_LIMITED "RateReason (nq_burst quota) (nq_rate_per_second quota)" b1 "qc_decrement c1"]) simp_all
      qed
    qed
  qed
qed

lemma rl_put_other: "ns' \<noteq> ns \<Longrightarrow> map_of (rl_counters (rl_put ns b c s)) ns' = map_of (rl_counters s) ns'"
  by (simp add: rl_put_def update_conv')

lemma rl_check_other:
  assumes "ns' \<noteq> ns" "rl_check clk n ns tokens s = (s', n', r)"
  shows "map_of (rl_counters s') ns' = map_of (rl_counters s) ns' \<and> rl_config s' = rl_config s
    \<and> (\<forall>d. r = Inr d \<longrightarrow> rd_namespace d = ns)"
  using assms rl_put_other [OF assms(1)]
  by (auto simp: rl_check_def rl_finish_def rl_decide_def rl_put_def split: sum.splits prod.splits option.splits bool.splits)

lemma rl_run_hour:
  assumes "one_hour clk" "get_quota (rl_config s) ns = Inr quota" "nq_hourly_quota quota = h" "0 < h" "seq_ok clk ns h s"
    "hourly_of ns s \<le> h"
  shows "hourly_of ns s + int (allowed ns (rl_run clk n calls s)) \<le> h"
  using assms(2,5,6)
proof (induction calls arbitrary: s n)
  case (Cons call calls)
  obtain ns' k where call: "call = (ns', k)" by (cases call)
  obtain s' n' r where chk: "rl_check clk n ns' k s = (s', n', r)" by (metis prod_cases3)
  have split: "int (allowed ns (rl_run clk n (call # calls) s)) = (if (\<exists>d. r = Inr d \<and> rd_namespace d = ns) \<and> grants r then 1 else 0)
      + int (allowed ns (rl_run clk n' calls s'))"
    by (auto simp: call chk allowed_def grants_def split: sum.splits)
  show ?case
  proof (cases "ns' = ns")
    case True
    note R = rl_check_hour [OF assms(1) Cons.prems(1) assms(3,4) Cons.prems(2) chk [unfolded True]]
    have "hourly_of ns s' + int (allowed ns (rl_run clk n' calls s')) \<le> h" using R Cons.prems(1) by (intro Cons.IH) simp_all
    then show ?thesis using R unfolding split by (auto split: if_splits)
  next
    case False
    note R = rl_check_other [OF not_sym [OF False] chk]
    have "hourly_of ns s' = hourly_of ns s" "seq_ok clk ns h s'" "rl_config s' = rl_config s"
      using R Cons.prems(2) by (simp_all add: hourly_of_def seq_ok_def)
    moreover have "\<not> (\<exists>d. r = Inr d \<and> rd_namespace d = ns)" using R False by auto
    ultimately show ?thesis using Cons.IH [of s' n'] Cons.prems unfolding split by auto
  qed
qed (simp add: allowed_def)

section \<open>Choice of the quota\<close>

lemma quota_scan_eq:
  "quota_scan ns qs w = (case find (\<lambda>q. nq_namespace q = ns) qs of
     Some q \<Rightarrow> (Some q, case find (\<lambda>q. nq_namespace q = ''*'') (rev (takeWhile (\<lambda>q. nq_namespace q \<noteq> ns) qs)) of None \<Rightarrow> w | Some x \<Rightarrow> Some x)
   | None \<Rightarrow> (None, case find (\<lambda>q. nq_namespace q = ''*'') (rev qs) of None \<Rightarrow> w | Some x \<Rightarrow> Some x))"
proof -
  have app: "find P (xs @ [x]) = (case find P xs of None \<Rightarrow> if P x then Some x else None | Some y \<Rightarrow> Some y)" for P :: "namespace_quota \<Rightarrow> bool" and xs x
    by (induction xs) auto
  show ?thesis by (induction qs arbitrary: w) (auto simp: app split: option.splits)
qed

section \<open>Properties\<close>

text \<open>
  C30: However many threads interleave their checks of a namespace, the hourly and the daily counter
  stay non-negative and never exceed their quotas.
\<close>

theorem quota_never_exceeded:
  assumes "(quota_step h d)\<^sup>*\<^sup>* (fst (qc_init clk n), 0) (c, p)"
  shows "0 \<le> qc_hourly_count c \<and> 0 \<le> qc_daily_count c
    \<and> (0 < h \<longrightarrow> qc_hourly_count c \<le> h) \<and> (0 < d \<longrightarrow> qc_daily_count c \<le> d)"
  using quota_steps_ok [OF assms] by (simp add: qc_ok_def qc_init_def)

theorem quota_never_exceeded_witness:
  "qc_hourly_count (fst (qc_check_and_increment (\<lambda>_. Fin 0) 2 1 1 (fst (qc_init (\<lambda>_. Fin 0) 0)))) \<le> 1"
proof -
  let ?r = "qc_check_and_increment (\<lambda>_. Fin 0) 2 1 1 (fst (qc_init (\<lambda>_. Fin 0) 0))"
  have "snd (snd ?r) = None" by code_simp
  then have "?r = (fst ?r, fst (snd ?r), None)" by (metis prod.collapse)
  then have "quota_step 1 1 (fst (qc_init (\<lambda>_. Fin 0) 0), 0) (fst ?r, Suc 0)" by (rule quota_step.enter)
  then have "(quota_step 1 1)\<^sup>*\<^sup>* (fst (qc_init (\<lambda>_. Fin 0) 0), 0) (fst ?r, Suc 0)" by blast
  from quota_never_exceeded [OF this] show ?thesis by simp
qed

text \<open>
  C26: Within one hour of the clock an enforcer grants at most the hourly quota of a namespace,
  whatever sequence of checks on whatever namespaces it serves; refused requests are not charged.
\<close>

theorem hourly_quota_respected:
  assumes "one_hour clk" and "get_quota config ns = Inr quota" and "0 < nq_hourly_quota quota"
  shows "int (allowed ns (rl_run clk n calls (rl_init config))) \<le> nq_hourly_quota quota"
  using rl_run_hour [OF assms(1), of "rl_init config" ns quota "nq_hourly_quota quota" n calls] assms(2,3)
  by (simp add: rl_init_def seq_ok_def hourly_of_def)

definition demo_rate_config :: rate_limit_config where
  "demo_rate_config = \<lparr>rc_quotas = [\<lparr>nq_namespace = ''a'', nq_rate_per_second = Fin 1, nq_burst = 9,
      nq_hourly_quota = 2, nq_daily_quota = 0\<rparr>],
     rc_default_rate_per_second = Fin 1, rc_default_burst = 2, rc_default_hourly_quota = 10, rc_default_daily_quota = 5\<rparr>"

theorem hourly_quota_respected_witness:
  "allowed ''a'' (rl_run (\<lambda>_. Fin 0) 0 [(''a'', 1), (''a'', 1), (''a'', 1)] (rl_init demo_rate_config)) = 2"
proof -
  let ?run = "rl_run (\<lambda>_. Fin 0) 0 [(''a'', 1), (''a'', 1), (''a'', 1)] (rl_init demo_rate_config)"
  have "\<not> f_le (Fin 3600) (f_sub (Fin 0) (Fin 0))" by code_simp
  then have "one_hour (\<lambda>_. Fin 0)" by (simp add: one_hour_def)
  moreover have "get_quota demo_rate_config ''a'' = Inr (hd (rc_quotas demo_rate_config))"
    "nq_hourly_quota (hd (rc_quotas demo_rate_config)) = 2"
    by (simp_all add: demo_rate_config_def get_quota_def)
  ultimately have "int (allowed ''a'' ?run) \<le> 2"
    using hourly_quota_respected [of "\<lambda>_. Fin 0" demo_rate_config "''a''" "hd (rc_quotas demo_rate_config)" 0
        "[(''a'', 1), (''a'', 1), (''a'', 1)]"] by simp
  moreover have "2 \<le> allowed ''a'' ?run" by code_simp
  ultimately show ?thesis by simp
qed

text \<open>
  The token bucket never holds less than nothing nor more than its burst, whatever the clock
  does, and a request for a non-negative number of tokens never raises.  While the clock stands and
  the rate is finite, the tokens granted in total do not exceed the burst.
\<close>

lemma token_bucket_bounds:
  assumes "\<not> f_le rate (Fin 0)" "1 \<le> burst" "tb_init clk n rate burst = Inr (b, n')" "\<forall>k \<in> set ks. 0 \<le> k"
  shows "(\<exists>q m. tb_tokens (fst (tb_run clk n' ks b)) = Fin q \<and> f_of_int burst = Fin m \<and> 0 \<le> q \<and> q \<le> m)
    \<and> (\<forall>r t. rate = Fin r \<longrightarrow> burst \<le> 2 ^ 53 \<longrightarrow> clk = (\<lambda>_. Fin t) \<longrightarrow> snd (tb_run clk n' ks b) \<le> burst)"
proof -
  have b: "b = \<lparr>tb_rate = rate, tb_burst = burst, tb_tokens = f_of_int burst, tb_last = clk n\<rparr>" "\<not> f_isinf (f_of_int burst)"
    using assms(3) by (auto simp: tb_init_def raise_if_eq_Inr)
  obtain m where m: "f_of_int burst = Fin m" using b(2) by (auto simp: f_of_int_def to_float_def Let_def split: if_splits)
  have "0 \<le> m" using f_of_int_rnd [OF m] rnd_nonneg [of "of_int burst"] assms(2) by simp
  then have "tb_ok b" using f_of_int_rnd [OF m] m assms by (simp add: b tb_ok_def)
  moreover have "tb_burst (fst (tb_run clk n' ks b)) = burst" by (simp add: tb_run_burst b)
  ultimately have "\<exists>q m. tb_tokens (fst (tb_run clk n' ks b)) = Fin q \<and> f_of_int burst = Fin m \<and> 0 \<le> q \<and> q \<le> m"
    using tb_run_ok [of b ks clk n'] assms(4) by (auto simp: tb_ok_def)
  moreover have "snd (tb_run clk n' ks b) \<le> burst" if "rate = Fin r" "burst \<le> 2 ^ 53" "clk = (\<lambda>_. Fin t)" for r t
    using tb_run_frozen [of b r t burst ks n'] that assms f_of_int_small [of burst] by (simp add: b)
  ultimately show ?thesis by blast
qed

text \<open>
  The most specific quota applies: the first entry for the namespace itself, else the last
  wildcard entry, else the defaults.
\<close>

lemma get_quota_precedence:
  "get_quota c ns = (case find (\<lambda>q. nq_namespace q = ns) (rc_quotas c) of Some q \<Rightarrow> Inr q
    | None \<Rightarrow> (case find (\<lambda>q. nq_namespace q = ''*'') (rev (rc_quotas c)) of Some q \<Rightarrow> Inr q
      | None \<Rightarrow> NamespaceQuota \<lparr>nq_namespace = ns, nq_rate_per_second = rc_default_rate_per_second c,
          nq_burst = rc_default_burst c, nq_hourly_quota = rc_default_hourly_quota c,
          nq_daily_quota = rc_default_daily_quota c\<rparr>))"
  unfolding get_quota_def quota_scan_eq by (auto split: option.splits)

section \<open>Configurations that pass validation and misbehave\<close>

text \<open>A rate that is not a number is accepted, and then the bucket is full at every request.\<close>

theorem nan_rate_accepted:
  assumes "quota_errors (q\<lparr>nq_rate_per_second := Fin 1\<rparr>) = []" and "tb_rate b = NaN" "f_of_int (tb_burst b) = Fin m"
    and "of_int k \<le> m" "\<not> f_isinf (f_of_int k)"
  shows "NamespaceQuota (q\<lparr>nq_rate_per_second := NaN\<rparr>) = Inr (q\<lparr>nq_rate_per_second := NaN\<rparr>)
    \<and> snd (snd (tb_consume clk n k b)) = Inr True"
proof -
  have "quota_errors (q\<lparr>nq_rate_per_second := NaN\<rparr>) = []" using assms(1) by (simp add: quota_errors_def f_le_def)
  moreover have "f_mul x NaN = NaN" "f_add x NaN = NaN" for x by (cases x; simp)+
  then have "fst (tb_refill clk n b) = b\<lparr>tb_tokens := Fin m, tb_last := clk n\<rparr>"
    using assms(2,3) by (simp add: tb_refill_def Let_def f_min_def)
  ultimately show ?thesis using assms(4,5)
    by (cases "tb_refill clk n b") (simp add: NamespaceQuota_def tb_consume_def)
qed

text \<open>Defaults whose hourly quota exceeds the daily one are accepted, but every unlisted namespace then raises.\<close>

theorem inconsistent_defaults_raise:
  "RateLimitConfig demo_rate_config = Inr demo_rate_config \<and> rr_result (check_rate_limit_config demo_rate_config) = PASS
    \<and> get_quota demo_rate_config ''b'' = Inl (ValueError ''NamespaceQuota errors: hourly_quota cannot exceed daily_quota'')"
  by code_simp

end
