(* ===== verification/Rbac.thy ===== *)
theory Rbac
  imports PyValue
begin

text \<open>
  Role-based access control with an audit trail (\<^verbatim>\<open>rbac.py\<close>).  The keyed hash of an audit record
  (HMAC-SHA256 of its JSON text) is the argument \<open>mac\<close>; the audit file, the system log and the
  standard output are lists of the records written to them.  Values that reach a constructor from a
  configuration file are \<^typ>\<open>pyval\<close>s, so that its checks of their types are part of the model.
\<close>

section \<open>Roles and grants\<close>

datatype role = ADMIN | INGEST | READ | READ_WRITE

datatype permission = P_INGEST | P_QUERY | P_ADMIN

fun role_value :: "role \<Rightarrow> string" where
  "role_value ADMIN = ''admin''"
| "role_value INGEST = ''ingest''"
| "role_value READ = ''read''"
| "role_value READ_WRITE = ''read_write''"

fun permission_value :: "permission \<Rightarrow> string" where
  "permission_value P_INGEST = ''ingest''"
| "permission_value P_QUERY = ''query''"
| "permission_value P_ADMIN = ''admin''"

fun role_permissions :: "role \<Rightarrow> permission list" where
  "role_permissions ADMIN = [P_INGEST, P_QUERY, P_ADMIN]"
| "role_permissions INGEST = [P_INGEST]"
| "role_permissions READ = [P_QUERY]"
| "role_permissions READ_WRITE = [P_INGEST, P_QUERY]"

definition all_roles :: "role list" where
  "all_roles = [ADMIN, INGEST, READ, READ_WRITE]"

definition role_of_value :: "pyval \<Rightarrow> role option" where
  "role_of_value v = find (\<lambda>r. v = PStr (role_value r)) all_roles"

datatype role_arg = RoleMember role | RoleRaw pyval

fun arg_role :: "role_arg \<Rightarrow> role option" where
  "arg_role (RoleMember r) = Some r"
| "arg_role (RoleRaw v) = role_of_value v"

record token_grant =
  tg_token_id :: string
  tg_role :: role
  tg_namespaces :: "pyval list"

fun is_blank :: "pyval \<Rightarrow> bool" where
  "is_blank (PStr s) = (py_strip s = [])"
| "is_blank _ = True"

fun is_list :: "pyval \<Rightarrow> bool" where
  "is_list (PList _) = True"
| "is_list _ = False"

definition grant_errors :: "pyval \<Rightarrow> role_arg \<Rightarrow> pyval \<Rightarrow> string list" where
  "grant_errors token_id role namespaces =
     msg_if (is_blank token_id) ''token_id must be a non-empty string''
   @ msg_if (arg_role role = None) ''role must be one of ''
   @ msg_if (\<not> is_list namespaces) ''namespaces must be a list''"

definition TokenGrant :: "pyval \<Rightarrow> role_arg \<Rightarrow> pyval \<Rightarrow> token_grant result" where
  "TokenGrant token_id role namespaces = (case (token_id, arg_role role, namespaces) of
     (PStr t, Some r, PList nss) \<Rightarrow> raise_if (py_strip t = []) (ValueError ''TokenGrant errors: token_id must be a non-empty string'')
        (Inr \<lparr>tg_token_id = t, tg_role = r, tg_namespaces = nss\<rparr>)
   | _ \<Rightarrow> Inl (ValueError (''TokenGrant errors: '' @ py_join ''; '' (grant_errors token_id role namespaces))))"

definition allows_namespace :: "token_grant \<Rightarrow> string \<Rightarrow> bool" where
  "allows_namespace g namespace =
    (if tg_namespaces g = [] then tg_role g = ADMIN
     else PStr namespace \<in> set (tg_namespaces g) \<or> PStr ''*'' \<in> set (tg_namespaces g))"

definition has_permission :: "token_grant \<Rightarrow> permission \<Rightarrow> bool" where
  "has_permission g permission \<longleftrightarrow> permission \<in> set (role_permissions (tg_role g))"

section \<open>Configuration\<close>

record rbac_config =
  rb_grants :: "token_grant list"
  rb_audit_file :: "string option"
  rb_audit_hmac_key :: string
  rb_audit_syslog :: bool
  rb_enabled :: bool

definition RBACConfig :: "token_grant list option \<Rightarrow> pyval \<Rightarrow> pyval \<Rightarrow> bool \<Rightarrow> pyval \<Rightarrow> rbac_config result" where
  "RBACConfig grants audit_file hmac_key audit_syslog enabled =
    (let errors = msg_if (grants = None) ''grants must be a list''
       @ msg_if (\<not> (case audit_file of PNone \<Rightarrow> True | PStr _ \<Rightarrow> True | _ \<Rightarrow> False)) ''audit_file must be a string path or None''
       @ msg_if (\<not> (case hmac_key of PStr _ \<Rightarrow> True | _ \<Rightarrow> False)) ''audit_hmac_key must be a string'' in
     raise_if (errors \<noteq> []) (ValueError (''RBACConfig errors: '' @ py_join ''; '' errors))
      (Inr \<lparr>rb_grants = (case grants of Some gs \<Rightarrow> gs | None \<Rightarrow> []),
            rb_audit_file = (case audit_file of PStr f \<Rightarrow> Some f | _ \<Rightarrow> None),
            rb_audit_hmac_key = (case hmac_key of PStr k \<Rightarrow> k | _ \<Rightarrow> []),
            rb_audit_syslog = audit_syslog, rb_enabled = py_truth enabled\<rparr>))"

definition token_grant :: "rbac_config \<Rightarrow> string \<Rightarrow> token_grant option" where
  "token_grant c token_id = find (\<lambda>g. tg_token_id g = token_id) (rb_grants c)"

section \<open>Audit log\<close>

record audit_event =
  ae_ts :: pyfloat
  ae_token_id :: string
  ae_action :: string
  ae_namespace :: string
  ae_stream :: string
  ae_result :: string
  ae_reason :: string
  ae_role :: "string option"
  ae_hmac_tag :: "string option"

fun opt_str :: "string option \<Rightarrow> pyval" where
  "opt_str None = PNone"
| "opt_str (Some s) = PStr s"

text \<open>The record that is signed, and the record that is written.\<close>

definition audit_payload :: "pyfloat \<Rightarrow> string \<Rightarrow> string \<Rightarrow> string \<Rightarrow> string \<Rightarrow> string \<Rightarrow> string \<Rightarrow>
    string option \<Rightarrow> pydict" where
  "audit_payload ts token_id action namespace stream res reason role =
     [(PStr ''ts'', PFloat ts), (PStr ''token_id'', PStr token_id), (PStr ''action'', PStr action),
      (PStr ''namespace'', PStr namespace), (PStr ''stream'', PStr stream), (PStr ''result'', PStr res),
      (PStr ''reason'', PStr reason), (PStr ''role'', opt_str role)]"

definition event_payload :: "audit_event \<Rightarrow> pydict" where
  "event_payload e = audit_payload (ae_ts e) (ae_token_id e) (ae_action e) (ae_namespace e) (ae_stream e)
     (ae_result e) (ae_reason e) (ae_role e)"

definition event_to_dict :: "audit_event \<Rightarrow> pydict" where
  "event_to_dict e = event_payload e @ [(PStr ''hmac_tag'', opt_str (ae_hmac_tag e))]"

record audit_logger =
  al_hmac_key :: string
  al_file_open :: bool
  al_syslog :: bool
  al_file_lines :: "audit_event list"
  al_syslog_lines :: "audit_event list"
  al_stdout_lines :: "audit_event list"

text \<open>Opening appends to what the audit file already holds; an empty path counts as none.\<close>

definition audit_init :: "bool \<Rightarrow> audit_event list \<Rightarrow> rbac_config \<Rightarrow> audit_logger" where
  "audit_init has_syslog old c =
    \<lparr>al_hmac_key = rb_audit_hmac_key c,
     al_file_open = (case rb_audit_file c of None \<Rightarrow> False | Some f \<Rightarrow> f \<noteq> []),
     al_syslog = (rb_audit_syslog c \<and> has_syslog),
     al_file_lines = old, al_syslog_lines = [], al_stdout_lines = []\<rparr>"

definition compute_hmac :: "(string \<Rightarrow> pydict \<Rightarrow> string) \<Rightarrow> audit_logger \<Rightarrow> pydict \<Rightarrow> string option" where
  "compute_hmac mac a payload = (if al_hmac_key a = [] then None else Some (mac (al_hmac_key a) payload))"

definition audit_log :: "(string \<Rightarrow> pydict \<Rightarrow> string) \<Rightarrow> pyfloat \<Rightarrow> string \<Rightarrow> string \<Rightarrow> string \<Rightarrow> string \<Rightarrow>
    string \<Rightarrow> string \<Rightarrow> string option \<Rightarrow> audit_logger \<Rightarrow> audit_logger \<times> audit_event" where
  "audit_log mac ts token_id action namespace stream res reason role a =
    (let tag = compute_hmac mac a (audit_payload ts token_id action namespace stream res reason role);
         event = \<lparr>ae_ts = ts, ae_token_id = token_id, ae_action = action, ae_namespace = namespace,
           ae_stream = stream, ae_result = res, ae_reason = reason, ae_role = role, ae_hmac_tag = tag\<rparr>
     in (if al_file_open a then a\<lparr>al_file_lines := al_file_lines a @ [event]\<rparr>
         else if al_syslog a then a\<lparr>al_syslog_lines := al_syslog_lines a @ [event]\<rparr>
         else a\<lparr>al_stdout_lines := al_stdout_lines a @ [event]\<rparr>, event))"

definition audit_close :: "audit_logger \<Rightarrow> audit_logger" where
  "audit_close a = a\<lparr>al_file_open := False\<rparr>"

section \<open>Enforcement\<close>

record rbac_enforcer =
  re_config :: rbac_config
  re_audit :: audit_logger

definition rbac_init :: "bool \<Rightarrow> audit_event list \<Rightarrow> rbac_config \<Rightarrow> rbac_enforcer" where
  "rbac_init has_syslog old c = \<lparr>re_config = c, re_audit = audit_init has_syslog old c\<rparr>"

definition rbac_check :: "(string \<Rightarrow> pydict \<Rightarrow> string) \<Rightarrow> pyfloat \<Rightarrow> string \<Rightarrow> permission \<Rightarrow> string \<Rightarrow> string \<Rightarrow>
    rbac_enforcer \<Rightarrow> rbac_enforcer \<times> bool" where
  "rbac_check mac ts token_id permission namespace stream s =
    (let emit = (\<lambda>res reason role answer.
           (s\<lparr>re_audit := fst (audit_log mac ts token_id (permission_value permission) namespace stream res reason role (re_audit s))\<rparr>, answer))
     in if \<not> rb_enabled (re_config s) then emit ''ALLOW'' ''rbac_disabled'' None True
        else case token_grant (re_config s) token_id of
          None \<Rightarrow> emit ''DENY'' ''unknown_token'' None False
        | Some g \<Rightarrow>
            if \<not> allows_namespace g namespace then emit ''DENY'' ''namespace_not_allowed'' (Some (role_value (tg_role g))) False
            else if \<not> has_permission g permission then emit ''DENY'' ''permission_not_granted'' (Some (role_value (tg_role g))) False
            else emit ''ALLOW'' ''ok'' (Some (role_value (tg_role g))) True)"

definition rbac_close :: "rbac_enforcer \<Rightarrow> rbac_enforcer" where
  "rbac_close s = s\<lparr>re_audit := audit_close (re_audit s)\<rparr>"

section \<open>Configuration check\<close>

datatype rbac_issue = RbacDisabled | NoGrants | NoAdmin | KeyNotSet | KeyTooShort | KeyWeak

fun rbac_issue_warn :: "rbac_issue \<Rightarrow> bool" where
  "rbac_issue_warn KeyNotSet = True"
| "rbac_issue_warn KeyTooShort = True"
| "rbac_issue_warn KeyWeak = True"
| "rbac_issue_warn _ = False"

definition rbac_issues :: "rbac_config \<Rightarrow> rbac_issue list" where
  "rbac_issues c =
     msg_if (\<not> rb_enabled c) RbacDisabled
   @ msg_if (rb_grants c = []) NoGrants
   @ msg_if (length (filter (\<lambda>g. tg_role g = ADMIN) (rb_grants c)) = 0 \<and> rb_enabled c) NoAdmin
   @ (if rb_audit_hmac_key c = [] then [KeyNotSet]
      else if length (rb_audit_hmac_key c) < 16 then [KeyTooShort]
      else msg_if (rb_audit_hmac_key c \<in> set [''demo-hmac-key-change-in-production'', ''changeme'', ''secret'', ''test'']) KeyWeak)"

record rbac_check_result =
  cr_status :: string
  cr_grants_count :: int
  cr_audit_output :: string
  cr_hmac_enabled :: bool
  cr_issues :: "rbac_issue list"

definition check_rbac :: "rbac_config \<Rightarrow> rbac_check_result" where
  "check_rbac c = (let issues = rbac_issues c in
     \<lparr>cr_status = (if issues = [] then ''PASS''
        else if (\<exists>i \<in> set issues. rbac_issue_warn i) \<and> length issues = 1 then ''WARN''
        else if \<not> rb_enabled c \<or> rb_grants c = [] then ''FAIL'' else ''WARN''),
      cr_grants_count = int (length (rb_grants c)),
      cr_audit_output = (case rb_audit_file c of None \<Rightarrow> ''stdout'' | Some f \<Rightarrow> if f = [] then ''stdout'' else f),
      cr_hmac_enabled = (rb_audit_hmac_key c \<noteq> []), cr_issues = issues\<rparr>)"

definition rbac_exit_code :: "rbac_check_result \<Rightarrow> int" where
  "rbac_exit_code r = (if cr_status r \<in> set [''PASS'', ''WARN''] then 0 else 1)"

section \<open>Laws\<close>

lemma tokenGrant_valid:
  "TokenGrant t r n = Inr g \<longleftrightarrow> grant_errors t r n = [] \<and> t = PStr (tg_token_id g) \<and> arg_role r = Some (tg_role g)
     \<and> n = PList (tg_namespaces g)"
  by (cases g; cases t; cases "arg_role r"; cases n) (auto simp: TokenGrant_def grant_errors_def raise_if_def)

definition permitted :: "rbac_config \<Rightarrow> string \<Rightarrow> permission \<Rightarrow> string \<Rightarrow> bool" where
  "permitted c token_id permission namespace \<longleftrightarrow> \<not> rb_enabled c
     \<or> (\<exists>g. token_grant c token_id = Some g \<and> allows_namespace g namespace \<and> has_permission g permission)"

text \<open>The audit records of an enforcer, wherever they were written.\<close>

definition audit_trail :: "rbac_enforcer \<Rightarrow> audit_event list" where
  "audit_trail s = (let a = re_audit s in
     if al_file_open a then al_file_lines a else if al_syslog a then al_syslog_lines a else al_stdout_lines a)"

definition event_for :: "(string \<Rightarrow> pydict \<Rightarrow> string) \<Rightarrow> string \<Rightarrow> bool \<Rightarrow> audit_event \<Rightarrow> bool" where
  "event_for mac key answer e \<longleftrightarrow> ae_result e = (if answer then ''ALLOW'' else ''DENY'')
     \<and> ae_hmac_tag e = (if key = [] then None else Some (mac key (event_payload e)))"

lemma audit_log_trail:
  assumes "audit_log mac ts tok act ns st res why role (re_audit s) = (a, e)"
  shows "audit_trail (s\<lparr>re_audit := a\<rparr>) = audit_trail s @ [e] \<and> al_hmac_key a = al_hmac_key (re_audit s)
    \<and> ae_ts e = ts \<and> ae_token_id e = tok \<and> ae_action e = act \<and> ae_namespace e = ns \<and> ae_result e = res
    \<and> ae_hmac_tag e = (if al_hmac_key (re_audit s) = [] then None else Some (mac (al_hmac_key (re_audit s)) (event_payload e)))"
  using assms by (auto simp: audit_log_def audit_trail_def Let_def compute_hmac_def event_payload_def)

lemma rbac_check_step:
  assumes "rbac_check mac ts tok p ns st s = (s', answer)"
  shows "\<exists>e. audit_trail s' = audit_trail s @ [e] \<and> event_for mac (al_hmac_key (re_audit s)) answer e
    \<and> ae_token_id e = tok \<and> ae_action e = permission_value p \<and> ae_namespace e = ns
    \<and> re_config s' = re_config s \<and> al_hmac_key (re_audit s') = al_hmac_key (re_audit s)
    \<and> answer = permitted (re_config s) tok p ns"
proof -
  have emit: "\<exists>e. audit_trail (s\<lparr>re_audit := fst (audit_log mac ts tok (permission_value p) ns st res why role (re_audit s))\<rparr>) = audit_trail s @ [e]
      \<and> event_for mac (al_hmac_key (re_audit s)) b e \<and> ae_token_id e = tok \<and> ae_action e = permission_value p \<and> ae_namespace e = ns
      \<and> al_hmac_key (fst (audit_log mac ts tok (permission_value p) ns st res why role (re_audit s))) = al_hmac_key (re_audit s)"
    if "res = (if b then ''ALLOW'' else ''DENY'')" for res why role b
    using audit_log_trail [of mac ts tok "permission_value p" ns st res why role s] that
    by (cases "audit_log mac ts tok (permission_value p) ns st res why role (re_audit s)") (auto simp: event_for_def)
  show ?thesis
  proof (cases "rb_enabled (re_config s)")
    case False
    then show ?thesis using assms emit [of "''ALLOW''" True] by (auto simp: rbac_check_def permitted_def)
  next
    case True
    show ?thesis
    proof (cases "token_grant (re_config s) tok")
      case None
      then show ?thesis using assms True emit [of "''DENY''" False] by (auto simp: rbac_check_def permitted_def)
    next
      case (Some g)
      then show ?thesis using assms True emit [of "''DENY''" False] emit [of "''ALLOW''" True]
        by (auto simp: rbac_check_def permitted_def Let_def split: if_splits)
    qed
  qed
qed

fun rbac_run :: "(string \<Rightarrow> pydict \<Rightarrow> string) \<Rightarrow> (pyfloat \<times> string \<times> permission \<times> string \<times> string) list \<Rightarrow>
    rbac_enforcer \<Rightarrow> rbac_enforcer \<times> bool list" where
  "rbac_run mac [] s = (s, [])"
| "rbac_run mac ((ts, tok, p, ns, st) # reqs) s = (case rbac_check mac ts tok p ns st s of (s1, b) \<Rightarrow>
     case rbac_run mac reqs s1 of (s2, bs) \<Rightarrow> (s2, b # bs))"

section \<open>Properties\<close>


definition demo_rbac :: rbac_config where
  "demo_rbac = \<lparr>rb_grants = [\<lparr>tg_token_id = ''root'', tg_role = ADMIN, tg_namespaces = []\<rparr>,
       \<lparr>tg_token_id = ''app'', tg_role = INGEST, tg_namespaces = [PStr ''prod'']\<rparr>],
     rb_audit_file = None, rb_audit_hmac_key = ''k'', rb_audit_syslog = False, rb_enabled = True\<rparr>"


text \<open>
  C36: The audit trail is complete: after any sequence of requests it has grown by exactly one record
  per request, in order, with the token, the action and the namespace of the request and the answer
  that was given, and each record carries the keyed hash of its own contents when a key is set.
\<close>

theorem audit_complete:
  assumes "rbac_run mac reqs s = (s', answers)"
  shows "\<exists>es. audit_trail s' = audit_trail s @ es \<and> length answers = length reqs
    \<and> list_all2 (\<lambda>(ts, tok, p, ns, st) e. ae_token_id e = tok \<and> ae_action e = permission_value p \<and> ae_namespace e = ns) reqs es
    \<and> list_all2 (event_for mac (al_hmac_key (re_audit s))) answers es"
  using assms
proof (induction reqs arbitrary: s answers)
  case (Cons r reqs)
  obtain ts tok p ns st where r: "r = (ts, tok, p, ns, st)" by (metis prod_cases5)
  obtain s1 b bs where s1: "rbac_check mac ts tok p ns st s = (s1, b)" "rbac_run mac reqs s1 = (s', bs)" "answers = b # bs"
    using Cons.prems by (auto simp: r split: prod.splits)
  obtain e where e: "audit_trail s1 = audit_trail s @ [e]" "event_for mac (al_hmac_key (re_audit s)) b e" "ae_token_id e = tok"
    "ae_action e = permission_value p" "ae_namespace e = ns" "al_hmac_key (re_audit s1) = al_hmac_key (re_audit s)"
    using rbac_check_step [OF s1(1)] by blast
  from Cons.IH [OF s1(2)] obtain es where "audit_trail s' = audit_trail s1 @ es" "length bs = length reqs"
    "list_all2 (\<lambda>(ts, tok, p, ns, st) e. ae_token_id e = tok \<and> ae_action e = permission_value p \<and> ae_namespace e = ns) reqs es"
    "list_all2 (event_for mac (al_hmac_key (re_audit s1))) bs es" by blast
  then show ?case using e s1(3) by (intro exI [of _ "e # es"]) (simp add: r)
qed simp

theorem audit_complete_witness:
  "\<exists>es. audit_trail (fst (rbac_run (\<lambda>k v. k) [(Fin 1, ''app'', P_QUERY, ''prod'', [])] (rbac_init False [] demo_rbac))) = es
    \<and> length es = 1"
  using audit_complete [OF prod.collapse [symmetric], of "\<lambda>k v. k" "[(Fin 1, ''app'', P_QUERY, ''prod'', [])]" "rbac_init False [] demo_rbac"]
  by (auto simp: rbac_init_def audit_init_def demo_rbac_def audit_trail_def dest: list_all2_lengthD)

text \<open>
  The configuration check passes exactly the configurations without any weakness it looks for.
\<close>

lemma check_rbac_pass:
  "cr_status (check_rbac c) = ''PASS'' \<longleftrightarrow> rb_enabled c \<and> (\<exists>g \<in> set (rb_grants c). tg_role g = ADMIN)
    \<and> 16 \<le> length (rb_audit_hmac_key c) \<and> rb_audit_hmac_key c \<noteq> ''demo-hmac-key-change-in-production''"
proof -
  have "rbac_issues c = [] \<longleftrightarrow> rb_enabled c \<and> (\<exists>g \<in> set (rb_grants c). tg_role g = ADMIN)
    \<and> 16 \<le> length (rb_audit_hmac_key c) \<and> rb_audit_hmac_key c \<noteq> ''demo-hmac-key-change-in-production''"
    by (auto simp: rbac_issues_def filter_empty_conv)
  then show ?thesis by (simp add: check_rbac_def Let_def)
qed

end
