(* ===== verification/StateResult.thy ===== *)
theory StateResult
  imports PyValue "HOL-Library.AList" "HOL-Library.Char_ord" "HOL-Library.List_Lexorder"
begin

text \<open>
  Methods that change an object and may raise half-way: a step takes the state to the new state and
  an outcome, and what was changed before an exception stays changed.  Sequencing, loops over lists
  with the number of the iteration, and the invariant rule for them; stable sorting by a float key.
\<close>

type_synonym ('s, 'a) step = "'s \<Rightarrow> 's \<times> 'a result"

definition sret :: "'a \<Rightarrow> ('s, 'a) step" where
  "sret x = (\<lambda>s. (s, Inr x))"

definition slift :: "'a result \<Rightarrow> ('s, 'a) step" where
  "slift r = (\<lambda>s. (s, r))"

definition smodify :: "('s \<Rightarrow> 's) \<Rightarrow> ('s, unit) step" where
  "smodify f = (\<lambda>s. (f s, Inr ()))"

definition sget :: "('s \<Rightarrow> 'a) \<Rightarrow> ('s, 'a) step" where
  "sget f = (\<lambda>s. (s, Inr (f s)))"

definition sbind :: "('s, 'a) step \<Rightarrow> ('a \<Rightarrow> ('s, 'b) step) \<Rightarrow> ('s, 'b) step" where
  "sbind m f = (\<lambda>s. case m s of (s', Inl e) \<Rightarrow> (s', Inl e) | (s', Inr x) \<Rightarrow> f x s')"

abbreviation sthen :: "('s, 'a) step \<Rightarrow> ('s, 'b) step \<Rightarrow> ('s, 'b) step" where
  "sthen m k \<equiv> sbind m (\<lambda>_. k)"

text \<open>A loop that collects one result per item; \<open>n\<close> is the number of the iteration.\<close>

fun sfor :: "(nat \<Rightarrow> 'a \<Rightarrow> ('s, 'b) step) \<Rightarrow> nat \<Rightarrow> 'a list \<Rightarrow> ('s, 'b list) step" where
  "sfor f n [] = sret []"
| "sfor f n (x # xs) = sbind (f n x) (\<lambda>y. sbind (sfor f (Suc n) xs) (\<lambda>ys. sret (y # ys)))"

lemma sbind_Inr: "m s = (s', Inr x) \<Longrightarrow> sbind m f s = f x s'"
  by (simp add: sbind_def)

lemma sbind_Inl: "m s = (s', Inl e) \<Longrightarrow> sbind m f s = (s', Inl e)"
  by (simp add: sbind_def)

lemma step_simps [simp]:
  "sret x s = (s, Inr x)" "slift r s = (s, r)" "smodify g s = (g s, Inr ())" "sget h s = (s, Inr (h s))"
  by (simp_all add: sret_def slift_def smodify_def sget_def)

lemma sbind_simps [simp]:
  "sbind (sret x) f = f x" "sbind (slift (Inr x)) f = f x" "sbind (slift (Inl e)) f s = (s, Inl e)"
  by (simp_all add: sbind_def fun_eq_iff)

lemma sbind_smodify [simp]: "sbind (smodify g) k s = k () (g s)"
  by (simp add: sbind_def)

lemma sbind_sget [simp]: "sbind (sget h) k s = k (h s) s"
  by (simp add: sbind_def)

lemma sbind_eq_Inr: "sbind m f s = (s', Inr y) \<longleftrightarrow> (\<exists>s1 x. m s = (s1, Inr x) \<and> f x s1 = (s', Inr y))"
  by (auto simp: sbind_def split: prod.splits sum.splits)

text \<open>A relation between the state before and after that every step keeps, raising or not.\<close>

definition keeps :: "('s \<Rightarrow> 's \<Rightarrow> bool) \<Rightarrow> ('s, 'a) step \<Rightarrow> bool" where
  "keeps R m \<longleftrightarrow> (\<forall>s. R s (fst (m s)))"

lemma keeps_sbind:
  assumes "keeps R m" "\<And>x. keeps R (f x)" "\<And>a b c. R a b \<Longrightarrow> R b c \<Longrightarrow> R a c" shows "keeps R (sbind m f)"
proof -
  have "R s (fst (sbind m f s))" for s
    using assms(1) assms(2) assms(3) [of s "fst (m s)"]
    by (auto simp: keeps_def sbind_def split: prod.splits sum.splits) (metis fst_conv)+
  then show ?thesis by (simp add: keeps_def)
qed

lemma keeps_refl: "(\<And>s. R s s) \<Longrightarrow> keeps R (sret x)" "(\<And>s. R s s) \<Longrightarrow> keeps R (slift r)" "(\<And>s. R s s) \<Longrightarrow> keeps R (sget g)"
  unfolding keeps_def sret_def slift_def sget_def by simp_all

lemma keeps_sfor:
  assumes "\<And>n x. keeps R (f n x)" "\<And>s. R s s" "\<And>a b c. R a b \<Longrightarrow> R b c \<Longrightarrow> R a c" shows "keeps R (sfor f n xs)"
proof (induction xs arbitrary: n)
  case Nil
  show ?case unfolding sfor.simps by (rule keeps_refl(1)) (rule assms(2))
next
  case (Cons x xs)
  have "keeps R (sbind (sfor f (Suc n) xs) (\<lambda>ys. sret (y # ys)))" for y
    by (rule keeps_sbind [OF Cons.IH keeps_refl(1) assms(3)]) (rule assms(2))
  then show ?case unfolding sfor.simps by (rule keeps_sbind [OF assms(1) _ assms(3)])
qed

section \<open>Lookups that raise\<close>

definition dict_item :: "(string, 'v) dict \<Rightarrow> string \<Rightarrow> 'v result" where
  "dict_item d k = (case map_of d k of None \<Rightarrow> Inl (KeyError k) | Some v \<Rightarrow> Inr v)"

section \<open>Stable sorting in descending order of a float key\<close>

fun insort_desc :: "('a \<Rightarrow> pyfloat) \<Rightarrow> 'a \<Rightarrow> 'a list \<Rightarrow> 'a list" where
  "insort_desc key x [] = [x]"
| "insort_desc key x (y # ys) = (if f_lt (key x) (key y) then y # insort_desc key x ys else x # y # ys)"

definition sort_desc :: "('a \<Rightarrow> pyfloat) \<Rightarrow> 'a list \<Rightarrow> 'a list" where
  "sort_desc key xs = foldr (insort_desc key) xs []"

lemma set_insort_desc [simp]: "set (insort_desc key x xs) = insert x (set xs)"
  by (induction xs) auto

lemma set_sort_desc [simp]: "set (sort_desc key xs) = set xs"
  unfolding sort_desc_def by (induction xs) auto

lemma f_lt_le_trans:
  "\<lbrakk>x \<noteq> NaN; y \<noteq> NaN; z \<noteq> NaN; \<not> f_lt x y; \<not> f_lt y z\<rbrakk> \<Longrightarrow> \<not> f_lt x z"
  by (cases x; cases y; cases z) auto

lemma insort_desc_sorted:
  assumes "sorted_wrt (\<lambda>a b. \<not> f_lt (key a) (key b)) xs" "\<forall>y \<in> set (x # xs). key y \<noteq> NaN"
  shows "sorted_wrt (\<lambda>a b. \<not> f_lt (key a) (key b)) (insort_desc key x xs)"
  using assms
proof (induction xs)
  case (Cons y ys)
  show ?case
  proof (cases "f_lt (key x) (key y)")
    case True
    then have "\<not> f_lt (key y) (key x)" by (cases "key x"; cases "key y") auto
    then show ?thesis using Cons True by auto
  next
    case False
    then have "\<not> f_lt (key x) (key z)" if "z \<in> set ys" for z
      using Cons.prems that f_lt_le_trans [of "key x" "key y" "key z"] by auto
    then show ?thesis using Cons.prems False by auto
  qed
qed simp

lemma sort_desc_sorted:
  assumes "\<forall>y \<in> set xs. key y \<noteq> NaN" shows "sorted_wrt (\<lambda>a b. \<not> f_lt (key a) (key b)) (sort_desc key xs)"
  using assms unfolding sort_desc_def
proof (induction xs)
  case (Cons x xs)
  have "set (foldr (insort_desc key) xs []) = set xs" by (induction xs) auto
  then show ?case using Cons by (auto intro!: insort_desc_sorted)
qed simp

end
