(* ===== verification/Drift.thy ===== *)
theory Drift
  imports Windowed StateResult
begin

text \<open>
  The drift detector (\<^verbatim>\<open>drift.py\<close>): two stream logs per dimension, the active window and the frozen
  previous one, a cumulative-sum anomaly detector fed with the 99th percentile of each finished
  window, and the reports that compare the windows.  Clock readings in nanoseconds are arguments; a
  report reads the clock once per dimension.  The default entry that reading the event counter of a
  dimension creates is not kept, since no operation can tell it from a missing one.
\<close>

section \<open>State\<close>

record anomaly =
  an_dimension :: string
  an_direction :: string
  an_magnitude :: pyfloat
  an_expected_mean :: pyfloat
  an_current_value :: pyfloat
  an_stddev :: pyfloat

record drift_sketch =
  ds_window_seconds :: pyfloat
  ds_window_ns :: int
  ds_window_arg :: window_arg
  ds_relative_accuracy :: pyfloat
  ds_hll_precision :: int
  ds_cms_width :: int
  ds_cms_depth :: int
  ds_current :: "(string, stream) dict"
  ds_previous :: "(string, stream) dict"
  ds_window_start :: "(string, int) dict"
  ds_event_counts :: "(string, int) dict"
  ds_cusum_mean :: "(string, pyfloat) dict"
  ds_cusum_var :: "(string, pyfloat) dict"
  ds_cusum_high :: "(string, pyfloat) dict"
  ds_cusum_low :: "(string, pyfloat) dict"
  ds_cusum_count :: "(string, int) dict"
  ds_anomalies :: "(string, anomaly) dict"

definition ds_init :: "window_arg \<Rightarrow> pyfloat \<Rightarrow> int \<Rightarrow> int \<Rightarrow> int \<Rightarrow> drift_sketch result" where
  "ds_init window relative_accuracy hll_precision width depth =
    rbind (parse_window window) (\<lambda>seconds.
    raise_if (f_lt seconds (to_float (1 / 10 ^ 9))) (ValueError ''Window is too small (sub-nanosecond resolution).'')
   (rbind (f_ceil (f_mul seconds (Fin 1000000000))) (\<lambda>ns.
    Inr \<lparr>ds_window_seconds = seconds, ds_window_ns = ns, ds_window_arg = window,
         ds_relative_accuracy = relative_accuracy, ds_hll_precision = hll_precision,
         ds_cms_width = width, ds_cms_depth = depth,
         ds_current = [], ds_previous = [], ds_window_start = [], ds_event_counts = [],
         ds_cusum_mean = [], ds_cusum_var = [], ds_cusum_high = [], ds_cusum_low = [], ds_cusum_count = [],
         ds_anomalies = []\<rparr>)))"

definition ds_fresh :: "libm \<Rightarrow> drift_sketch \<Rightarrow> stream result" where
  "ds_fresh L s = st_init L (ds_relative_accuracy s) (ds_hll_precision s) (ds_cms_width s) (ds_cms_depth s) False"

definition ds_get_or_create :: "libm \<Rightarrow> int \<Rightarrow> string \<Rightarrow> (drift_sketch, unit) step" where
  "ds_get_or_create L now name = (\<lambda>s.
    if dict_mem name (ds_current s) then (s, Inr ())
    else (case ds_fresh L s of
        Inl e \<Rightarrow> (s, Inl e)
      | Inr fresh \<Rightarrow> (s\<lparr>ds_current := AList.update name fresh (ds_current s),
                     ds_previous := AList.update name fresh (ds_previous s),
                     ds_window_start := AList.update name now (ds_window_start s)\<rparr>, Inr ())))"

section \<open>Anomaly detector\<close>

fun py_sqrt :: "libm \<Rightarrow> pyfloat \<Rightarrow> pyfloat result" where
  "py_sqrt L (Fin a) = (if a < 0 then Inl (ValueError ''math domain error'') else Inr (Fin (c_sqrt L a)))"
| "py_sqrt L PInf = Inr PInf"
| "py_sqrt L NInf = Inl (ValueError ''math domain error'')"
| "py_sqrt L NaN = Inr NaN"

definition cusum_stddev :: "libm \<Rightarrow> pyfloat \<Rightarrow> pyfloat \<Rightarrow> pyfloat result" where
  "cusum_stddev L mean var =
    (let min_stddev = f_max (to_float (1 / 10 ^ 6)) (f_abs (f_mul (to_float (1 / 100)) mean)) in
     rbind (py_sqrt L var) (\<lambda>r. Inr (f_max r min_stddev)))"

text \<open>\<^verbatim>\<open>max(0.0, high + value - mean - allowance)\<close> and its mirror image.\<close>

definition cusum_up :: "pyfloat \<Rightarrow> pyfloat \<Rightarrow> pyfloat \<Rightarrow> pyfloat \<Rightarrow> pyfloat" where
  "cusum_up high value mean allowance = f_max (Fin 0) (f_sub (f_sub (f_add high value) mean) allowance)"

definition cusum_down :: "pyfloat \<Rightarrow> pyfloat \<Rightarrow> pyfloat \<Rightarrow> pyfloat \<Rightarrow> pyfloat" where
  "cusum_down low value mean allowance = f_max (Fin 0) (f_sub (f_add (f_sub low value) mean) allowance)"

definition make_anomaly :: "string \<Rightarrow> string \<Rightarrow> pyfloat \<Rightarrow> pyfloat \<Rightarrow> pyfloat \<Rightarrow> pyfloat \<Rightarrow> anomaly result" where
  "make_anomaly name direction magnitude mean value stddev =
    rbind (py_round magnitude 4) (\<lambda>m. rbind (py_round mean 4) (\<lambda>e. rbind (py_round value 4) (\<lambda>v. rbind (py_round stddev 4) (\<lambda>d.
      Inr \<lparr>an_dimension = name, an_direction = direction, an_magnitude = m, an_expected_mean = e,
           an_current_value = v, an_stddev = d\<rparr>))))"

definition ewma :: "pyfloat \<Rightarrow> pyfloat \<Rightarrow> pyfloat" where
  "ewma old new = f_add (f_mul (f_sub (Fin 1) (to_float (1 / 10))) old) (f_mul (to_float (1 / 10)) new)"

definition ds_set_cusum :: "string \<Rightarrow> pyfloat \<Rightarrow> pyfloat \<Rightarrow> drift_sketch \<Rightarrow> drift_sketch" where
  "ds_set_cusum name high low s = s\<lparr>ds_cusum_high := AList.update name high (ds_cusum_high s),
     ds_cusum_low := AList.update name low (ds_cusum_low s)\<rparr>"

definition ds_set_baseline :: "string \<Rightarrow> pyfloat \<Rightarrow> pyfloat \<Rightarrow> drift_sketch \<Rightarrow> drift_sketch" where
  "ds_set_baseline name mean var s = s\<lparr>ds_cusum_mean := AList.update name mean (ds_cusum_mean s),
     ds_cusum_var := AList.update name var (ds_cusum_var s)\<rparr>"

definition ds_count_cusum :: "string \<Rightarrow> int \<Rightarrow> drift_sketch \<Rightarrow> drift_sketch" where
  "ds_count_cusum name n s = s\<lparr>ds_cusum_count := AList.update name n (ds_cusum_count s)\<rparr>"

text \<open>
  One more finished window.  On an alarm the sums are cleared and the value enters the baseline
  clipped to three deviations; otherwise a pending alarm of the dimension is withdrawn.
\<close>

definition ds_cusum_next :: "libm \<Rightarrow> string \<Rightarrow> pyfloat \<Rightarrow> pyfloat \<Rightarrow> pyfloat \<Rightarrow> (drift_sketch, unit) step" where
  "ds_cusum_next L name value mean var =
    sbind (slift (cusum_stddev L mean var)) (\<lambda>stddev.
    sbind (sget (\<lambda>s. cusum_up (dict_get (ds_cusum_high s) name (Fin 0)) value mean (f_mul (Fin 1) stddev))) (\<lambda>high.
    sbind (sget (\<lambda>s. cusum_down (dict_get (ds_cusum_low s) name (Fin 0)) value mean (f_mul (Fin 1) stddev))) (\<lambda>low.
    sthen (smodify (ds_set_cusum name high low))
   (let limit = f_mul (Fin 3) stddev; up = f_lt limit high in
    sbind (if up \<or> f_lt limit low
        then sbind (slift (make_anomaly name (if up then ''up'' else ''down'') (if up then high else low) mean value stddev)) (\<lambda>a.
          sthen (smodify (\<lambda>s. s\<lparr>ds_anomalies := AList.update name a (ds_anomalies s)\<rparr>))
         (sthen (smodify (ds_set_cusum name (Fin 0) (Fin 0)))
         (sret (if up then f_add mean limit else f_sub mean limit))))
        else sthen (smodify (\<lambda>s. s\<lparr>ds_anomalies := AList.delete name (ds_anomalies s)\<rparr>)) (sret value)) (\<lambda>v.
    let diff = f_sub v mean in
    smodify (ds_set_baseline name (ewma mean v) (ewma var (f_mul diff diff))))))))"

definition ds_update_cusum :: "libm \<Rightarrow> string \<Rightarrow> pyfloat \<Rightarrow> (drift_sketch, unit) step" where
  "ds_update_cusum L name value =
    sbind (sget (\<lambda>s. dict_get (ds_cusum_count s) name 0)) (\<lambda>count.
    sthen (if count = 0 then smodify (ds_set_cusum name (Fin 0) (Fin 0) \<circ> ds_set_baseline name value (Fin 0))
        else sbind (\<lambda>s. (s, dict_item (ds_cusum_mean s) name)) (\<lambda>mean.
          sbind (\<lambda>s. (s, dict_item (ds_cusum_var s) name)) (\<lambda>var. ds_cusum_next L name value mean var)))
   (smodify (ds_count_cusum name (count + 1))))"

section \<open>Window rotation\<close>

definition ds_feed_p99 :: "libm \<Rightarrow> string \<Rightarrow> (drift_sketch, unit) step" where
  "ds_feed_p99 L name =
    sbind (\<lambda>s. (s, rbind (dict_item (ds_current s) name) (\<lambda>log. sl_p99 L (st_backend log)))) (\<lambda>p. ds_update_cusum L name p)"

definition ds_set_previous :: "string \<Rightarrow> stream \<Rightarrow> drift_sketch \<Rightarrow> drift_sketch" where
  "ds_set_previous name lg s = s\<lparr>ds_previous := AList.update name lg (ds_previous s)\<rparr>"

definition ds_set_current :: "string \<Rightarrow> stream \<Rightarrow> drift_sketch \<Rightarrow> drift_sketch" where
  "ds_set_current name lg s = s\<lparr>ds_current := AList.update name lg (ds_current s)\<rparr>"

definition ds_set_start :: "string \<Rightarrow> int \<Rightarrow> drift_sketch \<Rightarrow> drift_sketch" where
  "ds_set_start name t s = s\<lparr>ds_window_start := AList.update name t (ds_window_start s)\<rparr>"

definition ds_fresh_step :: "libm \<Rightarrow> (drift_sketch, stream) step" where
  "ds_fresh_step L = (\<lambda>s. (s, ds_fresh L s))"

definition ds_maybe_rotate :: "libm \<Rightarrow> int \<Rightarrow> string \<Rightarrow> (drift_sketch, unit) step" where
  "ds_maybe_rotate L now name =
    sbind (\<lambda>s. (s, dict_item (ds_window_start s) name)) (\<lambda>start. sbind (sget ds_window_ns) (\<lambda>ns.
    if now - start < ns then sret ()
    else let windows = (now - start) div ns in
      sthen (ds_feed_p99 L name)
     (sthen (if windows \<ge> 2
         then sthen (sfor (\<lambda>_ _. ds_update_cusum L name (Fin 0)) 0 (replicate (nat (min (windows - 1) 100)) ()))
             (sbind (ds_fresh_step L) (\<lambda>log. smodify (ds_set_previous name log)))
         else sbind (\<lambda>s. (s, dict_item (ds_current s) name)) (\<lambda>log. smodify (ds_set_previous name log)))
     (sbind (ds_fresh_step L) (\<lambda>log.
      sthen (smodify (ds_set_current name log)) (smodify (ds_set_start name (start + windows * ns))))))))"

definition ds_rotate_all :: "libm \<Rightarrow> (nat \<Rightarrow> int) \<Rightarrow> (drift_sketch, unit) step" where
  "ds_rotate_all L clk =
    sbind (sget (\<lambda>s. dict_keys (ds_current s))) (\<lambda>names.
    sthen (sfor (\<lambda>i name.
        sthen (ds_feed_p99 L name)
       (sbind (\<lambda>s. (s, dict_item (ds_current s) name)) (\<lambda>log.
        sthen (smodify (ds_set_previous name log))
       (sbind (ds_fresh_step L) (\<lambda>fresh.
        sthen (smodify (ds_set_current name fresh)) (smodify (ds_set_start name (clk i)))))))) 0 names) (sret ()))"

section \<open>Recording\<close>

definition ds_count_events :: "string \<Rightarrow> int \<Rightarrow> drift_sketch \<Rightarrow> drift_sketch" where
  "ds_count_events name n s = s\<lparr>ds_event_counts := AList.update name (dict_get (ds_event_counts s) name 0 + n) (ds_event_counts s)\<rparr>"

text \<open>Creating the dimension and rotating it read the clock once each.\<close>

definition ds_record :: "libm \<Rightarrow> int \<Rightarrow> int \<Rightarrow> string \<Rightarrow> (stream \<Rightarrow> stream result) \<Rightarrow> (int \<Rightarrow> (drift_sketch, unit) step) \<Rightarrow>
    (drift_sketch, unit) step" where
  "ds_record L now now' dimension f counted =
    sthen (ds_get_or_create L now dimension)
   (sthen (ds_maybe_rotate L now' dimension)
   (sbind (\<lambda>s. (s, dict_item (ds_current s) dimension)) (\<lambda>log.
    sbind (slift (f log)) (\<lambda>log'.
    sthen (smodify (ds_set_current dimension log')) (counted (st_total_events log' - st_total_events log))))))"

definition ds_add :: "libm \<Rightarrow> int \<Rightarrow> int \<Rightarrow> string \<Rightarrow> pyfloat \<Rightarrow> (drift_sketch, unit) step" where
  "ds_add L now now' dimension value = ds_record L now now' dimension (st_add_latency L value)
    (\<lambda>new. if new > 0 then smodify (ds_count_events dimension 1) else sret ())"

definition ds_add_batch :: "libm \<Rightarrow> int \<Rightarrow> int \<Rightarrow> string \<Rightarrow> pyfloat list \<Rightarrow> (drift_sketch, unit) step" where
  "ds_add_batch L now now' dimension values = ds_record L now now' dimension (st_add_batch L values)
    (\<lambda>new. smodify (ds_count_events dimension new))"

section \<open>Reports\<close>

text \<open>The check of the active window that does not wait for its end.\<close>

definition ds_speculative :: "libm \<Rightarrow> drift_sketch \<Rightarrow> string \<times> stream \<Rightarrow> (string, anomaly) dict \<Rightarrow> (string, anomaly) dict result" where
  "ds_speculative L s nl found = (case nl of (name, sketch) \<Rightarrow>
    if st_total_events sketch = 0 \<or> dict_mem name found then Inr found
    else case map_of (ds_cusum_mean s) name of
        None \<Rightarrow> Inr found
      | Some mean \<Rightarrow>
          rbind (cusum_stddev L mean (dict_get (ds_cusum_var s) name (Fin 0))) (\<lambda>stddev.
          rbind (sl_p99 L (st_backend sketch)) (\<lambda>val.
          let allowance = f_mul (Fin 1) stddev; limit = f_mul (Fin 3) stddev;
              high = cusum_up (dict_get (ds_cusum_high s) name (Fin 0)) val mean allowance;
              low = cusum_down (dict_get (ds_cusum_low s) name (Fin 0)) val mean allowance;
              up = f_lt limit high in
          if up \<or> f_lt limit low
          then rbind (make_anomaly name (if up then ''up'' else ''down'') (if up then high else low) mean val stddev)
            (\<lambda>a. Inr (AList.update name a found))
          else Inr found)))"

definition anomalies :: "libm \<Rightarrow> (nat \<Rightarrow> int) \<Rightarrow> (drift_sketch, anomaly list) step" where
  "anomalies L clk =
    sbind (sget (\<lambda>s. dict_keys (ds_current s))) (\<lambda>names.
    sthen (sfor (\<lambda>i name. ds_maybe_rotate L (clk i) name) 0 names)
   (\<lambda>s. (s, rbind (rfold (ds_speculative L s) (ds_current s) (ds_anomalies s)) (\<lambda>found. Inr (map snd found)))))"

record drift_result =
  dr_dimension :: string
  dr_current_p99 :: pyfloat
  dr_previous_p99 :: pyfloat
  dr_current_samples :: int
  dr_previous_samples :: int
  dr_drift_ratio :: pyfloat
  dr_drift_pct :: pyfloat
  dr_direction :: string

text \<open>The comparison of the two windows of one dimension; \<^const>\<open>None\<close> when there is nothing to report.\<close>

definition drift_of :: "libm \<Rightarrow> pyfloat \<Rightarrow> string \<Rightarrow> stream \<Rightarrow> stream \<Rightarrow> drift_result option result" where
  "drift_of L threshold name cur prev =
    (let curr_count = st_total_events cur; prev_count = st_total_events prev in
     if curr_count = 0 \<or> prev_count = 0 then Inr None
     else rbind (sl_p99 L (st_backend cur)) (\<lambda>curr_p99. rbind (sl_p99 L (st_backend prev)) (\<lambda>prev_p99.
       if f_eq prev_p99 (Fin 0) \<and> f_eq curr_p99 (Fin 0) then Inr None
       else if f_eq prev_p99 (Fin 0)
       then rbind (py_round curr_p99 4) (\<lambda>c.
         Inr (Some \<lparr>dr_dimension = name, dr_current_p99 = c, dr_previous_p99 = Fin 0, dr_current_samples = curr_count,
                dr_previous_samples = prev_count, dr_drift_ratio = PInf, dr_drift_pct = PInf, dr_direction = ''new''\<rparr>))
       else rbind (f_div curr_p99 prev_p99) (\<lambda>ratio.
         if f_le threshold (f_abs (f_sub ratio (Fin 1)))
         then rbind (py_round curr_p99 4) (\<lambda>c. rbind (py_round prev_p99 4) (\<lambda>p.
              rbind (py_round ratio 4) (\<lambda>r. rbind (py_round (f_mul (f_sub ratio (Fin 1)) (Fin 100)) 2) (\<lambda>pct.
              Inr (Some \<lparr>dr_dimension = name, dr_current_p99 = c, dr_previous_p99 = p, dr_current_samples = curr_count,
                dr_previous_samples = prev_count, dr_drift_ratio = r, dr_drift_pct = pct,
                dr_direction = (if f_lt (Fin 1) ratio then ''up'' else ''down'')\<rparr>)))))
         else Inr None))))"

definition ds_drift_one :: "libm \<Rightarrow> pyfloat \<Rightarrow> int \<Rightarrow> string \<Rightarrow> (drift_sketch, drift_result option) step" where
  "ds_drift_one L threshold now name =
    sthen (ds_maybe_rotate L now name)
   (\<lambda>s. (s, rbind (dict_item (ds_current s) name) (\<lambda>cur. rbind (dict_item (ds_previous s) name) (\<lambda>prev.
      drift_of L threshold name cur prev))))"

definition drift :: "libm \<Rightarrow> (nat \<Rightarrow> int) \<Rightarrow> pyfloat \<Rightarrow> (drift_sketch, drift_result list) step" where
  "drift L clk threshold =
    sbind (sget (\<lambda>s. dict_keys (ds_current s))) (\<lambda>names.
    sbind (sfor (\<lambda>i name. ds_drift_one L threshold (clk i) name) 0 names) (\<lambda>rs.
    sret (sort_desc (\<lambda>r. f_abs (dr_drift_pct r)) (List.map_filter id rs))))"

record correlation =
  co_pair :: "string \<times> string"
  co_direction :: string
  co_score :: pyfloat
  co_a_drift_pct :: pyfloat
  co_b_drift_pct :: pyfloat

text \<open>The ratio of the windows of one dimension, when both have data and the previous one is positive.\<close>

definition ds_ratio :: "libm \<Rightarrow> int \<Rightarrow> int \<Rightarrow> string \<Rightarrow> (drift_sketch, (string \<times> pyfloat) option) step" where
  "ds_ratio L min_events now name =
    sbind (sget (\<lambda>s. dict_get (ds_event_counts s) name 0)) (\<lambda>n.
    if n < min_events then sret None
    else sthen (ds_maybe_rotate L now name)
     (\<lambda>s. (s, rbind (dict_item (ds_current s) name) (\<lambda>cur. rbind (dict_item (ds_previous s) name) (\<lambda>prev.
        if st_total_events cur = 0 \<or> st_total_events prev = 0 then Inr None
        else rbind (sl_p99 L (st_backend cur)) (\<lambda>c. rbind (sl_p99 L (st_backend prev)) (\<lambda>p.
          if f_lt (Fin 0) p then rbind (f_div c p) (\<lambda>r. Inr (Some (name, r))) else Inr None)))))))"

definition correlate :: "(string \<times> pyfloat) \<times> (string \<times> pyfloat) \<Rightarrow> correlation option result" where
  "correlate ab = (case ab of ((a, a_r), (b, b_r)) \<Rightarrow>
    (let a_up = f_lt (Fin 1) a_r; b_up = f_lt (Fin 1) b_r;
         a_chg = f_abs (f_sub a_r (Fin 1)); b_chg = f_abs (f_sub b_r (Fin 1)) in
     if f_lt (f_add a_chg b_chg) (to_float (1 / 100)) then Inr None
     else rbind (f_div (f_abs (f_sub a_chg b_chg)) (f_add a_chg b_chg)) (\<lambda>q.
       let sim = f_sub (Fin 1) q; score = (if a_up = b_up then sim else f_neg sim);
           direction = (if a_up = b_up then (if a_up then ''up'' else ''down'') else ''mixed'') in
       if f_lt (to_float (1 / 10)) (f_abs score)
       then rbind (py_round score 4) (\<lambda>sc. rbind (py_round (f_mul (f_sub a_r (Fin 1)) (Fin 100)) 2) (\<lambda>ap.
         rbind (py_round (f_mul (f_sub b_r (Fin 1)) (Fin 100)) 2) (\<lambda>bp.
         Inr (Some \<lparr>co_pair = (a, b), co_direction = direction, co_score = sc, co_a_drift_pct = ap, co_b_drift_pct = bp\<rparr>))))
       else Inr None)))"

fun pairs_of :: "'a list \<Rightarrow> ('a \<times> 'a) list" where
  "pairs_of [] = []"
| "pairs_of (x # xs) = map (Pair x) xs @ pairs_of xs"

definition correlations :: "libm \<Rightarrow> (nat \<Rightarrow> int) \<Rightarrow> int \<Rightarrow> (drift_sketch, correlation list) step" where
  "correlations L clk min_events =
    sbind (sget (\<lambda>s. dict_keys (ds_current s))) (\<lambda>names.
    sbind (sfor (\<lambda>i name. ds_ratio L min_events (clk i) name) 0 names) (\<lambda>rs.
    let drift_data = List.map_filter id rs in
    if length drift_data < 2 then sret []
    else sbind (slift (rmap correlate (pairs_of (sort_key fst drift_data)))) (\<lambda>found.
      sret (sort_desc (\<lambda>c. f_abs (co_score c)) (List.map_filter id found)))))"

record dimension_summary =
  sm_dimension :: string
  sm_events :: int
  sm_current_p99 :: pyfloat
  sm_previous_p99 :: pyfloat

definition ds_summary_one :: "libm \<Rightarrow> int \<Rightarrow> string \<Rightarrow> (drift_sketch, dimension_summary) step" where
  "ds_summary_one L now name =
    sthen (ds_maybe_rotate L now name)
   (\<lambda>s. (s, rbind (dict_item (ds_current s) name) (\<lambda>cur. rbind (sl_p99 L (st_backend cur)) (\<lambda>c. rbind (py_round c 4) (\<lambda>cp.
      rbind (dict_item (ds_previous s) name) (\<lambda>prev. rbind (sl_p99 L (st_backend prev)) (\<lambda>p. rbind (py_round p 4) (\<lambda>pp.
      Inr \<lparr>sm_dimension = name, sm_events = dict_get (ds_event_counts s) name 0, sm_current_p99 = cp, sm_previous_p99 = pp\<rparr>))))))))"

record drift_summary =
  su_dimensions :: int
  su_total_events :: int
  su_window :: window_arg
  su_metrics :: "dimension_summary list"

definition summary :: "libm \<Rightarrow> (nat \<Rightarrow> int) \<Rightarrow> (drift_sketch, drift_summary) step" where
  "summary L clk =
    sbind (sget (\<lambda>s. sort (dict_keys (ds_current s)))) (\<lambda>names.
    sbind (sfor (\<lambda>i name. ds_summary_one L (clk i) name) 0 names) (\<lambda>dims.
    sget (\<lambda>s. \<lparr>su_dimensions = int (length dims), su_total_events = sum_list (map sm_events dims),
               su_window = ds_window_arg s, su_metrics = dims\<rparr>)))"

definition ds_memory_bytes :: "drift_sketch \<Rightarrow> int result" where
  "ds_memory_bytes s = rbind (rmap (\<lambda>n. rbind (dict_item (ds_current s) n) (\<lambda>c. rbind (dict_item (ds_previous s) n) (\<lambda>p.
      Inr (st_memory_bytes c + st_memory_bytes p)))) (dict_keys (ds_current s))) (\<lambda>ms. Inr (sum_list ms))"

end
