(* ===== verification/Alerts.thy ===== *)
theory Alerts
  imports Drift
begin

text \<open>
  The alert engine (\<^verbatim>\<open>alerts.py\<close>): static and self-tuning rules over the drift report, their state
  machines and the notifications they cause.  Splitting a URL is the argument \<open>urlsplit\<close>; the outcome
  of each delivery attempt is the argument \<open>attempt_ok\<close>.  The metric callbacks are counters.
\<close>

section \<open>Rules\<close>

record url_parts =
  url_scheme :: string
  url_hostname :: "string option"
  url_username :: "string option"
  url_password :: "string option"
  url_fragment :: string

definition validate_webhook_url :: "(string \<Rightarrow> url_parts result) \<Rightarrow> string option \<Rightarrow> unit result" where
  "validate_webhook_url urlsplit url = (case url of None \<Rightarrow> Inr () | Some u \<Rightarrow>
     rbind (urlsplit u) (\<lambda>parsed.
     raise_if (url_scheme parsed \<notin> set [''http'', ''https''] \<or> \<not> opt_truth (url_hostname parsed))
       (ValueError ''webhook_url must be an absolute HTTP(S) URL'')
    (raise_if (opt_truth (url_username parsed) \<or> opt_truth (url_password parsed))
       (ValueError ''webhook_url must not contain credentials'')
    (raise_if (url_fragment parsed \<noteq> []) (ValueError ''webhook_url must not contain a fragment'')
    (Inr ())))))"

datatype alert_status = AS_OK | AS_PENDING | AS_FIRING

record alert_rule =
  ar_name :: string
  ar_dimension :: string
  ar_min_drift_pct :: pyval
  ar_min_samples :: int
  ar_sustained_windows :: int
  ar_direction_filter :: "string option"
  ar_webhook_url :: "string option"
  ar_webhook_secret :: "string option"

record autopilot_rule =
  ap_name :: string
  ap_dimension :: string
  ap_sensitivity :: pyval
  ap_min_samples :: int
  ap_sustained_windows :: int
  ap_direction_filter :: "string option"
  ap_webhook_url :: "string option"
  ap_webhook_secret :: "string option"

definition bad_int :: "(int \<Rightarrow> bool) \<Rightarrow> pyval \<Rightarrow> bool" where
  "bad_int P v = (case v of PInt n \<Rightarrow> P n | _ \<Rightarrow> True)"

definition bad_direction :: "string option \<Rightarrow> bool" where
  "bad_direction d \<longleftrightarrow> d \<notin> set [None, Some ''up'', Some ''down'']"

definition int_of :: "pyval \<Rightarrow> int" where
  "int_of v = (case v of PInt n \<Rightarrow> n | _ \<Rightarrow> 0)"

definition AlertRule :: "(string \<Rightarrow> url_parts result) \<Rightarrow> string \<Rightarrow> string \<Rightarrow> pyval \<Rightarrow> pyval \<Rightarrow> pyval \<Rightarrow>
    string option \<Rightarrow> string option \<Rightarrow> string option \<Rightarrow> alert_rule result" where
  "AlertRule urlsplit name dimension min_drift_pct min_samples sustained_windows direction url secret =
    raise_if (bad_int (\<lambda>n. n \<le> 0) sustained_windows) (ValueError ''sustained_windows must be > 0'')
   (raise_if (bad_int (\<lambda>n. n < 0) min_samples) (ValueError ''min_samples must be >= 0'')
   (rbind (num_isfinite min_drift_pct) (\<lambda>fin.
    raise_if (\<not> fin \<or> f_lt (num_value min_drift_pct) (Fin 0)) (ValueError ''min_drift_pct must be finite and >= 0'')
   (raise_if (bad_direction direction) (ValueError ''direction_filter must be up, down, or None'')
   (rbind (validate_webhook_url urlsplit url) (\<lambda>_.
    Inr \<lparr>ar_name = name, ar_dimension = dimension, ar_min_drift_pct = min_drift_pct, ar_min_samples = int_of min_samples,
         ar_sustained_windows = int_of sustained_windows, ar_direction_filter = direction,
         ar_webhook_url = url, ar_webhook_secret = secret\<rparr>))))))"

definition AutoPilotRule :: "(string \<Rightarrow> url_parts result) \<Rightarrow> string \<Rightarrow> string \<Rightarrow> pyval \<Rightarrow> pyval \<Rightarrow> pyval \<Rightarrow>
    string option \<Rightarrow> string option \<Rightarrow> string option \<Rightarrow> autopilot_rule result" where
  "AutoPilotRule urlsplit name dimension sensitivity min_samples sustained_windows direction url secret =
    rbind (num_isfinite sensitivity) (\<lambda>fin.
    raise_if (\<not> fin \<or> f_le (num_value sensitivity) (Fin 0)) (ValueError ''sensitivity must be a positive finite number'')
   (raise_if (bad_int (\<lambda>n. n < 0) min_samples) (ValueError ''min_samples must be >= 0'')
   (raise_if (bad_int (\<lambda>n. n \<le> 0) sustained_windows) (ValueError ''sustained_windows must be > 0'')
   (raise_if (bad_direction direction) (ValueError ''direction_filter must be up, down, or None'')
   (rbind (validate_webhook_url urlsplit url) (\<lambda>_.
    Inr \<lparr>ap_name = name, ap_dimension = dimension, ap_sensitivity = sensitivity, ap_min_samples = int_of min_samples,
         ap_sustained_windows = int_of sustained_windows, ap_direction_filter = direction,
         ap_webhook_url = url, ap_webhook_secret = secret\<rparr>))))))"

section \<open>State machines\<close>

record alert_state =
  as_status :: alert_status
  as_violation_count :: int
  as_last_fired_at :: pyfloat

definition alert_state0 :: alert_state where
  "alert_state0 = \<lparr>as_status = AS_OK, as_violation_count = 0, as_last_fired_at = Fin 0\<rparr>"

text \<open>
  The transition that both kinds of rule make once a window is judged.  The notification is
  \<open>Some False\<close> for an alert and \<open>Some True\<close> for a recovery.
\<close>

definition alert_step :: "int \<Rightarrow> pyfloat \<Rightarrow> bool \<Rightarrow> alert_state \<Rightarrow> alert_state \<times> bool option" where
  "alert_step sustained now violating st =
    (if violating then
       let st1 = st\<lparr>as_violation_count := as_violation_count st + 1\<rparr> in
       if as_violation_count st1 \<ge> sustained
       then if as_status st1 \<noteq> AS_FIRING
         then (st1\<lparr>as_status := AS_FIRING, as_last_fired_at := now\<rparr>, Some False)
         else if f_le (Fin 3600) (f_sub now (as_last_fired_at st1))
         then (st1\<lparr>as_last_fired_at := now\<rparr>, Some False)
         else (st1, None)
       else (st1\<lparr>as_status := AS_PENDING\<rparr>, None)
     else (st\<lparr>as_violation_count := 0, as_status := AS_OK\<rparr>, if as_status st = AS_FIRING then Some True else None))"

record cusum_state =
  cu_n :: int
  cu_mean :: pyfloat
  cu_M2 :: pyfloat
  cu_S_hi :: pyfloat
  cu_S_lo :: pyfloat
  cu_alert :: alert_state

definition cusum_state0 :: cusum_state where
  "cusum_state0 = \<lparr>cu_n = 0, cu_mean = Fin 0, cu_M2 = Fin 0, cu_S_hi = Fin 0, cu_S_lo = Fin 0, cu_alert = alert_state0\<rparr>"

fun num_double :: "pyval \<Rightarrow> pyfloat" where
  "num_double (PInt n) = Fin (of_int (n * 2))"
| "num_double (PFloat f) = f_mul f (Fin 2)"
| "num_double _ = NaN"

text \<open>Welford's update of the baseline, skipped for a massive anomaly.\<close>

definition cu_learn :: "pyfloat \<Rightarrow> cusum_state \<Rightarrow> cusum_state result" where
  "cu_learn x st =
    (let n = cu_n st + 1; delta = f_sub x (cu_mean st) in
     rbind (f_div delta (f_of_int n)) (\<lambda>d.
     let mean = f_add (cu_mean st) d; delta2 = f_sub x mean in
     Inr (st\<lparr>cu_n := n, cu_mean := mean, cu_M2 := f_add (cu_M2 st) (f_mul delta delta2)\<rparr>)))"

definition cu_update :: "libm \<Rightarrow> pyfloat \<Rightarrow> pyval \<Rightarrow> cusum_state \<Rightarrow> (cusum_state \<times> pyfloat \<times> pyfloat) result" where
  "cu_update L x sensitivity st =
    rbind (if cu_n st > 1 then f_div (cu_M2 st) (f_of_int (cu_n st - 1)) else Inr (Fin 0)) (\<lambda>variance.
    rbind (if f_lt (Fin 0) variance then py_sqrt L variance else Inr (Fin 0)) (\<lambda>std_dev.
    let safe_std_dev = f_max std_dev (to_float (1 / 10 ^ 5)) in
    rbind (if cu_n st > 0
        then rbind (f_div (num_float sensitivity) (Fin 2)) (\<lambda>slack.
             rbind (f_div (f_sub x (cu_mean st)) safe_std_dev) (\<lambda>z.
             let hi = f_max (Fin 0) (f_sub (f_add (cu_S_hi st) z) slack);
                 lo = f_max (Fin 0) (f_sub (f_add (cu_S_lo st) (f_neg z)) slack) in
             Inr (st\<lparr>cu_S_hi := hi, cu_S_lo := lo\<rparr>, if f_lt (Fin 0) z then hi else lo)))
        else Inr (st, Fin 0)) (\<lambda>(st1, score).
    rbind (if f_lt score (num_double sensitivity) then cu_learn x st1 else Inr st1) (\<lambda>st2.
    Inr (st2, std_dev, score)))))"

section \<open>Engine\<close>

datatype rule = Static alert_rule | Auto autopilot_rule

fun rule_name :: "rule \<Rightarrow> string" where
  "rule_name (Static r) = ar_name r"
| "rule_name (Auto r) = ap_name r"

fun rule_url :: "rule \<Rightarrow> string option" where
  "rule_url (Static r) = ar_webhook_url r"
| "rule_url (Auto r) = ap_webhook_url r"

datatype rule_state = StaticState alert_state | AutoState "(string, cusum_state) dict"

record notice =
  no_rule :: rule
  no_result :: "drift_result option"
  no_recovery :: bool

record alert_engine =
  ae_ds :: drift_sketch
  ae_rules :: "rule list"
  ae_states :: "(string, rule_state) dict"
  ae_fired :: int
  ae_failed :: int

definition add_rule :: "rule \<Rightarrow> alert_engine \<Rightarrow> alert_engine" where
  "add_rule r s = s\<lparr>ae_rules := ae_rules s @ [r],
     ae_states := (if dict_mem (rule_name r) (ae_states s) then ae_states s
       else AList.update (rule_name r) (case r of Auto _ \<Rightarrow> AutoState [] | Static _ \<Rightarrow> StaticState alert_state0) (ae_states s))\<rparr>"

definition dir_match :: "string option \<Rightarrow> drift_result \<Rightarrow> bool" where
  "dir_match flt r \<longleftrightarrow> \<not> opt_truth flt \<or> flt = Some (dr_direction r)"

definition static_violates :: "alert_rule \<Rightarrow> drift_result option \<Rightarrow> bool" where
  "static_violates rule res = (case res of None \<Rightarrow> False | Some r \<Rightarrow>
     dr_current_samples r \<ge> ar_min_samples rule \<and> dir_match (ar_direction_filter rule) r
     \<and> f_le (num_value (ar_min_drift_pct rule)) (dr_drift_pct r))"

definition notify :: "rule \<Rightarrow> drift_result option \<Rightarrow> bool option \<Rightarrow> notice list" where
  "notify r res n = (case n of None \<Rightarrow> [] | Some recovery \<Rightarrow> [\<lparr>no_rule = r, no_result = res, no_recovery = recovery\<rparr>])"

definition find_drift :: "drift_result list \<Rightarrow> string \<Rightarrow> drift_result option" where
  "find_drift drifts dm = find (\<lambda>d. dr_dimension d = dm) (rev drifts)"

definition eval_static :: "pyfloat \<Rightarrow> drift_result list \<Rightarrow> alert_rule \<Rightarrow> (alert_engine, notice list) step" where
  "eval_static now drifts rule = (\<lambda>s. case map_of (ae_states s) (ar_name rule) of
     None \<Rightarrow> (s, Inl (KeyError (ar_name rule)))
   | Some (AutoState _) \<Rightarrow> (s, Inl (AttributeError ''dict object has no attribute''))
   | Some (StaticState st) \<Rightarrow>
       (let res = find_drift drifts (ar_dimension rule) in
        case alert_step (ar_sustained_windows rule) now (static_violates rule res) st of (st', n) \<Rightarrow>
        (s\<lparr>ae_states := AList.update (ar_name rule) (StaticState st') (ae_states s)\<rparr>, Inr (notify (Static rule) res n))))"

text \<open>One dimension of a self-tuning rule: judge the window, then make the transition.\<close>

definition auto_judge :: "libm \<Rightarrow> autopilot_rule \<Rightarrow> drift_result option \<Rightarrow> cusum_state \<Rightarrow> (cusum_state \<times> bool) result" where
  "auto_judge L rule res st = (case res of None \<Rightarrow> Inr (st, False) | Some r \<Rightarrow>
     if dr_current_samples r \<ge> ap_min_samples rule
     then rbind (cu_update L (dr_current_p99 r) (ap_sensitivity rule) st) (\<lambda>(st', std_dev, score).
       Inr (st', dir_match (ap_direction_filter rule) r \<and> f_lt (num_value (ap_sensitivity rule)) score))
     else Inr (st, False))"

definition auto_put :: "string \<Rightarrow> string \<Rightarrow> cusum_state \<Rightarrow> (string, cusum_state) dict \<Rightarrow> alert_engine \<Rightarrow> alert_engine" where
  "auto_put name dm st d s = s\<lparr>ae_states := AList.update name (AutoState (AList.update dm st d)) (ae_states s)\<rparr>"

definition eval_auto_dim :: "libm \<Rightarrow> pyfloat \<Rightarrow> drift_result list \<Rightarrow> autopilot_rule \<Rightarrow> string \<Rightarrow> (alert_engine, notice list) step" where
  "eval_auto_dim L now drifts rule dm = (\<lambda>s. case map_of (ae_states s) (ap_name rule) of
     None \<Rightarrow> (s, Inl (KeyError (ap_name rule)))
   | Some (StaticState _) \<Rightarrow> (s, Inl (TypeError ''argument of type AlertState is not iterable''))
   | Some (AutoState d) \<Rightarrow>
       (let st0 = dict_get d dm cusum_state0; res = find_drift drifts dm in
        case auto_judge L rule res st0 of
          Inl e \<Rightarrow> (auto_put (ap_name rule) dm st0 d s, Inl e)
        | Inr (st1, violating) \<Rightarrow>
            (case alert_step (ap_sustained_windows rule) now violating (cu_alert st1) of (al, n) \<Rightarrow>
             (auto_put (ap_name rule) dm (st1\<lparr>cu_alert := al\<rparr>) d s, Inr (notify (Auto rule) res n)))))"

definition eval_auto :: "libm \<Rightarrow> pyfloat \<Rightarrow> drift_result list \<Rightarrow> autopilot_rule \<Rightarrow> (alert_engine, notice list) step" where
  "eval_auto L now drifts rule =
    sbind (\<lambda>s. (s, dict_item (ae_states s) (ap_name rule))) (\<lambda>_.
    sbind (sfor (\<lambda>_ dm. eval_auto_dim L now drifts rule dm) 0
       (if ap_dimension rule = ''*'' then rev (remdups (rev (map dr_dimension drifts))) else [ap_dimension rule])) (\<lambda>ns.
    sret (concat ns)))"

fun eval_rule :: "libm \<Rightarrow> pyfloat \<Rightarrow> drift_result list \<Rightarrow> rule \<Rightarrow> (alert_engine, notice list) step" where
  "eval_rule L now drifts (Static r) = eval_static now drifts r"
| "eval_rule L now drifts (Auto r) = eval_auto L now drifts r"

section \<open>Notifications\<close>

text \<open>At most three attempts, with a pause of one and then two seconds; returns the pauses taken.\<close>

fun deliver :: "(nat \<Rightarrow> bool) \<Rightarrow> nat \<Rightarrow> nat \<Rightarrow> bool \<times> int list" where
  "deliver attempt_ok attempt 0 = (False, [])"
| "deliver attempt_ok attempt (Suc left) =
    (if attempt_ok attempt then (True, [])
     else case deliver attempt_ok (Suc attempt) left of (ok, pauses) \<Rightarrow>
       (ok, if attempt < 2 then 2 ^ attempt # pauses else pauses))"

definition send_webhook :: "(nat \<Rightarrow> bool) \<Rightarrow> notice \<Rightarrow> bool \<times> int list" where
  "send_webhook attempt_ok n = (if \<not> opt_truth (rule_url (no_rule n)) then (False, []) else deliver attempt_ok 0 3)"

definition dispatch :: "(nat \<Rightarrow> nat \<Rightarrow> bool) \<Rightarrow> nat \<Rightarrow> notice \<Rightarrow> (alert_engine, bool) step" where
  "dispatch attempt_ok i n = (\<lambda>s.
    let s1 = (if \<not> no_recovery n then s\<lparr>ae_fired := ae_fired s + 1\<rparr> else s);
        success = fst (send_webhook (attempt_ok i) n) in
    (if \<not> success \<and> opt_truth (rule_url (no_rule n)) then s1\<lparr>ae_failed := ae_failed s1 + 1\<rparr> else s1, Inr success))"

section \<open>Evaluation\<close>

definition min_num :: "pyval list \<Rightarrow> pyval" where
  "min_num vs = (case vs of [] \<Rightarrow> PFloat (Fin 0)
     | v # rest \<Rightarrow> foldl (\<lambda>m x. if f_lt (num_value x) (num_value m) then x else m) v rest)"

definition min_threshold :: "rule list \<Rightarrow> pyval" where
  "min_threshold rules =
    (if \<exists>r \<in> set rules. case r of Auto _ \<Rightarrow> True | Static _ \<Rightarrow> False then PFloat (Fin 0)
     else min_num (List.map_filter (\<lambda>r. case r of Static a \<Rightarrow> Some (ar_min_drift_pct a) | Auto _ \<Rightarrow> None) rules))"

definition on_ds :: "(drift_sketch, 'a) step \<Rightarrow> (alert_engine, 'a) step" where
  "on_ds m = (\<lambda>s. case m (ae_ds s) of (d, r) \<Rightarrow> (s\<lparr>ae_ds := d\<rparr>, r))"

definition al_evaluate :: "libm \<Rightarrow> (nat \<Rightarrow> int) \<Rightarrow> (nat \<Rightarrow> nat \<Rightarrow> bool) \<Rightarrow> pyfloat \<Rightarrow> (alert_engine, notice list) step" where
  "al_evaluate L clk attempt_ok now =
    sbind (sget ae_rules) (\<lambda>rules.
    if rules = [] then sret []
    else let min_thresh = min_threshold rules in
      sbind (slift (if f_lt (Fin 0) (num_value min_thresh) then f_div (num_float min_thresh) (Fin 100) else Inr (Fin 0))) (\<lambda>threshold.
      sbind (on_ds (drift L clk threshold)) (\<lambda>drifts.
      sbind (sfor (\<lambda>_ r. eval_rule L now drifts r) 0 rules) (\<lambda>ns.
      sthen (sfor (\<lambda>i n. dispatch attempt_ok i n) 0 (concat ns)) (sret (concat ns))))))"

end
