(* ===== verification/Alerts_Laws.thy ===== *)
theory Alerts_Laws
  imports Alerts
begin

text \<open>
  What the drift report and the alert engine guarantee: the sign of a drift agrees with its
  direction, an alert fires exactly after enough consecutive violating windows, notifications pair
  up, and delivery is bounded.  A rule on falling values never fires, and two rules of different
  kinds under one name stop the evaluation.
\<close>

section \<open>Signs of floats\<close>

definition f_nonpos :: "pyfloat \<Rightarrow> bool" where "f_nonpos x \<longleftrightarrow> x = NInf \<or> (\<exists>a \<le> 0. x = Fin a)"
definition f_nonneg :: "pyfloat \<Rightarrow> bool" where "f_nonneg x \<longleftrightarrow> x = PInf \<or> (\<exists>a \<ge> 0. x = Fin a)"

lemma to_float_nonpos: "q \<le> 0 \<Longrightarrow> f_nonpos (to_float q)"
  using rnd_mono_neg [of q] by (auto simp: f_nonpos_def to_float_def Let_def)

lemma to_float_nonneg: "0 \<le> q \<Longrightarrow> f_nonneg (to_float q)"
  using rnd_nonneg [of q] by (auto simp: f_nonneg_def to_float_def Let_def)

lemma rhe_nonpos: "q \<le> 0 \<Longrightarrow> round_half_even q \<le> 0"
  using rhe_mono [of q 0] rhe_of_int [of 0] by simp

lemma rhe_nonneg: "0 \<le> q \<Longrightarrow> 0 \<le> round_half_even q"
  using rhe_mono [of 0 q] rhe_of_int [of 0] by simp

lemma py_round_nonpos: assumes "f_nonpos x" "py_round x n = Inr y" shows "f_nonpos y"
proof (cases x)
  case (Fin a)
  then have "a \<le> 0" using assms(1) by (simp add: f_nonpos_def)
  then have "round_half_even (a * 10 ^ n) \<le> 0" by (intro rhe_nonpos) (simp add: mult_nonpos_nonneg)
  then have "of_int (round_half_even (a * 10 ^ n)) / 10 ^ n \<le> (0 :: rat)" by (simp add: divide_nonpos_pos)
  from to_float_nonpos [OF this] show ?thesis using assms(2) by (auto simp: Fin Let_def split: if_splits)
qed (use assms in \<open>auto simp: f_nonpos_def\<close>)

lemma py_round_nonneg: assumes "f_nonneg x" "py_round x n = Inr y" shows "f_nonneg y"
proof (cases x)
  case (Fin a)
  then have "0 \<le> a" using assms(1) by (simp add: f_nonneg_def)
  then have "0 \<le> round_half_even (a * 10 ^ n)" by (intro rhe_nonneg) simp
  then have "0 \<le> of_int (round_half_even (a * 10 ^ n)) / (10 ^ n :: rat)" by simp
  from to_float_nonneg [OF this] show ?thesis using assms(2) by (auto simp: Fin Let_def split: if_splits)
qed (use assms in \<open>auto simp: f_nonneg_def\<close>)

lemma mul100_nonpos: "f_nonpos x \<Longrightarrow> f_nonpos (f_mul x (Fin 100))"
proof (cases x)
  case (Fin a)
  assume "f_nonpos x"
  then show ?thesis using to_float_nonpos [of "a * 100"] by (simp add: Fin f_nonpos_def)
qed (simp_all add: f_nonpos_def)

lemma mul100_nonneg: "f_nonneg x \<Longrightarrow> f_nonneg (f_mul x (Fin 100))"
proof (cases x)
  case (Fin a)
  assume "f_nonneg x"
  then show ?thesis using to_float_nonneg [of "a * 100"] by (simp add: Fin f_nonneg_def)
qed (simp_all add: f_nonneg_def)

lemma f_cmp_NaN [simp]: "\<not> f_lt x NaN" "\<not> f_eq x NaN" "\<not> f_le x NaN"
  by (cases x; simp add: f_le_def)+

lemma ratio_down: "\<lbrakk>\<not> f_lt (Fin 1) r; r \<noteq> NaN\<rbrakk> \<Longrightarrow> f_nonpos (f_sub r (Fin 1))"
  using to_float_nonpos by (cases r) (auto simp: f_sub_def f_nonpos_def)

lemma ratio_up: "f_lt (Fin 1) r \<Longrightarrow> f_nonneg (f_sub r (Fin 1))"
  using to_float_nonneg by (cases r) (auto simp: f_sub_def f_nonneg_def)

section \<open>Drift report\<close>

text \<open>An entry of the report is a new dimension, or its percentage has the sign of its direction.\<close>

lemma drift_of_sign:
  assumes "drift_of L threshold name cur prev = Inr (Some r)"
  shows "(dr_direction r = ''new'' \<and> dr_drift_pct r = PInf)
    \<or> (dr_direction r = ''up'' \<and> f_nonneg (dr_drift_pct r)) \<or> (dr_direction r = ''down'' \<and> f_nonpos (dr_drift_pct r))"
proof -
  obtain c p where cp: "sl_p99 L (st_backend cur) = Inr c" "sl_p99 L (st_backend prev) = Inr p"
    using assms by (auto simp: drift_of_def Let_def rbind_eq_Inr split: if_splits)
  show ?thesis
  proof (cases "f_eq p (Fin 0)")
    case True
    then show ?thesis using assms by (auto simp: drift_of_def Let_def rbind_eq_Inr cp split: if_splits)
  next
    case False
    then obtain ratio pct where r: "f_div c p = Inr ratio" "f_le threshold (f_abs (f_sub ratio (Fin 1)))"
      "py_round (f_mul (f_sub ratio (Fin 1)) (Fin 100)) 2 = Inr pct" "dr_drift_pct r = pct"
      "dr_direction r = (if f_lt (Fin 1) ratio then ''up'' else ''down'')"
      using assms by (auto simp: drift_of_def Let_def rbind_eq_Inr cp split: if_splits)
    have "ratio \<noteq> NaN" using r(2) by (auto simp: f_sub_def f_le_def)
    then show ?thesis
      using r py_round_nonneg [OF mul100_nonneg [OF ratio_up] r(3)] py_round_nonpos [OF mul100_nonpos [OF ratio_down] r(3)]
      by auto
  qed
qed

section \<open>State machine\<close>

fun alert_run :: "int \<Rightarrow> (pyfloat \<times> bool) list \<Rightarrow> alert_state \<Rightarrow> alert_state \<times> bool list" where
  "alert_run sustained [] st = (st, [])"
| "alert_run sustained ((now, v) # evs) st = (case alert_step sustained now v st of (st1, n) \<Rightarrow>
     case alert_run sustained evs st1 of (st2, ns) \<Rightarrow> (st2, (case n of None \<Rightarrow> [] | Some b \<Rightarrow> [b]) @ ns))"

text \<open>The number of consecutive violating windows at the end of the history.\<close>

definition trailing :: "bool list \<Rightarrow> nat" where
  "trailing vs = length (takeWhile id (rev vs))"

definition status_for :: "int \<Rightarrow> int \<Rightarrow> alert_status" where
  "status_for sustained n = (if n = 0 then AS_OK else if n < sustained then AS_PENDING else AS_FIRING)"

lemma alert_step_inv:
  assumes "1 \<le> k" "0 \<le> as_violation_count st" "as_status st = status_for k (as_violation_count st)"
    "alert_step k now v st = (st', n)"
  shows "as_violation_count st' = (if v then as_violation_count st + 1 else 0)
    \<and> as_status st' = status_for k (as_violation_count st')
    \<and> (case n of None \<Rightarrow> (as_status st' = AS_FIRING) = (as_status st = AS_FIRING)
       | Some False \<Rightarrow> as_status st' = AS_FIRING | Some True \<Rightarrow> as_status st = AS_FIRING \<and> as_status st' \<noteq> AS_FIRING)"
  using assms by (auto simp: alert_step_def status_for_def Let_def split: if_splits)

lemma alert_run_snoc:
  "alert_run k (evs @ [(now, v)]) st = (case alert_run k evs st of (st1, ns) \<Rightarrow>
     case alert_step k now v st1 of (st2, n) \<Rightarrow> (st2, ns @ (case n of None \<Rightarrow> [] | Some b \<Rightarrow> [b])))"
proof (induction evs arbitrary: st)
  case Nil
  then show ?case by (simp split: prod.splits)
next
  case (Cons e evs)
  then show ?case by (cases e) (simp split: prod.splits)
qed

text \<open>Alerts and recoveries as a language: a recovery only while an alert is out.\<close>

fun notices_ok :: "bool \<Rightarrow> bool list \<Rightarrow> bool option" where
  "notices_ok out [] = Some out"
| "notices_ok out (False # ns) = notices_ok True ns"
| "notices_ok out (True # ns) = (if out then notices_ok False ns else None)"

lemma notices_ok_append: "notices_ok out (xs @ ys) = (case notices_ok out xs of None \<Rightarrow> None | Some o' \<Rightarrow> notices_ok o' ys)"
  by (induction out xs rule: notices_ok.induct) auto

lemma alert_run_inv:
  assumes "1 \<le> k" "alert_run k evs alert_state0 = (st, ns)"
  shows "as_violation_count st = int (trailing (map snd evs)) \<and> as_status st = status_for k (as_violation_count st)
    \<and> notices_ok False ns = Some (as_status st = AS_FIRING)"
  using assms(2)
proof (induction evs arbitrary: st ns rule: rev_induct)
  case Nil
  then show ?case using assms(1) by (auto simp: alert_state0_def trailing_def status_for_def)
next
  case (snoc e evs)
  obtain now v where e: "e = (now, v)" by (cases e)
  obtain st1 ns1 n where s: "alert_run k evs alert_state0 = (st1, ns1)" "alert_step k now v st1 = (st, n)"
    "ns = ns1 @ (case n of None \<Rightarrow> [] | Some b \<Rightarrow> [b])"
    using snoc.prems by (auto simp: e alert_run_snoc split: prod.splits)
  note IH = snoc.IH [OF s(1)]
  have *: "as_violation_count st = (if v then as_violation_count st1 + 1 else 0)
    \<and> as_status st = status_for k (as_violation_count st)
    \<and> (case n of None \<Rightarrow> (as_status st = AS_FIRING) = (as_status st1 = AS_FIRING)
       | Some False \<Rightarrow> as_status st = AS_FIRING | Some True \<Rightarrow> as_status st1 = AS_FIRING \<and> as_status st \<noteq> AS_FIRING)"
    using IH by (intro alert_step_inv [OF assms(1) _ _ s(2)]) simp_all
  have "trailing (map snd (evs @ [e])) = (if v then Suc (trailing (map snd evs)) else 0)"
    by (simp add: e trailing_def)
  moreover have "notices_ok False ns = Some (as_status st = AS_FIRING)"
    using * IH by (auto simp: s(3) notices_ok_append split: option.splits bool.splits)
  ultimately show ?case using * IH by auto
qed

section \<open>Properties\<close>

text \<open>
  C38: An alert fires exactly after the required number of consecutive violating windows, is pending
  before that and clears with the first good window; and its notifications pair up: every recovery
  answers an alert that is out, and an alert is out exactly while the rule is firing.
\<close>

theorem alert_fires_exactly:
  assumes "1 \<le> k" "alert_run k evs alert_state0 = (st, ns)"
  shows "(as_status st = AS_FIRING \<longleftrightarrow> k \<le> int (trailing (map snd evs)))
    \<and> (as_status st = AS_OK \<longleftrightarrow> trailing (map snd evs) = 0)
    \<and> notices_ok False ns = Some (as_status st = AS_FIRING)"
  using alert_run_inv [OF assms] assms(1) by (auto simp: status_for_def)

theorem alert_fires_exactly_witness:
  "\<exists>st ns. alert_run 2 [(Fin 0, True), (Fin 1, True), (Fin 2, False)] alert_state0 = (st, ns)
    \<and> notices_ok False ns = Some False \<and> as_status st = AS_OK"
proof -
  obtain st ns where r: "alert_run 2 [(Fin 0, True), (Fin 1, True), (Fin 2, False)] alert_state0 = (st, ns)" by fastforce
  have "as_status st = AS_OK" "notices_ok False ns = Some (as_status st = AS_FIRING)"
    using alert_fires_exactly [OF _ r] by (auto simp: trailing_def)
  then show ?thesis using r by (intro exI [of _ st] exI [of _ ns]) simp
qed

lemma sfor_results:
  "sfor f n xs s = (s', Inr ys) \<Longrightarrow> \<forall>y \<in> set ys. \<exists>i x s1 s2. f i x s1 = (s2, Inr y)"
proof (induction xs arbitrary: n s ys)
  case (Cons x xs)
  obtain s1 z zs where z: "f n x s = (s1, Inr z)" "sfor f (Suc n) xs s1 = (s', Inr zs)" "ys = z # zs"
    using Cons.prems by (auto simp: sbind_eq_Inr)
  show ?case using Cons.IH [OF z(2)] z(1,3) by auto
qed simp

lemma drift_entries:
  assumes "drift L clk threshold s = (s', Inr rs)"
  shows "(\<forall>r \<in> set rs. \<exists>name cur prev. drift_of L threshold name cur prev = Inr (Some r))
    \<and> (\<exists>xs. rs = sort_desc (\<lambda>r. f_abs (dr_drift_pct r)) xs)"
proof -
  obtain ys where ys: "sfor (\<lambda>i name. ds_drift_one L threshold (clk i) name) 0 (dict_keys (ds_current s)) s = (s', Inr ys)"
    "rs = sort_desc (\<lambda>r. f_abs (dr_drift_pct r)) (List.map_filter id ys)"
    using assms by (auto simp: drift_def sbind_eq_Inr)
  have "\<exists>name cur prev. drift_of L threshold name cur prev = Inr (Some r)" if "r \<in> set rs" for r
  proof -
    have "Some r \<in> set ys" using that ys(2) by (auto simp: List.map_filter_def)
    then obtain i name s1 s2 where "ds_drift_one L threshold (clk i) name s1 = (s2, Inr (Some r))"
      using sfor_results [OF ys(1)] by blast
    then show ?thesis by (auto simp: ds_drift_one_def sbind_eq_Inr rbind_eq_Inr)
  qed
  then show ?thesis using ys(2) by blast
qed

text \<open>
  The drift report is sorted by the magnitude of the change, largest first, and every entry is a
  dimension without a previous value or one whose percentage has the sign of its direction.
\<close>

lemma drift_report_sound:
  assumes "drift L clk threshold s = (s', Inr rs)"
  shows "sorted_wrt (\<lambda>a b. \<not> f_lt (f_abs (dr_drift_pct a)) (f_abs (dr_drift_pct b))) rs
    \<and> (\<forall>r \<in> set rs. (dr_direction r = ''new'' \<and> dr_drift_pct r = PInf)
      \<or> (dr_direction r = ''up'' \<and> f_nonneg (dr_drift_pct r)) \<or> (dr_direction r = ''down'' \<and> f_nonpos (dr_drift_pct r)))"
proof -
  have sign: "\<forall>r \<in> set rs. (dr_direction r = ''new'' \<and> dr_drift_pct r = PInf)
      \<or> (dr_direction r = ''up'' \<and> f_nonneg (dr_drift_pct r)) \<or> (dr_direction r = ''down'' \<and> f_nonpos (dr_drift_pct r))"
    using drift_entries [OF assms] drift_of_sign by blast
  obtain xs where xs: "rs = sort_desc (\<lambda>r. f_abs (dr_drift_pct r)) xs" using drift_entries [OF assms] by blast
  have "f_abs (dr_drift_pct r) \<noteq> NaN" if "r \<in> set xs" for r
    using sign that by (auto simp: xs f_nonneg_def f_nonpos_def)
  then show ?thesis using sort_desc_sorted [of xs "\<lambda>r. f_abs (dr_drift_pct r)"] sign xs by simp
qed

definition demo_drift :: drift_sketch where
  "demo_drift = (case ds_init (WindowInt 1) (Fin (1/2)) 4 2 1 of Inl _ \<Rightarrow> undefined | Inr s \<Rightarrow>
    (case ds_add libm_demo 0 0 ''a'' (Fin 1) s of (s1, _) \<Rightarrow> fst (ds_add libm_demo 0 1500000000 ''a'' (Fin 4) s1)))"

text \<open>
  A rule on falling values with a positive threshold never fires: the report gives falling values a
  percentage that is not positive, and the rule asks for one that reaches the threshold.
\<close>

theorem down_rule_never_violates:
  assumes "ar_direction_filter rule = Some ''down''" "f_lt (Fin 0) (num_value (ar_min_drift_pct rule))"
    "drift L clk threshold s = (s', Inr drifts)"
  shows "\<not> static_violates rule (find_drift drifts (ar_dimension rule))"
proof (cases "find_drift drifts (ar_dimension rule)")
  case (Some r)
  then have "r \<in> set drifts" unfolding find_drift_def find_Some_iff by (metis nth_mem set_rev)
  then have "dr_direction r = ''down'' \<Longrightarrow> f_nonpos (dr_drift_pct r)" using drift_entries [OF assms(3)] drift_of_sign by fastforce
  then show ?thesis using assms(1,2)
    by (cases "num_value (ar_min_drift_pct rule)")
      (auto simp: static_violates_def Some dir_match_def opt_truth_def f_nonpos_def f_le_def)
qed (simp add: static_violates_def)

text \<open>Two rules of different kinds that share a name stop the evaluation with an exception.\<close>

theorem rule_name_clash:
  assumes "ar_name r = ap_name a" "ap_dimension a \<noteq> ''*''" "ar_name r \<notin> fst ` set (ae_states s)"
  shows "snd (eval_rule L now drifts (Auto a) (add_rule (Auto a) (add_rule (Static r) s)))
    = Inl (TypeError ''argument of type AlertState is not iterable'')"
proof -
  let ?s = "add_rule (Auto a) (add_rule (Static r) s)"
  have "ap_name a \<in> fst ` set (AList.update (ap_name a) x (ae_states s))" for x by (simp add: update_conv' dom_update dom_map_of_conv_image_fst [symmetric])
  then have "map_of (ae_states ?s) (ap_name a) = Some (StaticState alert_state0)"
    using assms(1,3) by (simp add: add_rule_def update_conv' dict_mem_iff)
  then show ?thesis using assms(2)
    by (simp add: eval_auto_def eval_auto_dim_def sbind_def dict_item_def)
qed

text \<open>
  A notification is attempted at most three times, with at most three seconds of pauses.
\<close>

lemma deliver_bounded:
  "sum_list (snd (send_webhook attempt_ok n)) \<le> 3
   \<and> (fst (send_webhook attempt_ok n) \<longleftrightarrow> opt_truth (rule_url (no_rule n)) \<and> (\<exists>i < 3. attempt_ok i))"
proof -
  have "(\<exists>i < 3. attempt_ok i) \<longleftrightarrow> attempt_ok 0 \<or> attempt_ok 1 \<or> attempt_ok 2"
    by (auto simp: numeral_3_eq_3 numeral_2_eq_2 less_Suc_eq)
  then show ?thesis by (simp add: send_webhook_def numeral_3_eq_3 numeral_2_eq_2)
qed

end
