(* ===== verification/DDQuantile.thy ===== *)
theory DDQuantile
  imports DDSketch_Order "HOL-Library.Multiset" "HOL-Library.Product_Lexorder"
begin

text \<open>
  The accuracy of the quantile sketch.  The walk over the buckets is exact although it subtracts in
  floating point; it ends in the bucket of the order statistic that the rank asks for; and the
  representative of that bucket lies within the relative accuracy of the sample.
\<close>

section \<open>Ranks are exact\<close>

text \<open>Numbers on a binary grid from which integers can be subtracted without rounding.\<close>

definition rankish :: "rat \<Rightarrow> bool" where
  "rankish r \<longleftrightarrow> (\<exists>m e. r = of_int m * 2 powi e \<and> 0 \<le> m \<and> m \<le> 2 ^ 53 \<and> -1074 \<le> e \<and> e \<le> 0)"

lemma rankish_rnd_id: "rankish r \<Longrightarrow> rnd r = r"
  by (auto simp: rankish_def intro: rnd_dyadic)

lemma rankish_bound: "rankish r \<Longrightarrow> 0 \<le> r \<and> r \<le> 2 ^ 53"
proof -
  assume "rankish r"
  then obtain m e where r: "r = of_int m * 2 powi e" and m: "0 \<le> m" "m \<le> 2 ^ 53" and e: "e \<le> 0"
    by (auto simp: rankish_def)
  have "(2::rat) powi e \<le> 2 powi 0" using e by (simp only: powi2_le_iff)
  then have "r \<le> of_int m * 1" unfolding r using m by (intro mult_left_mono) simp_all
  also have "\<dots> \<le> of_int (2 ^ 53)" using m by (simp only: mult_1_right of_int_le_iff)
  finally show ?thesis using m by (simp add: r)
qed

lemma rankish_rnd:
  assumes "0 \<le> rnd x" "rnd x \<le> 2 ^ 53" shows "rankish (rnd x)"
proof (cases "x = 0")
  case True
  then show ?thesis by (auto simp: rankish_def intro!: exI [of _ 0])
next
  case False
  let ?m = "round_half_even (rnd x / 2 powi fexp (rnd x))" and ?e = "fexp (rnd x)"
  show ?thesis
  proof (cases "rnd x = 0")
    case True
    then show ?thesis by (auto simp: rankish_def intro!: exI [of _ 0])
  next
    case nz: False
    have eq: "rnd x = of_int ?m * 2 powi ?e" using rnd_scaled [OF nz] by simp
    then have m0: "0 \<le> ?m" using assms(1) by (simp add: zero_le_mult_iff not_less [symmetric])
        (metis less_le_not_le mult_neg_pos of_int_less_0_iff powi2_pos not_le)
    have e: "-1074 \<le> ?e" by (simp add: fexp_def)
    show ?thesis
    proof (cases "?e \<le> 0")
      case True
      have "rnd x / 2 powi ?e \<le> 2 ^ 53"
      proof -
        have "rnd x < 2 powi (flog2 \<bar>rnd x\<bar> + 1)"
          using flog2_bounds(2) [of "\<bar>rnd x\<bar>"] nz assms(1) by simp
        also have "\<dots> \<le> 2 powi (53 + ?e)" by (simp only: powi2_le_iff) (simp add: fexp_def)
        finally show ?thesis by (simp add: powi2_add pos_divide_le_eq)
      qed
      then have "?m \<le> round_half_even (of_int (2 ^ 53))" by (intro rhe_mono) simp
      then have "?m \<le> 2 ^ 53" by (simp only: rhe_of_int)
      then show ?thesis using eq m0 e True unfolding rankish_def by blast
    next
      case False
      then have int: "rnd x = of_int (?m * 2 ^ nat ?e)" using eq by (simp add: powi2_nat)
      then have "(of_int (?m * 2 ^ nat ?e) :: rat) \<le> of_int (2 ^ 53)" using assms(2) by simp
      then have "?m * 2 ^ nat ?e \<le> 2 ^ 53" by (simp only: of_int_le_iff)
      moreover have "rnd x = of_int (?m * 2 ^ nat ?e) * 2 powi 0" using int by simp
      moreover have "0 \<le> ?m * 2 ^ nat ?e" using m0 by simp
      ultimately show ?thesis unfolding rankish_def
        by (intro exI [of _ "?m * 2 ^ nat ?e"] exI [of _ 0]) simp
    qed
  qed
qed

lemma rankish_sub:
  assumes "rankish r" "0 \<le> c" "of_int c \<le> r" shows "rankish (r - of_int c)"
proof -
  obtain m e where r: "r = of_int m * 2 powi e" and m: "0 \<le> m" "m \<le> 2 ^ 53" and e: "-1074 \<le> e" "e \<le> 0"
    using assms(1) by (auto simp: rankish_def)
  let ?d = "c * 2 ^ nat (- e)"
  have "(of_int c :: rat) = of_int ?d * 2 powi e" using e by (simp add: powi2_shift)
  then have eq: "r - of_int c = of_int (m - ?d) * 2 powi e" by (simp add: r left_diff_distrib)
  moreover have "0 \<le> m - ?d" using assms(3) eq
    by (metis diff_ge_0_iff_ge mult_le_0_iff not_le of_int_0_le_iff order_less_irrefl powi2_pos zero_le_mult_iff)
  moreover have "0 \<le> ?d" using assms(2) by simp
  then have "m - ?d \<le> 2 ^ 53" using m(2) by linarith
  ultimately show ?thesis using e unfolding rankish_def by blast
qed

lemma rank_sub:
  assumes r: "rankish r" and c: "0 \<le> c" "c \<le> 2 ^ 53"
  obtains y where "f_sub (Fin r) (f_of_int c) = Fin y" "y \<le> 0 \<longleftrightarrow> r \<le> of_int c"
    "of_int c < r \<Longrightarrow> y = r - of_int c \<and> rankish y"
proof (cases "r \<le> of_int c")
  case True
  have "(of_int c :: rat) \<le> of_int (2 ^ 53)" using c by (simp only: of_int_le_iff)
  then have "r - of_int c \<ge> - (2 ^ 53)" using rankish_bound [OF r] by simp
  then have "rnd (- (2 ^ 53)) \<le> rnd (r - of_int c)" by (intro rnd_mono) simp
  moreover have "rnd (- (2 ^ 53)) = - (2 ^ 53)" using rnd_int [of "- (2 ^ 53)"] by simp
  moreover have "rnd (r - of_int c) \<le> 0" using True by (intro rnd_mono_neg) simp
  ultimately have "\<bar>rnd (r - of_int c)\<bar> < 2 ^ 1024" by simp
  then show ?thesis
    using that [of "rnd (r - of_int c)"] \<open>rnd (r - of_int c) \<le> 0\<close> True c
    by (simp add: f_sub_def f_of_int_small to_float_Fin)
next
  case False
  then have k: "rankish (r - of_int c)" using r c by (intro rankish_sub) simp_all
  then have "\<bar>rnd (r - of_int c)\<bar> < 2 ^ 1024" using rankish_bound [OF k] by (simp add: rankish_rnd_id)
  then show ?thesis
    using that [of "r - of_int c"] k False c
    by (simp add: f_sub_def f_of_int_small to_float_Fin rankish_rnd_id)
qed

section \<open>The walk finds the bucket of the rank\<close>

definition expand :: "(int, int) dict \<Rightarrow> int list \<Rightarrow> int list" where
  "expand store ks = concat (map (\<lambda>k. replicate (nat (dict_get store k 0)) k) ks)"

lemma expand_simps [simp]:
  "expand store [] = []"
  "expand store (k # ks) = replicate (nat (dict_get store k 0)) k @ expand store ks"
  by (simp_all add: expand_def)

definition rank_at :: "rat \<Rightarrow> nat" where
  "rank_at r = nat \<lceil>r\<rceil> - 1"

lemma rank_at_less: "0 < r \<Longrightarrow> r \<le> of_int c \<Longrightarrow> rank_at r < nat c"
  by (simp add: rank_at_def ceiling_le_iff nat_less_iff) linarith

lemma rank_at_diff:
  assumes "0 \<le> c" "of_int c < r" shows "rank_at (r - of_int c) = rank_at r - nat c \<and> nat c \<le> rank_at r"
proof -
  have "c < \<lceil>r\<rceil>" using assms(2) by (simp add: less_ceiling_iff)
  then have "nat (z - c) - 1 = nat z - 1 - nat c \<and> nat c \<le> nat z - 1" if "z = \<lceil>r\<rceil>" for z
    using assms(1) that by arith
  then show ?thesis by (simp add: rank_at_def)
qed

lemma dd_walk_expand:
  assumes "rankish r" "0 < r" "\<forall>k \<in> set ks. 0 \<le> dict_get store k 0 \<and> dict_get store k 0 \<le> 2 ^ 53"
  shows "if r \<le> of_nat (length (expand store ks)) then dd_walk store ks (Fin r) = Inl (expand store ks ! rank_at r)
    else dd_walk store ks (Fin r) = Inr (Fin (r - of_nat (length (expand store ks))))
      \<and> rankish (r - of_nat (length (expand store ks)))"
  using assms
proof (induction ks arbitrary: r)
  case (Cons k ks)
  let ?c = "dict_get store k 0" and ?n = "of_nat (length (expand store ks)) :: rat"
  have c: "0 \<le> ?c" "?c \<le> 2 ^ 53" using Cons.prems by auto
  obtain y where y: "f_sub (Fin r) (f_of_int ?c) = Fin y" "y \<le> 0 \<longleftrightarrow> r \<le> of_int ?c"
    "of_int ?c < r \<Longrightarrow> y = r - of_int ?c \<and> rankish y"
    using rank_sub [OF Cons.prems(1) c] by blast
  have nc: "(of_nat (nat ?c) :: rat) = of_int ?c" using c by simp
  have len: "of_nat (length (expand store (k # ks))) = of_int ?c + ?n" using nc by simp
  show ?case
  proof (cases "r \<le> of_int ?c")
    case True
    then have "r \<le> of_int ?c + ?n" by (simp add: add_increasing2)
    moreover have "expand store (k # ks) ! rank_at r = k"
      using rank_at_less [OF Cons.prems(2) True] by (simp add: nth_append)
    ultimately show ?thesis unfolding len using True y by simp
  next
    case False
    then have gt: "of_int ?c < r" by simp
    then have yr: "y = r - of_int ?c" and ry: "rankish y" and y0: "0 < y" using y by auto
    have walk: "dd_walk store (k # ks) (Fin r) = dd_walk store ks (Fin y)" using y y0 by simp
    have e0: "expand store (k # ks) ! rank_at r = expand store ks ! rank_at y"
      using rank_at_diff [OF c(1) gt] by (simp add: nth_append yr)
    have e1: "r \<le> of_int ?c + ?n \<longleftrightarrow> y \<le> ?n" "r - (of_int ?c + ?n) = y - ?n" by (auto simp: yr)
    show ?thesis unfolding walk len e0 e1 using Cons.prems(3) by (intro Cons.IH [OF ry y0]) simp
  qed
qed simp

section \<open>The buckets are ordered like the samples\<close>

text \<open>The position of a sample: side of zero first, then the bucket.\<close>

definition dd_code :: "libm \<Rightarrow> ddsketch \<Rightarrow> rat \<Rightarrow> int \<times> int" where
  "dd_code L s x = (if x < 0 then (-1, - dd_idx L s x) else if x = 0 then (0, 0) else (1, dd_idx L s x))"

lemma dd_code_mono:
  assumes "dd_inv L s" "libm_ok L" "dd_accepts L s x" "dd_accepts L s y" "x \<le> y"
  shows "dd_code L s x \<le> dd_code L s y"
proof -
  consider "x < 0" "y < 0" | "0 < x" "0 < y" | "x < 0" "0 \<le> y" | "x = 0" using assms(5) by fastforce
  then show ?thesis
  proof cases
    case 1
    then have "dd_idx L s y \<le> dd_idx L s x"
      using assms dd_key_mono [OF assms(1,2) _ _ dd_accepts_key dd_accepts_key, of y x] by simp
    then show ?thesis using 1 by (simp add: dd_code_def)
  next
    case 2
    then have "dd_idx L s x \<le> dd_idx L s y"
      using assms dd_key_mono [OF assms(1,2) _ _ dd_accepts_key dd_accepts_key, of x y] by simp
    then show ?thesis using 2 by (simp add: dd_code_def)
  qed (use assms(5) in \<open>auto simp: dd_code_def\<close>)
qed

section \<open>The buckets hold the samples\<close>

lemma dd_puts_frame: "dd_reset (dd_puts L xs s) = dd_reset s"
  by (induction xs arbitrary: s) simp_all

lemma dd_put_select [simp]:
  "dd_positive (dd_put L x n s) = (if 0 < x then dict_incr (dd_idx L s x) n (dd_positive s) else dd_positive s)"
  "dd_negative (dd_put L x n s) = (if x < 0 then dict_incr (dd_idx L s x) n (dd_negative s) else dd_negative s)"
  "dd_zero_count (dd_put L x n s) = (if x = 0 then dd_zero_count s + n else dd_zero_count s)"
  "dd_count (dd_put L x n s) = dd_count s + n"
  by (simp_all add: dd_put_def)

lemma dd_idx_put [simp]: "dd_idx L (dd_put L x n s) = dd_idx L s"
  by (rule dd_idx_cong) simp

lemma dd_puts_contents:
  "dict_get (dd_positive (dd_puts L xs s)) k 0 =
     dict_get (dd_positive s) k 0 + int (length (filter (\<lambda>x. 0 < x \<and> dd_idx L s x = k) xs))"
  "dict_get (dd_negative (dd_puts L xs s)) k 0 =
     dict_get (dd_negative s) k 0 + int (length (filter (\<lambda>x. x < 0 \<and> dd_idx L s x = k) xs))"
  "dd_zero_count (dd_puts L xs s) = dd_zero_count s + int (length (filter (\<lambda>x. x = 0) xs))"
  "dd_count (dd_puts L xs s) = dd_count s + int (length xs)"
  by (induction xs arbitrary: s) (simp_all add: dict_get_incr)

text \<open>A sketch that holds exactly the samples \<open>xs\<close>.\<close>

definition dd_holds :: "libm \<Rightarrow> rat list \<Rightarrow> ddsketch \<Rightarrow> bool" where
  "dd_holds L xs s \<longleftrightarrow> dd_inv L s \<and> (\<forall>x \<in> set xs. dd_accepts L s x)
     \<and> (\<forall>k. dict_get (dd_positive s) k 0 = int (length (filter (\<lambda>x. 0 < x \<and> dd_idx L s x = k) xs)))
     \<and> (\<forall>k. dict_get (dd_negative s) k 0 = int (length (filter (\<lambda>x. x < 0 \<and> dd_idx L s x = k) xs)))
     \<and> dd_zero_count s = int (length (filter (\<lambda>x. x = 0) xs)) \<and> dd_count s = int (length xs)"

lemma dd_holds_ingest:
  assumes e: "dd_init L alpha = Inr e" and s: "rfold (dd_add L) (map (\<lambda>v. (v, 1)) vs) e = Inr s"
  shows "dd_holds L (finites vs) s"
proof -
  note i = dd_init_inv [OF e]
  have acc: "\<forall>x \<in> set (finites vs). dd_accepts L e x" and s': "s = dd_puts L (finites vs) e"
    using s i by (auto simp: dd_add_rfold_eq)
  have r: "dd_reset s = dd_reset e" by (simp add: s' dd_puts_frame)
  have "dd_multiplier s = dd_multiplier e" using r by (cases s; cases e) (simp add: dd_reset_def)
  then have idx: "dd_idx L s = dd_idx L e" by (rule dd_idx_cong)
  have "dd_positive e = []" "dd_negative e = []" "dd_zero_count e = 0" "dd_count e = 0"
    using e by (auto simp: dd_init_def raise_if_eq_Inr rbind_eq_Inr)
  moreover have "dd_inv L s" using dd_ingest_inv [OF e s] .
  ultimately show ?thesis
    using acc dd_accepts_cong [OF r] dd_puts_contents [where xs = "finites vs" and s = e and L = L]
    by (simp add: dd_holds_def idx s' [symmetric])
qed

lemma count_list_replicate: "count_list (replicate n a) x = (if x = a then n else 0)"
  by (induction n) auto

lemma count_list_expand:
  "distinct ks \<Longrightarrow> count_list (expand store ks) k = (if k \<in> set ks then nat (dict_get store k 0) else 0)"
  by (induction ks) (auto simp: count_list_replicate count_list_append)

lemma count_expand_keys:
  assumes "dict_ok store" "set ks = fst ` set store" "distinct ks"
  shows "count_list (expand store ks) k = nat (dict_get store k 0)"
  using assms by (simp add: count_list_expand dict_get_absent)

lemma count_list_map_inj: "inj f \<Longrightarrow> count_list (map f xs) (f x) = count_list xs x"
  by (induction xs) (auto dest: injD)

lemma count_list_map_out: "y \<notin> range f \<Longrightarrow> count_list (map f xs) y = 0"
  by (induction xs) auto

lemma count_list_map_filter: "count_list (map f xs) y = length (filter (\<lambda>x. f x = y) xs)"
  by (induction xs) auto

lemma sorted_wrt_expand:
  assumes "sorted_wrt R ks" "\<And>k. R k k" shows "sorted_wrt R (expand store ks)"
  using assms(1)
proof (induction ks)
  case (Cons k ks)
  have "sorted_wrt R (replicate n k)" for n by (induction n) (auto simp: assms(2))
  moreover have "set (expand store ks) \<subseteq> set ks" by (auto simp: expand_def)
  ultimately show ?case using Cons by (auto simp: sorted_wrt_append)
qed simp

text \<open>All positions that the walk can end in, in its order.\<close>

definition dd_positions :: "ddsketch \<Rightarrow> (int \<times> int) list" where
  "dd_positions s = map (\<lambda>k. (-1, - k)) (expand (dd_negative s) (rev (sort (dict_keys (dd_negative s)))))
     @ replicate (nat (dd_zero_count s)) (0, 0)
     @ map (\<lambda>k. (1, k)) (expand (dd_positive s) (sort (dict_keys (dd_positive s))))"

lemma dd_positions_count:
  assumes "dd_holds L xs s" shows "count_list (dd_positions s) c = count_list (map (dd_code L s) xs) c"
proof -
  obtain a i where c: "c = (a, i)" by (cases c)
  have ok: "dict_ok (dd_positive s)" "dict_ok (dd_negative s)"
    using assms by (auto simp: dd_holds_def dd_inv_def bins_ok_def)
  have n: "count_list (expand (dd_negative s) (rev (sort (dict_keys (dd_negative s))))) k = nat (dict_get (dd_negative s) k 0)"
    "count_list (expand (dd_positive s) (sort (dict_keys (dd_positive s)))) k = nat (dict_get (dd_positive s) k 0)" for k
    using ok by (intro count_expand_keys; simp)+
  have inj: "inj (\<lambda>k :: int. (-1 :: int, - k))" "inj (\<lambda>k :: int. (1 :: int, k))" by (auto intro: injI)
  have neg: "count_list (map (\<lambda>k. (-1, - k)) ks) c = (if a = -1 then count_list ks (- i) else 0)" for ks :: "int list"
    using count_list_map_inj [OF inj(1), of ks "- i"] by (cases "a = -1") (auto simp: c intro!: count_list_map_out)
  have pos: "count_list (map (\<lambda>k. (1, k)) ks) c = (if a = 1 then count_list ks i else 0)" for ks :: "int list"
    using count_list_map_inj [OF inj(2), of ks i] by (cases "a = 1") (auto simp: c intro!: count_list_map_out)
  have rhs: "count_list (map (dd_code L s) xs) c = (if a = -1 then length (filter (\<lambda>x. x < 0 \<and> dd_idx L s x = - i) xs)
      else if c = (0, 0) then length (filter (\<lambda>x. x = 0) xs)
      else if a = 1 then length (filter (\<lambda>x. 0 < x \<and> dd_idx L s x = i) xs) else 0)"
    unfolding count_list_map_filter
    by (auto simp: dd_code_def c intro!: arg_cong [of _ _ length] filter_cong split: if_splits)
  show ?thesis
    using assms unfolding rhs dd_positions_def count_list_append neg pos n count_list_replicate
    by (auto simp: dd_holds_def c)
qed

lemma dd_positions_sorted: "sorted (dd_positions s)"
proof -
  have "sorted_wrt (\<lambda>j k. k \<le> j) (rev (sort ks))" for ks :: "int list"
    by (simp add: sorted_wrt_rev)
  then have "sorted_wrt (\<lambda>j k. k \<le> j) (expand store (rev (sort ks)))" for store ks
    by (rule sorted_wrt_expand) simp
  moreover have "sorted (expand store (sort ks))" for store ks
    by (rule sorted_wrt_expand) simp_all
  ultimately show ?thesis
    by (auto simp: dd_positions_def sorted_append sorted_map)
qed

lemma dd_positions_eq:
  assumes h: "dd_holds L xs s" and L: "libm_ok L"
  shows "dd_positions s = map (dd_code L s) (sort xs)"
proof -
  have "mset (dd_positions s) = mset (map (dd_code L s) xs)"
    using dd_positions_count [OF h] by (intro multiset_eqI) (simp only: count_mset)
  then have 1: "sort (map (dd_code L s) xs) = dd_positions s"
    by (rule properties_for_sort [OF _ dd_positions_sorted])
  have "sorted_wrt (\<lambda>x y. x \<le> y \<and> x \<in> set xs \<and> y \<in> set xs) (sort xs)"
    using sorted_sort [of xs] by (auto simp: sorted_wrt_iff_nth_less nth_mem [of _ "sort xs", simplified])
  then have "sorted (map (dd_code L s) (sort xs))"
    unfolding sorted_map
    by (rule sorted_wrt_mono_rel [rotated]) (use h dd_code_mono [OF _ L] in \<open>auto simp: dd_holds_def\<close>)
  then have "sort (map (dd_code L s) xs) = map (dd_code L s) (sort xs)"
    by (intro properties_for_sort) simp_all
  with 1 show ?thesis by simp
qed

section \<open>The quantile query\<close>

definition dd_decode :: "libm \<Rightarrow> ddsketch \<Rightarrow> int \<times> int \<Rightarrow> pyfloat result" where
  "dd_decode L s c = (case c of (a, i) \<Rightarrow>
     if a = -1 then rbind (dd_bucket_value L s (- i)) (\<lambda>v. Inr (f_neg v))
     else if a = 0 then Inr (Fin 0) else dd_bucket_value L s i)"

lemma rank_bounds:
  assumes q: "is_double q" "0 < q" "q < 1" and n: "0 < n" "n \<le> 2 ^ 53"
  defines "r \<equiv> rnd (q * of_int n)"
  shows "rankish r" "0 < r" "r \<le> of_int n" "f_mul (Fin q) (f_of_int n) = Fin r"
proof -
  have n1: "(1 :: rat) \<le> of_int n" using n(1) by (simp add: int_one_le_iff_zero_less)
  have n2: "(of_int n :: rat) \<le> of_int (2 ^ 53)" using n(2) by (simp only: of_int_le_iff)
  have "DBL_TRUE_MIN \<le> q" using double_nonzero_ge [OF q(1)] q(2) by simp
  also have "q \<le> q * of_int n" using q n1 by (simp add: mult_le_cancel_left1)
  finally have "rnd DBL_TRUE_MIN \<le> r" unfolding r_def by (rule rnd_mono)
  moreover have "rnd DBL_TRUE_MIN = DBL_TRUE_MIN" unfolding DBL_TRUE_MIN_def by (rule rnd_powi) simp
  moreover have "0 < DBL_TRUE_MIN" unfolding DBL_TRUE_MIN_def by (rule powi2_pos)
  ultimately show r0: "0 < r" by simp
  have "q * of_int n \<le> of_int n" using q n1 by (simp add: mult_le_cancel_right1)
  then have "r \<le> rnd (of_int n)" unfolding r_def by (rule rnd_mono)
  then show rn: "r \<le> of_int n" using n by (simp add: rnd_int)
  then have r53: "r \<le> 2 ^ 53" using n2 by simp
  then show "rankish r" using r0 unfolding r_def by (intro rankish_rnd) simp_all
  have "\<bar>r\<bar> < 2 ^ 1024" using r0 r53 by simp
  then show "f_mul (Fin q) (f_of_int n) = Fin r"
    using n unfolding r_def by (simp add: f_of_int_small to_float_Fin)
qed

lemma dd_holds_counts:
  assumes "dd_holds L xs s" "int (length xs) \<le> 2 ^ 53"
  shows "0 \<le> dict_get (dd_positive s) k 0 \<and> dict_get (dd_positive s) k 0 \<le> 2 ^ 53"
    "0 \<le> dict_get (dd_negative s) k 0 \<and> dict_get (dd_negative s) k 0 \<le> 2 ^ 53"
    "0 \<le> dd_zero_count s" "dd_zero_count s \<le> 2 ^ 53"
proof -
  have "int (length (filter P xs)) \<le> 2 ^ 53" for P :: "rat \<Rightarrow> bool"
  proof -
    have "int (length (filter P xs)) \<le> int (length xs)" by simp
    also have "\<dots> \<le> 2 ^ 53" by (rule assms(2))
    finally show ?thesis .
  qed
  then show "0 \<le> dict_get (dd_positive s) k 0 \<and> dict_get (dd_positive s) k 0 \<le> 2 ^ 53"
    "0 \<le> dict_get (dd_negative s) k 0 \<and> dict_get (dd_negative s) k 0 \<le> 2 ^ 53"
    "0 \<le> dd_zero_count s" "dd_zero_count s \<le> 2 ^ 53"
    using assms(1) by (simp_all add: dd_holds_def)
qed

text \<open>The query ends in the position of the rank, never in the fallback after all buckets.\<close>

lemma dd_quantile_decode:
  assumes h: "dd_holds L xs s" and L: "libm_ok L" and xs: "xs \<noteq> []" "int (length xs) \<le> 2 ^ 53"
    and q: "is_double q" "0 < q" "q < 1"
  defines "r \<equiv> rnd (q * of_nat (length xs))"
  shows "dd_quantile L s (Fin q) = dd_decode L s (dd_positions s ! rank_at r)"
    and "rank_at r < length xs"
proof -
  let ?N = "expand (dd_negative s) (rev (sort (dict_keys (dd_negative s))))" and ?z = "dd_zero_count s"
    and ?P = "expand (dd_positive s) (sort (dict_keys (dd_positive s)))" and ?n = "int (length xs)"
  have cnt: "dd_count s = ?n" using h by (simp add: dd_holds_def)
  have n: "0 < ?n" "?n \<le> 2 ^ 53" using xs by simp_all
  have r: "rankish r" "0 < r" "r \<le> of_nat (length xs)" "f_mul (Fin q) (f_of_int ?n) = Fin r"
    using rank_bounds [OF q n] by (simp_all add: r_def)
  show "rank_at r < length xs" using rank_at_less [of r ?n] r by simp
  have len: "length ?N + nat ?z + length ?P = length xs"
    using arg_cong [OF dd_positions_eq [OF h L], of length] by (simp add: dd_positions_def)
  note c = dd_holds_counts [OF h xs(2)]
  note negw = dd_walk_expand [OF r(1,2), of "rev (sort (dict_keys (dd_negative s)))" "dd_negative s"]
  have start: "dd_quantile L s (Fin q) =
      (case dd_walk (dd_negative s) (rev (sort (dict_keys (dd_negative s)))) (Fin r) of
         Inl idx \<Rightarrow> rbind (dd_bucket_value L s idx) (\<lambda>v. Inr (f_neg v))
       | Inr rank1 \<Rightarrow> (let rank2 = f_sub rank1 (f_of_int ?z) in
            if f_le rank2 (Fin 0) then Inr (Fin 0)
            else case dd_walk (dd_positive s) (sort (dict_keys (dd_positive s))) rank2 of
                Inl idx \<Rightarrow> dd_bucket_value L s idx
              | Inr _ \<Rightarrow> Inr (dd_max s)))"
    using q xs r(4) by (simp add: dd_quantile_def cnt)
  show "dd_quantile L s (Fin q) = dd_decode L s (dd_positions s ! rank_at r)"
  proof (cases "r \<le> of_nat (length ?N)")
    case True
    have "rank_at r < length ?N" using rank_at_less [of r "int (length ?N)"] True r(2) by simp
    then have "dd_positions s ! rank_at r = (-1, - (?N ! rank_at r))"
      by (simp add: dd_positions_def nth_append)
    then show ?thesis using negw True c unfolding start by (simp add: dd_decode_def)
  next
    case False
    define r1 where "r1 = r - of_nat (length ?N)"
    have r1: "rankish r1" "0 < r1" "dd_walk (dd_negative s) (rev (sort (dict_keys (dd_negative s)))) (Fin r) = Inr (Fin r1)"
      using negw False c by (simp_all add: r1_def)
    have i1: "rank_at r = length ?N + rank_at r1"
      using rank_at_diff [of "int (length ?N)" r] False
      by (simp only: r1_def of_int_of_nat_eq nat_int) arith
    obtain r2 where r2: "f_sub (Fin r1) (f_of_int ?z) = Fin r2" "r2 \<le> 0 \<longleftrightarrow> r1 \<le> of_int ?z"
      "of_int ?z < r1 \<Longrightarrow> r2 = r1 - of_int ?z \<and> rankish r2"
      using rank_sub [OF r1(1) c(3,4)] by blast
    show ?thesis
    proof (cases "r1 \<le> of_int ?z")
      case True
      then have "rank_at r1 < nat ?z" using rank_at_less [OF r1(2)] by simp
      then have "dd_positions s ! rank_at r = (0, 0)" by (simp add: dd_positions_def nth_append i1)
      then show ?thesis using True r2 unfolding start r1(3) by (simp add: dd_decode_def)
    next
      case False
      then have e2: "r2 = r1 - of_int ?z" "rankish r2" "0 < r2" using r2 by auto
      have i2: "rank_at r1 = nat ?z + rank_at r2"
        using rank_at_diff [of ?z r1] False c(3) e2(1) by simp
      have "(of_nat (nat ?z) :: rat) = of_int ?z" using c(3) by simp
      then have "r2 \<le> of_nat (length ?P)"
        using r(3) unfolding e2(1) r1_def len [symmetric] by simp
      then have "dd_walk (dd_positive s) (sort (dict_keys (dd_positive s))) (Fin r2) = Inl (?P ! rank_at r2)"
        "rank_at r2 < length ?P"
        using dd_walk_expand [OF e2(2,3), of "sort (dict_keys (dd_positive s))" "dd_positive s"] c
          rank_at_less [OF e2(3), of "int (length ?P)"] by simp_all
      moreover from this have "dd_positions s ! rank_at r = (1, ?P ! rank_at r2)"
        by (simp add: dd_positions_def nth_append i1 i2)
      ultimately show ?thesis using e2 r2 unfolding start r1(3) by (simp add: dd_decode_def)
    qed
  qed
qed

section \<open>Accuracy\<close>

lemma is_double_grid: "is_double a \<Longrightarrow> \<exists>m. a = of_int m * 2 powi (-1074)"
proof (cases "a = 0")
  case False
  assume "is_double a"
  then have a: "a = of_int (round_half_even (a / 2 powi fexp a)) * 2 powi fexp a" (is "_ = of_int ?m * _")
    using rnd_scaled [OF False] by (simp add: is_double_def)
  have "fexp a + 1074 + -1074 = fexp a" by simp
  then have "(2 :: rat) powi fexp a = 2 powi (fexp a + 1074) * 2 powi (-1074)" by (metis powi2_add)
  also have "(2 :: rat) powi (fexp a + 1074) = of_int (2 ^ nat (fexp a + 1074))"
    by (rule powi2_nat) (simp add: fexp_def)
  finally have "a = of_int (?m * 2 ^ nat (fexp a + 1074)) * 2 powi (-1074)"
    using a by (metis mult.assoc of_int_mult)
  then show ?thesis by blast
qed (auto intro: exI [of _ 0])

text \<open>The difference of two floats is computed with relative error \<open>2 powi -53\<close>, however small it is.\<close>

lemma rnd_diff_error:
  assumes "is_double a" "is_double b"
  shows "\<bar>rnd (a - b) - (a - b)\<bar> \<le> \<bar>a - b\<bar> * 2 powi (-53)"
proof (cases "2 powi (-1022) \<le> \<bar>a - b\<bar>")
  case True
  then show ?thesis by (rule rnd_error)
next
  case False
  obtain m k where mk: "a = of_int m * 2 powi (-1074)" "b = of_int k * 2 powi (-1074)"
    using assms is_double_grid by metis
  then have d: "a - b = of_int (m - k) * 2 powi (-1074)" by (simp only: of_int_diff left_diff_distrib)
  have e: "(52 :: int) + -1074 = -1022" by simp
  have "\<bar>a - b\<bar> = of_int \<bar>m - k\<bar> * 2 powi (-1074)" unfolding d abs_mult by (simp only: of_int_abs abs_of_pos powi2_pos)
  moreover have "\<bar>a - b\<bar> < 2 powi 52 * 2 powi (-1074)" using False unfolding powi2_add [symmetric] e by (simp only: not_le)
  ultimately have "of_int \<bar>m - k\<bar> * 2 powi (-1074) < 2 powi 52 * (2 :: rat) powi (-1074)" by simp
  then have "(of_int \<bar>m - k\<bar> :: rat) < 2 powi 52" by (simp only: mult_less_cancel_right_pos powi2_pos)
  also have "\<dots> = of_int (2 ^ 52)" by simp
  finally have "\<bar>m - k\<bar> < 2 ^ 52" by (simp only: of_int_less_iff)
  then have "rnd (a - b) = a - b" by (intro rnd_dyadic [OF d]) simp_all
  then show ?thesis by simp
qed

lemma rnd_le_bound:
  assumes y: "0 \<le> y" and a: "2 powi (-1022) \<le> a" and le: "rnd y \<le> a"
  shows "y \<le> a * (1 + 2 powi (-52))"
proof (cases "y \<le> a")
  case True
  then show ?thesis using y by (simp add: distrib_left add_increasing2)
next
  case False
  then have "\<bar>rnd y - y\<bar> \<le> \<bar>y\<bar> * 2 powi (-53)" using a y by (intro rnd_error) simp
  then have "y - y * 2 powi (-53) \<le> rnd y" using y by (simp only: abs_of_nonneg abs_le_iff) linarith
  then have "y * (1 - 2 powi (-53)) \<le> rnd y" by (simp only: right_diff_distrib mult_1_right)
  then have "y * (1 - 2 powi (-53)) \<le> a" using le by simp
  moreover have "(1 :: rat) \<le> (1 - 2 powi (-53)) * (1 + 2 powi (-52))" by (simp add: power_int_minus field_simps)
  then have "y * 1 \<le> y * ((1 - 2 powi (-53)) * (1 + 2 powi (-52)))" using y by (rule mult_left_mono)
  moreover have "0 \<le> 1 + (2 :: rat) powi (-52)" by (simp add: power_int_minus)
  ultimately show ?thesis
    using mult_right_mono [of "y * (1 - 2 powi (-53))" a "1 + 2 powi (-52)"] by (simp add: mult.assoc)
qed

definition accuracy_slack :: rat where "accuracy_slack = 1 + 2 powi (-50)"

text \<open>An accepted number differs from the representative of its bucket by the relative accuracy.\<close>

lemma accuracy_arith:
  assumes rep: "is_double rep" and v: "is_double v" "0 < v" and a: "2 powi (-1022) \<le> a"
    and err: "rnd (\<bar>rnd (rep - v)\<bar> / v) \<le> a"
  shows "\<bar>rep - v\<bar> \<le> a * accuracy_slack * v"
proof -
  let ?d = "\<bar>rep - v\<bar>" and ?D = "\<bar>rnd (rep - v)\<bar>"
  have "?D / v \<le> a * (1 + 2 powi (-52))" using v a err by (intro rnd_le_bound) simp_all
  then have D: "?D \<le> a * (1 + 2 powi (-52)) * v" using v by (simp add: pos_divide_le_eq)
  have "?d - ?d * 2 powi (-53) \<le> ?D" using rnd_diff_error [OF rep v(1)] by linarith
  then have "?d * (1 - 2 powi (-53)) \<le> ?D" by (simp only: right_diff_distrib mult_1_right)
  then have "?d * (1 - 2 powi (-53)) \<le> a * (1 + 2 powi (-52)) * v" using D by simp
  moreover have "(1 + 2 powi (-52)) \<le> accuracy_slack * (1 - (2 :: rat) powi (-53))"
    by (simp add: accuracy_slack_def power_int_minus field_simps)
  then have "a * (1 + 2 powi (-52)) * v \<le> a * (accuracy_slack * (1 - 2 powi (-53))) * v"
    using a v powi2_pos [of "-1022"] by (intro mult_right_mono mult_left_mono) (auto simp del: powi2_pos)
  ultimately have "?d * (1 - 2 powi (-53)) \<le> (a * accuracy_slack * v) * (1 - 2 powi (-53))"
    by (simp add: ac_simps)
  moreover have "0 < 1 - (2 :: rat) powi (-53)" by (simp add: power_int_minus)
  ultimately show ?thesis by (simp only: mult_le_cancel_right_pos)
qed

lemma DBL_is_double: "is_double DBL_MAX" "is_double DBL_TRUE_MIN"
proof -
  have "rnd DBL_MAX = DBL_MAX" by (rule rnd_dyadic [of _ "2 ^ 53 - 1" 971]) (simp_all add: DBL_MAX_def)
  moreover have "\<bar>DBL_MAX\<bar> < 2 ^ 1024" by (simp add: DBL_MAX_def)
  ultimately show "is_double DBL_MAX" by (simp only: is_double_def)
  have "(2 :: rat) powi (-1074) < 2 powi 1024" by (simp only: powi2_less_iff)
  moreover have "(2 :: rat) powi 1024 = 2 ^ 1024" by (rule power_int_numeral)
  ultimately show "is_double DBL_TRUE_MIN"
    by (simp only: is_double_def DBL_TRUE_MIN_def rnd_powi abs_of_pos powi2_pos)
qed

lemma dd_bucket_not_NaN:
  assumes inv: "dd_inv L s" and L: "libm_ok L" and v: "0 < v" "dd_key L s (Fin v) = Inr k"
    and rep: "dd_bucket_value L s k = Inr rep"
  shows "rep \<noteq> NaN"
proof -
  obtain a where a: "rnd (1 / 10 ^ 6) \<le> a" "a < 1" "dd_gamma_of (Fin a) = Inr (dd_gamma s)"
    "py_log L (dd_gamma s) = Inr (dd_log_gamma s)" "f_div (Fin 1) (dd_log_gamma s) = Inr (dd_multiplier s)"
    using inv by (rule dd_inv_config)
  have "0 \<le> a" using a(1) rnd_nonneg [of "1 / 10 ^ 6"] by simp
  then consider "dd_gamma s = PInf" | g where "dd_gamma s = Fin g" "1 \<le> g"
    using dd_gamma_ge_1 [OF _ a(2,3)] by blast
  then have "\<exists>c p. f_div (Fin 2) (f_add (Fin 1) (dd_gamma s)) = Inr (Fin c) \<and>
      (py_pow L (dd_gamma s) k = Inr (Fin p) \<or> (\<exists>e. py_pow L (dd_gamma s) k = Inl (OverflowError e)))"
  proof cases
    case 1
    then have "dd_multiplier s = Fin 0" using a(4,5) by auto
    then have "k = 0" using v by (simp add: dd_key_def to_float_def)
    then have "py_pow L (dd_gamma s) k = Inr (Fin 1)"
      using L by (simp add: py_pow_def f_of_int_small libm_ok_def)
    then show ?thesis using 1 by simp
  next
    case (2 g)
    have p: "\<exists>p. py_pow L (dd_gamma s) k = Inr (Fin p) \<or> (\<exists>e. py_pow L (dd_gamma s) k = Inl (OverflowError e))"
    proof (cases "f_of_int k")
      case (Fin e)
      have "c_pow L (Fin g) e \<noteq> NaN" using L 2(2) by (simp add: libm_ok_def)
      then show ?thesis using 2 Fin by (cases "c_pow L (Fin g) e") (auto simp: py_pow_def)
    qed (auto simp: py_pow_def)
    have "\<exists>c. f_div (Fin 2) (f_add (Fin 1) (dd_gamma s)) = Inr (Fin c)"
    proof (cases rule: to_float_cases [of "1 + g"])
      case 1
      have "1 \<le> rnd (1 + g)" using 2(2) by (intro rnd_ge_1) simp
      then have "0 \<le> 2 / rnd (1 + g)" "2 / rnd (1 + g) \<le> 2" by (simp_all add: divide_le_eq)
      then have "0 \<le> rnd (2 / rnd (1 + g))" "rnd (2 / rnd (1 + g)) \<le> 2"
        using rnd_nonneg rnd_mono [of "2 / rnd (1 + g)" 2] rnd_int [of 2] by auto
      then have "to_float (2 / rnd (1 + g)) = Fin (rnd (2 / rnd (1 + g)))" by (intro to_float_Fin) simp
      then show ?thesis using 1 2 \<open>1 \<le> rnd (1 + g)\<close> by simp
    next
      case 3
      then show ?thesis using rnd_ge_1 [of "1 + g"] 2(2) by simp
    qed (use 2 in simp)
    with p show ?thesis by blast
  qed
  then show ?thesis using rep
    by (auto simp: dd_bucket_value_def Let_def split: if_splits)
      (metis f_mul.simps(1) pyfloat.distinct to_float_cases)+
qed

lemma dd_accepts_accuracy:
  assumes inv: "dd_inv L s" and L: "libm_ok L" and acc: "dd_accepts L s x" and x: "x \<noteq> 0" "is_double x"
    and a: "dd_alpha s = Fin a"
  shows "\<exists>rep. dd_bucket_value L s (dd_idx L s x) = Inr (Fin rep) \<and> \<bar>rep - \<bar>x\<bar>\<bar> \<le> a * accuracy_slack * \<bar>x\<bar>"
proof -
  let ?v = "\<bar>x\<bar>"
  have v: "0 < ?v" "is_double ?v" using x by (auto simp: is_double_def abs_if)
  note key = dd_accepts_key [OF acc x(1)]
  obtain k where "dd_index L s (Fin ?v) = Inr k" using acc x(1) by (auto simp: dd_accepts_def is_ok_iff)
  then obtain rep err where rep: "dd_bucket_value L s (dd_idx L s x) = Inr rep"
    and err: "f_div (f_abs (f_sub rep (Fin ?v))) (Fin ?v) = Inr err" "\<not> f_lt (Fin a) err"
    using key by (auto simp: dd_index_def rbind_eq_Inr raise_if_eq_Inr a)
  have "rep \<noteq> NaN" using dd_bucket_not_NaN [OF inv L v(1) key rep] .
  then obtain r where r: "rep = Fin r" using err v by (cases rep) (auto simp: f_sub_def)
  have rd: "is_double r"
    using rep DBL_is_double r by (auto simp: dd_bucket_value_def Let_def rbind_eq_Inr dest: f_mul_is_double
        split: sum.splits py_error.splits if_splits)
  have e: "rnd (\<bar>rnd (r - ?v)\<bar> / ?v) \<le> a"
    using err v rnd_nonneg [of "\<bar>rnd (r - ?v)\<bar> / ?v"] unfolding r f_sub_Fin
    by (cases rule: to_float_cases [of "r - ?v"]; cases rule: to_float_cases [of "\<bar>rnd (r - ?v)\<bar> / ?v"]) auto
  have "2 powi (-1022) \<le> a"
  proof -
    obtain a' where "dd_alpha s = Fin a'" "rnd (1 / 10 ^ 6) \<le> a'" using inv by (rule dd_inv_config)
    then have "rnd (1 / 10 ^ 6) \<le> a" using a by simp
    moreover have "(2 :: rat) powi (-1022) \<le> 2 powi (-20)" by (simp only: powi2_le_iff)
    moreover have "(2 :: rat) powi (-20) = rnd (2 powi (-20))" by (rule rnd_powi [symmetric]) simp
    moreover have "rnd (2 powi (-20)) \<le> rnd (1 / 10 ^ 6)" by (intro rnd_mono) (simp add: power_int_minus)
    ultimately show ?thesis by linarith
  qed
  then show ?thesis using accuracy_arith [OF rd v(2,1) _ e] rep r by blast
qed

lemma dd_quantile_sample:
  assumes h: "dd_holds L xs s" and L: "libm_ok L" and xs: "xs \<noteq> []" "int (length xs) \<le> 2 ^ 53"
    and doubles: "\<forall>x \<in> set xs. is_double x" and q: "is_double q" "0 < q" "q < 1" and a: "dd_alpha s = Fin a"
  shows "\<exists>v. dd_quantile L s (Fin q) = Inr (Fin v) \<and>
    (let x = sort xs ! rank_at (rnd (q * of_nat (length xs))) in \<bar>v - x\<bar> \<le> a * accuracy_slack * \<bar>x\<bar>)"
proof -
  define x where "x = sort xs ! rank_at (rnd (q * of_nat (length xs)))"
  note d = dd_quantile_decode [OF h L xs q]
  have mem: "x \<in> set xs" using d(2) nth_mem [of _ "sort xs"] by (simp add: x_def)
  have quant: "dd_quantile L s (Fin q) = dd_decode L s (dd_code L s x)"
    using d by (simp add: dd_positions_eq [OF h L] x_def)
  have inv: "dd_inv L s" and acc: "dd_accepts L s x" using h mem by (auto simp: dd_holds_def)
  have "\<exists>v. dd_decode L s (dd_code L s x) = Inr (Fin v) \<and> \<bar>v - x\<bar> \<le> a * accuracy_slack * \<bar>x\<bar>"
  proof (cases "x = 0")
    case False
    obtain rep where "dd_bucket_value L s (dd_idx L s x) = Inr (Fin rep)"
      "\<bar>rep - \<bar>x\<bar>\<bar> \<le> a * accuracy_slack * \<bar>x\<bar>"
      using dd_accepts_accuracy [OF inv L acc False _ a] doubles mem by blast
    then show ?thesis using False
      by (cases "x < 0") (simp_all add: dd_code_def dd_decode_def abs_minus_commute)
  qed (simp add: dd_code_def dd_decode_def)
  then show ?thesis unfolding quant by (simp add: x_def Let_def)
qed

section \<open>Counting above a threshold\<close>

lemma dd_sum_where_get:
  assumes "dict_ok d" shows "dd_sum_where P d = (\<Sum>k \<in> {k \<in> fst ` set d. P k}. dict_get d k 0)"
  using assms
proof (induction d)
  case (Cons p d)
  obtain k c where p: "p = (k, c)" by (cases p)
  have k: "k \<notin> fst ` set d" and ok: "dict_ok d" using Cons.prems by (auto simp: p)
  have sum: "(\<Sum>j \<in> {j \<in> fst ` set d. P j}. dict_get ((k, c) # d) j 0) = (\<Sum>j \<in> {j \<in> fst ` set d. P j}. dict_get d j 0)"
    using k by (intro sum.cong) auto
  have "{j \<in> fst ` set (p # d). P j} = (if P k then insert k {j \<in> fst ` set d. P j} else {j \<in> fst ` set d. P j})"
    by (auto simp: p)
  then show ?case using Cons.IH [OF ok] k sum by (auto simp: p dd_sum_where_def)
qed (simp add: dd_sum_where_def)

text \<open>Buckets selected by a condition hold exactly the samples whose bucket satisfies it.\<close>

lemma dd_sum_where_filter:
  assumes ok: "dict_ok d" and d: "\<And>k. dict_get d k 0 = int (length (filter (\<lambda>x. Q x \<and> f x = k) xs))"
  shows "dd_sum_where P d = int (length (filter (\<lambda>x. Q x \<and> P (f x)) xs))"
proof -
  have eq: "(\<Sum>k \<in> K. int (length (filter (\<lambda>x. Q x \<and> f x = k) ys))) = int (length (filter (\<lambda>x. Q x \<and> f x \<in> K) ys))"
    if K: "finite K" for K ys
  proof (induction ys)
    case (Cons y ys)
    have one: "(\<Sum>k \<in> K. if Q y \<and> f y = k then 1 else 0 :: int) = (if Q y \<and> f y \<in> K then 1 else 0)"
      using K by (cases "Q y") (simp_all add: sum.delta')
    have "(\<Sum>k \<in> K. int (length (filter (\<lambda>x. Q x \<and> f x = k) (y # ys)))) =
        (\<Sum>k \<in> K. (if Q y \<and> f y = k then 1 else 0) + int (length (filter (\<lambda>x. Q x \<and> f x = k) ys)))"
      by (intro sum.cong) auto
    then show ?case using Cons by (simp add: sum.distrib one)
  qed simp
  have "filter (\<lambda>x. Q x \<and> f x \<in> {k \<in> fst ` set d. P k}) xs = filter (\<lambda>x. Q x \<and> P (f x)) xs"
  proof (rule filter_cong [OF refl])
    fix x assume x: "x \<in> set xs"
    have "f x \<in> fst ` set d" if "Q x"
    proof (rule ccontr)
      assume "f x \<notin> fst ` set d"
      then have "dict_get d (f x) 0 = 0" by (rule dict_get_absent)
      then have "filter (\<lambda>y. Q y \<and> f y = f x) xs = []" using d [of "f x"] by simp
      with x that show False by (auto simp: filter_empty_conv)
    qed
    then show "(Q x \<and> f x \<in> {k \<in> fst ` set d. P k}) = (Q x \<and> P (f x))" by auto
  qed
  then show ?thesis
    unfolding dd_sum_where_get [OF ok] d using eq [of "{k \<in> fst ` set d. P k}" xs] by simp
qed

lemma dict_sum_where: "dict_sum d = dd_sum_where (\<lambda>_. True) d"
  by (simp add: dict_sum_def dd_sum_where_def)

lemma dd_holds_min_max:
  assumes "dd_init L alpha = Inr e" "rfold (dd_add L) (map (\<lambda>v. (v, 1)) vs) e = Inr s" "finites vs \<noteq> []"
  shows "dd_min s = Fin (Min (set (finites vs)))" "dd_max s = Fin (Max (set (finites vs)))"
proof -
  note i = dd_init_inv [OF assms(1)]
  have s: "s = dd_puts L (finites vs) e" using assms(2) i by (auto simp: dd_add_rfold_eq)
  have e: "dd_min e = PInf" "dd_max e = NInf"
    using assms(1) by (auto simp: dd_init_def raise_if_eq_Inr rbind_eq_Inr)
  have ext: "dd_min t = Fin a \<Longrightarrow> dd_min (dd_puts L xs t) = Fin (Min (insert a (set xs)))"
    "dd_max t = Fin a \<Longrightarrow> dd_max (dd_puts L xs t) = Fin (Max (insert a (set xs)))" for xs t a
  proof (induction xs arbitrary: t a)
    case (Cons x xs)
    {
      case 1
      have "dd_min (dd_put L x 1 t) = Fin (min a x)" using 1 by (simp add: dd_put_def)
      from Cons.IH(1) [OF this] show ?case by (cases "xs = []") (simp_all add: Min_insert min.assoc)
    next
      case 2
      have "dd_max (dd_put L x 1 t) = Fin (max a x)" using 2 by (simp add: dd_put_def)
      from Cons.IH(2) [OF this] show ?case by (cases "xs = []") (simp_all add: Max_insert max.assoc)
    }
  qed simp_all
  obtain x xs where xs: "finites vs = x # xs" using assms(3) by (cases "finites vs") auto
  have "dd_min (dd_put L x 1 e) = Fin x" "dd_max (dd_put L x 1 e) = Fin x" by (simp_all add: dd_put_def e)
  then show "dd_min s = Fin (Min (set (finites vs)))" "dd_max s = Fin (Max (set (finites vs)))"
    using ext by (simp_all add: s xs)
qed

lemma filter_len_mono:
  "(\<And>x. x \<in> set ys \<Longrightarrow> P x \<Longrightarrow> Q x) \<Longrightarrow> length (filter P ys) \<le> length (filter Q ys)"
  by (induction ys) auto

lemma filter_len_sides:
  "int (length (filter (\<lambda>x. x < 0 \<and> P x) ys)) + int (length (filter (\<lambda>x. x = 0) ys))
    + int (length (filter (\<lambda>x. 0 < x \<and> True) ys)) = int (length (filter (\<lambda>x. 0 \<le> x \<or> P x) ys))"
  for ys :: "rat list"
  by (induction ys) auto

lemma dd_holds_sums:
  assumes "dd_holds L xs s"
  shows "dd_sum_where P (dd_positive s) = int (length (filter (\<lambda>x. 0 < x \<and> P (dd_idx L s x)) xs))"
    "dd_sum_where P (dd_negative s) = int (length (filter (\<lambda>x. x < 0 \<and> P (dd_idx L s x)) xs))"
proof -
  have ok: "dict_ok (dd_positive s)" "dict_ok (dd_negative s)"
    using assms by (auto simp: dd_holds_def dd_inv_def bins_ok_def)
  show "dd_sum_where P (dd_positive s) = int (length (filter (\<lambda>x. 0 < x \<and> P (dd_idx L s x)) xs))"
    using assms by (intro dd_sum_where_filter [OF ok(1)]) (simp add: dd_holds_def)
  show "dd_sum_where P (dd_negative s) = int (length (filter (\<lambda>x. x < 0 \<and> P (dd_idx L s x)) xs))"
    using assms by (intro dd_sum_where_filter [OF ok(2)]) (simp add: dd_holds_def)
qed

text \<open>The buckets that the two loops of the query select cover all samples above the threshold.\<close>

lemma dd_above_negative:
  assumes h: "dd_holds L xs s" and L: "libm_ok L" and t: "t < 0" and k: "dd_key L s (Fin (- t)) = Inr k"
  shows "int (length (filter (\<lambda>x. t < x) xs)) \<le>
    dd_sum_where (\<lambda>i. i \<le> k) (dd_negative s) + dd_zero_count s + dict_sum (dd_positive s)"
    and "dd_sum_where (\<lambda>i. i \<le> k) (dd_negative s) + dd_zero_count s + dict_sum (dd_positive s) \<le> int (length xs)"
proof -
  have inv: "dd_inv L s" and acc: "\<And>x. x \<in> set xs \<Longrightarrow> dd_accepts L s x"
    and zc: "dd_zero_count s = int (length (filter (\<lambda>x. x = 0) xs))" using h by (auto simp: dd_holds_def)
  have "dd_idx L s x \<le> k" if "x \<in> set xs" "t < x" "x < 0" for x
    using dd_key_mono [OF inv L _ _ dd_accepts_key [OF acc] k, of x] that by simp
  then have "length (filter (\<lambda>x. t < x) xs) \<le> length (filter (\<lambda>x. 0 \<le> x \<or> dd_idx L s x \<le> k) xs)"
    by (intro filter_len_mono) force
  then show "int (length (filter (\<lambda>x. t < x) xs)) \<le>
      dd_sum_where (\<lambda>i. i \<le> k) (dd_negative s) + dd_zero_count s + dict_sum (dd_positive s)"
    and "dd_sum_where (\<lambda>i. i \<le> k) (dd_negative s) + dd_zero_count s + dict_sum (dd_positive s) \<le> int (length xs)"
    using filter_len_sides [of "\<lambda>x. dd_idx L s x \<le> k" xs] by (simp_all add: dict_sum_where dd_holds_sums [OF h] zc)
qed

lemma dd_above_positive:
  assumes h: "dd_holds L xs s" and L: "libm_ok L" and t: "0 < t" and k: "dd_key L s (Fin t) = Inr k"
  shows "int (length (filter (\<lambda>x. t < x) xs)) \<le> dd_sum_where (\<lambda>i. k \<le> i) (dd_positive s)"
    and "dd_sum_where (\<lambda>i. k \<le> i) (dd_positive s) \<le> int (length xs)"
proof -
  have inv: "dd_inv L s" and acc: "\<And>x. x \<in> set xs \<Longrightarrow> dd_accepts L s x" using h by (auto simp: dd_holds_def)
  have "k \<le> dd_idx L s x" if "x \<in> set xs" "t < x" for x
    using dd_key_mono [OF inv L _ _ k dd_accepts_key [OF acc], of x] that t by simp
  then have "length (filter (\<lambda>x. t < x) xs) \<le> length (filter (\<lambda>x. 0 < x \<and> k \<le> dd_idx L s x) xs)"
    using t by (intro filter_len_mono) force
  then show "int (length (filter (\<lambda>x. t < x) xs)) \<le> dd_sum_where (\<lambda>i. k \<le> i) (dd_positive s)"
    and "dd_sum_where (\<lambda>i. k \<le> i) (dd_positive s) \<le> int (length xs)"
    by (simp_all add: dd_holds_sums [OF h])
qed

lemma dd_count_greater_bounds:
  assumes e: "dd_init L (Fin a) = Inr e" and s: "rfold (dd_add L) (map (\<lambda>v. (v, 1)) vs) e = Inr s"
    and L: "libm_ok L"
  shows "case dd_count_greater_than L s (Fin t) of
     Inr n \<Rightarrow> int (length (filter (\<lambda>x. t < x) (finites vs))) \<le> n \<and> n \<le> int (length (finites vs))
   | Inl err \<Rightarrow> dd_key L s (Fin \<bar>t\<bar>) = Inl err"
proof -
  let ?xs = "finites vs"
  have h: "dd_holds L ?xs s" using dd_holds_ingest [OF e s] .
  then have cnt: "dd_count s = int (length ?xs)" by (simp add: dd_holds_def)
  show ?thesis
  proof (cases "?xs = []")
    case True
    then show ?thesis using cnt by (simp add: dd_count_greater_than_def)
  next
    case False
    note mm = dd_holds_min_max [OF e s False]
    have empty: "filter (\<lambda>x. t < x) ?xs = []" if "Max (set ?xs) \<le> t"
      using that by (auto simp: filter_empty_conv not_less intro: order_trans [OF Max_ge])
    consider "Max (set ?xs) \<le> t \<or> t < Min (set ?xs)" | "t < 0" | "t = 0" | "0 < t" by linarith
    then show ?thesis
    proof cases
      case 1
      then show ?thesis using False cnt mm empty by (auto simp: dd_count_greater_than_def)
    next
      case 2
      then show ?thesis using False cnt mm empty dd_above_negative [OF h L 2]
        by (cases "dd_key L s (Fin (- t))") (simp_all add: dd_count_greater_than_def)
    next
      case 3
      then show ?thesis using False cnt mm empty
        by (simp add: dd_count_greater_than_def dict_sum_where dd_holds_sums [OF h])
    next
      case 4
      then show ?thesis using False cnt mm empty dd_above_positive [OF h L 4]
        by (cases "dd_key L s (Fin t)") (simp_all add: dd_count_greater_than_def)
    qed
  qed
qed

section \<open>Properties\<close>

text \<open>
  C2: The quantile query is accurate.  After any accepted stream of up to \<open>2 ^ 53\<close> finite values, the
  query for \<open>0 < q < 1\<close> returns a number, and that number differs from the sample of rank
  \<open>\<lceil>q n\<rceil>\<close> (the rank as the program computes it, in floating point) by at most the configured relative
  accuracy, up to a factor \<open>1 + 2 powi -50\<close> for the rounding of the program's own accuracy check.
\<close>

theorem dd_quantile_accurate:
  assumes "dd_init L (Fin a) = Inr e" and "rfold (dd_add L) (map (\<lambda>v. (v, 1)) vs) e = Inr s"
    and "libm_ok L" and "finites vs \<noteq> []" and "int (length (finites vs)) \<le> 2 ^ 53"
    and "\<forall>x \<in> set (finites vs). is_double x" and "is_double q" and "0 < q" and "q < 1"
  shows "\<exists>v. dd_quantile L s (Fin q) = Inr (Fin v) \<and>
    (let x = sort (finites vs) ! rank_at (rnd (q * of_nat (length (finites vs))))
     in \<bar>v - x\<bar> \<le> a * accuracy_slack * \<bar>x\<bar>)"
proof -
  have "dd_reset s = dd_reset e"
    using assms(2) dd_init_inv [OF assms(1)] by (auto simp: dd_add_rfold_eq dd_puts_frame)
  then have "dd_alpha s = dd_alpha e" by (cases s; cases e) (simp add: dd_reset_def)
  then have "dd_alpha s = Fin a" using dd_init_inv [OF assms(1)] by simp
  then show ?thesis using dd_quantile_sample [OF dd_holds_ingest [OF assms(1,2)] assms(3-9)] by blast
qed

text \<open>
  The count above a threshold is a conservative upper bound.  When the query returns, the result
  is at least the number of samples above the threshold and at most the number of all samples; the
  query raises only when the bucket of the threshold itself cannot be computed.
\<close>

lemma dd_count_greater_conservative:
  assumes e: "dd_init L (Fin a) = Inr e" and s: "rfold (dd_add L) (map (\<lambda>v. (v, 1)) vs) e = Inr s"
    and L: "libm_ok L"
  shows "case dd_count_greater_than L s (Fin t) of
     Inr n \<Rightarrow> int (length (filter (\<lambda>x. t < x) (finites vs))) \<le> n \<and> n \<le> int (length (finites vs))
   | Inl err \<Rightarrow> dd_key L s (Fin \<bar>t\<bar>) = Inl err"
  by (rule dd_count_greater_bounds [OF assms])

lemma demo_samples:
  obtains e s where "dd_init libm_demo (Fin (1/2)) = Inr e"
    "rfold (dd_add libm_demo) (map (\<lambda>v. (v, 1)) [Fin 1, NaN, Fin 2]) e = Inr s"
proof -
  have "is_ok (rbind (dd_init libm_demo (Fin (1/2)))
      (rfold (dd_add libm_demo) (map (\<lambda>v. (v, 1)) [Fin 1, NaN, Fin 2])))"
    by code_simp
  then show ?thesis using that by (auto simp: is_ok_iff rbind_eq_Inr)
qed

theorem dd_quantile_accurate_witness:
  "\<exists>e s v. dd_init libm_demo (Fin (1/2)) = Inr e
    \<and> rfold (dd_add libm_demo) (map (\<lambda>v. (v, 1)) [Fin 1, NaN, Fin 2]) e = Inr s
    \<and> dd_quantile libm_demo s (Fin (1/2)) = Inr (Fin v)
    \<and> (let x = sort [1, 2] ! rank_at (rnd (1/2 * 2)) in \<bar>v - x\<bar> \<le> 1/2 * accuracy_slack * \<bar>x\<bar>)"
proof -
  obtain e s where es: "dd_init libm_demo (Fin (1/2)) = Inr e"
    "rfold (dd_add libm_demo) (map (\<lambda>v. (v, 1)) [Fin 1, NaN, Fin 2]) e = Inr s" by (rule demo_samples)
  have "is_double 1" "is_double 2" using rnd_int [of 1] rnd_int [of 2] by (simp_all add: is_double_def)
  moreover have "is_double (1/2)" using rnd_powi [of "-1"] by (simp add: is_double_def)
  ultimately show ?thesis using dd_quantile_accurate [OF es libm_ok_demo, of "1/2"] es by auto
qed

end
