(* ===== verification/Slo.thy ===== *)
theory Slo
  imports Stream_Laws DDQuantile
begin

text \<open>
  Service-level objectives derived from history (\<^verbatim>\<open>slo.py\<close>): the latency target is a percentile of
  the historical log, and the burn rate compares the share of slower requests with the budget.
\<close>

section \<open>Definitions\<close>

record slo_report =
  slo_target_percentile :: pyfloat
  slo_target_latency :: pyfloat
  slo_budget_percent :: pyfloat
  slo_current_events :: int
  slo_current_errors :: int
  slo_current_error_rate :: pyfloat
  slo_burn_rate :: pyfloat
  slo_is_alerting :: bool

definition in_unit :: "pyfloat \<Rightarrow> bool" where
  "in_unit x \<longleftrightarrow> f_lt (Fin 0) x \<and> f_lt x (Fin 1)"

definition slo_evaluate :: "libm \<Rightarrow> stream \<Rightarrow> stream \<Rightarrow> pyfloat \<Rightarrow> pyfloat \<Rightarrow> slo_report result" where
  "slo_evaluate L current_stream historical_stream target_percentile budget_percent =
    raise_if (\<not> in_unit target_percentile) (ValueError ''target_percentile must be in (0, 1)'')
   (raise_if (\<not> in_unit budget_percent) (ValueError ''budget_percent must be in (0, 1)'')
   (let historical_count = st_latency_count historical_stream; current_count = st_latency_count current_stream in
    raise_if (historical_count = 0) (ValueError ''Baseline stream has no latency events to derive target.'')
   (rbind (st_percentile L historical_stream target_percentile) (\<lambda>target.
    rbind (st_count_greater_than L current_stream target) (\<lambda>errors.
    let rate = (if current_count > 0 then to_float (of_int errors / of_int current_count) else Fin 0) in
    rbind (f_div rate budget_percent) (\<lambda>burn.
    Inr \<lparr>slo_target_percentile = target_percentile, slo_target_latency = target, slo_budget_percent = budget_percent,
         slo_current_events = current_count, slo_current_errors = errors, slo_current_error_rate = rate,
         slo_burn_rate = burn, slo_is_alerting = f_lt (Fin 1) burn\<rparr>))))))"

record slo_target =
  rec_target_percentile :: pyfloat
  rec_target_latency :: pyfloat
  rec_budget_percent :: pyfloat

definition slo_recommend :: "libm \<Rightarrow> stream \<Rightarrow> pyfloat \<Rightarrow> pyfloat \<Rightarrow> slo_target result" where
  "slo_recommend L historical_stream target_percentile budget_percent =
    raise_if (\<not> in_unit target_percentile) (ValueError ''target_percentile must be in (0, 1)'')
   (raise_if (\<not> in_unit budget_percent) (ValueError ''budget_percent must be in (0, 1)'')
   (raise_if (st_latency_count historical_stream = 0) (ValueError ''Baseline stream has no latency events to derive target.'')
   (rbind (st_percentile L historical_stream target_percentile) (\<lambda>target.
    Inr \<lparr>rec_target_percentile = target_percentile, rec_target_latency = target, rec_budget_percent = budget_percent\<rparr>))))"

section \<open>From streams to samples\<close>

definition samples :: "sl_op list \<Rightarrow> rat list" where
  "samples ops = finites (concat (map op_values ops))"

lemma st_ingest_latency:
  assumes "rfold (st_apply L) ops e = Inr s" "st_inv L e"
  shows "dd_ingest L (concat (map op_values ops)) (sl_latency (st_backend e)) = Inr (sl_latency (st_backend s))"
  using assms
proof (induction ops arbitrary: e)
  case (Cons op ops)
  obtain u where u: "st_apply L op e = Inr u" "rfold (st_apply L) ops u = Inr s"
    using Cons.prems(1) by (auto simp: rbind_eq_Inr)
  have "sl_apply L op (st_backend e) = Inr (st_backend u)" using u(1) by (auto simp: st_apply_lift st_lift_eq_Inr)
  then have "dd_ingest L (op_values op) (sl_latency (st_backend e)) = Inr (sl_latency (st_backend u))"
    unfolding sl_apply_eq [OF st_inv_backend [OF Cons.prems(2)]] by auto
  then show ?case
    using Cons.IH [OF u(2)] st_apply_inv [OF Cons.prems(2) u(1)] by (simp add: rfold_append)
qed simp

lemma st_init_latency: "st_init L a p w d det = Inr e \<Longrightarrow> dd_init L a = Inr (sl_latency (st_backend e))"
  by (auto simp: st_init_def sl_init_def rbind_eq_Inr raise_if_eq_Inr)

lemma st_samples_hold:
  assumes "st_init L a p w d det = Inr e" "rfold (st_apply L) ops e = Inr s"
  shows "dd_holds L (samples ops) (sl_latency (st_backend s)) \<and> dd_alpha (sl_latency (st_backend s)) = a"
proof -
  note i = st_init_inv [OF assms(1)]
  note g = st_ingest_latency [OF assms(2) i [THEN conjunct1]]
  have "dd_holds L (samples ops) (sl_latency (st_backend s))"
    unfolding samples_def by (rule dd_holds_ingest [OF st_init_latency [OF assms(1)] g])
  moreover have "st_relative_accuracy s = st_relative_accuracy e"
    using st_ingest_inv [OF assms] by (cases s; cases e) (auto simp: st_reset_def)
  then have "dd_alpha (sl_latency (st_backend s)) = a"
    using st_ingest_inv [OF assms] assms(1) by (auto simp: st_inv_def st_init_def rbind_eq_Inr)
  ultimately show ?thesis by simp
qed

section \<open>Properties\<close>

text \<open>
  C37: The objective is derived faithfully and errors are never under-reported.  For logs that have
  ingested any accepted calls, the evaluation returns a report or stops because the bucket of the
  target cannot be computed; the target lies within the relative accuracy of the historical sample
  of the requested rank, the reported errors are at least the current samples above the target and at
  most all of them, and the alert is raised exactly when the burn rate exceeds one.
\<close>

theorem slo_evaluate_sound:
  assumes hist: "st_init L (Fin a) p w d det = Inr e" "rfold (st_apply L) hops e = Inr historical"
    and cur: "st_init L (Fin b) p' w' d' det' = Inr e'" "rfold (st_apply L) cops e' = Inr current"
    and L: "libm_ok L" and n: "samples hops \<noteq> []" "int (length (samples hops)) \<le> 2 ^ 53" "\<forall>x \<in> set (samples hops). is_double x"
    and q: "is_double q" "0 < q" "q < 1" and budget: "0 < c" "c < 1"
  shows "\<exists>t. \<bar>t - sort (samples hops) ! rank_at (rnd (q * of_nat (length (samples hops))))\<bar>
        \<le> a * accuracy_slack * \<bar>sort (samples hops) ! rank_at (rnd (q * of_nat (length (samples hops))))\<bar>
    \<and> (case slo_evaluate L current historical (Fin q) (Fin c) of
        Inr r \<Rightarrow> slo_target_latency r = Fin t \<and> slo_current_events r = int (length (samples cops))
          \<and> int (length (filter (\<lambda>x. t < x) (samples cops))) \<le> slo_current_errors r
          \<and> slo_current_errors r \<le> slo_current_events r
          \<and> (slo_is_alerting r \<longleftrightarrow> f_lt (Fin 1) (slo_burn_rate r))
          \<and> (samples cops = [] \<longrightarrow> \<not> slo_is_alerting r)
      | Inl err \<Rightarrow> dd_key L (sl_latency (st_backend current)) (Fin \<bar>t\<bar>) = Inl err)"
proof -
  note h = st_samples_hold [OF hist] and k = st_samples_hold [OF cur]
  obtain t where t: "dd_quantile L (sl_latency (st_backend historical)) (Fin q) = Inr (Fin t)"
    "\<bar>t - sort (samples hops) ! rank_at (rnd (q * of_nat (length (samples hops))))\<bar>
        \<le> a * accuracy_slack * \<bar>sort (samples hops) ! rank_at (rnd (q * of_nat (length (samples hops))))\<bar>"
    using dd_quantile_sample [OF h [THEN conjunct1] L n q h [THEN conjunct2]] by (auto simp: Let_def)
  have hc: "st_latency_count historical \<noteq> 0" and cc: "st_latency_count current = int (length (samples cops))"
    using h k n(1) by (auto simp: st_latency_count_def sl_latency_count_def dd_holds_def)
  have g: "dd_ingest L (concat (map op_values cops)) (sl_latency (st_backend e')) = Inr (sl_latency (st_backend current))"
    using st_ingest_latency [OF cur(2)] st_init_inv [OF cur(1)] by blast
  note above = dd_count_greater_bounds [OF st_init_latency [OF cur(1)] g L, of t, folded samples_def]
  have unit: "in_unit (Fin q)" "in_unit (Fin c)" using q budget by (simp_all add: in_unit_def)
  have none: "\<not> f_lt (Fin 1) burn" if "f_div (Fin 0) (Fin c) = Inr burn" for burn
    using that budget to_float_double [of 0] by (auto simp: is_double_def)
  show ?thesis
  proof (cases "dd_count_greater_than L (sl_latency (st_backend current)) (Fin t)")
    case (Inl err)
    then have "slo_evaluate L current historical (Fin q) (Fin c) = Inl err"
      using unit hc by (simp add: slo_evaluate_def Let_def st_percentile_def sl_percentile_def t(1)
          st_count_greater_than_def sl_count_greater_than_def)
    then show ?thesis using above Inl t(2) by auto
  next
    case (Inr errors)
    define rate where "rate = (if st_latency_count current > 0 then to_float (of_int errors / of_int (st_latency_count current)) else Fin 0)"
    obtain burn where burn: "f_div rate (Fin c) = Inr burn" using budget by (cases rate) auto
    have ev: "slo_evaluate L current historical (Fin q) (Fin c) = Inr \<lparr>slo_target_percentile = Fin q, slo_target_latency = Fin t,
        slo_budget_percent = Fin c, slo_current_events = st_latency_count current, slo_current_errors = errors,
        slo_current_error_rate = rate, slo_burn_rate = burn, slo_is_alerting = f_lt (Fin 1) burn\<rparr>"
      using unit hc burn Inr by (simp add: slo_evaluate_def Let_def st_percentile_def sl_percentile_def t(1)
          st_count_greater_than_def sl_count_greater_than_def rate_def [symmetric] del: f_div.simps)
    have "\<not> f_lt (Fin 1) burn" if "samples cops = []"
    proof -
      have "rate = Fin 0" using that by (simp add: rate_def cc)
      then show ?thesis using none burn by blast
    qed
    then show ?thesis using above Inr t(2) ev cc by auto
  qed
qed

theorem slo_evaluate_sound_witness:
  "\<exists>e s t. st_init libm_demo (Fin (1/2)) 4 2 1 False = Inr e
    \<and> rfold (st_apply libm_demo) [AddLatency (Fin 1), AddLatency (Fin 2)] e = Inr s
    \<and> (case slo_evaluate libm_demo s s (Fin (1/2)) (Fin (1/4)) of
        Inr r \<Rightarrow> slo_target_latency r = Fin t \<and> slo_current_events r = 2 \<and> slo_current_errors r \<le> 2
      | Inl err \<Rightarrow> dd_key libm_demo (sl_latency (st_backend s)) (Fin \<bar>t\<bar>) = Inl err)"
proof -
  have "is_ok (rbind (st_init libm_demo (Fin (1/2)) 4 2 1 False) (rfold (st_apply libm_demo) [AddLatency (Fin 1), AddLatency (Fin 2)]))"
    by code_simp
  then obtain e s where es: "st_init libm_demo (Fin (1/2)) 4 2 1 False = Inr e"
    "rfold (st_apply libm_demo) [AddLatency (Fin 1), AddLatency (Fin 2)] e = Inr s"
    unfolding is_ok_iff rbind_eq_Inr by blast
  have smp: "samples [AddLatency (Fin 1), AddLatency (Fin 2)] = [1, 2]" by (simp add: samples_def finites_def)
  have d: "is_double 1" "is_double 2" using rnd_int [of 1] rnd_int [of 2] by (simp_all add: is_double_def)
  then have "\<forall>x \<in> set [1, 2]. is_double x" by simp
  moreover have "is_double (1/2)" using rnd_powi [of "-1"] by (simp add: is_double_def)
  ultimately obtain t where
    "case slo_evaluate libm_demo s s (Fin (1/2)) (Fin (1/4)) of
        Inr r \<Rightarrow> slo_target_latency r = Fin t \<and> slo_current_events r = int (length [1, 2 :: rat])
          \<and> int (length (filter (\<lambda>x. t < x) [1, 2])) \<le> slo_current_errors r \<and> slo_current_errors r \<le> slo_current_events r
          \<and> (slo_is_alerting r \<longleftrightarrow> f_lt (Fin 1) (slo_burn_rate r)) \<and> ([1, 2 :: rat] = [] \<longrightarrow> \<not> slo_is_alerting r)
      | Inl err \<Rightarrow> dd_key libm_demo (sl_latency (st_backend s)) (Fin \<bar>t\<bar>) = Inl err"
    using slo_evaluate_sound [OF es es libm_ok_demo, of "1/2" "1/4", unfolded smp] by fastforce
  then have "case slo_evaluate libm_demo s s (Fin (1/2)) (Fin (1/4)) of
        Inr r \<Rightarrow> slo_target_latency r = Fin t \<and> slo_current_events r = 2 \<and> slo_current_errors r \<le> 2
      | Inl err \<Rightarrow> dd_key libm_demo (sl_latency (st_backend s)) (Fin \<bar>t\<bar>) = Inl err"
    by (cases "slo_evaluate libm_demo s s (Fin (1/2)) (Fin (1/4))") simp_all
  with es show ?thesis by blast
qed

end
