(* ===== verification/Diff.thy ===== *)
theory Diff
  imports Stream_Laws StateResult
begin

text \<open>
  Comparison of two logs (\<^verbatim>\<open>diff.py\<close>): the cumulative distribution read off the latency sketch, the
  Kolmogorov-Smirnov statistic and the Wasserstein distance.  The ASCII plot is not modelled.
\<close>

section \<open>Definitions\<close>

type_synonym cdf = "(pyfloat \<times> pyfloat) list"

definition cdf_bucket_value :: "libm \<Rightarrow> pyfloat \<Rightarrow> int \<Rightarrow> pyfloat result" where
  "cdf_bucket_value L gamma idx =
    (case rbind (f_div (Fin 2) (f_add (Fin 1) gamma)) (\<lambda>c. rbind (py_pow L gamma idx) (\<lambda>p. Inr (f_mul c p))) of
       Inl (OverflowError _) \<Rightarrow> Inr (if idx > 0 then Fin DBL_MAX else Fin 0)
     | r \<Rightarrow> r)"

fun insort_asc :: "('a \<Rightarrow> pyfloat) \<Rightarrow> 'a \<Rightarrow> 'a list \<Rightarrow> 'a list" where
  "insort_asc key x [] = [x]"
| "insort_asc key x (y # ys) = (if f_lt (key y) (key x) then y # insort_asc key x ys else x # y # ys)"

definition sort_asc :: "('a \<Rightarrow> pyfloat) \<Rightarrow> 'a list \<Rightarrow> 'a list" where
  "sort_asc key xs = foldr (insort_asc key) xs []"

fun cdf_sums :: "int \<Rightarrow> pyfloat \<Rightarrow> (pyfloat \<times> int) list \<Rightarrow> cdf result" where
  "cdf_sums tot cum [] = Inr []"
| "cdf_sums tot cum ((val, count) # ps) =
    (let cum' = f_add cum (f_of_int count) in
     rbind (f_div cum' (f_of_int tot)) (\<lambda>p. rbind (cdf_sums tot cum' ps) (\<lambda>rest. Inr ((val, p) # rest))))"

definition cdf_points :: "libm \<Rightarrow> pyfloat \<Rightarrow> ddsketch \<Rightarrow> (pyfloat \<times> int) list result" where
  "cdf_points L gamma s =
    rbind (rmap (\<lambda>(k, n). rbind (cdf_bucket_value L gamma k) (\<lambda>v. Inr (f_neg v, n))) (dd_negative s)) (\<lambda>neg.
    rbind (rmap (\<lambda>(k, n). rbind (cdf_bucket_value L gamma k) (\<lambda>v. Inr (v, n))) (dd_positive s)) (\<lambda>pos.
    Inr (neg @ (if dd_zero_count s > 0 then [(Fin 0, dd_zero_count s)] else []) @ pos)))"

definition get_cdf :: "libm \<Rightarrow> stream \<Rightarrow> cdf result" where
  "get_cdf L stream = (let state = sl_latency (st_backend stream) in
    if dd_count state = 0 then Inr []
    else rbind (f_div (f_add (Fin 1) (dd_alpha state)) (f_sub (Fin 1) (dd_alpha state))) (\<lambda>gamma.
      rbind (cdf_points L gamma state) (\<lambda>points. cdf_sums (dd_count state) (Fin 0) (sort_asc fst points))))"

definition all_vals :: "cdf \<Rightarrow> cdf \<Rightarrow> pyfloat list" where
  "all_vals c1 c2 = sort_asc id (remdups (map fst c1 @ map fst c2))"

text \<open>The inner loops: move along a distribution up to \<open>v\<close>.\<close>

fun advance :: "cdf \<Rightarrow> pyfloat \<Rightarrow> pyfloat \<Rightarrow> pyfloat \<times> cdf" where
  "advance [] v p = (p, [])"
| "advance ((x, q) # c) v p = (if f_le x v then advance c v q else (p, (x, q) # c))"

fun ks_loop :: "pyfloat list \<Rightarrow> cdf \<Rightarrow> pyfloat \<Rightarrow> cdf \<Rightarrow> pyfloat \<Rightarrow> pyfloat \<Rightarrow> pyfloat" where
  "ks_loop [] c1 p1 c2 p2 max_diff = max_diff"
| "ks_loop (v # vs) c1 p1 c2 p2 max_diff =
    (case advance c1 v p1 of (p1', c1') \<Rightarrow> case advance c2 v p2 of (p2', c2') \<Rightarrow>
     let diff = f_abs (f_sub p1' p2') in
     ks_loop vs c1' p1' c2' p2' (if f_lt max_diff diff then diff else max_diff))"

definition ks_statistic :: "cdf \<Rightarrow> cdf \<Rightarrow> pyfloat" where
  "ks_statistic c1 c2 =
    (if c1 = [] \<and> c2 = [] then Fin 0 else if c1 = [] \<or> c2 = [] then Fin 1
     else ks_loop (all_vals c1 c2) c1 (Fin 0) c2 (Fin 0) (Fin 0))"

fun wd_loop :: "pyfloat list \<Rightarrow> pyfloat \<Rightarrow> cdf \<Rightarrow> pyfloat \<Rightarrow> cdf \<Rightarrow> pyfloat \<Rightarrow> pyfloat \<Rightarrow> pyfloat" where
  "wd_loop [] prev c1 p1 c2 p2 w = w"
| "wd_loop (v # vs) prev c1 p1 c2 p2 w =
    (let w' = f_add w (f_mul (f_abs (f_sub p1 p2)) (f_sub v prev)) in
     case advance c1 v p1 of (p1', c1') \<Rightarrow> case advance c2 v p2 of (p2', c2') \<Rightarrow>
     wd_loop vs v c1' p1' c2' p2' w')"

definition wasserstein_distance :: "cdf \<Rightarrow> cdf \<Rightarrow> pyfloat" where
  "wasserstein_distance c1 c2 = (if c1 = [] \<and> c2 = [] then Fin 0
     else case all_vals c1 c2 of [] \<Rightarrow> Fin 0 | v # vs \<Rightarrow> wd_loop (v # vs) v c1 (Fin 0) c2 (Fin 0) (Fin 0))"

record sketch_diff =
  sd_cdf1 :: cdf
  sd_cdf2 :: cdf

definition sketch_diff_init :: "libm \<Rightarrow> stream \<Rightarrow> stream \<Rightarrow> sketch_diff result" where
  "sketch_diff_init L stream1 stream2 = rbind (get_cdf L stream1) (\<lambda>c1. rbind (get_cdf L stream2) (\<lambda>c2.
     Inr \<lparr>sd_cdf1 = c1, sd_cdf2 = c2\<rparr>))"

section \<open>The distribution as a function\<close>

text \<open>The value of the step function at \<open>v\<close>: the probability of the last point that is not above \<open>v\<close>.\<close>

definition cdf_at :: "pyfloat \<Rightarrow> cdf \<Rightarrow> pyfloat \<Rightarrow> pyfloat" where
  "cdf_at p c v = (case filter (\<lambda>(x, q). f_le x v) c of [] \<Rightarrow> p | xs \<Rightarrow> snd (last xs))"

definition cdf_sorted :: "cdf \<Rightarrow> bool" where
  "cdf_sorted c \<longleftrightarrow> (\<forall>(x, q) \<in> set c. x \<noteq> NaN) \<and> sorted_wrt (\<lambda>a b. f_le (fst a) (fst b)) c"

lemma f_le_trans: "f_le x y \<Longrightarrow> f_le y z \<Longrightarrow> f_le x z"
  by (cases x; cases y; cases z) (auto simp: f_le_def)

lemma f_not_le: "x \<noteq> NaN \<Longrightarrow> y \<noteq> NaN \<Longrightarrow> \<not> f_le x y \<longleftrightarrow> f_lt y x"
  by (cases x; cases y) (auto simp: f_le_def)

lemma f_not_lt: "x \<noteq> NaN \<Longrightarrow> y \<noteq> NaN \<Longrightarrow> \<not> f_lt x y \<longleftrightarrow> f_le y x"
  by (cases x; cases y) (auto simp: f_le_def)

lemma advance_later:
  assumes "f_le v v'" "advance c v p = (p', c')" shows "advance c' v' p' = advance c v' p"
  using assms by (induction c v p rule: advance.induct) (auto split: if_splits dest: f_le_trans)

lemma advance_value:
  assumes "cdf_sorted c" "v \<noteq> NaN" shows "fst (advance c v p) = cdf_at p c v"
  using assms
proof (induction c v p rule: advance.induct)
  case (2 x q c v p)
  have c: "cdf_sorted c" using "2.prems" by (simp add: cdf_sorted_def)
  show ?case
  proof (cases "f_le x v")
    case True
    then show ?thesis using "2.IH" [OF True c "2.prems"(2)] by (auto simp: cdf_at_def split: list.splits)
  next
    case False
    have "\<not> f_le y v" if "(y, r) \<in> set c" for y r
      using that False "2.prems" f_le_trans [of x y v] by (auto simp: cdf_sorted_def)
    then have "filter (\<lambda>(x, q). f_le x v) ((x, q) # c) = []" using False by (auto simp: filter_empty_conv)
    then show ?thesis using False by (simp add: cdf_at_def)
  qed
qed (simp add: cdf_at_def)

definition ks_reference :: "cdf \<Rightarrow> cdf \<Rightarrow> pyfloat list \<Rightarrow> pyfloat \<Rightarrow> pyfloat" where
  "ks_reference c1 c2 vs m = foldl (\<lambda>m v. f_max m (f_abs (f_sub (cdf_at (Fin 0) c1 v) (cdf_at (Fin 0) c2 v)))) m vs"

lemma ks_loop_eq:
  assumes "sorted_wrt f_le vs" "\<forall>v \<in> set vs. v \<noteq> NaN" "cdf_sorted c1" "cdf_sorted c2"
    "\<forall>v \<in> set vs. advance r1 v p1 = advance c1 v (Fin 0)" "\<forall>v \<in> set vs. advance r2 v p2 = advance c2 v (Fin 0)"
  shows "ks_loop vs r1 p1 r2 p2 m = ks_reference c1 c2 vs m"
  using assms
proof (induction vs arbitrary: r1 p1 r2 p2 m)
  case (Cons v vs)
  obtain p1' r1' p2' r2' where a: "advance r1 v p1 = (p1', r1')" "advance r2 v p2 = (p2', r2')" by fastforce
  have p: "p1' = cdf_at (Fin 0) c1 v" "p2' = cdf_at (Fin 0) c2 v"
    using a Cons.prems advance_value [of c1 v "Fin 0"] advance_value [of c2 v "Fin 0"] by auto
  have "\<forall>u \<in> set vs. advance r1' u p1' = advance c1 u (Fin 0)" "\<forall>u \<in> set vs. advance r2' u p2' = advance c2 u (Fin 0)"
    using Cons.prems advance_later [OF _ a(1)] advance_later [OF _ a(2)] by auto
  then have "ks_loop vs r1' p1' r2' p2' k = ks_reference c1 c2 vs k" for k using Cons.prems by (intro Cons.IH) auto
  then show ?case by (simp add: a ks_reference_def p f_max_def)
qed (simp add: ks_reference_def)

lemma set_insort_asc [simp]: "set (insort_asc key x xs) = insert x (set xs)"
  by (induction xs) auto

lemma set_sort_asc [simp]: "set (sort_asc key xs) = set xs"
  unfolding sort_asc_def by (induction xs) auto

lemma insort_asc_sorted:
  assumes "sorted_wrt (\<lambda>a b. f_le (key a) (key b)) xs" "\<forall>y \<in> set (x # xs). key y \<noteq> NaN"
  shows "sorted_wrt (\<lambda>a b. f_le (key a) (key b)) (insort_asc key x xs)"
  using assms
proof (induction xs)
  case (Cons y ys)
  show ?case
  proof (cases "f_lt (key y) (key x)")
    case True
    then show ?thesis using Cons by (auto simp: f_le_def)
  next
    case False
    then have "f_le (key x) (key y)" using Cons.prems(2) f_not_lt [of "key y" "key x"] by simp
    then show ?thesis using Cons.prems(1) False f_le_trans by auto
  qed
qed simp

lemma sort_asc_sorted:
  assumes "\<forall>y \<in> set xs. key y \<noteq> NaN" shows "sorted_wrt (\<lambda>a b. f_le (key a) (key b)) (sort_asc key xs)"
  using assms
proof (induction xs)
  case (Cons x xs)
  then show ?case
    using insort_asc_sorted [of key "sort_asc key xs" x] by (simp add: sort_asc_def) (simp add: sort_asc_def [symmetric])
qed (simp add: sort_asc_def)

lemma all_vals_props:
  assumes "cdf_sorted c1" "cdf_sorted c2"
  shows "sorted_wrt f_le (all_vals c1 c2)" "\<forall>v \<in> set (all_vals c1 c2). v \<noteq> NaN" "set (all_vals c1 c2) = fst ` set c1 \<union> fst ` set c2"
proof -
  show set: "set (all_vals c1 c2) = fst ` set c1 \<union> fst ` set c2" by (simp add: all_vals_def)
  show "\<forall>v \<in> set (all_vals c1 c2). v \<noteq> NaN" unfolding set using assms by (auto simp: cdf_sorted_def)
  then show "sorted_wrt f_le (all_vals c1 c2)"
    using sort_asc_sorted [of "remdups (map fst c1 @ map fst c2)" id] by (simp add: all_vals_def)
qed

section \<open>The statistic\<close>

definition prob_ok :: "pyfloat \<Rightarrow> bool" where
  "prob_ok p \<longleftrightarrow> (\<exists>q. p = Fin q \<and> 0 \<le> q \<and> q \<le> 1)"

lemma prob_diff:
  assumes "prob_ok p" "prob_ok q" shows "prob_ok (f_abs (f_sub p q))" "f_abs (f_sub p q) = f_abs (f_sub q p)"
proof -
  obtain a b where ab: "p = Fin a" "0 \<le> a" "a \<le> 1" "q = Fin b" "0 \<le> b" "b \<le> 1" using assms by (auto simp: prob_ok_def)
  have r: "\<bar>rnd (a - b)\<bar> \<le> 1"
    using rnd_mono [of "a - b" 1] rnd_mono [of "- 1" "a - b"] rnd_int [of 1] ab by simp
  have lt: "\<bar>rnd (a - b)\<bar> < 2 ^ 1024" using r by simp
  have neg: "rnd (b - a) = - rnd (a - b)" using rnd_uminus [of "a - b"] by simp
  have lt': "\<bar>rnd (b - a)\<bar> < 2 ^ 1024" using lt unfolding neg abs_minus_cancel .
  have "to_float (a - b) = Fin (rnd (a - b))" "to_float (b - a) = Fin (rnd (b - a))"
    by (rule to_float_Fin [OF lt], rule to_float_Fin [OF lt'])
  then show "prob_ok (f_abs (f_sub p q))" "f_abs (f_sub p q) = f_abs (f_sub q p)"
    using ab(1,4) r neg by (simp_all add: f_sub_def prob_ok_def)
qed

lemma cdf_at_ok:
  assumes "\<forall>(x, q) \<in> set c. prob_ok q" shows "prob_ok (cdf_at (Fin 0) c v)"
proof (cases "filter (\<lambda>(x, q). f_le x v) c")
  case Nil
  then show ?thesis by (simp add: cdf_at_def prob_ok_def)
next
  case (Cons y ys)
  then have "last (y # ys) \<in> set c" using last_in_set [of "y # ys"] by (metis filter_is_subset list.simps(3) subsetD)
  then have "prob_ok (snd (last (y # ys)))" using assms by (metis (mono_tags) case_prodD prod.collapse)
  then show ?thesis unfolding cdf_at_def Cons by simp
qed

abbreviation cdf_gap :: "cdf \<Rightarrow> cdf \<Rightarrow> pyfloat \<Rightarrow> pyfloat" where
  "cdf_gap c1 c2 v \<equiv> f_abs (f_sub (cdf_at (Fin 0) c1 v) (cdf_at (Fin 0) c2 v))"

definition cdf_ok :: "cdf \<Rightarrow> bool" where
  "cdf_ok c \<longleftrightarrow> cdf_sorted c \<and> (\<forall>(x, q) \<in> set c. prob_ok q)"

lemma cdf_gap_ok: "cdf_ok c1 \<Longrightarrow> cdf_ok c2 \<Longrightarrow> prob_ok (cdf_gap c1 c2 v) \<and> cdf_gap c1 c2 v = cdf_gap c2 c1 v"
  using prob_diff cdf_at_ok unfolding cdf_ok_def by blast

lemma prob_le: "prob_ok x \<Longrightarrow> f_le x x" "prob_ok x \<Longrightarrow> prob_ok y \<Longrightarrow> f_le x y \<Longrightarrow> f_le y x \<Longrightarrow> x = y"
  by (auto simp: prob_ok_def)

lemma ks_reference_max:
  assumes "cdf_ok c1" "cdf_ok c2" "prob_ok m"
  shows "prob_ok (ks_reference c1 c2 vs m) \<and> f_le m (ks_reference c1 c2 vs m)
    \<and> (\<forall>v \<in> set vs. f_le (cdf_gap c1 c2 v) (ks_reference c1 c2 vs m))
    \<and> (ks_reference c1 c2 vs m = m \<or> (\<exists>v \<in> set vs. ks_reference c1 c2 vs m = cdf_gap c1 c2 v))"
  using assms(3)
proof (induction vs arbitrary: m)
  case Nil
  then show ?case by (simp add: ks_reference_def prob_le)
next
  case (Cons u vs)
  let ?m = "f_max m (cdf_gap c1 c2 u)"
  have g: "prob_ok (cdf_gap c1 c2 u)" using cdf_gap_ok [OF assms(1,2)] by blast
  then have m: "prob_ok ?m" "f_le m ?m" "f_le (cdf_gap c1 c2 u) ?m" "?m = m \<or> ?m = cdf_gap c1 c2 u"
    using Cons.prems by (auto simp: f_max_def prob_ok_def f_le_def)
  have eq: "ks_reference c1 c2 (u # vs) m = ks_reference c1 c2 vs ?m" by (simp add: ks_reference_def)
  define k where "k = ks_reference c1 c2 vs ?m"
  have k: "prob_ok k" "f_le ?m k" "\<forall>v \<in> set vs. f_le (cdf_gap c1 c2 v) k" "k = ?m \<or> (\<exists>v \<in> set vs. k = cdf_gap c1 c2 v)"
    using Cons.IH [OF m(1)] by (simp_all add: k_def)
  have "f_le m k" "f_le (cdf_gap c1 c2 u) k" using f_le_trans [OF m(2) k(2)] f_le_trans [OF m(3) k(2)] .
  then show ?case unfolding eq k_def [symmetric] using k m(4) by auto
qed

lemma ks_statistic_eq:
  assumes "cdf_ok c1" "cdf_ok c2" "c1 \<noteq> []" "c2 \<noteq> []"
  shows "ks_statistic c1 c2 = ks_reference c1 c2 (all_vals c1 c2) (Fin 0)"
proof -
  have s: "cdf_sorted c1" "cdf_sorted c2" using assms(1,2) by (auto simp: cdf_ok_def)
  show ?thesis unfolding ks_statistic_def using assms(3,4) all_vals_props [OF s] s by (simp add: ks_loop_eq)
qed

section \<open>Properties\<close>

text \<open>
  The two-pointer computation of the Kolmogorov-Smirnov statistic is the largest gap between the
  two step functions, it lies between 0 and 1, does not depend on the order of the arguments, and is
  0 for equal distributions.
\<close>

lemma ks_is_largest_gap:
  assumes "cdf_ok c1" "cdf_ok c2" "c1 \<noteq> []" "c2 \<noteq> []"
  shows "prob_ok (ks_statistic c1 c2)
    \<and> (\<forall>v \<in> fst ` set c1 \<union> fst ` set c2. f_le (cdf_gap c1 c2 v) (ks_statistic c1 c2))
    \<and> (ks_statistic c1 c2 = Fin 0 \<or> (\<exists>v \<in> fst ` set c1 \<union> fst ` set c2. ks_statistic c1 c2 = cdf_gap c1 c2 v))
    \<and> ks_statistic c1 c2 = ks_statistic c2 c1 \<and> ks_statistic c1 c1 = Fin 0"
proof -
  have z: "prob_ok (Fin 0)" by (simp add: prob_ok_def)
  have max: "prob_ok (ks_statistic a b) \<and> (\<forall>v \<in> fst ` set a \<union> fst ` set b. f_le (cdf_gap a b v) (ks_statistic a b))
    \<and> (ks_statistic a b = Fin 0 \<or> (\<exists>v \<in> fst ` set a \<union> fst ` set b. ks_statistic a b = cdf_gap a b v))"
    if "cdf_ok a" "cdf_ok b" "a \<noteq> []" "b \<noteq> []" for a b
    using ks_reference_max [OF that(1,2) z, of "all_vals a b"] all_vals_props(3) [of a b] that
    by (simp add: ks_statistic_eq cdf_ok_def)
  have le: "f_le (ks_statistic a b) (ks_statistic b a)" if ab: "cdf_ok a" "cdf_ok b" "a \<noteq> []" "b \<noteq> []" for a b
  proof -
    consider "ks_statistic a b = Fin 0" | v where "v \<in> fst ` set b \<union> fst ` set a" "ks_statistic a b = cdf_gap b a v"
      using max [OF ab] cdf_gap_ok [OF ab(1,2)] by auto
    then show ?thesis
    proof cases
      case 1
      then show ?thesis using max [OF ab(2,1,4,3)] by (auto simp: prob_ok_def)
    next
      case 2
      then show ?thesis using max [OF ab(2,1,4,3)] by metis
    qed
  qed
  have sym: "ks_statistic c1 c2 = ks_statistic c2 c1"
    using max [OF assms] max [OF assms(2,1,4,3)] le [OF assms] le [OF assms(2,1,4,3)] by (blast intro: prob_le(2))
  have "cdf_gap c1 c1 v = Fin 0" for v
    using cdf_at_ok [of c1 v] assms(1) to_float_double [of 0] by (auto simp: cdf_ok_def prob_ok_def f_sub_def is_double_def)
  then have "ks_statistic c1 c1 = Fin 0" using max [OF assms(1,1,3,3)] by auto
  then show ?thesis using max [OF assms] sym by blast
qed

section \<open>Shape of the distribution\<close>

lemma cdf_sums_shape:
  assumes "cdf_sums tot (Fin (of_int m)) ps = Inr c" "0 \<le> m" "\<forall>(v, n) \<in> set ps. 0 \<le> n"
    "m + sum_list (map snd ps) = tot" "0 < tot" "tot \<le> 2 ^ 53"
  shows "map fst c = map fst ps \<and> (\<forall>(x, q) \<in> set c. prob_ok q) \<and> (ps \<noteq> [] \<longrightarrow> snd (last c) = Fin 1)
    \<and> sorted_wrt (\<lambda>a b. f_le (snd a) (snd b)) c \<and> (\<forall>(x, q) \<in> set c. f_le (Fin (rnd (of_int m / of_int tot))) q)"
  using assms
proof (induction ps arbitrary: m c)
  case (Cons p ps)
  obtain v n where p: "p = (v, n)" by (cases p)
  have n: "0 \<le> n" "0 \<le> sum_list (map snd ps)" using Cons.prems(3) by (auto simp: p case_prod_unfold intro!: sum_list_nonneg)
  have mn: "m + n \<le> tot" "0 \<le> m + n" using Cons.prems n by (simp_all add: p)
  have "f_of_int n = Fin (of_int n)" using n mn Cons.prems by (intro f_of_int_small) simp
  moreover have "to_float (of_int m + of_int n) = Fin (of_int (m + n))"
    using f_of_int_small [of "m + n"] mn Cons.prems(6) by (simp add: f_of_int_def)
  moreover have t: "f_of_int tot = Fin (of_int tot)" using Cons.prems by (intro f_of_int_small) simp
  ultimately obtain q rest where q: "f_div (Fin (of_int (m + n))) (Fin (of_int tot)) = Inr q"
    "cdf_sums tot (Fin (of_int (m + n))) ps = Inr rest" "c = (v, q) # rest"
    using Cons.prems(1) by (auto simp: p Let_def rbind_eq_Inr simp del: f_div.simps)
  define r where "r = (of_int (m + n) / of_int tot :: rat)"
  have r: "0 \<le> r" "r \<le> 1" using mn Cons.prems(5) by (simp_all add: r_def)
  have r': "0 \<le> rnd r" "rnd r \<le> 1" using rnd_nonneg [OF r(1)] rnd_mono [OF r(2)] rnd_int [of 1] by simp_all
  have qr: "q = Fin (rnd r)" using q(1) Cons.prems(5) r' to_float_Fin [of r] by (simp add: r_def)
  note IH = Cons.IH [OF q(2) mn(2)]
  have I: "map fst rest = map fst ps" "\<forall>(x, q) \<in> set rest. prob_ok q" "ps \<noteq> [] \<longrightarrow> snd (last rest) = Fin 1"
    "sorted_wrt (\<lambda>a b. f_le (snd a) (snd b)) rest" "\<forall>(x, q) \<in> set rest. f_le (Fin (rnd r)) q"
    using IH Cons.prems by (auto simp: p r_def)
  have "ps = [] \<longrightarrow> rest = [] \<and> r = 1" using I(1) Cons.prems(4,5) by (auto simp: p r_def)
  moreover have low: "rnd (of_int m / of_int tot) \<le> rnd r" using n(1) Cons.prems(5) by (intro rnd_mono) (simp add: r_def divide_right_mono)
  then have "f_le (Fin (rnd (of_int m / of_int tot))) x" if "f_le (Fin (rnd r)) x" for x
    using f_le_trans [OF _ that] by simp
  ultimately show ?case using I r' low rnd_int [of 1] by (auto simp: q(3) qr p prob_ok_def)
qed simp

lemma insort_asc_sum: "sum_list (map (snd :: 'a \<times> int \<Rightarrow> int) (insort_asc key x xs)) = snd x + sum_list (map snd xs)"
  by (induction xs) auto

lemma sort_asc_sum: "sum_list (map (snd :: 'a \<times> int \<Rightarrow> int) (sort_asc key xs)) = sum_list (map snd xs)"
proof (induction xs)
  case (Cons x xs)
  then show ?case using insort_asc_sum [of key x "sort_asc key xs"] by (simp add: sort_asc_def)
qed (simp add: sort_asc_def)

lemma rmap_counts:
  assumes "rmap (\<lambda>(k, n). rbind (f k) (\<lambda>v. Inr (g v, n))) d = Inr ps" shows "map snd ps = map snd d"
  using assms by (induction d arbitrary: ps) (auto simp: rbind_eq_Inr)

lemma cdf_points_counts:
  assumes "cdf_points L gamma s = Inr ps" "dd_inv L s"
  shows "sum_list (map snd ps) = dd_count s \<and> (\<forall>(v, n) \<in> set ps. 0 \<le> n)"
proof -
  obtain neg pos where np: "rmap (\<lambda>(k, n). rbind (cdf_bucket_value L gamma k) (\<lambda>v. Inr (f_neg v, n))) (dd_negative s) = Inr neg"
    "rmap (\<lambda>(k, n). rbind (cdf_bucket_value L gamma k) (\<lambda>v. Inr (v, n))) (dd_positive s) = Inr pos"
    "ps = neg @ (if dd_zero_count s > 0 then [(Fin 0, dd_zero_count s)] else []) @ pos"
    using assms(1) by (auto simp: cdf_points_def rbind_eq_Inr)
  have snds: "map snd neg = map snd (dd_negative s)" "map snd pos = map snd (dd_positive s)"
    using rmap_counts [of _ f_neg, OF np(1)] rmap_counts [of _ id, unfolded id_apply, OF np(2)] .
  have z: "0 \<le> dd_zero_count s" and b: "bins_ok (dd_positive s)" "bins_ok (dd_negative s)"
    and c: "dd_count s = dd_zero_count s + dict_sum (dd_positive s) + dict_sum (dd_negative s)"
    using assms(2) by (auto simp: dd_inv_def)
  have "sum_list (map snd ps) = dd_count s" using z c by (simp add: np(3) snds dict_sum_def)
  moreover have "\<forall>n \<in> set (map snd (dd_negative s)) \<union> set (map snd (dd_positive s)). 0 \<le> n"
    using b by (force simp: bins_ok_def)
  then have "\<forall>n \<in> set (map snd ps). 0 \<le> n" using z unfolding np(3) map_append snds by auto
  ultimately show ?thesis by auto
qed

text \<open>
  The distribution read off a log is a distribution function: for up to \<open>2 ^ 53\<close> latencies the
  values ascend, the probabilities lie between 0 and 1 and never decrease, and the last one is exactly 1;
  it is empty only for a log without latencies.
\<close>

lemma get_cdf_is_distribution:
  assumes "st_init L a p w d det = Inr e" "rfold (st_apply L) ops e = Inr s" "get_cdf L s = Inr c"
    "st_latency_count s \<le> 2 ^ 53" "\<forall>(x, q) \<in> set c. x \<noteq> NaN"
  shows "cdf_ok c \<and> sorted_wrt (\<lambda>a b. f_le (snd a) (snd b)) c \<and> (c = [] \<longleftrightarrow> st_latency_count s = 0)
    \<and> (c \<noteq> [] \<longrightarrow> snd (last c) = Fin 1)"
proof -
  let ?d = "sl_latency (st_backend s)"
  have inv: "dd_inv L ?d" using st_ingest_inv [OF assms(1,2)] by (simp add: st_inv_def sl_inv_def)
  have cnt: "st_latency_count s = dd_count ?d" by (simp add: st_latency_count_def sl_latency_count_def)
  show ?thesis
  proof (cases "dd_count ?d = 0")
    case True
    then show ?thesis using assms(3) by (simp add: get_cdf_def cnt cdf_ok_def cdf_sorted_def)
  next
    case False
    obtain gamma ps where g: "cdf_points L gamma ?d = Inr ps" "cdf_sums (dd_count ?d) (Fin 0) (sort_asc fst ps) = Inr c"
      using assms(3) False by (auto simp: get_cdf_def Let_def rbind_eq_Inr)
    note P = cdf_points_counts [OF g(1) inv]
    have pos: "0 < dd_count ?d"
      using False inv bins_ok_sum [of "dd_positive ?d"] bins_ok_sum [of "dd_negative ?d"] by (simp add: dd_inv_def)
    have S: "map fst c = map fst (sort_asc fst ps) \<and> (\<forall>(x, q) \<in> set c. prob_ok q) \<and> (sort_asc fst ps \<noteq> [] \<longrightarrow> snd (last c) = Fin 1)
      \<and> sorted_wrt (\<lambda>a b. f_le (snd a) (snd b)) c"
      using cdf_sums_shape [of "dd_count ?d" 0 "sort_asc fst ps" c] g(2) P pos assms(4) sort_asc_sum [of fst ps]
      by (simp add: cnt)
    have "fst ` set c = fst ` set ps" using S by (metis set_map set_sort_asc)
    moreover have "\<forall>x \<in> fst ` set c. x \<noteq> NaN" using assms(5) by auto
    ultimately have "\<forall>y \<in> set ps. fst y \<noteq> NaN" by auto
    then have "sorted_wrt (\<lambda>a b. f_le (fst a) (fst b)) (sort_asc fst ps)" by (rule sort_asc_sorted)
    then have "sorted_wrt f_le (map fst c)" using S by (simp add: sorted_wrt_map)
    then have "sorted_wrt (\<lambda>a b. f_le (fst a) (fst b)) c" by (simp only: sorted_wrt_map)
    then have "cdf_ok c" using S assms(5) by (simp add: cdf_ok_def cdf_sorted_def)
    moreover have "sort_asc fst ps \<noteq> []" using P pos sort_asc_sum [of fst ps] by auto
    moreover have "c \<noteq> []" using S calculation(2) by auto
    ultimately show ?thesis using S False cnt by simp
  qed
qed

end
