(* ===== verification/Json_Text.thy ===== *)
theory Json_Text
  imports PyValue
begin

text \<open>
  The text that \<^verbatim>\<open>json.dumps\<close> writes, of which the mesh limits the length and compares the keys:
  escaped strings, shortest decimal notation of floats, lists and objects with the given separators.
  A character is a code point below 256.  Reading back is modelled for the one text the mesh reads,
  a list of two strings.
\<close>

section \<open>Strings\<close>

definition hex_char :: "nat \<Rightarrow> char" where
  "hex_char n = char_of (if n < 10 then 48 + n else 87 + n)"

definition hex_value :: "char \<Rightarrow> nat option" where
  "hex_value c = (let n = of_char c :: nat in
     if 48 \<le> n \<and> n \<le> 57 then Some (n - 48) else if 97 \<le> n \<and> n \<le> 102 then Some (n - 87)
     else if 65 \<le> n \<and> n \<le> 70 then Some (n - 55) else None)"

text \<open>The short escapes, as pairs of the letter and the code point.\<close>

definition short_escapes :: "(char \<times> nat) list" where
  "short_escapes = [(CHR 0x22, 34), (CHR 0x5C, 92), (CHR ''b'', 8), (CHR ''f'', 12), (CHR ''n'', 10), (CHR ''r'', 13), (CHR ''t'', 9)]"

definition json_char :: "char \<Rightarrow> string" where
  "json_char c = (let n = of_char c :: nat in
     case map_of (map (\<lambda>(e, m). (m, e)) short_escapes) n of
       Some e \<Rightarrow> [CHR 0x5C, e]
     | None \<Rightarrow> if 32 \<le> n \<and> n < 127 then [c]
               else [CHR 0x5C, CHR ''u'', CHR ''0'', CHR ''0'', hex_char (n div 16), hex_char (n mod 16)])"

definition json_string :: "string \<Rightarrow> string" where
  "json_string s = CHR 0x22 # concat (map json_char s) @ [CHR 0x22]"

text \<open>Reading the inside of a string up to its closing quote: the text and what follows it.\<close>

fun json_unescape :: "string \<Rightarrow> (string \<times> string) option" where
  "json_unescape [] = None"
| "json_unescape (c # cs) =
    (if c = CHR 0x22 then Some ([], cs)
     else if c = CHR 0x5C then (case cs of
         [] \<Rightarrow> None
       | e # r \<Rightarrow>
          (if e = CHR ''u'' then (case r of
             a # b # h # l # r' \<Rightarrow> (case (hex_value a, hex_value b, hex_value h, hex_value l) of
                (Some 0, Some 0, Some x, Some y) \<Rightarrow> map_option (apfst (Cons (char_of (16 * x + y)))) (json_unescape r')
              | _ \<Rightarrow> None)
           | _ \<Rightarrow> None)
           else if e = CHR 0x2F then map_option (apfst (Cons e)) (json_unescape r)
           else (case map_of short_escapes e of
              Some m \<Rightarrow> map_option (apfst (Cons (char_of m))) (json_unescape r)
            | None \<Rightarrow> None)))
     else if (of_char c :: nat) < 32 then None
     else map_option (apfst (Cons c)) (json_unescape cs))"

section \<open>Shortest decimal notation\<close>

text \<open>The position of the decimal point of a positive number: \<open>10 powi (k - 1) \<le> q < 10 powi k\<close>.\<close>

definition dec_point :: "rat \<Rightarrow> int" where
  "dec_point q = (if 1 \<le> q then int (length (nat_str (nat \<lfloor>q\<rfloor>)))
     else 1 - int (length (nat_str (nat (\<lceil>1 / q\<rceil> - 1)))))"

text \<open>The number with \<open>n\<close> significant digits next to \<open>q\<close> that reads back as \<open>q\<close>, the closer one of two.\<close>

definition near_digits :: "rat \<Rightarrow> nat \<Rightarrow> int option" where
  "near_digits q n = (let u = 10 powi (dec_point q - int n); x = q / u;
     lo = \<lfloor>x\<rfloor>; hi = \<lceil>x\<rceil>; back = (\<lambda>m. to_float (of_int m * u) = Fin q) in
     if back lo \<and> (\<not> back hi \<or> x - of_int lo < of_int hi - x \<or> (x - of_int lo = of_int hi - x \<and> even lo)) then Some lo
     else if back hi then Some hi else None)"

fun first_digits :: "rat \<Rightarrow> nat list \<Rightarrow> int option" where
  "first_digits q [] = None"
| "first_digits q (n # ns) = (case near_digits q n of Some m \<Rightarrow> Some m | None \<Rightarrow> first_digits q ns)"

definition exponent_str :: "int \<Rightarrow> string" where
  "exponent_str e = (if e < 0 then ''e-'' else ''e+'') @
     (if \<bar>e\<bar> < 10 then ''0'' else []) @ nat_str (nat \<bar>e\<bar>)"

definition pos_repr :: "rat \<Rightarrow> string" where
  "pos_repr q = (let k = dec_point q;
     ds = (case first_digits q [1..<18] of Some m \<Rightarrow> nat_str (nat m) | None \<Rightarrow> []) in
     if k - 1 < - 4 \<or> 16 \<le> k - 1 then
       take 1 ds @ (if length ds \<le> 1 then [] else CHR ''.'' # drop 1 ds) @ exponent_str (k - 1)
     else if k \<le> 0 then ''0.'' @ replicate (nat (- k)) (CHR ''0'') @ ds
     else if int (length ds) \<le> k then ds @ replicate (nat k - length ds) (CHR ''0'') @ ''.0''
     else take (nat k) ds @ CHR ''.'' # drop (nat k) ds)"

definition float_repr :: "pyfloat \<Rightarrow> string" where
  "float_repr f = (case f of
     Fin q \<Rightarrow> if q = 0 then ''0.0'' else if q < 0 then CHR ''-'' # pos_repr (- q) else pos_repr q
   | PInf \<Rightarrow> ''Infinity'' | NInf \<Rightarrow> ''-Infinity'' | NaN \<Rightarrow> ''NaN'')"

section \<open>Values\<close>

text \<open>Keys of an object are strings, or integers written as strings.\<close>

fun json_key_text :: "pyval \<Rightarrow> string" where
  "json_key_text (PInt n) = json_string (int_str n)"
| "json_key_text (PStr s) = json_string s"
| "json_key_text _ = []"

fun json_text :: "string \<Rightarrow> string \<Rightarrow> pyval \<Rightarrow> string" where
  "json_text is ks PNone = ''null''"
| "json_text is ks (PBool b) = (if b then ''true'' else ''false'')"
| "json_text is ks (PInt n) = int_str n"
| "json_text is ks (PFloat f) = float_repr f"
| "json_text is ks (PStr s) = json_string s"
| "json_text is ks (PList xs) = CHR ''['' # py_join is (map (json_text is ks) xs) @ '']''"
| "json_text is ks (PDict d) = CHR 0x7B # py_join is (map (\<lambda>(k, v). json_key_text k @ ks @ json_text is ks v) d) @ [CHR 0x7D]"

fun json_finite :: "pyval \<Rightarrow> bool" where
  "json_finite (PFloat f) = f_isfinite f"
| "json_finite (PList xs) = list_all json_finite xs"
| "json_finite (PDict d) = list_all (\<lambda>(k, v). json_finite v) d"
| "json_finite _ = True"

text \<open>The length of the compact text, and the compact text with \<^verbatim>\<open>allow_nan=False\<close>.\<close>

definition json_compact :: "pyval \<Rightarrow> string" where
  "json_compact v = json_text '','' '':'' v"

definition json_len :: "pyval \<Rightarrow> int" where
  "json_len v = int (length (json_compact v))"

definition json_bytes :: "pyval \<Rightarrow> string result" where
  "json_bytes v = raise_if (\<not> json_finite v) (ValueError ''Out of range float values are not JSON compliant'')
     (Inr (json_compact v))"

text \<open>A dictionary with string keys, and a list of strings, as values.\<close>

definition obj :: "(string, pyval) dict \<Rightarrow> pyval" where
  "obj d = PDict (map (\<lambda>(k, v). (PStr k, v)) d)"

definition strs :: "string list \<Rightarrow> pyval" where
  "strs xs = PList (map PStr xs)"

section \<open>Reading back what was written\<close>

lemma hex_round: "n < 16 \<Longrightarrow> hex_value (hex_char n) = Some n"
  by (auto simp: hex_value_def hex_char_def Let_def of_char_of)

lemma json_char_cases:
  obtains (short) e m where "json_char c = [CHR 0x5C, e]" "map_of short_escapes e = Some m" "char_of m = c" "e \<noteq> CHR ''u''" "e \<noteq> CHR 0x2F"
  | (plain) "json_char c = [c]" "c \<noteq> CHR 0x22" "c \<noteq> CHR 0x5C" "32 \<le> (of_char c :: nat)"
  | (hex) "json_char c = [CHR 0x5C, CHR ''u'', CHR ''0'', CHR ''0'', hex_char (of_char c div 16), hex_char (of_char c mod 16)]"
proof -
  define n where "n = (of_char c :: nat)"
  have c: "char_of n = c" by (simp add: n_def)
  let ?m = "map_of (map (\<lambda>(e, m). (m, e)) short_escapes) n"
  show thesis
  proof (cases ?m)
    case (Some e)
    then have "json_char c = [CHR 0x5C, e]" by (simp add: json_char_def n_def [symmetric])
    moreover have "map_of short_escapes e = Some n \<and> e \<noteq> CHR ''u'' \<and> e \<noteq> CHR 0x2F"
      using Some by (auto simp: short_escapes_def split: if_splits)
    ultimately show thesis using c by (intro short) auto
  next
    case None
    then have n: "n \<noteq> 34" "n \<noteq> 92" by (auto simp: short_escapes_def split: if_splits)
    have j: "json_char c = (if 32 \<le> n \<and> n < 127 then [c]
        else [CHR 0x5C, CHR ''u'', CHR ''0'', CHR ''0'', hex_char (n div 16), hex_char (n mod 16)])"
      using None by (simp add: json_char_def n_def [symmetric])
    have "c \<noteq> CHR 0x22" "c \<noteq> CHR 0x5C" using n by (auto simp: n_def)
    then show thesis using j plain hex by (cases "32 \<le> n \<and> n < 127") (auto simp: n_def)
  qed
qed

lemma json_unescape_char: "json_unescape (json_char c @ t) = map_option (apfst (Cons c)) (json_unescape t)"
proof (cases c rule: json_char_cases)
  case (short e m)
  then show ?thesis by simp
next
  case plain
  then show ?thesis by simp
next
  case hex
  have b: "(of_char c :: nat) < 256" by simp
  then have "(of_char c :: nat) div 16 < 16" by linarith
  then have "hex_value (hex_char (of_char c div 16)) = Some (of_char c div 16)"
    "hex_value (hex_char (of_char c mod 16)) = Some (of_char c mod 16)"
    by (auto intro!: hex_round)
  moreover have "hex_value (CHR ''0'') = Some 0" by (simp add: hex_value_def)
  ultimately show ?thesis using hex by (simp add: mult.commute)
qed

lemma json_unescape_string: "json_unescape (concat (map json_char s) @ CHR 0x22 # t) = Some (s, t)"
  by (induction s) (simp_all add: json_unescape_char del: json_unescape.simps, simp)

section \<open>The length of a text\<close>

lemma length_py_join1:
  "xs \<noteq> [] \<Longrightarrow> int (length (py_join [c] xs)) = sum_list (map (\<lambda>x. int (length x) + 1) xs) - 1"
  by (induction xs rule: induct_list012) simp_all

text \<open>What the members of an object contribute, each with its colon and its comma.\<close>

definition members_len :: "(string, pyval) dict \<Rightarrow> int" where
  "members_len d = sum_list (map (\<lambda>(k, v). json_len (PStr k) + 1 + json_len v + 1) d)"

lemma json_len_obj: "json_len (obj d) = (if d = [] then 2 else 1 + members_len d)"
proof -
  define f where "f = (\<lambda>(k, v). json_string k @ '':'' @ json_compact v)"
  have "json_compact (obj d) = CHR 0x7B # py_join '','' (map f d) @ [CHR 0x7D]"
    unfolding json_compact_def obj_def f_def by (simp add: comp_def case_prod_unfold)
  moreover have "int (length (py_join '','' (map f d))) = members_len d - 1" if "d \<noteq> []"
  proof -
    have "map (\<lambda>x. int (length x) + 1) (map f d) = map (\<lambda>(k, v). json_len (PStr k) + 1 + json_len v + 1) d"
      by (auto simp: f_def json_len_def json_compact_def)
    then show ?thesis using that by (simp only: length_py_join1 map_is_Nil_conv members_len_def not_False_eq_True)
  qed
  ultimately show ?thesis by (auto simp: json_len_def [of "obj d"])
qed

lemma members_len_simps [simp]:
  "members_len [] = 0"
  "members_len ((k, v) # d) = json_len (PStr k) + 2 + json_len v + members_len d"
  by (simp_all add: members_len_def)

lemma members_len_update:
  "members_len (AList.update k v d) =
    (case map_of d k of None \<Rightarrow> members_len d + json_len (PStr k) + 2 + json_len v
     | Some u \<Rightarrow> members_len d - json_len u + json_len v)"
  by (induction d) (auto split: option.splits)

lemma json_len_ge0: "0 \<le> json_len v" by (simp add: json_len_def)

lemma members_len_ge0: "0 \<le> members_len d"
  by (induction d) (auto simp: add_nonneg_nonneg json_len_ge0)

lemma json_len_update:
  "json_len (obj (AList.update k v d)) = (case map_of d k of
     None \<Rightarrow> json_len (obj d) + (if d = [] then 0 else 1) + json_len (PStr k) + 1 + json_len v
   | Some u \<Rightarrow> json_len (obj d) - json_len u + json_len v)"
proof -
  have "AList.update k v d \<noteq> []" by (cases d) auto
  then show ?thesis by (auto simp: json_len_obj members_len_update split: option.splits)
qed

lemma json_bytes_eq_Inr [res_simps]: "json_bytes v = Inr t \<longleftrightarrow> json_finite v \<and> t = json_compact v"
  by (auto simp: json_bytes_def raise_if_eq_Inr)

end
