(* ===== verification/Cluster.thy ===== *)
theory Cluster
  imports Json_Text Shared_Log StateResult
begin

text \<open>
  The mesh of nodes (\<^verbatim>\<open>cluster.py\<close>): membership with incarnation numbers, and anti-entropy gossip of
  versioned snapshots and tombstones.  This theory holds the state of a manager, membership, and the
  store of what peers sent; \<^verbatim>\<open>Gossip\<close> holds the exchange of digests.  A method that holds the lock for
  its whole body is one step.  Clock readings, random choices and the outcome of requests are
  arguments; splitting a URL is the argument \<open>urlsplit\<close>, with \<open>None\<close> where it raises \<^verbatim>\<open>ValueError\<close>.
\<close>

section \<open>State\<close>

definition MAX_MEMBERS :: nat where "MAX_MEMBERS = 256"
definition MAX_PEER_STREAMS :: nat where "MAX_PEER_STREAMS = 10000"
definition MAX_ORIGINS_PER_STREAM :: nat where "MAX_ORIGINS_PER_STREAM = 50"
definition MAX_IDENTIFIER_LENGTH :: nat where "MAX_IDENTIFIER_LENGTH = 255"

text \<open>A version is an integer or a float, compared by value.\<close>

type_synonym version = pyval
type_synonym 'a per_origin = "(string, (string, 'a) dict) dict"

record cluster =
  cm_node_id :: string
  cm_heartbeat_timeout :: pyfloat
  cm_secret :: "string option"
  cm_advertised :: "string option"
  cm_max_payload :: int
  cm_max_tombstones :: int
  cm_incarnation :: int
  cm_digest_cursor :: nat
  cm_has_seeds :: bool
  cm_members :: "(string, pydict) dict"
  cm_allowed :: "string list"
  cm_snapshots :: "(stream \<times> version) per_origin"
  cm_tombstones :: "version per_origin"
  cm_local_tombstones :: "(string, pyfloat) dict"

definition num_lt :: "version \<Rightarrow> version \<Rightarrow> bool" where
  "num_lt a b \<longleftrightarrow> f_lt (num_value a) (num_value b)"

definition num_max :: "version \<Rightarrow> version \<Rightarrow> version" where
  "num_max a b = (if num_lt a b then b else a)"

section \<open>Keys of streams\<close>

definition stream_key :: "string \<Rightarrow> string \<Rightarrow> string" where
  "stream_key namespace stream_id = json_text '', '' '': '' (strs [namespace, stream_id])"

text \<open>\<^verbatim>\<open>json.loads\<close> of a key: a list of two strings.\<close>

definition parse_key :: "string \<Rightarrow> (string \<times> string) option" where
  "parse_key s = (case s of
     b # q # r \<Rightarrow> (if b = CHR ''['' \<and> q = CHR 0x22 then
        (case json_unescape r of
           Some (ns, c # w # q' # r') \<Rightarrow> (if [c, w, q'] = '', '' @ [CHR 0x22] then
              (case json_unescape r' of
                 Some (sid, e) \<Rightarrow> (if e = '']'' then Some (ns, sid) else None)
               | None \<Rightarrow> None) else None)
         | _ \<Rightarrow> None) else None)
   | _ \<Rightarrow> None)"

definition valid_identifier :: "string \<Rightarrow> bool" where
  "valid_identifier s \<longleftrightarrow> 0 < length s \<and> length s \<le> MAX_IDENTIFIER_LENGTH"

definition valid_stream_key :: "pyval \<Rightarrow> bool" where
  "valid_stream_key v = (case v of
     PStr s \<Rightarrow> length s \<le> 1024 \<and> (case parse_key s of
        None \<Rightarrow> False
      | Some (ns, sid) \<Rightarrow> s = stream_key ns sid \<and> valid_identifier ns \<and> valid_identifier sid)
   | _ \<Rightarrow> False)"

section \<open>Addresses\<close>

record mesh_url =
  mu_scheme :: string
  mu_netloc :: string
  mu_path :: string
  mu_query :: string
  mu_fragment :: string
  mu_hostname :: "string option"
  mu_username :: "string option"
  mu_password :: "string option"
  mu_port :: "int option option"

type_synonym urlsplit = "string \<Rightarrow> mesh_url option"

definition canonical_base_url :: "urlsplit \<Rightarrow> pyval \<Rightarrow> string result" where
  "canonical_base_url urlsplit address = (case address of PStr a \<Rightarrow>
     (case urlsplit (py_strip a) of None \<Rightarrow> Inl (ValueError ''invalid URL'') | Some p \<Rightarrow>
      raise_if (mu_scheme p \<notin> set [''http'', ''https''] \<or> \<not> opt_truth (mu_hostname p))
        (ValueError ''Peer address must be an absolute HTTP(S) URL'')
     (raise_if (opt_truth (mu_username p) \<or> opt_truth (mu_password p))
        (ValueError ''Peer address must not contain credentials'')
     (raise_if (mu_query p \<noteq> [] \<or> mu_fragment p \<noteq> [] \<or> mu_path p \<notin> set [[], ''/''])
        (ValueError ''Peer address must contain only an origin'')
     (case mu_port p of None \<Rightarrow> Inl (ValueError ''Peer address has an invalid port'') | Some port \<Rightarrow>
       let lower = py_lower (case mu_hostname p of Some h \<Rightarrow> h | None \<Rightarrow> []);
           host = (if CHR '':'' \<in> set lower then ''['' @ lower @ '']'' else lower);
           default_port = (if mu_scheme p = ''http'' then 80 else 443);
           authority = (case port of None \<Rightarrow> host | Some n \<Rightarrow>
             if n = default_port then host else host @ '':'' @ int_str n) in
       Inr (py_lower (mu_scheme p) @ ''://'' @ authority)))))
   | _ \<Rightarrow> Inl (ValueError ''Peer address must be a string''))"

definition validate_peer_address :: "urlsplit \<Rightarrow> cluster \<Rightarrow> pyval \<Rightarrow> string result" where
  "validate_peer_address urlsplit s address = rbind (canonical_base_url urlsplit address) (\<lambda>base_url.
     raise_if (base_url \<notin> set (cm_allowed s)) (ValueError ''Peer address is not in SKETCHLOG_PEER_ALLOWLIST'')
      (Inr base_url))"

section \<open>Members\<close>

text \<open>
  What is known of a member is the dictionary that a peer sent, with the fields that the code reads
  and any others.
\<close>

definition d_set :: "pydict \<Rightarrow> string \<Rightarrow> pyval \<Rightarrow> pydict" where
  "d_set d k v = AList.update (PStr k) v d"

definition m_status :: "pydict \<Rightarrow> pyval" where
  "m_status info = d_get info ''status'' PNone"

definition m_incarnation :: "pydict \<Rightarrow> int" where
  "m_incarnation info = (case d_get info ''incarnation'' PNone of PInt n \<Rightarrow> n | _ \<Rightarrow> 0)"

definition m_updated :: "pydict \<Rightarrow> pyfloat" where
  "m_updated info = num_value (d_get info ''last_updated'' PNone)"

definition m_address :: "pydict \<Rightarrow> pyval" where
  "m_address info = d_get info ''address'' (PStr [])"

definition new_member :: "string \<Rightarrow> pyfloat \<Rightarrow> pydict" where
  "new_member address now = [(PStr ''address'', PStr address), (PStr ''status'', PStr ''alive''),
     (PStr ''incarnation'', PInt 0), (PStr ''last_updated'', PFloat now)]"

definition put_member :: "string \<Rightarrow> pydict \<Rightarrow> cluster \<Rightarrow> cluster" where
  "put_member nid info s = s\<lparr>cm_members := AList.update nid info (cm_members s)\<rparr>"

definition get_member :: "cluster \<Rightarrow> string \<Rightarrow> pydict" where
  "get_member s nid = dict_get (cm_members s) nid []"

fun allowed_origins :: "urlsplit \<Rightarrow> string list \<Rightarrow> string list" where
  "allowed_origins urlsplit [] = []"
| "allowed_origins urlsplit (a # as) = (case canonical_base_url urlsplit (PStr a) of
     Inr u \<Rightarrow> List.insert u (allowed_origins urlsplit as)
   | Inl _ \<Rightarrow> allowed_origins urlsplit as)"

fun add_seeds :: "urlsplit \<Rightarrow> (nat \<Rightarrow> pyfloat) \<Rightarrow> nat \<Rightarrow> string list \<Rightarrow> cluster \<Rightarrow> cluster" where
  "add_seeds urlsplit now n [] s = s"
| "add_seeds urlsplit now n (p # ps) s = add_seeds urlsplit now (Suc n) ps
     (case (if p = [] then Inl (ValueError []) else canonical_base_url urlsplit (PStr p)) of
        Inr u \<Rightarrow> if u \<in> set (cm_allowed s)
                then put_member (''seed-'' @ p) (new_member u (now n) @ [(PStr ''is_seed'', PBool True)]) s else s
      | Inl _ \<Rightarrow> s)"

definition cm_init :: "urlsplit \<Rightarrow> string \<Rightarrow> string list \<Rightarrow> pyfloat \<Rightarrow> string option \<Rightarrow> string option \<Rightarrow>
    string list option \<Rightarrow> int \<Rightarrow> int \<Rightarrow> (nat \<Rightarrow> pyfloat) \<Rightarrow> cluster result" where
  "cm_init urlsplit node_id peers heartbeat_timeout cluster_secret advertised_address peer_allowlist
       max_payload_bytes max_local_tombstones now =
    raise_if (\<not> (1024 \<le> max_payload_bytes \<and> max_payload_bytes \<le> 64 * 1024 * 1024))
      (ValueError ''max_payload_bytes must be between 1024 and 67108864'')
   (raise_if (\<not> (1 \<le> max_local_tombstones \<and> max_local_tombstones \<le> 1000000))
      (ValueError ''max_local_tombstones must be between 1 and 1000000'')
   (Inr (add_seeds urlsplit now 1 peers
     \<lparr>cm_node_id = node_id, cm_heartbeat_timeout = heartbeat_timeout, cm_secret = cluster_secret,
      cm_advertised = advertised_address, cm_max_payload = max_payload_bytes,
      cm_max_tombstones = max_local_tombstones, cm_incarnation = 0, cm_digest_cursor = 0,
      cm_has_seeds = (\<exists>p \<in> set peers. p \<noteq> []),
      cm_members = [(node_id, new_member (case advertised_address of Some a \<Rightarrow> a | None \<Rightarrow> []) (now 0))],
      cm_allowed = allowed_origins urlsplit (case peer_allowlist of Some l \<Rightarrow> l | None \<Rightarrow> peers),
      cm_snapshots = [], cm_tombstones = [], cm_local_tombstones = []\<rparr>)))"

text \<open>The manager starts its threads only when it can reach or be reached.\<close>

definition cm_starts :: "cluster \<Rightarrow> bool" where
  "cm_starts s \<longleftrightarrow> cm_has_seeds s \<or> opt_truth (cm_advertised s)"

subsection \<open>Merging what a peer says of the members\<close>

definition stamp :: "string \<Rightarrow> pyfloat \<Rightarrow> cluster \<Rightarrow> cluster" where
  "stamp nid now s = put_member nid (d_set (get_member s nid) ''last_updated'' (PFloat now)) s"

definition set_status :: "string \<Rightarrow> pyval \<Rightarrow> pyfloat \<Rightarrow> cluster \<Rightarrow> cluster" where
  "set_status nid status now s =
    put_member nid (d_set (d_set (get_member s nid) ''status'' status) ''last_updated'' (PFloat now)) s"

definition refute :: "int \<Rightarrow> pyfloat \<Rightarrow> cluster \<Rightarrow> cluster" where
  "refute accused now s = (let own = cm_node_id s; inc = accused + 1 in
     put_member own (d_set (d_set (get_member s own) ''incarnation'' (PInt inc)) ''last_updated'' (PFloat now))
       (s\<lparr>cm_incarnation := inc\<rparr>))"

text \<open>The address a peer gives must be on the allowlist; it is stored in canonical form.\<close>

definition checked_info :: "urlsplit \<Rightarrow> cluster \<Rightarrow> pydict \<Rightarrow> pydict option" where
  "checked_info urlsplit s info = (if py_truth (m_address info) then
      (case validate_peer_address urlsplit s (m_address info) of
         Inl _ \<Rightarrow> None
       | Inr u \<Rightarrow> Some (d_set info ''address'' (PStr u)))
     else Some info)"

definition accept_info :: "string \<Rightarrow> pydict \<Rightarrow> pyfloat \<Rightarrow> cluster \<Rightarrow> cluster" where
  "accept_info nid info now s = (case map_of (cm_members s) nid of
     None \<Rightarrow> if length (cm_members s) \<ge> MAX_MEMBERS then s
            else put_member nid (d_set info ''last_updated'' (PFloat now)) s
   | Some known \<Rightarrow>
      if m_incarnation info > m_incarnation known
      then put_member nid (d_set info ''last_updated'' (PFloat now)) s
      else if m_incarnation info = m_incarnation known \<and> m_status known = PStr ''alive''
           \<and> m_status info \<in> set [PStr ''suspect'', PStr ''dead'']
      then set_status nid (m_status info) now s
      else s)"

definition merge_member :: "urlsplit \<Rightarrow> pyfloat \<Rightarrow> pyval \<times> pyval \<Rightarrow> cluster \<Rightarrow> cluster" where
  "merge_member urlsplit now entry s = (case entry of
     (PStr nid, PDict info) \<Rightarrow>
       if nid = [] \<or> length nid > 255 then s
       else if m_status info \<notin> set [PStr ''alive'', PStr ''suspect'', PStr ''dead''] then s
       else (case d_get info ''incarnation'' PNone of
         PInt k \<Rightarrow>
          if k < 0 then s
          else if nid = cm_node_id s then
            (if m_status info \<in> set [PStr ''suspect'', PStr ''dead''] \<and> k \<ge> cm_incarnation s
             then refute k now s else s)
          else (case checked_info urlsplit s info of
              None \<Rightarrow> s
            | Some info' \<Rightarrow> accept_info nid info' now s)
       | _ \<Rightarrow> s)
   | _ \<Rightarrow> s)"

fun merge_members :: "urlsplit \<Rightarrow> (nat \<Rightarrow> pyfloat) \<Rightarrow> nat \<Rightarrow> pydict \<Rightarrow> cluster \<Rightarrow> cluster" where
  "merge_members urlsplit now n [] s = s"
| "merge_members urlsplit now n (e # es) s = merge_members urlsplit now (Suc n) es (merge_member urlsplit (now n) e s)"

definition merge_membership :: "urlsplit \<Rightarrow> (nat \<Rightarrow> pyfloat) \<Rightarrow> pyval \<Rightarrow> (cluster, unit) step" where
  "merge_membership urlsplit now incoming = (case incoming of
     PDict d \<Rightarrow> smodify (merge_members urlsplit now 0 d)
   | _ \<Rightarrow> slift (Inl (ValueError ''Membership payload must be an object'')))"

subsection \<open>Timeouts\<close>

definition evict_origin :: "string \<Rightarrow> cluster \<Rightarrow> cluster" where
  "evict_origin nid s = s\<lparr>cm_snapshots := map (\<lambda>(sid, origins). (sid, AList.delete nid origins)) (cm_snapshots s)\<rparr>"

definition check_timeout :: "pyfloat \<Rightarrow> string \<times> pydict \<Rightarrow> cluster \<Rightarrow> cluster" where
  "check_timeout now entry s = (case entry of (nid, info) \<Rightarrow>
     if nid = cm_node_id s then s
     else let s1 = (if m_status info = PStr ''suspect'' \<and> f_lt (cm_heartbeat_timeout s) (f_sub now (m_updated info))
                    then set_status nid (PStr ''dead'') now s else s);
              info1 = get_member s1 nid in
       if m_status info1 = PStr ''dead'' \<and> f_lt (f_mul (cm_heartbeat_timeout s) (Fin 5)) (f_sub now (m_updated info1))
       then evict_origin nid (s1\<lparr>cm_members := AList.delete nid (cm_members s1)\<rparr>)
       else s1)"

definition check_timeouts :: "pyfloat \<Rightarrow> cluster \<Rightarrow> cluster" where
  "check_timeouts now s = fold (check_timeout now) (cm_members s) s"

subsection \<open>Pings\<close>

definition gossip_list :: "cluster \<Rightarrow> pyval" where
  "gossip_list s = obj (map (\<lambda>(nid, info). (nid, PDict info)) (take 10 (sort_desc (\<lambda>m. m_updated (snd m)) (cm_members s))))"

definition handle_ping :: "urlsplit \<Rightarrow> pyfloat \<Rightarrow> (nat \<Rightarrow> pyfloat) \<Rightarrow> pydict \<Rightarrow> (cluster, pyval) step" where
  "handle_ping urlsplit now0 now payload =
    sthen (smodify (\<lambda>s. stamp (cm_node_id s) now0 s))
   (sthen (case map_of payload (PStr ''members'') of
             Some m \<Rightarrow> merge_membership urlsplit now m
           | None \<Rightarrow> sret ())
   (sget (\<lambda>s. obj [(''members'', gossip_list s)])))"

text \<open>The members a ping may go to, and what it carries.\<close>

definition ping_candidates :: "cluster \<Rightarrow> (string \<times> pydict) list" where
  "ping_candidates s = filter (\<lambda>(nid, info). nid \<noteq> cm_node_id s \<and> m_status info \<in> set [PStr ''alive'', PStr ''suspect'']) (cm_members s)"

definition ping_payload :: "cluster \<Rightarrow> pyval" where
  "ping_payload s = obj [(''node_id'', PStr (cm_node_id s)),
     (''address'', case cm_advertised s of Some a \<Rightarrow> PStr a | None \<Rightarrow> PNone), (''members'', gossip_list s)]"

text \<open>What follows the answer to a ping of \<open>nid\<close>; an exception marks the member.\<close>

definition ping_answered :: "urlsplit \<Rightarrow> (nat \<Rightarrow> pyfloat) \<Rightarrow> string \<Rightarrow> pydict \<Rightarrow> pydict option \<Rightarrow> (cluster, unit) step" where
  "ping_answered urlsplit now nid info reply = (case reply of
     None \<Rightarrow> sret ()
   | Some r \<Rightarrow> (case map_of r (PStr ''members'') of
       None \<Rightarrow> sret ()
     | Some m \<Rightarrow> sthen (merge_membership urlsplit now m)
        (if py_truth (d_get info ''is_seed'' PNone)
         then smodify (\<lambda>s. s\<lparr>cm_members := AList.delete nid (cm_members s)\<rparr>) else sret ())))"

definition ping_failed :: "string \<Rightarrow> pyfloat \<Rightarrow> cluster \<Rightarrow> cluster" where
  "ping_failed nid now s = (case map_of (cm_members s) nid of
     Some info \<Rightarrow> if m_status info = PStr ''alive'' then set_status nid (PStr ''suspect'') now s else s
   | None \<Rightarrow> s)"

definition ping_finish :: "urlsplit \<Rightarrow> (nat \<Rightarrow> pyfloat) \<Rightarrow> pyfloat \<Rightarrow> string \<Rightarrow> pydict \<Rightarrow> pydict option result \<Rightarrow> cluster \<Rightarrow> cluster" where
  "ping_finish urlsplit now now_failed nid info outcome s = (case outcome of
     Inl e \<Rightarrow> ping_failed nid now_failed s
   | Inr reply \<Rightarrow> (case ping_answered urlsplit now nid info reply s of
       (s', Inl e) \<Rightarrow> ping_failed nid now_failed s'
     | (s', Inr _) \<Rightarrow> s'))"

text \<open>
  One ping: the \<open>choice\<close>-th candidate is asked; \<open>post\<close> is the outcome of the request with a given
  address and payload.
\<close>

definition ping_random_member :: "urlsplit \<Rightarrow> nat \<Rightarrow> (pyval \<Rightarrow> pyval \<Rightarrow> pydict option result) \<Rightarrow> (nat \<Rightarrow> pyfloat) \<Rightarrow> pyfloat \<Rightarrow> cluster \<Rightarrow> cluster" where
  "ping_random_member urlsplit choice post now now_failed s = (case ping_candidates s of
     [] \<Rightarrow> s
   | c # cs \<Rightarrow> (case (c # cs) ! (choice mod length (c # cs)) of (nid, info) \<Rightarrow>
       if \<not> py_truth (m_address info) then s
       else ping_finish urlsplit now now_failed nid info (post (m_address info) (ping_payload s)) s))"

section \<open>The store of what peers sent\<close>

definition entry_version :: "pyfloat \<Rightarrow> pydict \<Rightarrow> version result" where
  "entry_version timestamp data = (let v = d_get data ''__version__'' (PFloat timestamp) in
     raise_if (\<not> is_number v) (ValueError ''invalid origin version'')
    (rbind (num_isfinite v) (\<lambda>fin.
     raise_if (\<not> fin \<or> num_lt v (PInt 0)) (ValueError ''invalid origin version'') (Inr v))))"

definition snap_version :: "cluster \<Rightarrow> string \<Rightarrow> string \<Rightarrow> version" where
  "snap_version s sid nid = (case map_of (dict_get (cm_snapshots s) sid []) nid of Some (_, v) \<Rightarrow> v | None \<Rightarrow> PInt 0)"

definition tomb_version :: "cluster \<Rightarrow> string \<Rightarrow> string \<Rightarrow> version" where
  "tomb_version s sid nid = dict_get (dict_get (cm_tombstones s) sid []) nid (PInt 0)"

definition known_streams :: "cluster \<Rightarrow> string list" where
  "known_streams s = remdups (map fst (cm_snapshots s) @ map fst (cm_tombstones s))"

definition known_origins :: "cluster \<Rightarrow> string \<Rightarrow> string list" where
  "known_origins s sid = remdups (map fst (dict_get (cm_snapshots s) sid []) @ map fst (dict_get (cm_tombstones s) sid []))"

text \<open>\<^verbatim>\<open>if not origins: d.pop(stream_id, None)\<close> after a change of the inner dictionary.\<close>

definition put_group :: "string \<Rightarrow> (string, 'a) dict \<Rightarrow> 'a per_origin \<Rightarrow> 'a per_origin" where
  "put_group sid g d = (if g = [] then AList.delete sid d else AList.update sid g d)"

definition store_tombstone :: "string \<Rightarrow> string \<Rightarrow> version \<Rightarrow> cluster \<Rightarrow> cluster" where
  "store_tombstone sid nid v s = s\<lparr>
     cm_snapshots := put_group sid (AList.delete nid (dict_get (cm_snapshots s) sid [])) (cm_snapshots s),
     cm_tombstones := AList.update sid (AList.update nid v (dict_get (cm_tombstones s) sid [])) (cm_tombstones s)\<rparr>"

definition store_snapshot :: "string \<Rightarrow> string \<Rightarrow> version \<Rightarrow> stream \<Rightarrow> cluster \<Rightarrow> cluster" where
  "store_snapshot sid nid v peer_log s = s\<lparr>
     cm_snapshots := AList.update sid (AList.update nid (peer_log, v) (dict_get (cm_snapshots s) sid [])) (cm_snapshots s),
     cm_tombstones := put_group sid (AList.delete nid (dict_get (cm_tombstones s) sid [])) (cm_tombstones s)\<rparr>"

text \<open>The part under the lock: the limits, the comparison of versions, the change; \<open>None\<close> is a tombstone.\<close>

definition store_entry :: "string \<Rightarrow> string \<Rightarrow> version \<Rightarrow> stream option \<Rightarrow> cluster \<Rightarrow> cluster" where
  "store_entry sid nid v peer_log s =
    (if sid \<notin> set (known_streams s) \<and> length (known_streams s) \<ge> MAX_PEER_STREAMS then s
     else if nid \<notin> set (known_origins s sid) \<and> length (known_origins s sid) \<ge> MAX_ORIGINS_PER_STREAM then s
     else if f_le (num_value v) (num_value (num_max (snap_version s sid nid) (tomb_version s sid nid))) then s
     else (case peer_log of None \<Rightarrow> store_tombstone sid nid v s | Some l \<Rightarrow> store_snapshot sid nid v l s))"

definition entry_log :: "libm \<Rightarrow> pydict \<Rightarrow> stream option result" where
  "entry_log L data = (if d_get data ''__tombstone__'' PNone = PBool True then Inr None
     else rbind (st_from_dict L (d_get data ''state'' (PDict data))) (\<lambda>log. Inr (Some log)))"

definition receive_entry :: "libm \<Rightarrow> pyfloat \<Rightarrow> string \<Rightarrow> pyval \<times> pyval \<Rightarrow> cluster \<Rightarrow> cluster" where
  "receive_entry L timestamp sid entry s = (case entry of
     (PStr nid, PDict data) \<Rightarrow>
       if \<not> valid_identifier nid then s
       else if nid = cm_node_id s then s
       else (case rbind (entry_version timestamp data) (\<lambda>v. rbind (entry_log L data) (\<lambda>log. Inr (v, log))) of
           Inl e \<Rightarrow> s
         | Inr (v, l) \<Rightarrow> store_entry sid nid v l s)
   | _ \<Rightarrow> s)"

definition receive_stream :: "libm \<Rightarrow> pyfloat \<Rightarrow> pyval \<times> pyval \<Rightarrow> cluster \<Rightarrow> cluster" where
  "receive_stream L timestamp entry s = (case entry of
     (PStr sid, PDict node_data) \<Rightarrow>
       if \<not> valid_stream_key (PStr sid) then s else fold (receive_entry L timestamp sid) node_data s
   | _ \<Rightarrow> s)"

definition receive_snapshot :: "libm \<Rightarrow> pyval \<Rightarrow> pyval \<Rightarrow> pyfloat \<Rightarrow> (cluster, unit) step" where
  "receive_snapshot L sender streams_data timestamp =
    (if \<not> (case sender of PStr n \<Rightarrow> valid_identifier n | _ \<Rightarrow> False) then slift (Inl (ValueError ''invalid sender node ID''))
     else (case streams_data of
        PDict d \<Rightarrow> smodify (fold (receive_stream L timestamp) d)
      | _ \<Rightarrow> slift (Inl (ValueError ''streams must be an object''))))"

definition handle_gossip_sync :: "libm \<Rightarrow> pydict \<Rightarrow> pyfloat \<Rightarrow> (cluster, unit) step" where
  "handle_gossip_sync L payload now =
    sbind (slift (d_item payload ''node_id'')) (\<lambda>sender.
    sbind (slift (d_item payload ''streams'')) (\<lambda>streams. receive_snapshot L sender streams now))"

section \<open>Deleting local streams\<close>

definition begin_deletion :: "string \<Rightarrow> string \<Rightarrow> pyfloat \<Rightarrow> cluster \<Rightarrow> (cluster \<times> string \<times> pyfloat \<times> pyfloat option) result" where
  "begin_deletion namespace stream_id now s =
    (let full_id = stream_key namespace stream_id; previous = map_of (cm_local_tombstones s) full_id in
     raise_if (previous = None \<and> int (length (cm_local_tombstones s)) \<ge> cm_max_tombstones s)
       (RuntimeError ''local mesh tombstone capacity exhausted'')
      (let committed = f_max now (f_add (case previous of Some p \<Rightarrow> p | None \<Rightarrow> Fin 0) (to_float (1 / 1000000))) in
       Inr (s\<lparr>cm_local_tombstones := AList.update full_id committed (cm_local_tombstones s)\<rparr>, full_id, committed, previous)))"

definition rollback_deletion :: "string \<Rightarrow> pyfloat \<Rightarrow> pyfloat option \<Rightarrow> cluster \<Rightarrow> cluster" where
  "rollback_deletion key v previous s =
    (case map_of (cm_local_tombstones s) key of
       None \<Rightarrow> s
     | Some w \<Rightarrow> if \<not> f_eq w v then s
        else (case previous of
           None \<Rightarrow> s\<lparr>cm_local_tombstones := AList.delete key (cm_local_tombstones s)\<rparr>
         | Some p \<Rightarrow> s\<lparr>cm_local_tombstones := AList.update key p (cm_local_tombstones s)\<rparr>))"

definition record_deletion :: "string \<Rightarrow> string \<Rightarrow> pyfloat \<Rightarrow> cluster \<Rightarrow> (cluster \<times> string \<times> pyfloat) result" where
  "record_deletion namespace stream_id now s =
    rbind (begin_deletion namespace stream_id now s) (\<lambda>(s', key, v, previous). Inr (s', key, v))"

definition restore_one :: "pyval \<times> pyval \<Rightarrow> (cluster, unit) step" where
  "restore_one entry = (case entry of (key, v) \<Rightarrow>
     (case key of PStr sid \<Rightarrow>
        if \<not> valid_stream_key key \<or> \<not> is_number v then sret ()
        else sbind (slift (num_isfinite v)) (\<lambda>fin.
          if \<not> fin \<or> num_lt v (PInt 0) then sret ()
          else sbind (sget cm_local_tombstones) (\<lambda>d. sbind (sget cm_max_tombstones) (\<lambda>cap.
            if \<not> dict_mem sid d \<and> int (length d) \<ge> cap
            then slift (Inl (RuntimeError ''stored mesh tombstones exceed configured capacity''))
            else smodify (\<lambda>s. s\<lparr>cm_local_tombstones := AList.update sid (f_max (num_float v) (dict_get d sid (Fin 0))) d\<rparr>))))
      | _ \<Rightarrow> sret ()))"

definition restore_local_tombstones :: "pydict \<Rightarrow> (cluster, unit) step" where
  "restore_local_tombstones tombstones = sthen (sfor (\<lambda>n. restore_one) 0 tombstones) (sret ())"

section \<open>Reading across the mesh\<close>

definition has_peer_data :: "cluster \<Rightarrow> string \<Rightarrow> string \<Rightarrow> bool" where
  "has_peer_data s namespace stream_id \<longleftrightarrow> dict_get (cm_snapshots s) (stream_key namespace stream_id) [] \<noteq> []"

definition get_merged_stream :: "libm \<Rightarrow> cluster \<Rightarrow> string \<Rightarrow> string \<Rightarrow> shared_log option \<Rightarrow> stream result" where
  "get_merged_stream L s namespace stream_id local_stream =
    rbind (case local_stream of
        Some l \<Rightarrow> get_snapshot L l
      | None \<Rightarrow> st_init L (to_float (1 / 100)) 10 2048 5 True) (\<lambda>merged.
    rfold (\<lambda>(nid, (peer_log, v)) m. st_merge m peer_log)
      (dict_get (cm_snapshots s) (stream_key namespace stream_id) []) merged)"

end
