(* ===== verification/Gossip.thy ===== *)
theory Gossip
  imports Cluster
begin

text \<open>
  The anti-entropy exchange of \<^verbatim>\<open>cluster.py\<close>: the version vector and its bounded selection, the answer
  to a digest, and the packing of requested snapshots into payloads.  The registry of local streams is
  the argument \<open>reg\<close>, a list of namespace, stream name and shared log.  \<open>post n\<close> is the outcome of
  the \<open>n\<close>-th request that carries snapshots.
\<close>

type_synonym registry = "((string \<times> string) \<times> shared_log) list"

definition peek :: "registry \<Rightarrow> string \<Rightarrow> string \<Rightarrow> shared_log option" where
  "peek reg namespace stream_id = map_of reg (namespace, stream_id)"

section \<open>Requests\<close>

datatype reply = Request_Failed py_error | Body nat "pyval result"

text \<open>The length of the body that came back and what \<^verbatim>\<open>json.loads\<close> makes of it are part of the reply.\<close>

definition http_headers :: "cluster \<Rightarrow> (string, string) dict" where
  "http_headers s = (''Content-Type'', ''application/json'') #
     (case cm_secret s of Some t \<Rightarrow> if t = [] then [] else [(''X-SketchLog-Cluster-Token'', t)] | None \<Rightarrow> [])"

definition http_post :: "urlsplit \<Rightarrow> (string \<Rightarrow> string \<Rightarrow> string) \<Rightarrow> cluster \<Rightarrow> string \<Rightarrow> pyval \<Rightarrow> bool \<Rightarrow> reply \<Rightarrow> pydict option result" where
  "http_post urlsplit urlunsplit s url payload fire_and_forget reply =
    (case urlsplit url of None \<Rightarrow> Inl (ValueError ''invalid URL'') | Some parsed \<Rightarrow>
     rbind (canonical_base_url urlsplit (PStr (urlunsplit (mu_scheme parsed) (mu_netloc parsed)))) (\<lambda>base_url.
     raise_if (base_url \<notin> set (cm_allowed s)) (ValueError ''Refusing request to a non-allowlisted peer origin'')
    (rbind (json_bytes payload) (\<lambda>payload_bytes.
     raise_if (int (length payload_bytes) > cm_max_payload s) (ValueError ''Gossip payload exceeds SKETCHLOG_MAX_MESH_PAYLOAD_BYTES'')
    (case reply of
       Request_Failed e \<Rightarrow> Inl e
     | Body n result \<Rightarrow>
        if fire_and_forget then Inr None
        else raise_if (int n > cm_max_payload s) (ValueError ''Gossip response exceeds SKETCHLOG_MAX_MESH_PAYLOAD_BYTES'')
         (rbind result (\<lambda>v. case v of
            PDict d \<Rightarrow> Inr (Some d)
          | _ \<Rightarrow> Inl (ValueError ''Gossip response must be a JSON object''))))))))"

section \<open>The version vector\<close>

type_synonym vector = "version per_origin"

definition vv_set :: "string \<Rightarrow> string \<Rightarrow> version \<Rightarrow> vector \<Rightarrow> vector" where
  "vv_set sid nid v vv = AList.update sid (AList.update nid v (dict_get vv sid [])) vv"

definition vv_raise :: "string \<Rightarrow> string \<Rightarrow> version \<Rightarrow> vector \<Rightarrow> vector" where
  "vv_raise sid nid v vv = vv_set sid nid (num_max v (dict_get (dict_get vv sid []) nid (PInt 0))) vv"

definition vv_local :: "cluster \<Rightarrow> registry \<Rightarrow> vector" where
  "vv_local s reg = fold (\<lambda>((ns, sid), st). AList.update (stream_key ns sid) [(cm_node_id s, PFloat (ts_updated st))]) reg []"

definition vv_peer_stream :: "cluster \<Rightarrow> string \<times> (string, stream \<times> version) dict \<Rightarrow> vector \<Rightarrow> vector" where
  "vv_peer_stream s entry vv = (case entry of (sid, peers) \<Rightarrow>
     fold (\<lambda>(nid, (_, ts)) w.
        if dict_mem nid (cm_members s) \<and> m_status (get_member s nid) = PStr ''dead'' then w else vv_set sid nid ts w)
      peers (if dict_mem sid vv then vv else AList.update sid [] vv))"

definition version_vector :: "cluster \<Rightarrow> registry \<Rightarrow> vector" where
  "version_vector s reg =
    (let v1 = fold (\<lambda>(sid, v). vv_raise sid (cm_node_id s) (PFloat v)) (cm_local_tombstones s) (vv_local s reg);
         v2 = fold (vv_peer_stream s) (cm_snapshots s) v1 in
     fold (\<lambda>(sid, tombs) w. fold (\<lambda>(nid, v). vv_raise sid nid v) tombs w) (cm_tombstones s) v2)"

definition vector_val :: "vector \<Rightarrow> pyval" where
  "vector_val vv = obj (map (\<lambda>(sid, origins). (sid, obj origins)) vv)"

definition digest_payload :: "cluster \<Rightarrow> vector \<Rightarrow> pyval" where
  "digest_payload s vv = obj [(''node_id'', PStr (cm_node_id s)), (''versions'', vector_val vv)]"

text \<open>What one entry adds to the payload.\<close>

definition contribution :: "vector \<Rightarrow> string \<times> (string, version) dict \<Rightarrow> int" where
  "contribution selected item = (case item of (sid, origins) \<Rightarrow>
     (if selected = [] then 0 else 1) + json_len (PStr sid) + 1 + json_len (obj origins))"

text \<open>The loop that fills the payload, from the cursor on: the number of entries considered and the selection.\<close>

function bvv_loop :: "int \<Rightarrow> vector \<Rightarrow> nat \<Rightarrow> nat \<Rightarrow> vector \<Rightarrow> int \<Rightarrow> nat \<times> vector" where
  "bvv_loop cap items start considered selected used =
    (if considered < length items then
       let item = items ! ((start + considered) mod length items); c = contribution selected item in
       if used + c \<le> cap
       then bvv_loop cap items start (considered + 1) (AList.update (fst item) (snd item) selected) (used + c)
       else if selected = [] then bvv_loop cap items start (considered + 1) selected used
       else (considered, selected)
     else (considered, selected))"
  by pat_completeness auto
termination by (relation "measure (\<lambda>(cap, items, start, considered, selected, used). length items - considered)") auto

declare bvv_loop.simps [simp del]

definition bounded_version_vector :: "cluster \<Rightarrow> vector \<Rightarrow> (cluster \<times> vector) result" where
  "bounded_version_vector s vv =
    rbind (json_bytes (digest_payload s vv)) (\<lambda>payload.
    if int (length payload) \<le> cm_max_payload s then Inr (s, vv)
    else if vv = [] then Inr (s, [])
    else let start = cm_digest_cursor s mod length vv;
             (considered, selected) = bvv_loop (cm_max_payload s) vv start 0 [] (json_len (digest_payload s [])) in
      Inr (s\<lparr>cm_digest_cursor := (start + considered) mod length vv\<rparr>, selected))"

section \<open>Answering a digest\<close>

fun normalize_origins :: "pydict \<Rightarrow> (string, pyfloat) dict \<Rightarrow> (string, pyfloat) dict result" where
  "normalize_origins [] d = Inr d"
| "normalize_origins ((nid, v) # es) d =
    rbind (case nid of
        PStr n \<Rightarrow> if valid_identifier n \<and> is_number v
          then rbind (num_isfinite v) (\<lambda>fin.
            Inr (if fin \<and> \<not> num_lt v (PInt 0) then AList.update n (num_float v) d else d))
          else Inr d
      | _ \<Rightarrow> Inr d) (\<lambda>d'. if length d' \<ge> MAX_ORIGINS_PER_STREAM then Inr d' else normalize_origins es d')"

fun normalize_versions :: "pydict \<Rightarrow> pyfloat per_origin \<Rightarrow> pyfloat per_origin result" where
  "normalize_versions [] d = Inr d"
| "normalize_versions ((sid, origins) # es) d =
    (case (sid, origins) of
       (PStr k, PDict os) \<Rightarrow>
         if valid_stream_key sid
         then rbind (normalize_origins os []) (\<lambda>o1.
           let d' = AList.update k o1 d in if length d' \<ge> MAX_PEER_STREAMS then Inr d' else normalize_versions es d')
         else normalize_versions es d
     | _ \<Rightarrow> normalize_versions es d)"

definition remote_version :: "pyfloat per_origin \<Rightarrow> string \<Rightarrow> string \<Rightarrow> version" where
  "remote_version remote sid nid = (case map_of (dict_get remote sid []) nid of Some f \<Rightarrow> PFloat f | None \<Rightarrow> PInt 0)"

record digest =
  dg_updates :: "pyval per_origin"
  dg_requests :: "(string, string list) dict"
  dg_size :: int

definition digest_response :: "cluster \<Rightarrow> pyval per_origin \<Rightarrow> (string, string list) dict \<Rightarrow> pyval" where
  "digest_response s updates requests = obj
    [(''node_id'', PStr (cm_node_id s)),
     (''updates'', obj (map (\<lambda>(sid, g). (sid, obj g)) updates)),
     (''requests'', obj (map (\<lambda>(sid, nids). (sid, strs nids)) requests))]"

definition digest_start :: "cluster \<Rightarrow> digest" where
  "digest_start s = \<lparr>dg_updates = [], dg_requests = [], dg_size = json_len (digest_response s [] [])\<rparr>"

definition add_request :: "cluster \<Rightarrow> string \<Rightarrow> string \<Rightarrow> digest \<Rightarrow> digest" where
  "add_request s sid nid d =
    (let current = dict_get (dg_requests d) sid [] in
     if nid \<in> set current then d
     else let candidate = current @ [nid];
              delta = json_len (strs candidate) +
                (if current \<noteq> [] then - json_len (strs current)
                 else (if dg_requests d = [] then 0 else 1) + json_len (PStr sid) + 1) in
       if dg_size d + delta > cm_max_payload s div 4 then d
       else d\<lparr>dg_requests := AList.update sid candidate (dg_requests d), dg_size := dg_size d + delta\<rparr>)"

definition add_update :: "cluster \<Rightarrow> string \<Rightarrow> string \<Rightarrow> pyval \<Rightarrow> digest \<Rightarrow> (digest \<times> bool) result" where
  "add_update s sid nid data d =
    (let current = dict_get (dg_updates d) sid []; candidate = AList.update nid data current in
     rbind (json_bytes (obj candidate)) (\<lambda>bytes.
     let delta = int (length bytes) +
           (if current \<noteq> [] then - json_len (obj current)
            else (if dg_updates d = [] then 0 else 1) + json_len (PStr sid) + 1) in
     if dg_size d + delta > cm_max_payload s then Inr (d, False)
     else Inr (d\<lparr>dg_updates := AList.update sid candidate (dg_updates d), dg_size := dg_size d + delta\<rparr>, True)))"

text \<open>A loop that ends when its body answers \<open>False\<close>.\<close>

fun while_ok :: "('a \<Rightarrow> 's \<Rightarrow> ('s \<times> bool) result) \<Rightarrow> 'a list \<Rightarrow> 's \<Rightarrow> 's result" where
  "while_ok f [] s = Inr s"
| "while_ok f (x # xs) s = rbind (f x s) (\<lambda>(s', go). if go then while_ok f xs s' else Inr s')"

definition snapshot_data :: "version \<Rightarrow> stream \<Rightarrow> pyval" where
  "snapshot_data v l = obj [(''__version__'', v), (''state'', st_to_dict l)]"

definition tombstone_data :: "version \<Rightarrow> pyval" where
  "tombstone_data v = obj [(''__tombstone__'', PBool True), (''__version__'', v)]"

text \<open>1. Ask for what the peer has newer.\<close>

definition known_version :: "cluster \<Rightarrow> string \<Rightarrow> string \<Rightarrow> version" where
  "known_version s sid nid = num_max (snap_version s sid nid) (tomb_version s sid nid)"

definition collect_requests :: "cluster \<Rightarrow> pyfloat per_origin \<Rightarrow> digest \<Rightarrow> digest" where
  "collect_requests s remote = fold (\<lambda>(sid, peers). fold (\<lambda>(nid, ts) d.
     if nid = cm_node_id s then d
     else if num_lt (known_version s sid nid) (PFloat ts) then add_request s sid nid d else d) peers) remote"

text \<open>2. Send the local streams, the local tombstones, and the streams of other peers that are newer here.\<close>

definition send_local :: "libm \<Rightarrow> cluster \<Rightarrow> pyfloat per_origin \<Rightarrow> (string \<times> string) \<times> shared_log \<Rightarrow> digest \<Rightarrow> (digest \<times> bool) result" where
  "send_local L s remote entry d = (case entry of ((ns, name), st) \<Rightarrow>
     let sid = stream_key ns name; v = PFloat (ts_updated st) in
     if num_lt (remote_version remote sid (cm_node_id s)) v
     then (case rbind (get_snapshot L st) (\<lambda>l. add_update s sid (cm_node_id s) (snapshot_data v l) d) of
         Inl e \<Rightarrow> Inr (d, True)
       | Inr r \<Rightarrow> Inr r)
     else Inr (d, True))"

definition send_local_tombstone :: "cluster \<Rightarrow> registry \<Rightarrow> pyfloat per_origin \<Rightarrow> string \<times> pyfloat \<Rightarrow> digest \<Rightarrow> (digest \<times> bool) result" where
  "send_local_tombstone s reg remote entry d = (case entry of (sid, v) \<Rightarrow>
     (case parse_key sid of
        None \<Rightarrow> Inr (d, True)
      | Some (ns, name) \<Rightarrow>
         if (case peek reg ns name of Some st \<Rightarrow> f_lt v (ts_updated st) | None \<Rightarrow> False) then Inr (d, True)
         else if num_lt (remote_version remote sid (cm_node_id s)) (PFloat v)
         then add_update s sid (cm_node_id s) (tombstone_data (PFloat v)) d
         else Inr (d, True)))"

definition send_peer :: "cluster \<Rightarrow> pyfloat per_origin \<Rightarrow> string \<Rightarrow> string \<times> stream \<times> version \<Rightarrow> digest \<Rightarrow> (digest \<times> bool) result" where
  "send_peer s remote sid entry d = (case entry of (nid, (l, v)) \<Rightarrow>
     if num_lt (remote_version remote sid nid) v then add_update s sid nid (snapshot_data v l) d else Inr (d, True))"

definition send_peer_tombstone :: "cluster \<Rightarrow> pyfloat per_origin \<Rightarrow> string \<Rightarrow> string \<times> version \<Rightarrow> digest \<Rightarrow> (digest \<times> bool) result" where
  "send_peer_tombstone s remote sid entry d = (case entry of (nid, v) \<Rightarrow>
     if num_lt v (snap_version s sid nid) then Inr (d, True)
     else if num_lt (remote_version remote sid nid) v then add_update s sid nid (tombstone_data v) d else Inr (d, True))"

definition fill_digest :: "libm \<Rightarrow> cluster \<Rightarrow> registry \<Rightarrow> pyfloat per_origin \<Rightarrow> digest result" where
  "fill_digest L s reg remote =
    rbind (while_ok (send_local L s remote) reg (collect_requests s remote (digest_start s))) (\<lambda>d1.
    rbind (while_ok (send_local_tombstone s reg remote) (cm_local_tombstones s) d1) (\<lambda>d2.
    rbind (rfold (\<lambda>(sid, peers). while_ok (send_peer s remote sid) peers) (cm_snapshots s) d2) (\<lambda>d3.
    rfold (\<lambda>(sid, tombs). while_ok (send_peer_tombstone s remote sid) tombs) (cm_tombstones s) d3)))"

definition handle_gossip_digest :: "libm \<Rightarrow> registry \<Rightarrow> pydict \<Rightarrow> cluster \<Rightarrow> pyval result" where
  "handle_gossip_digest L reg payload s = (case d_get payload ''versions'' (PDict []) of
     PDict versions \<Rightarrow>
       rbind (normalize_versions versions []) (\<lambda>remote.
       rbind (fill_digest L s reg remote) (\<lambda>d.
       Inr (digest_response s (dg_updates d) (dg_requests d))))
   | _ \<Rightarrow> Inl (ValueError ''versions must be an object''))"

section \<open>Fulfilling requests\<close>

record sync =
  sy_streams :: "pyval per_origin"
  sy_sent :: "pyval per_origin list"

definition sync_payload :: "cluster \<Rightarrow> pyval per_origin \<Rightarrow> pyval" where
  "sync_payload s streams = obj [(''node_id'', PStr (cm_node_id s)), (''streams'', obj (map (\<lambda>(sid, g). (sid, obj g)) streams))]"

definition flush_sync :: "(nat \<Rightarrow> unit result) \<Rightarrow> (sync, unit) step" where
  "flush_sync post y = (if sy_streams y = [] then (y, Inr ())
     else (case post (length (sy_sent y)) of
        Inl e \<Rightarrow> (y, Inl e)
      | Inr _ \<Rightarrow> (y\<lparr>sy_streams := [], sy_sent := sy_sent y @ [sy_streams y]\<rparr>, Inr ())))"

definition queue_sync_update :: "cluster \<Rightarrow> (nat \<Rightarrow> unit result) \<Rightarrow> string \<Rightarrow> string \<Rightarrow> pyval \<Rightarrow> (sync, unit) step" where
  "queue_sync_update s post sid nid data =
    sbind (sget sy_streams) (\<lambda>streams.
    let candidate = AList.update sid (AList.update nid data (dict_get streams sid [])) streams in
    sbind (slift (json_bytes (sync_payload s candidate))) (\<lambda>bytes.
    if int (length bytes) > cm_max_payload s then
      sthen (flush_sync post)
     (if json_len (sync_payload s [(sid, [(nid, data)])]) > cm_max_payload s then sret ()
      else smodify (\<lambda>y. y\<lparr>sy_streams := [(sid, [(nid, data)])]\<rparr>))
    else smodify (\<lambda>y. y\<lparr>sy_streams := candidate\<rparr>)))"

text \<open>What is sent for a requested origin: the newer of tombstone and snapshot.\<close>

definition own_update :: "libm \<Rightarrow> cluster \<Rightarrow> registry \<Rightarrow> string \<Rightarrow> pyval option result" where
  "own_update L s reg sid = (case parse_key sid of
     None \<Rightarrow> Inl (ValueError ''Expecting value'')
   | Some (ns, name) \<Rightarrow>
      (let st = peek reg ns name;
           stream_version = (case st of Some l \<Rightarrow> PFloat (ts_updated l) | None \<Rightarrow> PInt 0);
           tombstone_version = (case map_of (cm_local_tombstones s) sid of Some v \<Rightarrow> PFloat v | None \<Rightarrow> PInt 0) in
       if f_le (num_value stream_version) (num_value tombstone_version) then Inr (Some (tombstone_data tombstone_version))
       else (case st of
          Some l \<Rightarrow> rbind (get_snapshot L l) (\<lambda>snap. Inr (Some (snapshot_data stream_version snap)))
        | None \<Rightarrow> Inr None)))"

definition peer_update :: "cluster \<Rightarrow> string \<Rightarrow> string \<Rightarrow> pyval option" where
  "peer_update s sid nid =
    (if f_le (num_value (snap_version s sid nid)) (num_value (tomb_version s sid nid))
     then Some (tombstone_data (tomb_version s sid nid))
     else (case map_of (dict_get (cm_snapshots s) sid []) nid of
        Some (l, v) \<Rightarrow> Some (snapshot_data v l)
      | None \<Rightarrow> None))"

definition queue_opt :: "cluster \<Rightarrow> (nat \<Rightarrow> unit result) \<Rightarrow> string \<Rightarrow> string \<Rightarrow> pyval option \<Rightarrow> (sync, unit) step" where
  "queue_opt s post sid nid u = (case u of None \<Rightarrow> sret () | Some data \<Rightarrow> queue_sync_update s post sid nid data)"

text \<open>Preparing an own snapshot may fail without ending the round.\<close>

definition swallow :: "('s, unit) step \<Rightarrow> ('s, unit) step" where
  "swallow m = (\<lambda>s. (fst (m s), Inr ()))"

definition fulfil_one :: "libm \<Rightarrow> cluster \<Rightarrow> registry \<Rightarrow> (nat \<Rightarrow> unit result) \<Rightarrow> string \<Rightarrow> pyval \<Rightarrow> (sync, unit) step" where
  "fulfil_one L s reg post sid v = (case v of
     PStr nid \<Rightarrow>
       if \<not> valid_identifier nid then sret ()
       else if nid = cm_node_id s
       then swallow (sbind (slift (own_update L s reg sid)) (queue_opt s post sid nid))
       else queue_opt s post sid nid (peer_update s sid nid)
   | _ \<Rightarrow> sret ())"

definition fulfil_stream :: "libm \<Rightarrow> cluster \<Rightarrow> registry \<Rightarrow> (nat \<Rightarrow> unit result) \<Rightarrow> pyval \<times> pyval \<Rightarrow> (sync, unit) step" where
  "fulfil_stream L s reg post entry = (case entry of
     (PStr sid, PList nids) \<Rightarrow>
       if valid_stream_key (PStr sid) then sthen (sfor (\<lambda>n. fulfil_one L s reg post sid) 0 nids) (sret ()) else sret ()
   | _ \<Rightarrow> sret ())"

definition fulfil_requests :: "libm \<Rightarrow> cluster \<Rightarrow> registry \<Rightarrow> (nat \<Rightarrow> unit result) \<Rightarrow> pydict \<Rightarrow> (sync, unit) step" where
  "fulfil_requests L s reg post requests =
    sthen (sfor (\<lambda>n. fulfil_stream L s reg post) 0 requests) (flush_sync post)"

section \<open>One round of gossip\<close>

definition gossip_candidates :: "cluster \<Rightarrow> pyval list" where
  "gossip_candidates s = map (\<lambda>(nid, info). m_address info)
     (filter (\<lambda>(nid, info). nid \<noteq> cm_node_id s \<and> m_status info = PStr ''alive'' \<and> py_truth (m_address info)) (cm_members s))"

text \<open>The answer to the digest: take in the updates, then send what is asked for; the payloads sent are returned.\<close>

definition gossip_reply :: "libm \<Rightarrow> registry \<Rightarrow> (nat \<Rightarrow> unit result) \<Rightarrow> pyfloat \<Rightarrow> pydict \<Rightarrow> (cluster, pyval per_origin list) step" where
  "gossip_reply L reg post now resp =
    sthen (case map_of resp (PStr ''updates'') of
        Some u \<Rightarrow> sbind (slift (d_item resp ''node_id'')) (\<lambda>sender. receive_snapshot L sender u now)
      | None \<Rightarrow> sret ())
   (case d_get resp ''requests'' PNone of
      PDict requests \<Rightarrow> sget (\<lambda>s. sy_sent (fst (fulfil_requests L s reg post requests \<lparr>sy_streams = [], sy_sent = []\<rparr>)))
    | v \<Rightarrow> if py_truth v then slift (Inl (AttributeError ''object has no attribute items'')) else sret [])"

text \<open>
  A round: \<open>ask address payload\<close> is the outcome of the digest request to the chosen peer.  An exception
  ends the round and keeps what was received before it.
\<close>

definition gossip_state :: "libm \<Rightarrow> registry \<Rightarrow> nat \<Rightarrow> (pyval \<Rightarrow> pyval \<Rightarrow> pydict option result) \<Rightarrow> (nat \<Rightarrow> unit result) \<Rightarrow> pyfloat \<Rightarrow>
    (cluster, pyval per_origin list) step" where
  "gossip_state L reg choice ask post now s = (case gossip_candidates s of
     [] \<Rightarrow> (s, Inr [])
   | c # cs \<Rightarrow>
      (let address = (c # cs) ! (choice mod length (c # cs)); vv = version_vector s reg in
       if vv = [] then (s, Inr [])
       else (case bounded_version_vector s vv of
          Inl e \<Rightarrow> (s, Inl e)
        | Inr (s1, selected) \<Rightarrow> (case ask address (digest_payload s1 selected) of
            Inl e \<Rightarrow> (s1, Inr [])
          | Inr None \<Rightarrow> (s1, Inr [])
          | Inr (Some resp) \<Rightarrow> if resp = [] then (s1, Inr [])
             else (case gossip_reply L reg post now resp s1 of
                (s2, Inl e) \<Rightarrow> (s2, Inr [])
              | (s2, Inr sent) \<Rightarrow> (s2, Inr sent))))))"

end
