(* ===== verification/Mesh_Store.thy ===== *)
theory Mesh_Store
  imports Cluster
begin

text \<open>
  The store of snapshots and tombstones as a last-writer-wins register per stream and origin: the
  invariant of the store, the abstract cell, the law of one delivery, and convergence: the outcome
  of a set of messages depends neither on their order nor on repetitions.
\<close>

section \<open>The contract of a last-writer-wins store\<close>

fun newer :: "rat \<Rightarrow> (rat \<times> 'v) option \<Rightarrow> bool" where
  "newer v None \<longleftrightarrow> 0 < v"
| "newer v (Some (w, _)) \<longleftrightarrow> w < v"

lemma newer_replaced: "newer v c \<Longrightarrow> \<not> newer w c \<Longrightarrow> \<not> newer w (Some (v, x))"
  by (cases c) auto

lemma newer_chain: "newer v c \<Longrightarrow> newer w (Some (v, x)) \<Longrightarrow> newer w c"
  by (cases c) auto

definition consistent :: "('d \<Rightarrow> 'k) \<Rightarrow> ('d \<Rightarrow> rat) \<Rightarrow> ('d \<Rightarrow> 'v) \<Rightarrow> 'd set \<Rightarrow> bool" where
  "consistent key ver val D \<longleftrightarrow> (\<forall>d \<in> D. \<forall>e \<in> D. key d = key e \<and> ver d = ver e \<longrightarrow> val d = val e)"

text \<open>
  \<open>inv K s\<close> says that the store is well formed and has room for every key of \<open>K\<close>.
\<close>

locale lww_store =
  fixes deliver :: "'d \<Rightarrow> 's \<Rightarrow> 's"
    and key :: "'d \<Rightarrow> 'k"
    and ver :: "'d \<Rightarrow> rat"
    and val :: "'d \<Rightarrow> 'v"
    and cell :: "'s \<Rightarrow> 'k \<Rightarrow> (rat \<times> 'v) option"
    and inv :: "'k set \<Rightarrow> 's \<Rightarrow> bool"
  assumes inv_deliver: "inv K s \<Longrightarrow> key d \<in> K \<Longrightarrow> inv K (deliver d s)"
    and cell_deliver: "inv K s \<Longrightarrow> key d \<in> K \<Longrightarrow>
      cell (deliver d s) k = (if k = key d \<and> newer (ver d) (cell s k) then Some (ver d, val d) else cell s k)"
begin

lemma inv_delivers: "inv K s \<Longrightarrow> key ` set ds \<subseteq> K \<Longrightarrow> inv K (fold deliver ds s)"
  by (induction ds arbitrary: s) (auto intro: inv_deliver)

text \<open>What a cell holds after a sequence of deliveries: its old contents, or a delivery newer than it.\<close>

lemma cell_delivers:
  assumes "inv K s" "key ` set ds \<subseteq> K"
  shows "(cell (fold deliver ds s) k = cell s k \<or>
      (\<exists>d \<in> set ds. key d = k \<and> newer (ver d) (cell s k) \<and> cell (fold deliver ds s) k = Some (ver d, val d)))
    \<and> (\<forall>d \<in> set ds. key d = k \<longrightarrow> \<not> newer (ver d) (cell (fold deliver ds s) k))"
  using assms
proof (induction ds rule: rev_induct)
  case Nil
  then show ?case by simp
next
  case (snoc d ds)
  let ?t = "fold deliver ds s"
  from snoc have IH: "(cell ?t k = cell s k \<or>
      (\<exists>e \<in> set ds. key e = k \<and> newer (ver e) (cell s k) \<and> cell ?t k = Some (ver e, val e)))
    \<and> (\<forall>e \<in> set ds. key e = k \<longrightarrow> \<not> newer (ver e) (cell ?t k))" by simp
  have i: "inv K ?t" using snoc.prems by (intro inv_delivers) auto
  have c: "cell (fold deliver (ds @ [d]) s) k
      = (if k = key d \<and> newer (ver d) (cell ?t k) then Some (ver d, val d) else cell ?t k)"
    using cell_deliver [OF i, of d k] snoc.prems by simp
  show ?case
  proof (cases "k = key d \<and> newer (ver d) (cell ?t k)")
    case True
    have old: "newer (ver d) (cell s k)" using IH True newer_chain by metis
    have "\<not> newer (ver e) (Some (ver d, val d))" if "e \<in> set ds" "key e = k" for e
      using IH True that newer_replaced by metis
    with True old c show ?thesis by auto
  next
    case False
    then show ?thesis using IH c by auto
  qed
qed

lemma cell_version_mono:
  assumes "inv K s" "key ` set ds \<subseteq> K" "cell s k = Some (v, x)"
  shows "\<exists>w y. cell (fold deliver ds s) k = Some (w, y) \<and> v \<le> w \<and> (w = v \<longrightarrow> y = x)"
  using cell_delivers [OF assms(1,2), of k] assms(3) by auto

text \<open>Order and repetition of deliveries do not matter.\<close>

theorem delivers_converge:
  assumes s: "inv K s" and ds: "key ` set ds \<subseteq> K" and es: "set es = set ds"
    and con: "consistent key ver val (set ds)"
  shows "cell (fold deliver es s) k = cell (fold deliver ds s) k"
proof -
  let ?a = "cell (fold deliver ds s) k" and ?b = "cell (fold deliver es s) k"
  note a = cell_delivers [OF s ds, of k]
  note b = cell_delivers [OF s, of es k, unfolded es, OF ds]
  show ?thesis
  proof (cases "?a = cell s k")
    case True
    then have "\<not> newer (ver d) (cell s k)" if "d \<in> set ds" "key d = k" for d using a that by auto
    then show ?thesis using b True by auto
  next
    case False
    then obtain d where d: "d \<in> set ds" "key d = k" "newer (ver d) (cell s k)" "?a = Some (ver d, val d)"
      using a by auto
    then have "?b \<noteq> cell s k" using b by auto
    then obtain e where e: "e \<in> set ds" "key e = k" "?b = Some (ver e, val e)" using b by auto
    have "\<not> ver d < ver e" using conjunct2 [OF a] e(1,2) d(4) by auto
    moreover have "\<not> ver e < ver d" using conjunct2 [OF b] d(1,2) e(3) by auto
    ultimately have "ver d = ver e" by simp
    then have "val d = val e" using con d(1,2) e(1,2) unfolding consistent_def by metis
    with \<open>ver d = ver e\<close> d(4) e(3) show ?thesis by simp
  qed
qed

end

section \<open>The store of the manager\<close>

type_synonym delivery = "string \<times> string \<times> version \<times> stream option"

fun del_key :: "delivery \<Rightarrow> string \<times> string" where
  "del_key (sid, nid, v, l) = (sid, nid)"

fun del_ver :: "delivery \<Rightarrow> rat" where
  "del_ver (sid, nid, v, l) = (case num_value v of Fin q \<Rightarrow> q | _ \<Rightarrow> 0)"

fun del_val :: "delivery \<Rightarrow> stream option" where
  "del_val (sid, nid, v, l) = l"

fun deliver_entry :: "delivery \<Rightarrow> cluster \<Rightarrow> cluster" where
  "deliver_entry (sid, nid, v, l) s = store_entry sid nid v l s"

definition ver_value :: "version \<Rightarrow> rat" where
  "ver_value v = (case num_value v of Fin q \<Rightarrow> q | _ \<Rightarrow> 0)"

definition snap_at :: "cluster \<Rightarrow> string \<Rightarrow> string \<Rightarrow> (stream \<times> version) option" where
  "snap_at s sid nid = map_of (dict_get (cm_snapshots s) sid []) nid"

definition tomb_at :: "cluster \<Rightarrow> string \<Rightarrow> string \<Rightarrow> version option" where
  "tomb_at s sid nid = map_of (dict_get (cm_tombstones s) sid []) nid"

text \<open>What the store knows of one origin of a stream: a version, with a snapshot or a tombstone.\<close>

definition peer_cell :: "cluster \<Rightarrow> string \<times> string \<Rightarrow> (rat \<times> stream option) option" where
  "peer_cell s k = (case k of (sid, nid) \<Rightarrow> (case snap_at s sid nid of
     Some (l, v) \<Rightarrow> Some (ver_value v, Some l)
   | None \<Rightarrow> map_option (\<lambda>v. (ver_value v, None)) (tomb_at s sid nid)))"

definition good_version :: "version \<Rightarrow> bool" where
  "good_version v \<longleftrightarrow> (\<exists>q. num_value v = Fin q \<and> 0 < q)"

definition store_ok :: "cluster \<Rightarrow> bool" where
  "store_ok s \<longleftrightarrow> dict_ok (cm_snapshots s) \<and> dict_ok (cm_tombstones s)
    \<and> (\<forall>sid g. map_of (cm_snapshots s) sid = Some g \<longrightarrow> dict_ok g)
    \<and> (\<forall>sid g. map_of (cm_tombstones s) sid = Some g \<longrightarrow> dict_ok g)
    \<and> (\<forall>sid nid l v. snap_at s sid nid = Some (l, v) \<longrightarrow> good_version v \<and> nid \<noteq> cm_node_id s \<and> tomb_at s sid nid = None)
    \<and> (\<forall>sid nid v. tomb_at s sid nid = Some v \<longrightarrow> good_version v \<and> nid \<noteq> cm_node_id s)
    \<and> length (known_streams s) \<le> MAX_PEER_STREAMS
    \<and> (\<forall>sid. length (known_origins s sid) \<le> MAX_ORIGINS_PER_STREAM)"

text \<open>Room for a set of stream and origin pairs.\<close>

definition store_room :: "(string \<times> string) set \<Rightarrow> cluster \<Rightarrow> bool" where
  "store_room K s \<longleftrightarrow> store_ok s \<and> finite K \<and> (\<forall>k \<in> K. snd k \<noteq> cm_node_id s)
    \<and> card (fst ` K \<union> set (known_streams s)) \<le> MAX_PEER_STREAMS
    \<and> (\<forall>sid. card (Pair sid -` K \<union> set (known_origins s sid)) \<le> MAX_ORIGINS_PER_STREAM)"

subsection \<open>The two changes\<close>

lemma dict_get_put_group: "dict_get (put_group sid g d) sid' [] = (if sid' = sid then g else dict_get d sid' [])"
  by (auto simp: put_group_def dict_get_def update_conv' delete_conv' split: option.splits)

lemma dict_ok_put_group: "dict_ok d \<Longrightarrow> dict_ok (put_group sid g d)"
  by (simp add: put_group_def distinct_update distinct_delete)

lemmas store_change_defs = snap_at_def tomb_at_def store_tombstone_def store_snapshot_def
  dict_get_put_group dict_get_update update_conv' delete_conv'

lemma store_tombstone_at:
  "snap_at (store_tombstone sid nid v s) sid' nid' = (if sid' = sid \<and> nid' = nid then None else snap_at s sid' nid')"
  "tomb_at (store_tombstone sid nid v s) sid' nid' = (if sid' = sid \<and> nid' = nid then Some v else tomb_at s sid' nid')"
  by (auto simp: store_change_defs)

lemma store_snapshot_at:
  "snap_at (store_snapshot sid nid v l s) sid' nid' = (if sid' = sid \<and> nid' = nid then Some (l, v) else snap_at s sid' nid')"
  "tomb_at (store_snapshot sid nid v l s) sid' nid' = (if sid' = sid \<and> nid' = nid then None else tomb_at s sid' nid')"
  by (auto simp: store_change_defs)

lemma known_origins_set: "set (known_origins s sid) = {nid. snap_at s sid nid \<noteq> None \<or> tomb_at s sid nid \<noteq> None}"
  by (auto simp: known_origins_def snap_at_def tomb_at_def map_of_eq_None_iff image_iff simp del: not_None_eq)

lemma known_streams_set: "set (known_streams s) = fst ` set (cm_snapshots s) \<union> fst ` set (cm_tombstones s)"
  by (simp add: known_streams_def)

lemma length_known [simp]:
  "length (known_streams s) = card (set (known_streams s))"
  "length (known_origins s sid) = card (set (known_origins s sid))"
  by (simp_all add: known_streams_def known_origins_def length_remdups_card_conv)

lemma put_group_keys: "fst ` set (put_group sid g d) \<subseteq> insert sid (fst ` set d)"
  using dom_delete_subset [of sid d] by (auto simp: put_group_def dom_update)

lemma stored_streams:
  "set (known_streams (store_tombstone sid nid v s)) \<subseteq> insert sid (set (known_streams s))"
  "set (known_streams (store_snapshot sid nid v l s)) \<subseteq> insert sid (set (known_streams s))"
  using put_group_keys [of sid "AList.delete nid (dict_get (cm_snapshots s) sid [])" "cm_snapshots s"]
    put_group_keys [of sid "AList.delete nid (dict_get (cm_tombstones s) sid [])" "cm_tombstones s"]
  by (auto simp: known_streams_set store_tombstone_def store_snapshot_def dom_update)

lemma stored_origins:
  "set (known_origins (store_tombstone sid nid v s) sid') = (if sid' = sid then insert nid else id) (set (known_origins s sid'))"
  "set (known_origins (store_snapshot sid nid v l s) sid') = (if sid' = sid then insert nid else id) (set (known_origins s sid'))"
  by (auto simp: known_origins_set store_tombstone_at store_snapshot_at)

lemma map_of_put_group:
  "map_of (put_group sid g d) sid' = (if sid' = sid then (if g = [] then None else Some g) else map_of d sid')"
  by (simp add: put_group_def update_conv' delete_conv')

lemma inner_ok: "(\<forall>sid g. map_of d sid = Some g \<longrightarrow> dict_ok g) \<Longrightarrow> dict_ok (dict_get d sid [])"
  by (auto simp: dict_get_def split: option.splits)

text \<open>Both changes keep a well-formed store well formed, if there is room.\<close>

lemma store_change_ok:
  assumes s: "store_ok s" and v: "good_version v" and nid: "nid \<noteq> cm_node_id s"
    and r1: "card (insert sid (set (known_streams s))) \<le> MAX_PEER_STREAMS"
    and r2: "card (insert nid (set (known_origins s sid))) \<le> MAX_ORIGINS_PER_STREAM"
  shows "store_ok (store_tombstone sid nid v s) \<and> store_ok (store_snapshot sid nid v l s)"
proof -
  have le: "card A \<le> n" if "A \<subseteq> insert sid (set (known_streams s))" "card (insert sid (set (known_streams s))) \<le> n" for A n
    using that card_mono [OF _ that(1)] by simp
  have c: "card (set (known_streams (store_tombstone sid nid v s))) \<le> MAX_PEER_STREAMS"
    "card (set (known_streams (store_snapshot sid nid v l s))) \<le> MAX_PEER_STREAMS"
    using le [OF stored_streams(1) r1] le [OF stored_streams(2) r1] by simp_all
  have o: "card (set (known_origins (store_tombstone sid nid v s) sid')) \<le> MAX_ORIGINS_PER_STREAM"
    "card (set (known_origins (store_snapshot sid nid v l s) sid')) \<le> MAX_ORIGINS_PER_STREAM" for sid'
    using s r2 unfolding stored_origins by (auto simp: store_ok_def)
  have g: "dict_ok (dict_get (cm_snapshots s) sid [])" "dict_ok (dict_get (cm_tombstones s) sid [])"
    using s by (auto simp: store_ok_def intro!: inner_ok)
  have i: "cm_node_id (store_tombstone sid nid v s) = cm_node_id s" "cm_node_id (store_snapshot sid nid v l s) = cm_node_id s"
    by (simp_all add: store_tombstone_def store_snapshot_def)
  have d: "dict_ok (cm_snapshots s)" "dict_ok (cm_tombstones s)" using s by (simp_all add: store_ok_def)
  have t: "store_ok (store_tombstone sid nid v s)"
    unfolding store_ok_def i store_tombstone_at length_known
    using s v nid c(1) o(1) g d
    by (auto simp: store_ok_def store_tombstone_def map_of_put_group update_conv' dict_ok_put_group distinct_update distinct_delete
        split: if_splits)
  have n: "store_ok (store_snapshot sid nid v l s)"
    unfolding store_ok_def i store_snapshot_at length_known
    using s v nid c(2) o(2) g d
    by (auto simp: store_ok_def store_snapshot_def map_of_put_group update_conv' dict_ok_put_group distinct_update distinct_delete
        split: if_splits)
  show ?thesis using t n by simp
qed

text \<open>The comparison of versions is the comparison with the cell.\<close>

lemma store_okD:
  assumes "store_ok s"
  shows "snap_at s sid nid = Some (l, v) \<Longrightarrow> good_version v \<and> nid \<noteq> cm_node_id s \<and> tomb_at s sid nid = None"
    and "tomb_at s sid nid = Some v \<Longrightarrow> good_version v \<and> nid \<noteq> cm_node_id s"
  using assms by (simp_all add: store_ok_def)

lemma version_at:
  "snap_version s sid nid = (case snap_at s sid nid of Some (l, v) \<Rightarrow> v | None \<Rightarrow> PInt 0)"
  "tomb_version s sid nid = (case tomb_at s sid nid of Some v \<Rightarrow> v | None \<Rightarrow> PInt 0)"
  by (simp_all add: snap_version_def tomb_version_def snap_at_def tomb_at_def dict_get_def [of "dict_get _ _ _"])

lemmas version_defs = version_at num_max_def num_lt_def f_le_def peer_cell_def ver_value_def good_version_def

lemma versions_of_cell:
  assumes "store_ok s" "num_value v = Fin q"
  shows "f_le (num_value v) (num_value (num_max (snap_version s sid nid) (tomb_version s sid nid)))
     \<longleftrightarrow> \<not> newer q (peer_cell s (sid, nid))"
proof (cases "snap_at s sid nid")
  case (Some lw)
  then show ?thesis using store_okD(1) [OF assms(1), of sid nid "fst lw" "snd lw"] assms(2)
    by (auto simp: version_defs case_prod_unfold)
next
  case None
  show ?thesis
  proof (cases "tomb_at s sid nid")
    case (Some w)
    then show ?thesis using store_okD(2) [OF assms(1) Some] None assms(2) by (auto simp: version_defs simp del: newer.simps) auto
  next
    case None': None
    then show ?thesis using None assms(2) by (simp add: version_defs not_less le_less)
  qed
qed

lemma store_change_cell:
  assumes "num_value v = Fin q"
  shows "peer_cell (store_tombstone sid nid v s) k = (if k = (sid, nid) then Some (q, None) else peer_cell s k)"
    and "peer_cell (store_snapshot sid nid v l s) k = (if k = (sid, nid) then Some (q, Some l) else peer_cell s k)"
proof -
  have v: "ver_value v = q" using assms by (simp add: ver_value_def)
  show "peer_cell (store_tombstone sid nid v s) k = (if k = (sid, nid) then Some (q, None) else peer_cell s k)"
    unfolding peer_cell_def store_tombstone_at by (cases k) (simp add: v)
  show "peer_cell (store_snapshot sid nid v l s) k = (if k = (sid, nid) then Some (q, Some l) else peer_cell s k)"
    unfolding peer_cell_def store_snapshot_at by (cases k) (simp add: v)
qed

text \<open>One entry, whatever room there is: refused by a limit, outdated, or stored.\<close>

definition refused :: "cluster \<Rightarrow> string \<times> string \<Rightarrow> bool" where
  "refused s k \<longleftrightarrow> (fst k \<notin> set (known_streams s) \<and> card (set (known_streams s)) \<ge> MAX_PEER_STREAMS)
    \<or> (snd k \<notin> set (known_origins s (fst k)) \<and> card (set (known_origins s (fst k))) \<ge> MAX_ORIGINS_PER_STREAM)"

lemma store_entry_cases:
  assumes "store_ok s" "num_value v = Fin q"
  shows "store_entry sid nid v l s = (if refused s (sid, nid) \<or> \<not> newer q (peer_cell s (sid, nid)) then s
     else case l of None \<Rightarrow> store_tombstone sid nid v s | Some x \<Rightarrow> store_snapshot sid nid v x s)"
  unfolding store_entry_def versions_of_cell [OF assms] length_known
  by (simp add: refused_def)

lemma newer_pos: "store_ok s \<Longrightarrow> newer q (peer_cell s k) \<Longrightarrow> 0 < q"
proof -
  assume s: "store_ok s" and n: "newer q (peer_cell s k)"
  obtain sid nid where k: "k = (sid, nid)" by (cases k)
  show "0 < q"
  proof (cases "snap_at s sid nid")
    case (Some lw)
    then show ?thesis using n k store_okD(1) [OF s, of sid nid "fst lw" "snd lw"] by (auto simp: version_defs case_prod_unfold)
  next
    case None
    then show ?thesis using n k store_okD(2) [OF s, of sid nid] by (cases "tomb_at s sid nid") (auto simp: version_defs)
  qed
qed

lemma store_entry_ok:
  assumes s: "store_ok s" and q: "num_value v = Fin q" and nid: "nid \<noteq> cm_node_id s"
  shows "store_ok (store_entry sid nid v l s)"
proof (cases "refused s (sid, nid) \<or> \<not> newer q (peer_cell s (sid, nid))")
  case True
  then show ?thesis using s store_entry_cases [OF s q] by simp
next
  case False
  then have v: "good_version v" using newer_pos [OF s] q by (auto simp: good_version_def)
  have r1: "card (insert sid (set (known_streams s))) \<le> MAX_PEER_STREAMS"
    using False s by (auto simp: refused_def store_ok_def card_insert_if)
  have r2: "card (insert nid (set (known_origins s sid))) \<le> MAX_ORIGINS_PER_STREAM"
    using False s by (auto simp: refused_def store_ok_def card_insert_if)
  show ?thesis using store_change_ok [OF s v nid r1 r2] False store_entry_cases [OF s q]
    by (auto split: option.splits)
qed

lemma known_sets_stored:
  "set (known_streams (store_entry sid nid v l s)) \<subseteq> insert sid (set (known_streams s))"
  "set (known_origins (store_entry sid nid v l s) sid') \<subseteq> (if sid' = sid then insert nid else id) (set (known_origins s sid'))"
  using stored_streams by (auto simp: store_entry_def stored_origins split: option.splits)

lemma store_entry_node [simp]: "cm_node_id (store_entry sid nid v l s) = cm_node_id s"
  by (simp add: store_entry_def store_tombstone_def store_snapshot_def split: option.splits)

lemma store_room_refused: "store_room K s \<Longrightarrow> k \<in> K \<Longrightarrow> \<not> refused s k"
proof -
  assume r: "store_room K s" and k: "k \<in> K"
  have f: "finite (fst ` K \<union> set (known_streams s))" "finite (Pair (fst k) -` K \<union> set (known_origins s (fst k)))"
    using r by (auto simp: store_room_def intro!: finite_vimageI injI)
  have "card (set (known_streams s)) < MAX_PEER_STREAMS" if "fst k \<notin> set (known_streams s)"
  proof -
    have "card (set (known_streams s)) < card (fst ` K \<union> set (known_streams s))"
      using that k by (intro psubset_card_mono [OF f(1)]) blast
    also have "\<dots> \<le> MAX_PEER_STREAMS" using r by (simp add: store_room_def)
    finally show ?thesis .
  qed
  moreover have "card (set (known_origins s (fst k))) < MAX_ORIGINS_PER_STREAM" if "snd k \<notin> set (known_origins s (fst k))"
  proof -
    have "snd k \<in> Pair (fst k) -` K" using k by simp
    then have "card (set (known_origins s (fst k))) < card (Pair (fst k) -` K \<union> set (known_origins s (fst k)))"
      using that by (intro psubset_card_mono [OF f(2)]) blast
    also have "\<dots> \<le> MAX_ORIGINS_PER_STREAM" using r by (auto simp: store_room_def)
    finally show ?thesis .
  qed
  ultimately show ?thesis by (auto simp: refused_def)
qed

text \<open>Deliveries with a version that is a number.\<close>

definition timed :: "delivery \<Rightarrow> bool" where
  "timed d \<longleftrightarrow> (\<exists>q. num_value (fst (snd (snd d))) = Fin q)"

definition deliver_timed :: "delivery \<Rightarrow> cluster \<Rightarrow> cluster" where
  "deliver_timed d s = (if timed d then deliver_entry d s else s)"

lemma store_room_kept:
  assumes r: "store_room K s" and k: "(sid, nid) \<in> K" and q: "num_value v = Fin q"
  shows "store_room K (store_entry sid nid v l s)"
proof -
  let ?t = "store_entry sid nid v l s"
  have s: "store_ok s" and f: "finite K" and n: "nid \<noteq> cm_node_id s" using r k by (auto simp: store_room_def)
  have "fst ` K \<union> set (known_streams ?t) \<subseteq> fst ` K \<union> set (known_streams s)"
    using known_sets_stored(1) [of sid nid v l s] k by force
  then have a: "card (fst ` K \<union> set (known_streams ?t)) \<le> MAX_PEER_STREAMS"
    using card_mono [of "fst ` K \<union> set (known_streams s)" "fst ` K \<union> set (known_streams ?t)"] r f
    unfolding store_room_def by simp
  have b: "card (Pair sid' -` K \<union> set (known_origins ?t sid')) \<le> MAX_ORIGINS_PER_STREAM" for sid'
  proof -
    have "Pair sid' -` K \<union> set (known_origins ?t sid') \<subseteq> Pair sid' -` K \<union> set (known_origins s sid')"
      using known_sets_stored(2) [of sid nid v l s sid'] k by (auto split: if_splits)
    then have "card (Pair sid' -` K \<union> set (known_origins ?t sid')) \<le> card (Pair sid' -` K \<union> set (known_origins s sid'))"
      using f by (intro card_mono) (auto intro!: finite_vimageI injI)
    also have "\<dots> \<le> MAX_ORIGINS_PER_STREAM" using r unfolding store_room_def by simp
    finally show ?thesis .
  qed
  show ?thesis unfolding store_room_def
    using a b r f store_entry_ok [OF s q n] by (auto simp: store_room_def)
qed

interpretation mesh: lww_store deliver_timed del_key del_ver del_val peer_cell store_room
proof
  fix K s d
  assume r: "store_room K s" and k: "del_key d \<in> K"
  obtain sid nid v l where d: "d = (sid, nid, v, l)" by (cases d) auto
  have s: "store_ok s" using r by (simp add: store_room_def)
  show "store_room K (deliver_timed d s)"
    using store_room_kept [OF r] r k d by (auto simp: deliver_timed_def timed_def)
  fix k'
  show "peer_cell (deliver_timed d s) k' =
      (if k' = del_key d \<and> newer (del_ver d) (peer_cell s k') then Some (del_ver d, del_val d) else peer_cell s k')"
  proof (cases "timed d")
    case True
    then obtain q where q: "num_value v = Fin q" by (auto simp: timed_def d)
    have "\<not> refused s (sid, nid)" using store_room_refused [OF r] k d by simp
    then show ?thesis using True d q store_entry_cases [OF s q]
      by (auto simp: deliver_timed_def store_change_cell [OF q] split: option.splits)
  next
    case False
    then have "del_ver d = 0" by (cases "num_value v") (auto simp: timed_def d)
    moreover have "\<not> newer 0 (peer_cell s k')" using newer_pos [OF s, of 0 k'] by auto
    ultimately show ?thesis using False by (simp add: deliver_timed_def)
  qed
qed

section \<open>Messages\<close>

text \<open>The entries of a message that reach the store.\<close>

definition entry_delivery :: "libm \<Rightarrow> string \<Rightarrow> pyfloat \<Rightarrow> string \<Rightarrow> pyval \<times> pyval \<Rightarrow> delivery option" where
  "entry_delivery L own timestamp sid entry = (case entry of
     (PStr nid, PDict data) \<Rightarrow> if valid_identifier nid \<and> nid \<noteq> own then
        (case rbind (entry_version timestamp data) (\<lambda>v. rbind (entry_log L data) (\<lambda>l. Inr (v, l))) of
           Inr (v, l) \<Rightarrow> Some (sid, nid, v, l) | Inl _ \<Rightarrow> None) else None
   | _ \<Rightarrow> None)"

definition message_deliveries :: "libm \<Rightarrow> string \<Rightarrow> pyfloat \<Rightarrow> pydict \<Rightarrow> delivery list" where
  "message_deliveries L own timestamp d = concat (map (\<lambda>e. case e of
     (PStr sid, PDict g) \<Rightarrow> if valid_stream_key (PStr sid) then List.map_filter (entry_delivery L own timestamp sid) g else []
   | _ \<Rightarrow> []) d)"

lemma number_finite: "is_number v \<Longrightarrow> num_isfinite v = Inr True \<Longrightarrow> \<exists>q. num_value v = Fin q"
  by (cases v) (auto simp: res_simps elim: f_isfinite.elims)

lemma entry_version_timed: "entry_version ts d = Inr v \<Longrightarrow> \<exists>q. num_value v = Fin q"
  unfolding entry_version_def Let_def using number_finite by (auto simp: res_simps)

lemma receive_entry_delivery:
  "receive_entry L ts sid e s = (case entry_delivery L (cm_node_id s) ts sid e of None \<Rightarrow> s | Some d \<Rightarrow> deliver_timed d s)"
proof -
  have "deliver_timed (sid, nid, v, l) s = store_entry sid nid v l s" if "entry_version ts d = Inr v" for nid d v l
    using entry_version_timed [OF that] by (auto simp: deliver_timed_def timed_def)
  then show ?thesis unfolding receive_entry_def entry_delivery_def
    by (auto simp: res_simps split: prod.splits pyval.splits sum.splits)
qed

lemma deliver_timed_node [simp]: "cm_node_id (deliver_timed d s) = cm_node_id s"
  by (cases d) (simp add: deliver_timed_def)

lemma delivers_node [simp]: "cm_node_id (fold deliver_timed ds s) = cm_node_id s"
  by (induction ds arbitrary: s) simp_all

lemma receive_entries_deliveries:
  "fold (receive_entry L ts sid) g s = fold deliver_timed (List.map_filter (entry_delivery L (cm_node_id s) ts sid) g) s"
  by (induction g arbitrary: s) (simp_all add: map_filter_simps receive_entry_delivery split: option.splits)

lemma receive_stream_deliveries:
  "receive_stream L ts e s = fold deliver_timed (message_deliveries L (cm_node_id s) ts [e]) s"
  unfolding receive_stream_def message_deliveries_def
  by (auto simp: receive_entries_deliveries split: prod.splits pyval.splits)

lemma message_deliveries_Cons:
  "message_deliveries L own ts (e # d) = message_deliveries L own ts [e] @ message_deliveries L own ts d"
  by (simp add: message_deliveries_def)

lemma receive_streams_deliveries:
  "fold (receive_stream L ts) d s = fold deliver_timed (message_deliveries L (cm_node_id s) ts d) s"
proof (induction d arbitrary: s)
  case Nil
  then show ?case by (simp add: message_deliveries_def)
next
  case (Cons e d)
  then show ?case
    by (simp add: receive_stream_deliveries message_deliveries_Cons [of L _ ts e d])
qed

text \<open>A message is a sender, the streams it carries and the time of its receipt.\<close>

type_synonym message = "pyval \<times> pyval \<times> pyfloat"

definition valid_sender :: "pyval \<Rightarrow> bool" where
  "valid_sender v = (case v of PStr n \<Rightarrow> valid_identifier n | _ \<Rightarrow> False)"

fun deliveries :: "libm \<Rightarrow> string \<Rightarrow> message \<Rightarrow> delivery list" where
  "deliveries L own (sender, streams, ts) =
    (case streams of PDict d \<Rightarrow> if valid_sender sender then message_deliveries L own ts d else [] | _ \<Rightarrow> [])"

fun receive_message :: "libm \<Rightarrow> message \<Rightarrow> cluster \<Rightarrow> cluster" where
  "receive_message L (sender, streams, ts) s = fst (receive_snapshot L sender streams ts s)"

lemma receive_message_deliveries:
  "receive_message L m s = fold deliver_timed (deliveries L (cm_node_id s) m) s"
  by (cases m) (auto simp: receive_snapshot_def valid_sender_def receive_streams_deliveries split: pyval.splits)

lemma receive_messages_deliveries:
  "fold (receive_message L) ms s = fold deliver_timed (concat (map (deliveries L (cm_node_id s)) ms)) s"
  by (induction ms arbitrary: s) (simp_all add: receive_message_deliveries)

text \<open>
  C4: anti-entropy converges.  Two nodes that start alike and receive messages with the same entries,
  in any order and with any repetitions, know the same versions and snapshots of every stream and
  origin afterwards, provided a version of an origin never stands for two contents and the limits on
  streams and origins leave room.
\<close>

theorem gossip_converges:
  assumes "store_room K s"
    and "set (concat (map (deliveries L (cm_node_id s)) ms)) = set (concat (map (deliveries L (cm_node_id s)) ms'))"
    and "del_key ` set (concat (map (deliveries L (cm_node_id s)) ms)) \<subseteq> K"
    and "consistent del_key del_ver del_val (set (concat (map (deliveries L (cm_node_id s)) ms)))"
  shows "peer_cell (fold (receive_message L) ms s) = peer_cell (fold (receive_message L) ms' s)"
  using mesh.delivers_converge [OF assms(1,3) assms(2) [symmetric] assms(4)]
  by (simp add: receive_messages_deliveries fun_eq_iff)

definition demo_cluster :: cluster where
  "demo_cluster = \<lparr>cm_node_id = ''n0'', cm_heartbeat_timeout = Fin 60, cm_secret = None, cm_advertised = None,
     cm_max_payload = 1024, cm_max_tombstones = 2, cm_incarnation = 0, cm_digest_cursor = 0, cm_has_seeds = False,
     cm_members = [(''n0'', new_member [] (Fin 0))], cm_allowed = [], cm_snapshots = [], cm_tombstones = [], cm_local_tombstones = []\<rparr>"

definition demo_tomb :: "string \<Rightarrow> int \<Rightarrow> message" where
  "demo_tomb nid v = (PStr nid, PDict [(PStr (stream_key ''a'' ''b''), PDict [(PStr nid, PDict
     [(PStr ''__tombstone__'', PBool True), (PStr ''__version__'', PInt v)])])], Fin 0)"

lemma demo_store_room: "store_room {(sid, nid)} demo_cluster" if "nid \<noteq> ''n0''"
proof -
  have "Pair sid' -` {(sid, nid)} \<subseteq> {nid}" for sid' by auto
  then have "card (Pair sid' -` {(sid, nid)}) \<le> 50" for sid'
    using card_mono [of "{nid}" "Pair sid' -` {(sid, nid)}"] by simp
  then show ?thesis using that
    by (simp add: store_room_def store_ok_def demo_cluster_def snap_at_def tomb_at_def known_streams_def known_origins_def
      MAX_PEER_STREAMS_def MAX_ORIGINS_PER_STREAM_def)
qed

lemma demo_tomb_deliveries:
  assumes "v = 1 \<or> v = 2"
  shows "deliveries L ''n0'' (demo_tomb ''n1'' v) = [(stream_key ''a'' ''b'', ''n1'', PInt v, None)]"
proof -
  have k: "valid_stream_key (PStr (stream_key ''a'' ''b''))" by code_simp
  have f: "num_isfinite (PInt 1) = Inr True" "num_isfinite (PInt 2) = Inr True" by code_simp+
  have "entry_delivery L ''n0'' (Fin 0) sid (PStr ''n1'', PDict [(PStr ''__tombstone__'', PBool True), (PStr ''__version__'', PInt v)])
      = Some (sid, ''n1'', PInt v, None)" for sid
    using assms by (elim disjE) (simp_all add: entry_delivery_def entry_version_def entry_log_def valid_identifier_def
      MAX_IDENTIFIER_LENGTH_def num_lt_def Let_def f del: num_isfinite.simps)
  then show ?thesis using k
    by (simp add: demo_tomb_def valid_sender_def message_deliveries_def map_filter_simps valid_identifier_def MAX_IDENTIFIER_LENGTH_def)
qed

theorem gossip_converges_witness:
  "\<forall>L. peer_cell (fold (receive_message L) [demo_tomb ''n1'' 1, demo_tomb ''n1'' 2] demo_cluster)
     = peer_cell (fold (receive_message L) [demo_tomb ''n1'' 2, demo_tomb ''n1'' 1, demo_tomb ''n1'' 2] demo_cluster)"
proof
  fix L
  have own: "cm_node_id demo_cluster = ''n0''" by (simp add: demo_cluster_def)
  have v: "num_value (PInt 1) \<noteq> num_value (PInt 2)" by simp
  show "peer_cell (fold (receive_message L) [demo_tomb ''n1'' 1, demo_tomb ''n1'' 2] demo_cluster)
     = peer_cell (fold (receive_message L) [demo_tomb ''n1'' 2, demo_tomb ''n1'' 1, demo_tomb ''n1'' 2] demo_cluster)"
    by (rule gossip_converges [OF demo_store_room [of "''n1''" "stream_key ''a'' ''b''"]])
      (auto simp: own demo_tomb_deliveries consistent_def)
qed

end
