(* ===== verification/Mesh_Inv.thy ===== *)
theory Mesh_Inv
  imports Gossip Mesh_Store
begin

text \<open>
  The manager as a state machine: every method that changes it is a step, the threads of the server
  and of the manager interleave them.  The invariant of the reachable states, what no step can undo,
  and the refutation of false accusations.
\<close>

section \<open>Steps\<close>

inductive mesh_step :: "libm \<Rightarrow> urlsplit \<Rightarrow> cluster \<Rightarrow> cluster \<Rightarrow> bool" for L u where
  ms_receive: "mesh_step L u s (fst (receive_snapshot L sender d ts s))"
| ms_reply: "mesh_step L u s (fst (gossip_reply L reg post now resp s))"
| ms_ping: "mesh_step L u s (fst (handle_ping u t0 now payload s))"
| ms_probe: "nid \<noteq> cm_node_id s \<Longrightarrow> mesh_step L u s (ping_finish u now t0 nid info outcome s)"
| ms_timeouts: "mesh_step L u s (check_timeouts t0 s)"
| ms_vector: "bounded_version_vector s vv = Inr (s', selected) \<Longrightarrow> mesh_step L u s s'"
| ms_begin: "begin_deletion ns sid t0 s = Inr (s', r) \<Longrightarrow> mesh_step L u s s'"
| ms_rollback: "mesh_step L u s (rollback_deletion key v previous s)"
| ms_restore: "mesh_step L u s (fst (restore_local_tombstones d s))"

definition mesh_steps :: "libm \<Rightarrow> urlsplit \<Rightarrow> cluster \<Rightarrow> cluster \<Rightarrow> bool" where
  "mesh_steps L u = (mesh_step L u)\<^sup>*\<^sup>*"

section \<open>Invariants\<close>

definition member_ok :: "string list \<Rightarrow> string \<Rightarrow> string \<times> pydict \<Rightarrow> bool" where
  "member_ok allowed own m \<longleftrightarrow> (case m of (nid, info) \<Rightarrow>
     m_status info \<in> set [PStr ''alive'', PStr ''suspect'', PStr ''dead'']
     \<and> (\<exists>k \<ge> 0. d_get info ''incarnation'' PNone = PInt k)
     \<and> (nid \<noteq> own \<longrightarrow> py_truth (m_address info) \<longrightarrow> (\<exists>a \<in> set allowed. m_address info = PStr a)))"

definition own_ok :: "cluster \<Rightarrow> bool" where
  "own_ok s \<longleftrightarrow> (\<exists>info. map_of (cm_members s) (cm_node_id s) = Some info \<and> m_status info = PStr ''alive''
     \<and> d_get info ''incarnation'' PNone = PInt (cm_incarnation s))"

definition members_ok :: "cluster \<Rightarrow> bool" where
  "members_ok s \<longleftrightarrow> dict_ok (cm_members s) \<and> own_ok s
     \<and> list_all (member_ok (cm_allowed s) (cm_node_id s)) (cm_members s)"

definition locals_ok :: "cluster \<Rightarrow> bool" where
  "locals_ok s \<longleftrightarrow> dict_ok (cm_local_tombstones s) \<and> int (length (cm_local_tombstones s)) \<le> cm_max_tombstones s"

definition mesh_inv :: "nat \<Rightarrow> cluster \<Rightarrow> bool" where
  "mesh_inv n s \<longleftrightarrow> members_ok s \<and> length (cm_members s) \<le> max MAX_MEMBERS n \<and> store_ok s \<and> locals_ok s"

text \<open>The configuration of a manager, which no step changes.\<close>

definition mesh_config :: "cluster \<Rightarrow> string \<times> string list \<times> int \<times> int" where
  "mesh_config s = (cm_node_id s, cm_allowed s, cm_max_payload s, cm_max_tombstones s)"

text \<open>The three parts of the state that the invariants speak about.\<close>

definition member_part :: "cluster \<Rightarrow> (string, pydict) dict \<times> int" where
  "member_part s = (cm_members s, cm_incarnation s)"

definition store_part :: "cluster \<Rightarrow> (stream \<times> version) per_origin \<times> version per_origin" where
  "store_part s = (cm_snapshots s, cm_tombstones s)"

lemmas mesh_parts = mesh_config_def member_part_def store_part_def

lemma parts_cong:
  "member_part t = member_part s \<Longrightarrow> mesh_config t = mesh_config s \<Longrightarrow> members_ok t = members_ok s"
  "store_part t = store_part s \<Longrightarrow> mesh_config t = mesh_config s \<Longrightarrow> store_ok t = store_ok s"
  "cm_local_tombstones t = cm_local_tombstones s \<Longrightarrow> mesh_config t = mesh_config s \<Longrightarrow> locals_ok t = locals_ok s"
  by (simp_all add: mesh_parts members_ok_def own_ok_def store_ok_def locals_ok_def snap_at_def tomb_at_def
      known_streams_def known_origins_def)

section \<open>Dictionaries of members\<close>

lemma d_get_set [simp]: "d_get (d_set d k v) k' x = (if k' = k then v else d_get d k' x)"
  by (simp add: d_get_def d_set_def update_conv')

lemma m_set [simp]:
  "m_status (d_set d ''status'' v) = v" "m_status (d_set d ''last_updated'' v) = m_status d"
  "m_status (d_set d ''address'' v) = m_status d" "m_status (d_set d ''incarnation'' v) = m_status d"
  "m_incarnation (d_set d ''last_updated'' v) = m_incarnation d" "m_incarnation (d_set d ''status'' v) = m_incarnation d"
  "m_incarnation (d_set d ''address'' v) = m_incarnation d" "m_incarnation (d_set d ''incarnation'' (PInt k)) = k"
  "m_address (d_set d ''last_updated'' v) = m_address d" "m_address (d_set d ''status'' v) = m_address d"
  "m_address (d_set d ''incarnation'' v) = m_address d" "m_address (d_set d ''address'' v) = v"
  by (simp_all add: m_status_def m_incarnation_def m_address_def)

lemma length_update_map: "length (AList.update k v d) = (case map_of d k of None \<Rightarrow> Suc (length d) | Some _ \<Rightarrow> length d)"
  by (induction d) (auto split: option.splits)

lemma list_all_update:
  "list_all P d \<Longrightarrow> P (k, v) \<Longrightarrow> list_all P (AList.update k v d)"
  by (induction d) (auto split: prod.splits)

lemma list_all_delete: "list_all P d \<Longrightarrow> list_all P (AList.delete k d)"
  by (simp add: AList.delete_eq list_all_iff)

lemma put_member_parts [simp]:
  "mesh_config (put_member nid info s) = mesh_config s" "store_part (put_member nid info s) = store_part s"
  "cm_local_tombstones (put_member nid info s) = cm_local_tombstones s"
  "cm_members (put_member nid info s) = AList.update nid info (cm_members s)"
  "cm_incarnation (put_member nid info s) = cm_incarnation s"
  "cm_node_id (put_member nid info s) = cm_node_id s" "cm_allowed (put_member nid info s) = cm_allowed s"
  by (simp_all add: put_member_def mesh_parts)

text \<open>Storing a good entry for another node, or a good entry for this node, keeps the members well formed.\<close>

lemma put_member_ok:
  assumes s: "members_ok s" and m: "member_ok (cm_allowed s) (cm_node_id s) (nid, info)"
    and own: "nid = cm_node_id s \<Longrightarrow> m_status info = PStr ''alive'' \<and> d_get info ''incarnation'' PNone = PInt (cm_incarnation s)"
  shows "members_ok (put_member nid info s)"
  using assms unfolding members_ok_def own_ok_def
  by (auto simp: distinct_update list_all_update update_conv')

lemma known_member_ok:
  "members_ok s \<Longrightarrow> map_of (cm_members s) nid = Some info \<Longrightarrow> member_ok (cm_allowed s) (cm_node_id s) (nid, info)"
  by (auto simp: members_ok_def list_all_iff dest: map_of_SomeD)

lemma own_member:
  assumes "members_ok s"
  shows "map_of (cm_members s) (cm_node_id s) = Some (get_member s (cm_node_id s))"
    and "m_status (get_member s (cm_node_id s)) = PStr ''alive''"
    and "d_get (get_member s (cm_node_id s)) ''incarnation'' PNone = PInt (cm_incarnation s)"
    and "0 \<le> cm_incarnation s"
proof -
  obtain info where i: "map_of (cm_members s) (cm_node_id s) = Some info" "m_status info = PStr ''alive''"
    "d_get info ''incarnation'' PNone = PInt (cm_incarnation s)"
    using assms by (auto simp: members_ok_def own_ok_def)
  then have g: "get_member s (cm_node_id s) = info" by (simp add: get_member_def dict_get_def)
  show "map_of (cm_members s) (cm_node_id s) = Some (get_member s (cm_node_id s))"
    "m_status (get_member s (cm_node_id s)) = PStr ''alive''"
    "d_get (get_member s (cm_node_id s)) ''incarnation'' PNone = PInt (cm_incarnation s)"
    using i by (simp_all add: g)
  show "0 \<le> cm_incarnation s" using known_member_ok [OF assms i(1)] i(3) by (auto simp: member_ok_def)
qed

lemma fst_sbind_pure: "(\<And>x t. fst (k x t) = t) \<Longrightarrow> fst (sbind m k s) = fst (m s)"
  by (cases "m s"; cases "snd (m s)") (auto simp: sbind_def)

section \<open>Changes of the membership\<close>

definition inc_le :: "cluster \<Rightarrow> cluster \<Rightarrow> bool" where
  "inc_le s t \<longleftrightarrow> cm_incarnation s \<le> cm_incarnation t
    \<and> (\<forall>nid info. map_of (cm_members s) nid = Some info \<longrightarrow>
        (\<exists>info'. map_of (cm_members t) nid = Some info' \<and> m_incarnation info \<le> m_incarnation info'))"

definition same_rest :: "cluster \<Rightarrow> cluster \<Rightarrow> bool" where
  "same_rest s t \<longleftrightarrow> mesh_config t = mesh_config s \<and> store_part t = store_part s
    \<and> cm_local_tombstones t = cm_local_tombstones s"

text \<open>A change that only adds to what is known of the members.\<close>

definition member_op :: "cluster \<Rightarrow> cluster \<Rightarrow> bool" where
  "member_op s t \<longleftrightarrow> same_rest s t \<and> members_ok t \<and> inc_le s t
    \<and> length (cm_members t) \<le> max MAX_MEMBERS (length (cm_members s))"

lemma inc_le_refl [simp]: "inc_le s s" by (simp add: inc_le_def)

lemma inc_le_trans: "inc_le s t \<Longrightarrow> inc_le t w \<Longrightarrow> inc_le s w"
  unfolding inc_le_def by (meson order_trans)

lemma same_rest_refl [simp]: "same_rest s s" by (simp add: same_rest_def)

lemma same_rest_trans: "same_rest s t \<Longrightarrow> same_rest t w \<Longrightarrow> same_rest s w"
  by (simp add: same_rest_def)

lemma member_op_refl: "members_ok s \<Longrightarrow> member_op s s"
  by (simp add: member_op_def)

lemma member_op_trans: "member_op s t \<Longrightarrow> member_op t w \<Longrightarrow> member_op s w"
  unfolding member_op_def using inc_le_trans same_rest_trans by fastforce

text \<open>The three ways a change of one entry is written.\<close>

lemma put_member_op:
  assumes s: "members_ok s" and m: "member_ok (cm_allowed s) (cm_node_id s) (nid, info)" and nid: "nid \<noteq> cm_node_id s"
    and k: "case map_of (cm_members s) nid of None \<Rightarrow> length (cm_members s) < MAX_MEMBERS
              | Some known \<Rightarrow> m_incarnation known \<le> m_incarnation info"
  shows "member_op s (put_member nid info s)"
  using put_member_ok [OF s m] nid k
  by (auto simp: member_op_def same_rest_def inc_le_def update_conv' length_update_map split: option.splits)

lemma set_status_op:
  assumes s: "members_ok s" and nid: "nid \<noteq> cm_node_id s" "map_of (cm_members s) nid = Some info"
    and st: "st \<in> set [PStr ''alive'', PStr ''suspect'', PStr ''dead'']"
  shows "member_op s (set_status nid st now s)"
  unfolding set_status_def using known_member_ok [OF s nid(2)] nid st
  by (intro put_member_op [OF s _ nid(1)]) (auto simp: member_ok_def get_member_def dict_get_def)

lemma put_own_op:
  assumes s: "members_ok s" and i: "m_status info = PStr ''alive''" "d_get info ''incarnation'' PNone = PInt k"
    and k: "cm_incarnation s \<le> k"
  shows "member_op s (put_member (cm_node_id s) info (s\<lparr>cm_incarnation := k\<rparr>))"
proof -
  note own = own_member [OF s]
  have "members_ok (put_member (cm_node_id s) info (s\<lparr>cm_incarnation := k\<rparr>))"
    using s i k own(4) unfolding members_ok_def own_ok_def
    by (auto simp: distinct_update list_all_update update_conv' member_ok_def)
  moreover have "m_incarnation (get_member s (cm_node_id s)) \<le> m_incarnation info"
    using own(3) i(2) k by (simp add: m_incarnation_def)
  ultimately show ?thesis using own(1) k
    by (auto simp: member_op_def same_rest_def inc_le_def update_conv' length_update_map mesh_parts put_member_def)
qed

lemma stamp_op: "members_ok s \<Longrightarrow> member_op s (stamp (cm_node_id s) now s)"
  using put_own_op [of s "d_set (get_member s (cm_node_id s)) ''last_updated'' (PFloat now)" "cm_incarnation s"]
    own_member [of s] by (simp add: stamp_def)

lemma refute_op: "members_ok s \<Longrightarrow> cm_incarnation s \<le> k \<Longrightarrow> member_op s (refute k now s)"
  using own_member [of s] unfolding refute_def Let_def
  by (simp add: put_own_op get_member_def put_own_op [of s _ "k + 1"])

lemma checked_info_ok:
  assumes "checked_info u s info = Some info'"
  shows "m_status info' = m_status info \<and> d_get info' ''incarnation'' PNone = d_get info ''incarnation'' PNone
    \<and> (py_truth (m_address info') \<longrightarrow> (\<exists>a \<in> set (cm_allowed s). m_address info' = PStr a))"
  using assms
  by (auto simp: checked_info_def validate_peer_address_def res_simps split: if_splits sum.splits)

lemma accept_info_op:
  assumes s: "members_ok s" and nid: "nid \<noteq> cm_node_id s" and m: "member_ok (cm_allowed s) (cm_node_id s) (nid, info)"
  shows "member_op s (accept_info nid info now s)"
proof (cases "map_of (cm_members s) nid")
  case None
  then show ?thesis using m member_op_refl [OF s]
    by (auto simp: accept_info_def intro!: put_member_op [OF s _ nid] simp: member_ok_def)
next
  case (Some known)
  have "member_op s (put_member nid (d_set info ''last_updated'' (PFloat now)) s)" if "m_incarnation known < m_incarnation info"
    using m Some that by (intro put_member_op [OF s _ nid]) (auto simp: member_ok_def)
  moreover have "member_op s (set_status nid (m_status info) now s)"
    using m Some by (intro set_status_op [OF s nid Some]) (auto simp: member_ok_def)
  ultimately show ?thesis using Some member_op_refl [OF s] by (simp add: accept_info_def)
qed

lemma merge_member_dict:
  assumes "d_get info ''incarnation'' PNone = PInt k"
  shows "merge_member u now (PStr nid, PDict info) s =
    (if nid = [] \<or> length nid > 255 \<or> m_status info \<notin> set [PStr ''alive'', PStr ''suspect'', PStr ''dead''] \<or> k < 0 then s
     else if nid = cm_node_id s then
      (if m_status info \<in> set [PStr ''suspect'', PStr ''dead''] \<and> k \<ge> cm_incarnation s then refute k now s else s)
     else (case checked_info u s info of None \<Rightarrow> s | Some info' \<Rightarrow> accept_info nid info' now s))"
  unfolding merge_member_def prod.case pyval.case assms if_distrib by (simp only: if_bool_eq_disj if_cancel split: if_split) blast

lemma merge_member_other:
  assumes "\<nexists>nid info k. e = (PStr nid, PDict info) \<and> d_get info ''incarnation'' PNone = PInt k"
  shows "merge_member u now e s = s"
proof (cases "\<exists>nid info. e = (PStr nid, PDict info)")
  case True
  then obtain nid info where e: "e = (PStr nid, PDict info)" by blast
  then have "\<forall>k. d_get info ''incarnation'' PNone \<noteq> PInt k" using assms by blast
  then show ?thesis unfolding merge_member_def e by (cases "d_get info ''incarnation'' PNone") simp_all
next
  case False
  then show ?thesis unfolding merge_member_def by (cases e; cases "fst e"; cases "snd e") simp_all
qed

lemma merge_member_cases:
  obtains (same) "merge_member u now e s = s"
    | (refute) k where "merge_member u now e s = refute k now s" "cm_incarnation s \<le> k"
    | (accept) nid info info' k where "merge_member u now e s = accept_info nid info' now s" "nid \<noteq> cm_node_id s"
        "checked_info u s info = Some info'" "m_status info \<in> set [PStr ''alive'', PStr ''suspect'', PStr ''dead'']"
        "d_get info ''incarnation'' PNone = PInt k" "0 \<le> k"
proof (cases "\<exists>nid info k. e = (PStr nid, PDict info) \<and> d_get info ''incarnation'' PNone = PInt k")
  case False
  then show thesis using same merge_member_other by blast
next
  case True
  then obtain nid info k where e: "e = (PStr nid, PDict info)" and k: "d_get info ''incarnation'' PNone = PInt k" by blast
  note m = merge_member_dict [OF k, of u now nid s, folded e]
  show thesis
  proof (cases "nid = [] \<or> length nid > 255 \<or> m_status info \<notin> set [PStr ''alive'', PStr ''suspect'', PStr ''dead''] \<or> k < 0")
    case True
    then show thesis using m same by (simp only: if_True)
  next
    case ok: False
    then have *: "m_status info \<in> set [PStr ''alive'', PStr ''suspect'', PStr ''dead'']" "0 \<le> k" by auto
    show thesis
    proof (cases "nid = cm_node_id s")
      case True
      then have "merge_member u now e s = s \<or> (merge_member u now e s = refute k now s \<and> cm_incarnation s \<le> k)"
        using m ok by (simp only: if_False if_True split: if_splits) blast+
      then show thesis using same refute by blast
    next
      case False
      then show thesis using m ok same accept [OF _ False _ *(1) k *(2)]
        by (cases "checked_info u s info") (simp_all only: if_False option.case simp_thms)
    qed
  qed
qed

lemma merge_member_op:
  assumes "members_ok s" shows "member_op s (merge_member u now e s)"
proof (cases rule: merge_member_cases [of u now e s])
  case same
  then show ?thesis using member_op_refl [OF assms] by simp
next
  case refute
  then show ?thesis using refute_op [OF assms] by simp
next
  case accept
  then show ?thesis using checked_info_ok [OF accept(3)]
    by (auto intro!: accept_info_op [OF assms] simp: member_ok_def)
qed

lemma merge_members_op: "members_ok s \<Longrightarrow> member_op s (merge_members u now n es s)"
proof (induction es arbitrary: s n)
  case Nil
  then show ?case by (simp add: member_op_refl)
next
  case (Cons e es)
  have m: "member_op s (merge_member u (now n) e s)" using merge_member_op [OF Cons.prems] .
  then have "members_ok (merge_member u (now n) e s)" by (simp only: member_op_def)
  from member_op_trans [OF m Cons.IH [OF this]] show ?case by simp
qed

lemma merge_membership_op: "members_ok s \<Longrightarrow> member_op s (fst (merge_membership u now m s))"
  unfolding merge_membership_def by (cases m) (simp_all add: member_op_refl merge_members_op)

lemma handle_ping_op:
  assumes "members_ok s" shows "member_op s (fst (handle_ping u t0 now payload s))"
proof -
  let ?s = "stamp (cm_node_id s) t0 s"
  have 1: "member_op s ?s" using stamp_op [OF assms] .
  then have "members_ok ?s" by (simp only: member_op_def)
  then have 2: "member_op ?s (fst (merge_membership u now m ?s))" for m by (rule merge_membership_op)
  have f: "fst (sthen m (sget g) s') = fst (m s')" for m :: "(cluster, unit) step" and g :: "cluster \<Rightarrow> pyval" and s'
    by (simp add: sbind_def split: prod.splits sum.splits)
  show ?thesis unfolding handle_ping_def sbind_smodify f
    using 1 member_op_trans [OF 1 2] by (auto split: option.splits)
qed

section \<open>Losing members\<close>

text \<open>Removing members keeps the rest.\<close>

definition shrink_op :: "cluster \<Rightarrow> cluster \<Rightarrow> bool" where
  "shrink_op s t \<longleftrightarrow> members_ok t \<and> mesh_config t = mesh_config s \<and> cm_incarnation t = cm_incarnation s
    \<and> cm_local_tombstones t = cm_local_tombstones s \<and> cm_tombstones t = cm_tombstones s
    \<and> length (cm_members t) \<le> length (cm_members s)
    \<and> (\<forall>nid info. map_of (cm_members t) nid = Some info \<longrightarrow>
        (\<exists>info'. map_of (cm_members s) nid = Some info' \<and> m_incarnation info = m_incarnation info'))"

lemma shrink_op_refl: "members_ok s \<Longrightarrow> shrink_op s s"
  by (simp add: shrink_op_def)

lemma shrink_op_trans: "shrink_op s t \<Longrightarrow> shrink_op t w \<Longrightarrow> shrink_op s w"
  unfolding shrink_op_def by (auto intro: order_trans) (metis (no_types))

lemma delete_member_ok:
  "members_ok s \<Longrightarrow> nid \<noteq> cm_node_id s \<Longrightarrow> members_ok (s\<lparr>cm_members := AList.delete nid (cm_members s)\<rparr>)"
  by (auto simp: members_ok_def own_ok_def distinct_delete list_all_delete delete_conv' simp del: map_of_eq_Some_iff)

lemma set_status_shrink:
  assumes "members_ok s" "nid \<noteq> cm_node_id s" "map_of (cm_members s) nid = Some info"
    "st \<in> set [PStr ''alive'', PStr ''suspect'', PStr ''dead'']"
  shows "shrink_op s (set_status nid st now s)"
proof -
  have "members_ok (set_status nid st now s)" using set_status_op [OF assms] by (simp only: member_op_def)
  then show ?thesis using assms(3)
    by (auto simp: shrink_op_def set_status_def get_member_def dict_get_def length_update_map update_conv' mesh_parts put_member_def)
qed

text \<open>Only snapshots of removed members are forgotten.\<close>

definition forget_op :: "cluster \<Rightarrow> cluster \<Rightarrow> bool" where
  "forget_op s t \<longleftrightarrow> shrink_op s t \<and> store_ok t \<and> (\<forall>k. peer_cell t k = peer_cell s k \<or>
     (peer_cell t k = None \<and> (\<exists>v l. peer_cell s k = Some (v, Some l)) \<and> map_of (cm_members t) (snd k) = None))"

lemma shrink_gone: "shrink_op s t \<Longrightarrow> map_of (cm_members s) nid = None \<Longrightarrow> map_of (cm_members t) nid = None"
  unfolding shrink_op_def by (metis option.distinct(1) option.exhaust)

lemma forget_op_trans:
  assumes a: "forget_op s t" and b: "forget_op t w" shows "forget_op s w"
proof -
  have sh: "shrink_op s t" "shrink_op t w" and w: "store_ok w" using a b by (simp_all add: forget_op_def)
  have "peer_cell w k = peer_cell s k \<or>
     (peer_cell w k = None \<and> (\<exists>v l. peer_cell s k = Some (v, Some l)) \<and> map_of (cm_members w) (snd k) = None)" for k
  proof (cases "peer_cell t k = peer_cell s k")
    case True
    then show ?thesis using b unfolding forget_op_def by metis
  next
    case False
    then have *: "peer_cell t k = None" "\<exists>v l. peer_cell s k = Some (v, Some l)" "map_of (cm_members t) (snd k) = None"
      using a unfolding forget_op_def by metis+
    moreover have "peer_cell w k = None" using b *(1) unfolding forget_op_def by metis
    ultimately show ?thesis using shrink_gone [OF sh(2)] by simp
  qed
  then show ?thesis using shrink_op_trans [OF sh] w by (simp add: forget_op_def)
qed

lemma forget_op_refl: "members_ok s \<Longrightarrow> store_ok s \<Longrightarrow> forget_op s s"
  by (simp add: forget_op_def shrink_op_refl)

lemma peer_cell_at:
  "snap_at t sid nid = snap_at s sid nid \<Longrightarrow> tomb_at t sid nid = tomb_at s sid nid \<Longrightarrow> peer_cell t (sid, nid) = peer_cell s (sid, nid)"
  unfolding peer_cell_def prod.case by (simp only:)

lemma peer_cell_cong: "store_part t = store_part s \<Longrightarrow> peer_cell t = peer_cell s"
proof (rule ext)
  fix k assume "store_part t = store_part s"
  then show "peer_cell t k = peer_cell s k"
    by (cases k) (auto intro!: peer_cell_at simp: snap_at_def tomb_at_def store_part_def)
qed

lemma evict_at:
  "snap_at (evict_origin nid s) sid nid' = (if nid' = nid then None else snap_at s sid nid')"
  "tomb_at (evict_origin nid s) sid nid' = tomb_at s sid nid'"
proof -
  have "dict_get (map (\<lambda>(sid, g). (sid, AList.delete nid g)) d) sid [] = AList.delete nid (dict_get d sid [])" for d :: "(stream \<times> version) per_origin"
    by (induction d) auto
  then show "snap_at (evict_origin nid s) sid nid' = (if nid' = nid then None else snap_at s sid nid')"
    "tomb_at (evict_origin nid s) sid nid' = tomb_at s sid nid'"
    by (auto simp: snap_at_def tomb_at_def evict_origin_def delete_conv')
qed

lemma evict_ok:
  assumes "store_ok s" shows "store_ok (evict_origin nid s)"
proof -
  let ?t = "evict_origin nid s"
  have m: "map_of (cm_snapshots ?t) sid = map_option (AList.delete nid) (map_of (cm_snapshots s) sid)" for sid
    by (simp add: evict_origin_def map_of_map)
  have keys: "map fst (cm_snapshots ?t) = map fst (cm_snapshots s)" by (simp add: evict_origin_def case_prod_unfold comp_def)
  have rest: "cm_tombstones ?t = cm_tombstones s" "cm_node_id ?t = cm_node_id s" by (simp_all add: evict_origin_def)
  have o: "set (known_origins ?t sid) \<subseteq> set (known_origins s sid)" for sid
    by (auto simp: known_origins_set evict_at)
  have "card (set (known_origins ?t sid)) \<le> MAX_ORIGINS_PER_STREAM" for sid
    using card_mono [OF _ o] assms unfolding store_ok_def length_known by (meson List.finite_set order_trans)
  moreover have "known_streams ?t = known_streams s" by (simp add: known_streams_def keys rest)
  moreover have "dict_ok g" if "map_of (cm_snapshots ?t) sid = Some g" for sid g
    using that assms m by (auto simp: store_ok_def distinct_delete simp del: map_of_eq_Some_iff)
  ultimately show ?thesis using assms unfolding store_ok_def evict_at keys rest length_known
    by (auto split: if_splits simp del: map_of_eq_Some_iff)
qed

lemma remove_member_op:
  assumes s: "members_ok s" "store_ok s" and nid: "nid \<noteq> cm_node_id s"
  shows "forget_op s (evict_origin nid (s\<lparr>cm_members := AList.delete nid (cm_members s)\<rparr>))"
proof -
  let ?s = "s\<lparr>cm_members := AList.delete nid (cm_members s)\<rparr>" and ?t = "evict_origin nid (s\<lparr>cm_members := AList.delete nid (cm_members s)\<rparr>)"
  have parts: "member_part ?t = member_part ?s" "mesh_config ?t = mesh_config ?s" "store_part ?s = store_part s" "mesh_config ?s = mesh_config s"
    by (simp_all add: mesh_parts evict_origin_def)
  have ok: "members_ok ?t" "store_ok ?t"
    using delete_member_ok [OF s(1) nid] parts_cong(1) [OF parts(1,2)] evict_ok parts_cong(2) [OF parts(3,4)] s(2) by simp_all
  have sh: "shrink_op s ?t" using ok(1)
    by (auto simp: shrink_op_def evict_origin_def mesh_parts delete_conv' length_delete_le simp del: map_of_eq_Some_iff)
  have c: "peer_cell ?t k = peer_cell s k \<or>
     (peer_cell ?t k = None \<and> (\<exists>v l. peer_cell s k = Some (v, Some l)) \<and> map_of (cm_members ?t) (snd k) = None)" for k
  proof -
    obtain sid nid' where k: "k = (sid, nid')" by (cases k)
    have at: "snap_at ?s = snap_at s" "tomb_at ?s = tomb_at s" by (simp_all add: snap_at_def tomb_at_def fun_eq_iff)
    have gone: "map_of (cm_members ?t) nid = None" by (simp add: evict_origin_def delete_conv')
    show ?thesis
    proof (cases "nid' = nid \<and> snap_at s sid nid \<noteq> None")
      case True
      then obtain l v where "snap_at s sid nid = Some (l, v)" by (cases "snap_at s sid nid") auto
      then have "peer_cell s k = Some (ver_value v, Some l)" "peer_cell ?t k = None"
        using True store_okD(1) [OF s(2)] by (simp_all add: k peer_cell_def evict_at at)
      with gone True k show ?thesis by simp
    next
      case False
      then have "peer_cell ?t k = peer_cell s k" unfolding k by (intro peer_cell_at) (cases "snap_at s sid nid"; auto simp: evict_at at)+
      then show ?thesis by simp
    qed
  qed
  show ?thesis using sh ok c by (simp add: forget_op_def)
qed

lemma check_timeout_op:
  assumes s: "members_ok s" "store_ok s" and i: "map_of (cm_members s) nid = Some info"
  shows "forget_op s (check_timeout now (nid, info) s)"
    and "nid' \<noteq> nid \<Longrightarrow> map_of (cm_members (check_timeout now (nid, info) s)) nid' = map_of (cm_members s) nid'"
proof -
  define s1 where "s1 = (if m_status info = PStr ''suspect'' \<and> f_lt (cm_heartbeat_timeout s) (f_sub now (m_updated info))
                    then set_status nid (PStr ''dead'') now s else s)"
  have t: "check_timeout now (nid, info) s = (if nid = cm_node_id s then s
      else if m_status (get_member s1 nid) = PStr ''dead'' \<and> f_lt (f_mul (cm_heartbeat_timeout s) (Fin 5)) (f_sub now (m_updated (get_member s1 nid)))
       then evict_origin nid (s1\<lparr>cm_members := AList.delete nid (cm_members s1)\<rparr>) else s1)"
    by (simp add: check_timeout_def s1_def Let_def)
  show "map_of (cm_members (check_timeout now (nid, info) s)) nid' = map_of (cm_members s) nid'" if "nid' \<noteq> nid"
    using that unfolding t by (auto simp: s1_def evict_origin_def set_status_def update_conv' simp del: map_of_eq_Some_iff)
  show "forget_op s (check_timeout now (nid, info) s)"
  proof (cases "nid = cm_node_id s")
    case True
    then show ?thesis using forget_op_refl [OF s] unfolding t by simp
  next
    case False
    have sh: "shrink_op s s1" unfolding s1_def
      using set_status_shrink [OF s(1) False i] shrink_op_refl [OF s(1)] by simp
    have parts: "store_part s1 = store_part s" "mesh_config s1 = mesh_config s" by (simp_all add: s1_def set_status_def)
    have ok: "members_ok s1" "store_ok s1" using sh parts_cong(2) [OF parts] s(2) by (simp_all add: shrink_op_def)
    have f1: "forget_op s s1" using sh ok(2) peer_cell_cong [OF parts(1)] by (simp add: forget_op_def)
    have n: "nid \<noteq> cm_node_id s1" using False parts(2) by (simp add: mesh_config_def)
    show ?thesis unfolding t using False f1 forget_op_trans [OF f1 remove_member_op [OF ok n]] by simp
  qed
qed

lemma check_timeouts_op:
  assumes "members_ok s" "store_ok s" shows "forget_op s (check_timeouts now s)"
proof -
  have "forget_op t (fold (check_timeout now) ms t)"
    if "members_ok t" "store_ok t" "dict_ok ms" "\<forall>(nid, info) \<in> set ms. map_of (cm_members t) nid = Some info" for ms t
    using that
  proof (induction ms arbitrary: t)
    case Nil
    then show ?case using forget_op_refl by simp
  next
    case (Cons m ms)
    obtain nid info where m: "m = (nid, info)" by (cases m)
    let ?t = "check_timeout now m t"
    have i: "map_of (cm_members t) nid = Some info" using Cons.prems(4) by (simp add: m)
    have f: "forget_op t ?t" using check_timeout_op(1) [OF Cons.prems(1,2) i] by (simp add: m)
    have "map_of (cm_members ?t) nid' = Some info'" if "(nid', info') \<in> set ms" for nid' info'
    proof -
      have "nid' \<noteq> nid" using Cons.prems(3) that m by (auto simp: image_iff)
      then show ?thesis using check_timeout_op(2) [OF Cons.prems(1,2) i] Cons.prems(4) that m by auto
    qed
    then have "forget_op ?t (fold (check_timeout now) ms ?t)"
      using f Cons.prems(3) by (intro Cons.IH) (auto simp: forget_op_def shrink_op_def)
    then show ?case using forget_op_trans [OF f] by simp
  qed
  from this [OF assms, of "cm_members s"] show ?thesis
    using assms by (auto simp: check_timeouts_def members_ok_def)
qed

section \<open>Receiving\<close>

text \<open>The order of what can be known of an origin: nothing, then by version.\<close>

fun cell_le :: "(rat \<times> 'v) option \<Rightarrow> (rat \<times> 'v) option \<Rightarrow> bool" where
  "cell_le None c = True"
| "cell_le (Some p) None = False"
| "cell_le (Some (v, x)) (Some (w, y)) = (v < w \<or> (v = w \<and> x = y))"

lemma cell_le_refl [simp]: "cell_le c c" by (cases c) auto

lemma cell_le_trans: "cell_le a b \<Longrightarrow> cell_le b c \<Longrightarrow> cell_le a c"
  by (cases a; cases b; cases c) auto

text \<open>A change of the store that only moves cells up.\<close>

definition store_op :: "cluster \<Rightarrow> cluster \<Rightarrow> bool" where
  "store_op s t \<longleftrightarrow> store_ok t \<and> mesh_config t = mesh_config s \<and> member_part t = member_part s
    \<and> cm_local_tombstones t = cm_local_tombstones s \<and> (\<forall>k. cell_le (peer_cell s k) (peer_cell t k))"

lemma store_op_refl: "store_ok s \<Longrightarrow> store_op s s" by (simp add: store_op_def)

lemma store_op_trans: "store_op s t \<Longrightarrow> store_op t w \<Longrightarrow> store_op s w"
  unfolding store_op_def using cell_le_trans by (metis (mono_tags))

lemma store_entry_op:
  assumes s: "store_ok s" and q: "num_value v = Fin q" and nid: "nid \<noteq> cm_node_id s"
  shows "store_op s (store_entry sid nid v l s)"
proof -
  have "cell_le (peer_cell s k) (peer_cell (store_entry sid nid v l s) k)" for k
    unfolding store_entry_cases [OF s q]
    by (cases "peer_cell s k") (auto simp: store_change_cell [OF q] split: option.splits)
  then show ?thesis using store_entry_ok [OF s q nid]
    by (auto simp: store_op_def store_entry_def store_tombstone_def store_snapshot_def mesh_parts split: option.splits)
qed

lemma receive_entry_op:
  assumes "store_ok s" shows "store_op s (receive_entry L ts sid e s)"
proof (cases "entry_delivery L (cm_node_id s) ts sid e")
  case None
  then show ?thesis using store_op_refl [OF assms] by (simp add: receive_entry_delivery)
next
  case (Some d)
  then obtain nid v l where d: "d = (sid, nid, v, l)" "nid \<noteq> cm_node_id s"
    by (auto simp: entry_delivery_def split: prod.splits pyval.splits if_splits sum.splits)
  then show ?thesis using Some store_op_refl [OF assms] store_entry_op [OF assms]
    by (auto simp: receive_entry_delivery deliver_timed_def timed_def)
qed

lemma fold_store_op:
  assumes "\<And>x t. store_ok t \<Longrightarrow> store_op t (f x t)" "store_ok s" shows "store_op s (fold f xs s)"
  using assms(2)
proof (induction xs arbitrary: s)
  case Nil
  then show ?case by (simp add: store_op_refl)
next
  case (Cons x xs)
  have 1: "store_op s (f x s)" using assms(1) Cons.prems .
  then have "store_op (f x s) (fold f xs (f x s))" by (intro Cons.IH) (simp add: store_op_def)
  then show ?case using store_op_trans [OF 1] by simp
qed

lemma receive_snapshot_op:
  assumes "store_ok s" shows "store_op s (fst (receive_snapshot L sender d ts s))"
proof -
  have "store_op t (receive_stream L ts e t)" if "store_ok t" for e t
    using store_op_refl [OF that] fold_store_op [OF receive_entry_op that]
    by (auto simp: receive_stream_def split: prod.splits pyval.splits)
  then show ?thesis using assms store_op_refl [OF assms] fold_store_op [of "receive_stream L ts"]
    by (cases d) (auto simp: receive_snapshot_def)
qed

lemma gossip_reply_op:
  assumes "store_ok s" shows "store_op s (fst (gossip_reply L reg post now resp s))"
proof -
  let ?m = "case map_of resp (PStr ''updates'') of
      Some u \<Rightarrow> sbind (slift (d_item resp ''node_id'')) (\<lambda>sender. receive_snapshot L sender u now) | None \<Rightarrow> sret ()"
  have 1: "store_op s (fst (?m s))"
    using store_op_refl [OF assms] receive_snapshot_op [OF assms]
    by (cases "d_item resp ''node_id''") (auto split: option.splits)
  have p: "fst (sthen ?m k s) = fst (?m s)" if "\<And>t. fst (k t) = t" for k :: "(cluster, pyval per_origin list) step"
    using that by (rule fst_sbind_pure)
  show ?thesis unfolding gossip_reply_def
    by (subst p) (use 1 in \<open>auto split: pyval.split\<close>)
qed

section \<open>Probes and local deletions\<close>

lemma ping_failed_op:
  assumes s: "members_ok s" and nid: "nid \<noteq> cm_node_id s"
  shows "member_op s (ping_failed nid now s)"
  using member_op_refl [OF s] set_status_op [OF s nid] by (auto simp: ping_failed_def split: option.split)

text \<open>A probe adds what the answer says, and then may drop the entry it was sent to.\<close>

lemma ping_answered_op:
  assumes s: "members_ok s"
  shows "\<exists>t r. member_op s t \<and> (ping_answered u now nid info reply s = (t, r)
     \<or> ping_answered u now nid info reply s = (t\<lparr>cm_members := AList.delete nid (cm_members t)\<rparr>, Inr ()))"
proof (cases "\<exists>r m. reply = Some r \<and> map_of r (PStr ''members'') = Some m")
  case False
  then have "ping_answered u now nid info reply s = (s, Inr ())"
    by (auto simp: ping_answered_def split: option.split)
  then show ?thesis using member_op_refl [OF s] by auto
next
  case True
  then obtain m where "ping_answered u now nid info reply s = sthen (merge_membership u now m)
      (if py_truth (d_get info ''is_seed'' PNone)
       then smodify (\<lambda>s. s\<lparr>cm_members := AList.delete nid (cm_members s)\<rparr>) else sret ()) s"
    by (auto simp: ping_answered_def)
  then show ?thesis using merge_membership_op [OF s, of u now m]
    by (cases "merge_membership u now m s"; cases "snd (merge_membership u now m s)") (auto simp: sbind_def)
qed

lemma ping_finish_op:
  assumes s: "members_ok s" and nid: "nid \<noteq> cm_node_id s"
  shows "\<exists>t. member_op s t \<and> (ping_finish u now t0 nid info outcome s = t
     \<or> ping_finish u now t0 nid info outcome s = t\<lparr>cm_members := AList.delete nid (cm_members t)\<rparr>)"
proof (cases outcome)
  case (Inl e)
  then show ?thesis using ping_failed_op [OF assms] by (auto simp: ping_finish_def)
next
  case (Inr reply)
  obtain t r where t: "member_op s t" "ping_answered u now nid info reply s = (t, r)
     \<or> ping_answered u now nid info reply s = (t\<lparr>cm_members := AList.delete nid (cm_members t)\<rparr>, Inr ())"
    using ping_answered_op [OF s] by metis
  have "members_ok t" "nid \<noteq> cm_node_id t" using t(1) nid by (auto simp: member_op_def same_rest_def mesh_config_def)
  from member_op_trans [OF t(1) ping_failed_op [OF this, of t0]] show ?thesis
    using t Inr by (cases r) (auto simp: ping_finish_def intro: exI [of _ "ping_failed nid t0 t"])
qed

text \<open>Local deletions change nothing else, and stay within the capacity.\<close>

definition local_op :: "cluster \<Rightarrow> cluster \<Rightarrow> bool" where
  "local_op s t \<longleftrightarrow> locals_ok t \<and> mesh_config t = mesh_config s \<and> member_part t = member_part s \<and> store_part t = store_part s"

lemma local_op_trans: "local_op s t \<Longrightarrow> local_op t w \<Longrightarrow> local_op s w"
  by (simp add: local_op_def)

lemma locals_update:
  assumes "locals_ok s" "map_of (cm_local_tombstones s) key = None \<Longrightarrow> int (length (cm_local_tombstones s)) < cm_max_tombstones s"
  shows "local_op s (s\<lparr>cm_local_tombstones := AList.update key v (cm_local_tombstones s)\<rparr>)"
  using assms by (cases "map_of (cm_local_tombstones s) key")
    (simp_all add: local_op_def locals_ok_def mesh_parts distinct_update length_update_map del: map_of_eq_Some_iff)

lemma begin_deletion_eq:
  assumes "begin_deletion ns sid now s = Inr (t, key, v, previous)"
  shows "t = s\<lparr>cm_local_tombstones := AList.update key v (cm_local_tombstones s)\<rparr> \<and> key = stream_key ns sid
    \<and> previous = map_of (cm_local_tombstones s) key
    \<and> v = f_max now (f_add (case previous of Some p \<Rightarrow> p | None \<Rightarrow> Fin 0) (to_float (1 / 1000000)))
    \<and> \<not> (previous = None \<and> int (length (cm_local_tombstones s)) \<ge> cm_max_tombstones s)"
  using assms unfolding begin_deletion_def Let_def raise_if_eq_Inr sum.inject prod.inject by blast

lemma begin_deletion_op:
  assumes "locals_ok s" "begin_deletion ns sid now s = Inr (t, r)" shows "local_op s t"
proof -
  obtain key v previous where r: "r = (key, v, previous)" by (cases r)
  note e = begin_deletion_eq [OF assms(2) [unfolded r]]
  then have "t = s\<lparr>cm_local_tombstones := AList.update key v (cm_local_tombstones s)\<rparr>" by blast
  moreover have "int (length (cm_local_tombstones s)) < cm_max_tombstones s" if "map_of (cm_local_tombstones s) key = None"
    using e that by (meson not_less)
  ultimately show ?thesis using locals_update [OF assms(1), of key v] by simp
qed

lemma rollback_deletion_op:
  assumes "locals_ok s" shows "local_op s (rollback_deletion key v previous s)"
proof (cases "map_of (cm_local_tombstones s) key")
  case None
  then show ?thesis using assms by (simp add: rollback_deletion_def local_op_def)
next
  case (Some w)
  have "local_op s (s\<lparr>cm_local_tombstones := AList.delete key (cm_local_tombstones s)\<rparr>)"
    using assms length_delete_le [of key "cm_local_tombstones s"]
    by (simp add: local_op_def locals_ok_def mesh_parts distinct_delete)
  then show ?thesis using locals_update [OF assms, of key] assms Some
    by (auto simp: rollback_deletion_def local_op_def split: option.split simp del: map_of_eq_Some_iff)
qed

lemma restore_one_op: "locals_ok s \<Longrightarrow> local_op s (fst (restore_one e s))"
proof -
  assume s: "locals_ok s"
  have r: "local_op s s" using s by (simp add: local_op_def)
  have u: "local_op s (s\<lparr>cm_local_tombstones := AList.update k v (cm_local_tombstones s)\<rparr>)"
    if "\<not> (\<not> dict_mem k (cm_local_tombstones s) \<and> int (length (cm_local_tombstones s)) \<ge> cm_max_tombstones s)" for k v
    using that by (intro locals_update [OF s]) (auto simp: dict_mem_def)
  show "local_op s (fst (restore_one e s))"
    using r u unfolding restore_one_def
    by (cases e; cases "num_isfinite (snd e)") (auto simp: sbind_def split: pyval.split)
qed

lemma restore_op:
  assumes "locals_ok s" shows "local_op s (fst (restore_local_tombstones d s))"
proof -
  have "keeps (\<lambda>s t. locals_ok s \<longrightarrow> local_op s t) (sfor (\<lambda>n. restore_one) 0 d)"
    by (rule keeps_sfor) (use restore_one_op local_op_trans in \<open>auto simp: keeps_def local_op_def [of s s for s] local_op_def\<close>)
  then have "local_op s (fst (sfor (\<lambda>n. restore_one) 0 d s))" using assms by (simp add: keeps_def)
  then show ?thesis unfolding restore_local_tombstones_def by (subst fst_sbind_pure) simp_all
qed

lemma vector_op:
  assumes "bounded_version_vector s vv = Inr (t, selected)"
  shows "mesh_config t = mesh_config s \<and> member_part t = member_part s \<and> store_part t = store_part s
    \<and> cm_local_tombstones t = cm_local_tombstones s"
  using assms by (auto simp: bounded_version_vector_def Let_def res_simps mesh_parts split: if_splits prod.splits)

section \<open>Every step\<close>

lemma delete_after_member_op:
  assumes t: "member_op s t" and nid: "nid \<noteq> cm_node_id s"
  shows "members_ok (t\<lparr>cm_members := AList.delete nid (cm_members t)\<rparr>)"
proof (rule delete_member_ok)
  show "members_ok t" using t by (simp only: member_op_def)
  show "nid \<noteq> cm_node_id t" using t nid by (auto simp: member_op_def same_rest_def mesh_config_def)
qed

text \<open>The shapes of a step.\<close>

lemma mesh_step_shapes:
  assumes "mesh_step L u s t" "mesh_inv n s"
  obtains (members) "member_op s t"
    | (dropped) w nid where "member_op s w" "nid \<noteq> cm_node_id s" "t = w\<lparr>cm_members := AList.delete nid (cm_members w)\<rparr>"
    | (forget) "forget_op s t"
    | (store) "store_op s t"
    | (locals) "local_op s t"
    | (cursor) "mesh_config t = mesh_config s" "member_part t = member_part s" "store_part t = store_part s"
        "cm_local_tombstones t = cm_local_tombstones s"
proof -
  have ok: "members_ok s" "store_ok s" "locals_ok s" using assms(2) by (simp_all add: mesh_inv_def)
  show thesis using assms(1)
  proof cases
    case ms_receive
    then show ?thesis using store receive_snapshot_op [OF ok(2)] by blast
  next
    case ms_reply
    then show ?thesis using store gossip_reply_op [OF ok(2)] by blast
  next
    case ms_ping
    then show ?thesis using members handle_ping_op [OF ok(1)] by blast
  next
    case (ms_probe nid now t0 info outcome)
    then show ?thesis using members dropped ping_finish_op [OF ok(1) ms_probe(2)] by metis
  next
    case ms_timeouts
    then show ?thesis using forget check_timeouts_op [OF ok(1,2)] by blast
  next
    case ms_vector
    then show ?thesis using cursor vector_op by metis
  next
    case ms_begin
    then show ?thesis using locals begin_deletion_op [OF ok(3)] by blast
  next
    case ms_rollback
    then show ?thesis using locals rollback_deletion_op [OF ok(3)] by blast
  next
    case ms_restore
    then show ?thesis using locals restore_op [OF ok(3)] by blast
  qed
qed

lemma mesh_step_inv:
  assumes "mesh_step L u s t" "mesh_inv n s" shows "mesh_inv n t \<and> mesh_config t = mesh_config s"
proof -
  have ok: "members_ok s" "store_ok s" "locals_ok s" and len: "length (cm_members s) \<le> max MAX_MEMBERS n"
    using assms(2) by (simp_all add: mesh_inv_def)
  have rest: "store_ok t \<and> locals_ok t" if "same_rest s t" for t
    using that ok parts_cong(2) [of t s] parts_cong(3) [of t s] by (simp add: same_rest_def)
  from assms show ?thesis
  proof (cases rule: mesh_step_shapes)
    case members
    then show ?thesis using rest len by (auto simp: mesh_inv_def member_op_def same_rest_def)
  next
    case (dropped w nid)
    have w: "length (cm_members w) \<le> max MAX_MEMBERS n" "same_rest s w"
      using dropped(1) len by (auto simp: member_op_def)
    have "same_rest s t" using w(2) by (simp add: dropped(3) same_rest_def mesh_parts)
    moreover have "length (cm_members t) \<le> max MAX_MEMBERS n"
      using w(1) order_trans [OF length_delete_le] by (simp add: dropped(3))
    ultimately show ?thesis using rest delete_after_member_op [OF dropped(1,2)]
      by (auto simp: mesh_inv_def same_rest_def dropped(3))
  next
    case forget
    then show ?thesis using len parts_cong(3) [of t s] ok by (auto simp: mesh_inv_def forget_op_def shrink_op_def)
  next
    case store
    then show ?thesis using len parts_cong(1,3) [of t s] ok by (auto simp: mesh_inv_def store_op_def member_part_def)
  next
    case locals
    then show ?thesis using len parts_cong(1,2) [of t s] ok by (auto simp: mesh_inv_def local_op_def member_part_def)
  next
    case cursor
    then show ?thesis using len parts_cong [of t s] ok by (auto simp: mesh_inv_def member_part_def)
  qed
qed

lemma mesh_steps_inv:
  assumes "mesh_steps L u s t" "mesh_inv n s" shows "mesh_inv n t \<and> mesh_config t = mesh_config s"
  using assms(1) unfolding mesh_steps_def
proof (induction rule: rtranclp_induct)
  case base
  then show ?case using assms(2) by simp
next
  case (step t w)
  then show ?case using mesh_step_inv [OF step.hyps(2), of n] by simp
qed

section \<open>The initial state\<close>

lemma add_seeds_ok:
  assumes "members_ok s" "cm_incarnation s = 0"
  shows "members_ok (add_seeds u now n ps s) \<and> same_rest s (add_seeds u now n ps s)
    \<and> length (cm_members (add_seeds u now n ps s)) \<le> length (cm_members s) + length ps"
  using assms
proof (induction ps arbitrary: s n)
  case Nil
  then show ?case by simp
next
  case (Cons p ps)
  define t where "t = (case (if p = [] then Inl (ValueError []) else canonical_base_url u (PStr p)) of
        Inr a \<Rightarrow> if a \<in> set (cm_allowed s)
                then put_member (''seed-'' @ p) (new_member a (now n) @ [(PStr ''is_seed'', PBool True)]) s else s
      | Inl _ \<Rightarrow> s)"
  have put: "members_ok (put_member nid (new_member a (now n) @ [(PStr ''is_seed'', PBool True)]) s)"
    if "a \<in> set (cm_allowed s)" for a nid
    using that Cons.prems
    by (intro put_member_ok) (auto simp: member_ok_def new_member_def m_status_def m_address_def)
  have "members_ok t \<and> same_rest s t \<and> length (cm_members t) \<le> Suc (length (cm_members s)) \<and> cm_incarnation t = 0"
    using Cons.prems put by (auto simp: t_def same_rest_def length_update_map split: sum.split option.split)
  moreover have "add_seeds u now n (p # ps) s = add_seeds u now (Suc n) ps t" by (simp add: t_def)
  ultimately show ?case using Cons.IH [of t "Suc n"] same_rest_trans by fastforce
qed

lemma cm_init_inv:
  assumes "cm_init u own peers timeout secret adv allow cap tombs now = Inr s"
  shows "mesh_inv (Suc (length peers)) s \<and> cm_node_id s = own \<and> cm_max_payload s = cap \<and> 1024 \<le> cap \<and> 1 \<le> tombs"
proof -
  define s0 where "s0 = \<lparr>cm_node_id = own, cm_heartbeat_timeout = timeout, cm_secret = secret,
      cm_advertised = adv, cm_max_payload = cap,
      cm_max_tombstones = tombs, cm_incarnation = 0, cm_digest_cursor = 0,
      cm_has_seeds = (\<exists>p \<in> set peers. p \<noteq> []),
      cm_members = [(own, new_member (case adv of Some a \<Rightarrow> a | None \<Rightarrow> []) (now 0))],
      cm_allowed = allowed_origins u (case allow of Some l \<Rightarrow> l | None \<Rightarrow> peers),
      cm_snapshots = [], cm_tombstones = [], cm_local_tombstones = []\<rparr>"
  have s: "s = add_seeds u now 1 peers s0" and c: "1024 \<le> cap" "1 \<le> tombs"
    using assms unfolding cm_init_def raise_if_eq_Inr s0_def [symmetric] by auto
  have "members_ok s0"
    by (simp add: s0_def members_ok_def own_ok_def member_ok_def new_member_def m_status_def m_address_def)
  note a = add_seeds_ok [OF this, of u now 1 peers, folded s]
  have l: "length (cm_members s0) = 1" "cm_incarnation s0 = 0" "store_ok s0" "locals_ok s0" "cm_node_id s0 = own" "cm_max_payload s0 = cap"
    using c(2) by (simp_all add: s0_def store_ok_def locals_ok_def snap_at_def tomb_at_def known_streams_def known_origins_def)
  then show ?thesis using a c parts_cong(2,3) [of s s0] by (auto simp: mesh_inv_def same_rest_def mesh_config_def)
qed

end
