(* ===== verification/Mesh_Laws.thy ===== *)
theory Mesh_Laws
  imports Mesh_Inv
begin

text \<open>
  What holds of the mesh manager in every reachable state: its limits and the consistency of what it
  stores, that it contacts only allowed peers, that no step takes back what is known, and that it
  refutes accusations.
\<close>

section \<open>Reachable states\<close>

text \<open>
  C6: in every state that any interleaving of the manager's methods can reach from its construction,
  the node itself is a member, alive, with its own incarnation; members, streams, origins and local
  tombstones are within their limits; no origin of a stream has both a snapshot and a tombstone, and
  nothing is stored under the node's own name.
\<close>

theorem mesh_invariant:
  assumes "cm_init u own peers timeout secret adv allow cap tombs now = Inr s0" and "mesh_steps L u s0 s"
  shows "m_status (get_member s own) = PStr ''alive'' \<and> m_incarnation (get_member s own) = cm_incarnation s
    \<and> length (cm_members s) \<le> max MAX_MEMBERS (Suc (length peers))
    \<and> length (known_streams s) \<le> MAX_PEER_STREAMS
    \<and> (\<forall>sid. length (known_origins s sid) \<le> MAX_ORIGINS_PER_STREAM)
    \<and> int (length (cm_local_tombstones s)) \<le> cm_max_tombstones s0
    \<and> (\<forall>sid nid. snap_at s sid nid = None \<or> tomb_at s sid nid = None)
    \<and> (\<forall>sid. snap_at s sid own = None \<and> tomb_at s sid own = None)"
proof -
  have i: "mesh_inv (Suc (length peers)) s" "mesh_config s = mesh_config s0" and own: "cm_node_id s0 = own"
    using mesh_steps_inv [OF assms(2)] cm_init_inv [OF assms(1)] by auto
  then have c: "cm_node_id s = own" "cm_max_tombstones s = cm_max_tombstones s0" by (simp_all add: mesh_config_def)
  have m: "members_ok s" "store_ok s" "locals_ok s" using i(1) by (simp_all add: mesh_inv_def)
  have "snap_at s sid nid = None \<or> tomb_at s sid nid = None" for sid nid
    using store_okD(1) [OF m(2), of sid nid] by (cases "snap_at s sid nid") auto
  moreover have "snap_at s sid own = None \<and> tomb_at s sid own = None" for sid
    using store_okD [OF m(2), of sid own] c(1)
    by (cases "snap_at s sid own"; cases "tomb_at s sid own") auto
  moreover have "length (known_streams s) \<le> MAX_PEER_STREAMS" "\<forall>sid. length (known_origins s sid) \<le> MAX_ORIGINS_PER_STREAM"
    using m(2) unfolding store_ok_def by blast+
  ultimately show ?thesis using own_member [OF m(1)] i(1) m(3) c
    by (simp add: m_incarnation_def mesh_inv_def locals_ok_def del: length_known)
qed

text \<open>
  C18: the manager never contacts an address outside the peer allowlist: in every reachable state the
  address of each member that a ping may go to, and each address a gossip round may choose, is one of
  the allowed origins of its construction, or is empty and no request is made.
\<close>

theorem mesh_contacts_allowed:
  assumes "cm_init u own peers timeout secret adv allow cap tombs now = Inr s0" and "mesh_steps L u s0 s"
  shows "(\<forall>(nid, info) \<in> set (ping_candidates s). py_truth (m_address info) \<longrightarrow> m_address info \<in> PStr ` set (cm_allowed s0))
    \<and> set (gossip_candidates s) \<subseteq> PStr ` set (cm_allowed s0)"
proof -
  have i: "mesh_inv (Suc (length peers)) s" "mesh_config s = mesh_config s0"
    using mesh_steps_inv [OF assms(2)] cm_init_inv [OF assms(1)] by auto
  have "m_address info \<in> PStr ` set (cm_allowed s0)"
    if "(nid, info) \<in> set (cm_members s)" "nid \<noteq> cm_node_id s" "py_truth (m_address info)" for nid info
    using i that by (auto simp: mesh_inv_def members_ok_def list_all_iff member_ok_def mesh_config_def)
  then show ?thesis by (auto simp: ping_candidates_def gossip_candidates_def)
qed


section \<open>Refuting accusations\<close>

lemma merge_members_inc: "members_ok s \<Longrightarrow> cm_incarnation s \<le> cm_incarnation (merge_members u now n es s)"
  using merge_members_op [of s u now n es] by (simp add: member_op_def inc_le_def)

lemma merge_member_config: "members_ok s \<Longrightarrow> members_ok (merge_member u now e s) \<and> cm_node_id (merge_member u now e s) = cm_node_id s"
  using merge_member_op [of s u now e] by (simp add: member_op_def same_rest_def mesh_config_def)

lemma refutes_one:
  assumes "members_ok s" "d_get info ''incarnation'' PNone = PInt k" "0 \<le> k"
    "m_status info \<in> set [PStr ''suspect'', PStr ''dead'']" "valid_identifier (cm_node_id s)"
  shows "k < cm_incarnation (merge_member u now (PStr (cm_node_id s), PDict info) s)"
proof -
  have "m_status info \<in> set [PStr ''alive'', PStr ''suspect'', PStr ''dead'']" using assms(4) by auto
  moreover have "\<not> (cm_node_id s = [] \<or> length (cm_node_id s) > 255)"
    using assms(5) by (auto simp: valid_identifier_def MAX_IDENTIFIER_LENGTH_def)
  ultimately have "merge_member u now (PStr (cm_node_id s), PDict info) s
      = (if k \<ge> cm_incarnation s then refute k now s else s)"
    unfolding merge_member_dict [OF assms(2)] using assms(3,4) by (simp only: simp_thms if_False if_True not_less) simp
  then show ?thesis by (simp add: refute_def Let_def)
qed

text \<open>
  a node refutes every accusation.  When a peer's view of the members calls this node suspect or
  dead at incarnation \<open>k\<close>, then after the ping is handled the node's incarnation is above \<open>k\<close>, it is
  alive in its own view at that incarnation, and the answer to the ping is a view of the members.
\<close>

lemma ping_refutes_accusation:
  assumes "members_ok s" "valid_identifier (cm_node_id s)"
    and "map_of payload (PStr ''members'') = Some (PDict d)" "(PStr (cm_node_id s), PDict info) \<in> set d"
    and "d_get info ''incarnation'' PNone = PInt k" "0 \<le> k" "m_status info \<in> set [PStr ''suspect'', PStr ''dead'']"
    and "handle_ping u t0 now payload s = (t, r)"
  shows "k < cm_incarnation t \<and> m_status (get_member t (cm_node_id s)) = PStr ''alive''
    \<and> m_incarnation (get_member t (cm_node_id s)) = cm_incarnation t \<and> r = Inr (obj [(''members'', gossip_list t)])"
proof -
  let ?s = "stamp (cm_node_id s) t0 s"
  have t: "t = merge_members u now 0 d ?s" "r = Inr (obj [(''members'', gossip_list t)])"
    using assms(3,8) by (auto simp: handle_ping_def merge_membership_def)
  have s': "members_ok ?s" "cm_node_id ?s = cm_node_id s"
    using stamp_op [OF assms(1), of t0] by (simp_all add: member_op_def same_rest_def mesh_config_def)
  have acc: "k < cm_incarnation (merge_members u now n es w)"
    if "members_ok w" "cm_node_id w = cm_node_id s" "(PStr (cm_node_id s), PDict info) \<in> set es" for n es w
    using that
  proof (induction es arbitrary: n w)
    case (Cons e es)
    note c = merge_member_config [OF Cons.prems(1), of u "now n" e]
    show ?case
    proof (cases "e = (PStr (cm_node_id s), PDict info)")
      case True
      then have "k < cm_incarnation (merge_member u (now n) e w)"
        using refutes_one [OF Cons.prems(1) assms(5,6,7)] assms(2) Cons.prems(2) by simp
      then show ?thesis using merge_members_inc [of "merge_member u (now n) e w" u now "Suc n" es] c by simp
    next
      case False
      then show ?thesis using Cons.IH [of "merge_member u (now n) e w" "Suc n"] c Cons.prems(2,3) by auto
    qed
  qed simp
  have "member_op ?s t" unfolding t(1) by (rule merge_members_op [OF s'(1)])
  then have m: "members_ok t" "cm_node_id t = cm_node_id s"
    using s'(2) by (simp_all add: member_op_def same_rest_def mesh_config_def)
  show ?thesis using acc [OF s' assms(4), of 0] own_member [OF m(1)] m(2) t by (simp add: m_incarnation_def)
qed

section \<open>Deleting local streams\<close>

definition micro :: rat where "micro = rnd (1 / 1000000)"

lemma micro_bounds: "1 / 2000000 < micro" "micro < 1 / 999999" "to_float (1 / 1000000) = Fin micro"
  unfolding micro_def by code_simp+

lemma add_micro: "0 \<le> p \<Longrightarrow> p \<le> 2 ^ 32 \<Longrightarrow> p < rnd (p + micro) \<and> rnd (p + micro) < 2 ^ 1024"
proof -
  assume p: "0 \<le> p" "p \<le> 2 ^ 32"
  have "(2::rat) powi (-1022) \<le> 2 powi (-21)" by simp
  also have "(2::rat) powi (-21) < micro" using micro_bounds(1) by (simp add: power_int_def power_divide)
  finally have "\<bar>rnd (p + micro) - (p + micro)\<bar> \<le> (p + micro) * 2 powi (-53)"
    using rnd_error [of "p + micro"] p micro_bounds(1) by simp
  also have "\<dots> \<le> (2 ^ 32 + 1) * 2 powi (-53)"
    using p micro_bounds(2) by (intro mult_right_mono) auto
  also have "(2 ^ 32 + 1) * (2::rat) powi (-53) < 1 / 2000000" by (simp add: power_int_def power_divide)
  finally have e: "\<bar>rnd (p + micro) - (p + micro)\<bar> < 1 / 2000000" .
  have "p < rnd (p + micro)" using e micro_bounds(1) by linarith
  moreover have "rnd (p + micro) < 2 ^ 33" 
  proof -
    have "rnd (p + micro) < p + micro + 1 / 2000000" using e by linarith
    also have "\<dots> < 2 ^ 32 + 1" using micro_bounds(2) p(2) by linarith
    also have "(2::rat) ^ 32 + 1 \<le> 2 ^ 33" by simp
    finally show ?thesis .
  qed
  moreover have "(2::rat) ^ 33 \<le> 2 ^ 1024" by (intro power_increasing) simp_all
  ultimately show ?thesis by linarith
qed

text \<open>
  a reserved deletion carries a version that is at least the clock and, for versions up to
  \<open>2 ^ 32\<close> seconds, strictly above the version of an earlier deletion of the same stream even if the
  clock stands still or runs back; rolling it back restores the manager exactly.
\<close>

lemma deletion_version_advances:
  assumes "begin_deletion ns sid (Fin now) s = Inr (t, key, v, previous)"
  shows "map_of (cm_local_tombstones t) key = Some v \<and> f_le (Fin now) v
    \<and> (\<forall>p. previous = Some (Fin p) \<and> 0 \<le> p \<and> p \<le> 2 ^ 32 \<longrightarrow> f_lt (Fin p) v)
    \<and> rollback_deletion key v previous t = s"
proof -
  let ?d = "cm_local_tombstones s"
  note e = begin_deletion_eq [OF assms]
  then have t: "cm_local_tombstones t = AList.update key v ?d" and tt: "t = s\<lparr>cm_local_tombstones := AList.update key v ?d\<rparr>"
    and p: "previous = map_of ?d key"
    and v: "v = f_max (Fin now) (f_add (case previous of Some p \<Rightarrow> p | None \<Rightarrow> Fin 0) (Fin micro))"
    by (auto simp: micro_bounds(3))
  have ge: "f_le (Fin now) v" unfolding v by (auto simp: f_max_def f_le_def)
  then have self: "f_eq v v" by (cases v) (auto simp: f_le_def)
  have adv: "f_lt (Fin q) v" if "previous = Some (Fin q)" "0 \<le> q" "q \<le> 2 ^ 32" for q
  proof -
    have a: "q < rnd (q + micro)" "rnd (q + micro) < 2 ^ 1024" using add_micro that(2,3) by auto
    then have "f_add (Fin q) (Fin micro) = Fin (rnd (q + micro))" using that(2) by (simp add: to_float_Fin)
    then have "v = Fin (max now (rnd (q + micro)))" unfolding v by (simp add: that(1) f_max_def max_def)
    then show ?thesis using a(1) by simp
  qed
  have "rollback_deletion key v previous t = s"
  proof (cases previous)
    case None
    then have "AList.delete key (AList.update key v ?d) = ?d"
      using p by (simp add: delete_update_same delete_id map_of_eq_None_iff [symmetric] del: delete_id)
        (simp add: map_of_eq_None_iff)
    then show ?thesis using None self by (simp add: rollback_deletion_def tt update_conv')
  next
    case (Some q)
    have "map_of d k = Some x \<Longrightarrow> AList.update k x d = d" for d and k :: string and x :: pyfloat
      by (induction d) auto
    then have "AList.update key q (AList.update key v ?d) = ?d" using p Some by simp
    then show ?thesis using Some self by (simp add: rollback_deletion_def tt update_conv')
  qed
  then show ?thesis using t ge adv by (simp add: update_conv')
qed

section \<open>Keys of streams\<close>

lemma stream_key_text: "stream_key ns sid = CHR ''['' # json_string ns @ '', '' @ json_string sid @ '']''"
  by (simp add: stream_key_def strs_def)

lemma parse_stream_key: "parse_key (stream_key ns sid) = Some (ns, sid)"
proof -
  have 1: "json_unescape (concat (map json_char ns) @ CHR 0x22 # '', '' @ json_string sid @ '']'')
      = Some (ns, '', '' @ json_string sid @ '']'')"
    by (rule json_unescape_string)
  have 2: "json_unescape (concat (map json_char sid) @ [CHR 0x22] @ '']'') = Some (sid, '']'')"
    using json_unescape_string [of sid "'']''"] by simp
  show ?thesis using 1 2 by (simp add: parse_key_def stream_key_text json_string_def)
qed

text \<open>
  the key under which a stream travels through the mesh determines its namespace and name: reading
  a key gives back the two strings it was written from, and the keys that are accepted from peers are
  exactly the keys of two identifiers of permitted length with at most 1024 characters of text.
\<close>

lemma stream_key_roundtrip:
  "parse_key (stream_key ns sid) = Some (ns, sid)
   \<and> (valid_stream_key (PStr key) \<longleftrightarrow> length key \<le> 1024 \<and>
      (\<exists>ns sid. key = stream_key ns sid \<and> valid_identifier ns \<and> valid_identifier sid))"
proof -
  have "valid_stream_key (PStr key) \<longleftrightarrow> length key \<le> 1024 \<and>
      (\<exists>ns sid. key = stream_key ns sid \<and> valid_identifier ns \<and> valid_identifier sid)"
    by (auto simp: valid_stream_key_def parse_stream_key split: option.splits)
  then show ?thesis by (simp add: parse_stream_key)
qed

section \<open>Reading across the mesh\<close>

lemma merge_peers_concat:
  assumes e: "st_init L a p w d det = Inr e"
    and ops: "\<forall>(nid, (pl, v)) \<in> set gs. rfold (st_apply L) (ops nid) e = Inr pl"
    and m: "rfold (st_apply L) zs e = Inr m"
  shows "res_eq (rfold (\<lambda>(nid, (peer_log, v)) m. st_merge m peer_log) gs m)
     (rfold (st_apply L) (zs @ concat (map (ops \<circ> fst) gs)) e)"
  using ops m
proof (induction gs arbitrary: zs m)
  case Nil
  then show ?case by simp
next
  case (Cons x gs)
  obtain nid pl v where x: "x = (nid, (pl, v))" by (cases x) auto
  have pl: "rfold (st_apply L) (ops nid) e = Inr pl" using Cons.prems(1) by (simp add: x)
  have c: "res_eq (st_merge m pl) (rfold (st_apply L) (zs @ ops nid) e)"
    using st.merge_ingest [of L e zs m "ops nid" pl] st_init_inv [OF e] Cons.prems(2) pl by simp
  show ?case
  proof (cases "st_merge m pl")
    case (Inr m')
    then have z: "rfold (st_apply L) (zs @ ops nid) e = Inr m'" using c by (auto simp: res_eq_def)
    then show ?thesis using Cons.IH [OF _ z] Cons.prems(1) by (simp add: x Inr)
  next
    case (Inl err)
    then have "\<nexists>y. rfold (st_apply L) (zs @ ops nid) e = Inr y" using c by (simp add: res_eq_def)
    then have "\<nexists>y. rfold (st_apply L) ((zs @ ops nid) @ concat (map (ops \<circ> fst) gs)) e = Inr y"
      unfolding rfold_append [of _ "zs @ ops nid"] by (simp add: rbind_eq_Inr)
    then show ?thesis by (simp add: x Inl res_eq_def comp_def)
  qed
qed

text \<open>
  C17: a read across the mesh aggregates all nodes.  If the local log ingested one stream of calls and
  every peer snapshot of that stream another, all with the same configuration, then the merged log is
  the log of all those calls, and the merge fails exactly when one log could not take them all.
\<close>

theorem merged_stream_is_union:
  assumes "st_init L a p w d det = Inr e" and "rfold (st_apply L) xs e = Inr (ts_log l)"
    and "\<forall>(nid, (pl, v)) \<in> set (dict_get (cm_snapshots s) (stream_key ns sid) []). rfold (st_apply L) (ops nid) e = Inr pl"
  shows "res_eq (get_merged_stream L s ns sid (Some l))
    (rfold (st_apply L) (xs @ concat (map (ops \<circ> fst) (dict_get (cm_snapshots s) (stream_key ns sid) []))) e)"
proof -
  have "st_inv L (ts_log l)" using st_ingest_inv [OF assms(1,2)] by simp
  then have "get_snapshot L l = Inr (ts_log l)" by (rule get_snapshot_eq)
  then show ?thesis using merge_peers_concat [OF assms(1,3,2)] by (simp add: get_merged_stream_def)
qed

section \<open>Examples\<close>

lemma demo_init:
  "cm_init (\<lambda>_. None) ''n0'' [] (Fin 60) None None None 1024 2 (\<lambda>_. Fin 0) = Inr demo_cluster"
  by (simp add: cm_init_def demo_cluster_def)

lemma demo_mesh_inv: "mesh_inv 1 demo_cluster"
  using cm_init_inv [OF demo_init] by simp

lemma demo_mesh_step: "mesh_step libm_demo (\<lambda>_. None) demo_cluster (receive_message libm_demo (demo_tomb ''n1'' 1) demo_cluster)"
  unfolding demo_tomb_def receive_message.simps by (rule ms_receive)

lemma demo_mesh_steps: "mesh_steps libm_demo (\<lambda>_. None) demo_cluster (receive_message libm_demo (demo_tomb ''n1'' 1) demo_cluster)"
  unfolding mesh_steps_def using demo_mesh_step by blast

theorem mesh_invariant_witness:
  "m_status (get_member (receive_message libm_demo (demo_tomb ''n1'' 1) demo_cluster) ''n0'') = PStr ''alive''
   \<and> length (cm_members (receive_message libm_demo (demo_tomb ''n1'' 1) demo_cluster)) \<le> 256"
  using mesh_invariant [OF demo_init demo_mesh_steps] by (simp add: MAX_MEMBERS_def)

theorem mesh_contacts_allowed_witness:
  "set (gossip_candidates (receive_message libm_demo (demo_tomb ''n1'' 1) demo_cluster)) \<subseteq> PStr ` set (cm_allowed demo_cluster)"
  using mesh_contacts_allowed [OF demo_init demo_mesh_steps] by (rule conjunct2)


theorem merged_stream_is_union_witness:
  "\<exists>e x s. st_init libm_demo (Fin (1/2)) 4 4 2 True = Inr e \<and> rfold (st_apply libm_demo) demo_ops e = Inr x
     \<and> dict_get (cm_snapshots s) (stream_key ''a'' ''b'') [] = [(''n1'', (x, PInt 1))]
     \<and> res_eq (get_merged_stream libm_demo s ''a'' ''b'' (Some \<lparr>ts_log = x, ts_updated = Fin 0\<rparr>))
         (rfold (st_apply libm_demo) (demo_ops @ demo_ops) e)"
proof -
  obtain e x where e: "st_init libm_demo (Fin (1/2)) 4 4 2 True = Inr e" "rfold (st_apply libm_demo) demo_ops e = Inr x"
    by (rule demo_stream)
  define s where "s = demo_cluster\<lparr>cm_snapshots := [(stream_key ''a'' ''b'', [(''n1'', (x, PInt 1))])]\<rparr>"
  have g: "dict_get (cm_snapshots s) (stream_key ''a'' ''b'') [] = [(''n1'', (x, PInt 1))]" by (simp add: s_def)
  have "res_eq (get_merged_stream libm_demo s ''a'' ''b'' (Some \<lparr>ts_log = x, ts_updated = Fin 0\<rparr>))
      (rfold (st_apply libm_demo) (demo_ops @ demo_ops) e)"
    using merged_stream_is_union [OF e(1), of demo_ops "\<lparr>ts_log = x, ts_updated = Fin 0\<rparr>" s "''a''" "''b''" "\<lambda>_. demo_ops"] e(2)
    by (simp add: g)
  then show ?thesis using e g by blast
qed

end
