(* ===== verification/Gossip_Laws.thy ===== *)
theory Gossip_Laws
  imports Mesh_Inv
begin

text \<open>
  The exchange of digests: the running size of an answer is the length of its text, so answers stay
  within the payload limit; the bounded version vector comes round to every entry; the packing of
  requested snapshots loses none that fits.
\<close>

section \<open>The size of an answer\<close>

lemma map_val_update: "map (\<lambda>(k, g). (k, f g)) (AList.update k v d) = AList.update k (f v) (map (\<lambda>(k, g). (k, f g)) d)"
  by (induction d) auto

lemma map_of_map_val: "map_of (map (\<lambda>(k, g). (k, f g)) d) k = map_option f (map_of d k)"
  by (induction d) auto

text \<open>Replacing one group of a two-level dictionary, when no group is empty.\<close>

definition grown_by :: "(string, 'a list) dict \<Rightarrow> string \<Rightarrow> ('a list \<Rightarrow> pyval) \<Rightarrow> 'a list \<Rightarrow> int" where
  "grown_by d sid val g = json_len (val g) +
     (if dict_get d sid [] \<noteq> [] then - json_len (val (dict_get d sid []))
      else (if d = [] then 0 else 1) + json_len (PStr sid) + 1)"

lemma json_len_groups_update:
  assumes "\<forall>(sid, g) \<in> set d. g \<noteq> []"
  shows "json_len (obj (map (\<lambda>(sid, g). (sid, val g)) (AList.update sid g d)))
    = json_len (obj (map (\<lambda>(sid, g). (sid, val g)) d)) + grown_by d sid val g"
proof (cases "map_of d sid")
  case None
  then show ?thesis
    by (simp add: map_val_update json_len_update map_of_map_val grown_by_def dict_get_def)
next
  case (Some g')
  then have "g' \<noteq> []" using assms by (auto dest: map_of_SomeD)
  then show ?thesis using Some
    by (simp add: map_val_update json_len_update map_of_map_val grown_by_def dict_get_def)
qed

lemma groups_update: "\<forall>(sid, g) \<in> set d. g \<noteq> [] \<Longrightarrow> g \<noteq> [] \<Longrightarrow> \<forall>(sid, g) \<in> set (AList.update sid g d). g \<noteq> []"
  by (induction d) auto

lemma json_len_response:
  "json_len (digest_response s U R) = json_len (digest_response s [] []) - 4
     + json_len (obj (map (\<lambda>(sid, g). (sid, obj g)) U)) + json_len (obj (map (\<lambda>(sid, nids). (sid, strs nids)) R))"
  by (simp add: digest_response_def json_len_obj [of "_ # _"]) (simp add: json_len_obj)

definition digest_ok :: "cluster \<Rightarrow> digest \<Rightarrow> bool" where
  "digest_ok s d \<longleftrightarrow> dg_size d = json_len (digest_response s (dg_updates d) (dg_requests d))
    \<and> dg_size d \<le> max (cm_max_payload s) (json_len (digest_response s [] []))
    \<and> (\<forall>(sid, g) \<in> set (dg_updates d). g \<noteq> []) \<and> (\<forall>(sid, g) \<in> set (dg_requests d). g \<noteq> [])"

lemma digest_start_ok: "digest_ok s (digest_start s)"
  by (simp add: digest_ok_def digest_start_def)

lemma add_request_ok:
  assumes "digest_ok s d" "0 \<le> cm_max_payload s" shows "digest_ok s (add_request s sid nid d)"
proof -
  let ?c = "dict_get (dg_requests d) sid []"
  have e: "add_request s sid nid d = (if nid \<in> set ?c then d
     else if dg_size d + grown_by (dg_requests d) sid strs (?c @ [nid]) > cm_max_payload s div 4 then d
     else d\<lparr>dg_requests := AList.update sid (?c @ [nid]) (dg_requests d), dg_size := dg_size d + grown_by (dg_requests d) sid strs (?c @ [nid])\<rparr>)"
    by (simp add: add_request_def Let_def grown_by_def)
  have q: "cm_max_payload s div 4 \<le> cm_max_payload s" using assms(2) by simp
  have n: "\<forall>(sid, g) \<in> set (dg_requests d). g \<noteq> []" using assms(1) by (simp add: digest_ok_def)
  show ?thesis unfolding e
    using assms(1) q groups_update [OF n, of "?c @ [nid]" sid] json_len_groups_update [OF n, of strs sid "?c @ [nid]"]
    by (auto simp: digest_ok_def json_len_response [of s "dg_updates d"])
qed

lemma add_update_ok:
  assumes "digest_ok s d" "add_update s sid nid data d = Inr (d', go)" shows "digest_ok s d'"
proof -
  let ?c = "dict_get (dg_updates d) sid []" and ?n = "AList.update nid data (dict_get (dg_updates d) sid [])"
  have e: "(d', go) = (if dg_size d + grown_by (dg_updates d) sid obj ?n > cm_max_payload s then (d, False)
     else (d\<lparr>dg_updates := AList.update sid ?n (dg_updates d), dg_size := dg_size d + grown_by (dg_updates d) sid obj ?n\<rparr>, True))"
    using assms(2) by (auto simp: add_update_def Let_def res_simps grown_by_def json_len_def [of "obj ?n"] split: if_splits)
  have n: "\<forall>(sid, g) \<in> set (dg_updates d). g \<noteq> []" using assms(1) by (simp add: digest_ok_def)
  have "?n \<noteq> []" by (cases ?c) auto
  then show ?thesis
    using e assms(1) groups_update [OF n, of ?n sid] json_len_groups_update [OF n, of obj sid ?n]
    by (auto simp: digest_ok_def json_len_response [of s _ "dg_requests d"] split: if_splits)
qed

lemma while_ok_invariant:
  assumes "while_ok f xs s = Inr t" "P s" "\<And>x a b go. P a \<Longrightarrow> f x a = Inr (b, go) \<Longrightarrow> P b"
  shows "P t"
  using assms(1,2)
proof (induction xs arbitrary: s)
  case (Cons x xs)
  then obtain s' go where "f x s = Inr (s', go)" by (auto simp: res_simps)
  with Cons assms(3) show ?case by (auto split: if_splits)
qed simp

lemma fold_invariant_pred: "P s \<Longrightarrow> (\<And>x a. P a \<Longrightarrow> P (f x a)) \<Longrightarrow> P (fold f xs s)"
  by (induction xs arbitrary: s) auto

lemma collect_requests_ok:
  assumes "0 \<le> cm_max_payload s" "digest_ok s d" shows "digest_ok s (collect_requests s remote d)"
proof -
  have g: "digest_ok s (fold (\<lambda>(nid, ts) d. if nid = cm_node_id s then d
     else if num_lt (known_version s sid nid) (PFloat ts) then add_request s sid nid d else d) peers a)" if "digest_ok s a" for sid peers a
    using that by (rule fold_invariant_pred) (simp add: add_request_ok assms(1) split: prod.splits)
  show ?thesis unfolding collect_requests_def
    by (rule fold_invariant_pred [where P = "digest_ok s", OF assms(2)]) (use g in \<open>auto split: prod.splits\<close>)
qed

lemma fill_digest_ok:
  assumes "0 \<le> cm_max_payload s" "fill_digest L s reg remote = Inr d" shows "digest_ok s d"
proof -
  have c: "digest_ok s (collect_requests s remote (digest_start s))"
    using collect_requests_ok [OF assms(1) digest_start_ok] .
  have 1: "digest_ok s b" if "digest_ok s a" "send_local L s remote x a = Inr (b, go)" for x a b go
    using that add_update_ok by (auto simp: send_local_def Let_def res_simps split: prod.splits if_splits sum.splits)
  have 2: "digest_ok s b" if "digest_ok s a" "send_local_tombstone s reg remote x a = Inr (b, go)" for x a b go
    using that add_update_ok by (auto simp: send_local_tombstone_def split: prod.splits if_splits option.splits)
  have 3: "digest_ok s b" if "digest_ok s a" "send_peer s remote sid x a = Inr (b, go)" for sid x a b go
    using that add_update_ok by (auto simp: send_peer_def split: prod.splits if_splits)
  have 4: "digest_ok s b" if "digest_ok s a" "send_peer_tombstone s remote sid x a = Inr (b, go)" for sid x a b go
    using that add_update_ok by (auto simp: send_peer_tombstone_def split: prod.splits if_splits)
  have w3: "digest_ok s b" if "while_ok (send_peer s remote sid) peers a = Inr b" "digest_ok s a" for sid peers a b
    using that by (rule while_ok_invariant) (rule 3)
  have w4: "digest_ok s b" if "while_ok (send_peer_tombstone s remote sid) tombs a = Inr b" "digest_ok s a" for sid tombs a b
    using that by (rule while_ok_invariant) (rule 4)
  obtain d1 d2 d3 where d:
    "while_ok (send_local L s remote) reg (collect_requests s remote (digest_start s)) = Inr d1"
    "while_ok (send_local_tombstone s reg remote) (cm_local_tombstones s) d1 = Inr d2"
    "rfold (\<lambda>(sid, peers). while_ok (send_peer s remote sid) peers) (cm_snapshots s) d2 = Inr d3"
    "rfold (\<lambda>(sid, tombs). while_ok (send_peer_tombstone s remote sid) tombs) (cm_tombstones s) d3 = Inr d"
    using assms(2) by (auto simp: fill_digest_def res_simps)
  have "digest_ok s d1" by (rule while_ok_invariant [OF d(1), where P = "digest_ok s", OF c 1])
  then have "digest_ok s d2" by (rule while_ok_invariant [OF d(2), where P = "digest_ok s", OF _ 2])
  then have "digest_ok s d3" by (rule rfold_invariant [OF d(3)]) (use w3 in \<open>auto split: prod.splits\<close>)
  then show "digest_ok s d" by (rule rfold_invariant [OF d(4)]) (use w4 in \<open>auto split: prod.splits\<close>)
qed

text \<open>
  C31: the answer to a digest fits into a payload.  However many streams, tombstones and peers the node
  knows, the text of its answer is at most the configured number of bytes (or the length of the empty
  answer, if a very long node name alone exceeds the limit).
\<close>

theorem digest_response_bounded:
  assumes "0 \<le> cm_max_payload s" and "handle_gossip_digest L reg payload s = Inr response"
  shows "json_len response \<le> max (cm_max_payload s) (json_len (digest_response s [] []))"
proof -
  obtain remote d where d: "fill_digest L s reg remote = Inr d" "response = digest_response s (dg_updates d) (dg_requests d)"
    using assms(2) by (auto simp: handle_gossip_digest_def res_simps split: pyval.splits)
  then show ?thesis using fill_digest_ok [OF assms(1) d(1)] by (simp add: digest_ok_def)
qed

section \<open>The bounded version vector\<close>

text \<open>An entry that fits into a payload of its own.\<close>

definition fits :: "int \<Rightarrow> int \<Rightarrow> string \<times> (string, version) dict \<Rightarrow> bool" where
  "fits cap base item \<longleftrightarrow> base + contribution [] item \<le> cap"

lemma contribution_le: "contribution [] item \<le> contribution selected item"
  by (simp add: contribution_def split: prod.splits)

lemma update_of_items:
  assumes "dict_ok items" "(k, v) \<in> set items" "item \<in> set items" "map_of sel k = Some v"
  shows "map_of (AList.update (fst item) (snd item) sel) k = Some v"
  using assms by (cases item) (auto simp: update_conv' eq_key_imp_eq_value simp del: map_of_eq_Some_iff)

text \<open>
  The loop goes on at least one entry from an empty selection, keeps what it selected, and selects
  every considered entry that fits.
\<close>

definition covers :: "int \<Rightarrow> int \<Rightarrow> vector \<Rightarrow> nat \<Rightarrow> nat \<Rightarrow> nat \<Rightarrow> vector \<Rightarrow> bool" where
  "covers cap base items start c c' sel \<longleftrightarrow> (\<forall>j. c \<le> j \<and> j < c' \<longrightarrow>
     fits cap base (items ! ((start + j) mod length items)) \<longrightarrow>
     map_of sel (fst (items ! ((start + j) mod length items))) = Some (snd (items ! ((start + j) mod length items))))"

lemma covers_Suc:
  assumes "covers cap base items start (Suc c) c' sel" "c < c'"
    and "fits cap base (items ! ((start + c) mod length items)) \<Longrightarrow>
      map_of sel (fst (items ! ((start + c) mod length items))) = Some (snd (items ! ((start + c) mod length items)))"
  shows "covers cap base items start c c' sel"
  using assms unfolding covers_def by (metis Suc_leI le_neq_implies_less)

lemma bvv_loop_spec:
  assumes "bvv_loop cap items start c sel used = (c', sel')"
    "dict_ok items" "c \<le> length items" "sel = [] \<longrightarrow> used = base"
  shows "c \<le> c' \<and> c' \<le> length items \<and> (c < length items \<and> sel = [] \<longrightarrow> c < c')
    \<and> (\<forall>item \<in> set items. map_of sel (fst item) = Some (snd item) \<longrightarrow> map_of sel' (fst item) = Some (snd item))
    \<and> covers cap base items start c c' sel'"
  using assms
proof (induction cap items start c sel used rule: bvv_loop.induct)
  case (1 cap items start c sel used)
  let ?item = "items ! ((start + c) mod length items)"
  let ?up = "AList.update (fst ?item) (snd ?item) sel"
  show ?case
  proof (cases "c < length items")
    case False
    then have "c' = c" "sel' = sel" using "1.prems"(1) by (simp_all add: bvv_loop.simps)
    then show ?thesis using False "1.prems"(3) by (auto simp: covers_def)
  next
    case lt: True
    have item: "?item \<in> set items" using lt by (intro nth_mem mod_less_divisor) auto
    consider (add) "used + contribution sel ?item \<le> cap"
      | (skip) "\<not> used + contribution sel ?item \<le> cap" "sel = []"
      | (stop) "\<not> used + contribution sel ?item \<le> cap" "sel \<noteq> []" by blast
    then show ?thesis
    proof cases
      case add
      have up: "?up \<noteq> []" by (cases sel) auto
      have "bvv_loop cap items start (c + 1) ?up (used + contribution sel ?item) = (c', sel')"
        using "1.prems"(1) lt add by (subst (asm) bvv_loop.simps) (simp add: Let_def)
      note IH = "1.IH"(1) [OF lt refl refl add this "1.prems"(2)]
      have ih: "Suc c \<le> c'" "c' \<le> length items" "covers cap base items start (Suc c) c' sel'"
        "\<forall>item \<in> set items. map_of ?up (fst item) = Some (snd item) \<longrightarrow> map_of sel' (fst item) = Some (snd item)"
        using IH lt up by auto
      have "map_of ?up (fst item) = Some (snd item)"
        if "item \<in> set items" "map_of sel (fst item) = Some (snd item)" for item
        using update_of_items [OF "1.prems"(2) _ item that(2)] that(1) by simp
      moreover have "map_of sel' (fst ?item) = Some (snd ?item)" using ih(4) item by (simp add: update_conv')
      ultimately show ?thesis using ih covers_Suc [OF ih(3)] by auto
    next
      case skip
      have "bvv_loop cap items start (c + 1) sel used = (c', sel')"
        using "1.prems"(1) lt skip by (subst (asm) bvv_loop.simps) (simp add: Let_def)
      note IH = "1.IH"(2) [OF lt refl refl skip this "1.prems"(2)]
      have ih: "Suc c \<le> c'" "c' \<le> length items" "covers cap base items start (Suc c) c' sel'"
        "\<forall>item \<in> set items. map_of sel (fst item) = Some (snd item) \<longrightarrow> map_of sel' (fst item) = Some (snd item)"
        using IH lt "1.prems"(4) by auto
      have "\<not> fits cap base ?item" using skip "1.prems"(4) by (simp add: fits_def)
      then show ?thesis using ih covers_Suc [OF ih(3)] by auto
    next
      case stop
      then have "c' = c" "sel' = sel" using "1.prems"(1) lt by (simp_all add: bvv_loop.simps Let_def)
      then show ?thesis using stop lt by (auto simp: covers_def)
    qed
  qed
qed

lemma json_len_digest:
  "json_len (digest_payload s vv) = json_len (digest_payload s []) - 2 + json_len (vector_val vv)"
  by (simp add: digest_payload_def json_len_obj [of "_ # _"]) (simp add: json_len_obj vector_val_def)

lemma json_len_vector_update:
  "json_len (vector_val (AList.update (fst item) (snd item) sel)) \<le> json_len (vector_val sel) + contribution sel item"
proof -
  obtain k v where item: "item = (k, v)" by (cases item)
  have "0 \<le> json_len (PStr k)" "0 \<le> json_len (obj g)" for g by (rule json_len_ge0)+
  then show ?thesis
    by (auto simp: item vector_val_def map_val_update json_len_update map_of_map_val contribution_def
      add_nonneg_nonneg split: option.split intro: order_trans [of _ 0])
qed

lemma bvv_loop_size:
  assumes "bvv_loop cap items start c sel used = (c', sel')" "json_len (digest_payload s sel) \<le> used" "used \<le> max cap base"
  shows "json_len (digest_payload s sel') \<le> max cap base"
  using assms
proof (induction cap items start c sel used rule: bvv_loop.induct)
  case (1 cap items start c sel used)
  let ?item = "items ! ((start + c) mod length items)"
  let ?up = "AList.update (fst ?item) (snd ?item) sel"
  have up: "json_len (digest_payload s ?up) \<le> used + contribution sel ?item"
    using "1.prems"(2) json_len_vector_update [of ?item sel]
    by (simp add: json_len_digest [of s ?up] json_len_digest [of s sel])
  consider (stop) "c' = c" "sel' = sel"
    | (add) "c < length items" "used + contribution sel ?item \<le> cap"
        "bvv_loop cap items start (c + 1) ?up (used + contribution sel ?item) = (c', sel')"
    | (skip) "c < length items" "\<not> used + contribution sel ?item \<le> cap" "sel = []"
        "bvv_loop cap items start (c + 1) sel used = (c', sel')"
    using "1.prems"(1) by (subst (asm) bvv_loop.simps) (auto simp: Let_def split: if_splits)
  then show ?case
  proof cases
    case stop
    then show ?thesis using "1.prems" by simp
  next
    case add
    show ?thesis using "1.IH"(1) [OF add(1) refl refl add(2,3) up] add(2) by simp
  next
    case skip
    show ?thesis using "1.IH"(2) [OF skip(1) refl refl skip(2,3,4) "1.prems"(2,3)] .
  qed
qed

lemma mod_cover: "i < n \<Longrightarrow> \<exists>j \<ge> c. j < c + n \<and> j mod n = (i::nat)"
proof -
  assume i: "i < n"
  let ?j = "c + (i + n - c mod n) mod n"
  have "?j mod n = (c mod n + (i + n - c mod n)) mod n" by (simp add: mod_simps)
  also have "c mod n + (i + n - c mod n) = i + n" using i mod_less_divisor [of n c] by linarith
  also have "(i + n) mod n = i" using i by simp
  finally show ?thesis using i by (intro exI [of _ ?j]) auto
qed

text \<open>Consecutive rounds with the same vector, and the selections they send.\<close>

fun vector_rounds :: "nat \<Rightarrow> vector \<Rightarrow> cluster \<Rightarrow> vector list result" where
  "vector_rounds 0 vv s = Inr []"
| "vector_rounds (Suc n) vv s = rbind (bounded_version_vector s vv) (\<lambda>(s', selected).
     rbind (vector_rounds n vv s') (\<lambda>r. Inr (selected # r)))"

lemma digest_payload_cong: "cm_node_id t = cm_node_id s \<Longrightarrow> digest_payload t vv = digest_payload s vv"
  by (simp add: digest_payload_def)

lemma vector_rounds_cover:
  fixes s :: cluster and vv :: vector
  defines "base \<equiv> json_len (digest_payload s [])" and "cap \<equiv> cm_max_payload s"
  assumes "dict_ok vv" "json_finite (digest_payload s vv)" "cap < json_len (digest_payload s vv)" "vv \<noteq> []"
    and "t = s\<lparr>cm_digest_cursor := cur\<rparr>" "cur mod length vv = p mod length vv"
  shows "\<exists>sels. vector_rounds n vv t = Inr sels \<and> (\<forall>sel \<in> set sels. json_len (digest_payload s sel) \<le> max cap base)
    \<and> (\<forall>j. p \<le> j \<and> j < p + n \<and> fits cap base (vv ! (j mod length vv)) \<longrightarrow>
        (\<exists>sel \<in> set sels. map_of sel (fst (vv ! (j mod length vv))) = Some (snd (vv ! (j mod length vv)))))"
  using assms(7,8)
proof (induction n arbitrary: t cur p)
  case 0
  then show ?case by simp
next
  case (Suc n)
  let ?start = "cur mod length vv"
  obtain c sel where l: "bvv_loop cap vv ?start 0 [] base = (c, sel)" by fastforce
  have spec: "c \<le> length vv" "0 < c" "covers cap base vv ?start 0 c sel"
    using bvv_loop_spec [OF l assms(3), of base] assms(6) by auto
  have size: "json_len (digest_payload s sel) \<le> max cap base"
    using bvv_loop_size [OF l, of s base] by (simp add: base_def)
  define t' where "t' = s\<lparr>cm_digest_cursor := (?start + c) mod length vv\<rparr>"
  have "digest_payload t vv = digest_payload s vv" "digest_payload t [] = digest_payload s []" "cm_max_payload t = cap"
    "t\<lparr>cm_digest_cursor := (?start + c) mod length vv\<rparr> = t'" "cm_digest_cursor t = cur"
    by (simp_all add: Suc.prems(1) digest_payload_def t'_def cap_def)
  then have b: "bounded_version_vector t vv = Inr (t', sel)"
    using assms(4,5,6) l by (simp add: bounded_version_vector_def json_bytes_def json_len_def [of "digest_payload s vv"] base_def)
  have "((?start + c) mod length vv) mod length vv = (p + c) mod length vv"
    by (metis Suc.prems(2) mod_add_left_eq mod_mod_trivial)
  from Suc.IH [OF t'_def this] obtain sels where sels: "vector_rounds n vv t' = Inr sels"
    "\<forall>sel \<in> set sels. json_len (digest_payload s sel) \<le> max cap base"
    "\<forall>j. p + c \<le> j \<and> j < p + c + n \<and> fits cap base (vv ! (j mod length vv)) \<longrightarrow>
        (\<exists>sel \<in> set sels. map_of sel (fst (vv ! (j mod length vv))) = Some (snd (vv ! (j mod length vv))))" by blast
  have "\<exists>sel' \<in> set (sel # sels). map_of sel' (fst (vv ! (j mod length vv))) = Some (snd (vv ! (j mod length vv)))"
    if j: "p \<le> j" "j < p + Suc n" "fits cap base (vv ! (j mod length vv))" for j
  proof (cases "j < p + c")
    case True
    have "(?start + (j - p)) mod length vv = j mod length vv"
      using Suc.prems(2) j(1) by (metis le_add_diff_inverse mod_add_left_eq)
    then show ?thesis using spec(3) True j unfolding covers_def by (metis add_less_imp_less_left le_add_diff_inverse list.set_intros(1) zero_le)
  next
    case False
    then show ?thesis using sels(3) j spec(2) by auto
  qed
  then show ?case using b sels(1,2) size by (intro exI [of _ "sel # sels"]) auto
qed

text \<open>
  C16: gossip starves no stream.  While the version vector stays the same, each of as many rounds as it
  has entries sends a payload within the limit, and every entry that fits into a payload of its own is
  sent in one of these rounds, wherever the cursor stands at first.
\<close>

theorem version_vector_fair:
  assumes "dict_ok vv" and "json_finite (digest_payload s vv)"
  shows "\<exists>sels. vector_rounds (length vv) vv s = Inr sels
    \<and> (\<forall>sel \<in> set sels. json_len (digest_payload s sel) \<le> max (cm_max_payload s) (json_len (digest_payload s [])))
    \<and> (\<forall>(sid, origins) \<in> set vv. json_len (digest_payload s [(sid, origins)]) \<le> cm_max_payload s \<longrightarrow>
         (\<exists>sel \<in> set sels. map_of sel sid = Some origins))"
proof (cases "cm_max_payload s < json_len (digest_payload s vv)")
  case False
  then have b: "bounded_version_vector s vv = Inr (s, vv)"
    using assms(2) by (simp add: bounded_version_vector_def json_bytes_def json_len_def)
  have "vector_rounds n vv s = Inr (replicate n vv)" for n by (induction n) (simp_all add: b)
  moreover have "map_of vv sid = Some origins" if "(sid, origins) \<in> set vv" for sid origins using assms(1) that by simp
  ultimately show ?thesis using False by (intro exI [of _ "replicate (length vv) vv"]) (auto simp: le_max_iff_disj)
next
  case True
  show ?thesis
  proof (cases "vv = []")
    case False
    have p: "cm_digest_cursor s mod length vv = cm_digest_cursor s mod length vv" ..
    obtain sels where sels: "vector_rounds (length vv) vv s = Inr sels"
      "\<forall>sel \<in> set sels. json_len (digest_payload s sel) \<le> max (cm_max_payload s) (json_len (digest_payload s []))"
      "\<forall>j. cm_digest_cursor s \<le> j \<and> j < cm_digest_cursor s + length vv
          \<and> fits (cm_max_payload s) (json_len (digest_payload s [])) (vv ! (j mod length vv)) \<longrightarrow>
        (\<exists>sel \<in> set sels. map_of sel (fst (vv ! (j mod length vv))) = Some (snd (vv ! (j mod length vv))))"
      using vector_rounds_cover [OF assms True False _ p, of s "length vv"] by fastforce
    have "\<exists>sel \<in> set sels. map_of sel sid = Some origins"
      if e: "(sid, origins) \<in> set vv" "json_len (digest_payload s [(sid, origins)]) \<le> cm_max_payload s" for sid origins
    proof -
      obtain i where i: "i < length vv" "vv ! i = (sid, origins)" using e(1) by (auto simp: in_set_conv_nth)
      obtain j where j: "cm_digest_cursor s \<le> j" "j < cm_digest_cursor s + length vv" "j mod length vv = i"
        using mod_cover [OF i(1)] by blast
      have "fits (cm_max_payload s) (json_len (digest_payload s [])) (sid, origins)"
        using e(2) by (simp add: fits_def contribution_def json_len_digest [of s "[_]"] vector_val_def json_len_obj)
      then show ?thesis using sels(3) j i(2) by (metis fst_conv snd_conv)
    qed
    then show ?thesis using sels(1,2) by blast
  qed simp
qed

section \<open>Packing requested snapshots\<close>

definition data_at :: "pyval per_origin \<Rightarrow> string \<times> string \<Rightarrow> pyval option" where
  "data_at p k = map_of (dict_get p (fst k) []) (snd k)"

definition put_data :: "string \<Rightarrow> string \<Rightarrow> pyval \<Rightarrow> pyval per_origin \<Rightarrow> pyval per_origin" where
  "put_data sid nid data p = AList.update sid (AList.update nid data (dict_get p sid [])) p"

lemma data_at_put [simp]: "data_at (put_data sid nid data p) k = (if k = (sid, nid) then Some data else data_at p k)"
  by (cases k) (auto simp: data_at_def put_data_def dict_get_update update_conv')

lemma data_at_Nil [simp]: "data_at [] k = None" by (simp add: data_at_def)

lemma put_data_Nil: "put_data sid nid data [] = [(sid, [(nid, data)])]" by (simp add: put_data_def)

lemma json_finite_obj: "json_finite (obj d) \<longleftrightarrow> list_all (\<lambda>(k, v). json_finite v) d"
  by (simp add: obj_def list_all_iff case_prod_unfold)

definition data_finite :: "pyval per_origin \<Rightarrow> bool" where
  "data_finite p \<longleftrightarrow> list_all (\<lambda>(sid, g). json_finite (obj g)) p"

lemma sync_finite: "data_finite p \<Longrightarrow> json_finite (sync_payload s p)"
  by (simp add: sync_payload_def json_finite_obj data_finite_def list_all_iff case_prod_unfold)

lemma put_data_finite:
  assumes "data_finite p" "json_finite data" shows "data_finite (put_data sid nid data p)"
proof -
  have "json_finite (obj (dict_get p sid []))"
    using assms(1) by (cases "map_of p sid") (auto simp: data_finite_def dict_get_def list_all_iff json_finite_obj [of "[]"] dest: map_of_SomeD)
  then have "json_finite (obj (AList.update nid data (dict_get p sid [])))"
    using assms(2) unfolding json_finite_obj by (intro list_all_update) auto
  then show ?thesis using assms(1) unfolding data_finite_def put_data_def by (intro list_all_update) auto
qed

abbreviation sent_ok :: "nat \<Rightarrow> unit result" where "sent_ok \<equiv> \<lambda>_. Inr ()"

lemma queue_cases:
  assumes "data_finite (sy_streams y)" "json_finite data"
  shows "queue_sync_update s sent_ok sid nid data y =
    ((if json_len (sync_payload s (put_data sid nid data (sy_streams y))) \<le> cm_max_payload s
      then y\<lparr>sy_streams := put_data sid nid data (sy_streams y)\<rparr>
      else y\<lparr>sy_streams := (if json_len (sync_payload s [(sid, [(nid, data)])]) \<le> cm_max_payload s then [(sid, [(nid, data)])] else []),
             sy_sent := (if sy_streams y = [] then sy_sent y else sy_sent y @ [sy_streams y])\<rparr>), Inr ())"
  using sync_finite [OF put_data_finite [OF assms], of s sid nid]
  by (auto simp: queue_sync_update_def Let_def json_bytes_def put_data_def [symmetric] json_len_def [symmetric] sbind_def flush_sync_def not_le)

text \<open>Everything queued so far that fits is packed, and nothing else is.\<close>

definition packed :: "cluster \<Rightarrow> ((string \<times> string) \<times> pyval) set \<Rightarrow> sync \<Rightarrow> bool" where
  "packed s Q y \<longleftrightarrow> data_finite (sy_streams y)
    \<and> (\<forall>p \<in> set (sy_sent y). json_len (sync_payload s p) \<le> cm_max_payload s)
    \<and> (sy_streams y = [] \<or> json_len (sync_payload s (sy_streams y)) \<le> cm_max_payload s)
    \<and> (\<forall>(k, data) \<in> Q. json_len (sync_payload s [(fst k, [(snd k, data)])]) \<le> cm_max_payload s
         \<longrightarrow> (\<exists>p \<in> set (sy_streams y # sy_sent y). data_at p k = Some data))
    \<and> (\<forall>p \<in> set (sy_streams y # sy_sent y). \<forall>k data. data_at p k = Some data \<longrightarrow> (k, data) \<in> Q)"

lemma queue_packed:
  assumes "packed s Q y" "json_finite data" "\<forall>(k, d) \<in> Q. k \<noteq> (sid, nid)"
  shows "\<exists>y'. queue_sync_update s sent_ok sid nid data y = (y', Inr ()) \<and> packed s (insert ((sid, nid), data) Q) y'"
proof -
  let ?p = "sy_streams y" and ?c = "put_data sid nid data (sy_streams y)"
  have f: "data_finite ?p" using assms(1) by (simp add: packed_def)
  have fc: "data_finite ?c" "data_finite (put_data sid nid data [])"
    using put_data_finite assms(2) f by (auto simp: data_finite_def)
  note q = queue_cases [OF f assms(2), of s sid nid]
  have new: "data_at p (sid, nid) = None" if "p \<in> set (?p # sy_sent y)" for p
    using assms(1,3) that unfolding packed_def by (cases "data_at p (sid, nid)") fastforce+
  show ?thesis
  proof (cases "json_len (sync_payload s ?c) \<le> cm_max_payload s")
    case True
    have "packed s (insert ((sid, nid), data) Q) (y\<lparr>sy_streams := ?c\<rparr>)"
      using assms(1,3) True fc(1) unfolding packed_def by (auto split: if_splits) fastforce+
    then show ?thesis using q True by simp
  next
    case False
    let ?one = "[(sid, [(nid, data)])]"
    let ?y = "y\<lparr>sy_streams := (if json_len (sync_payload s ?one) \<le> cm_max_payload s then ?one else []),
             sy_sent := (if ?p = [] then sy_sent y else sy_sent y @ [?p])\<rparr>"
    have one: "data_at ?one k = (if k = (sid, nid) then Some data else None)" for k
      using data_at_put [of sid nid data "[]" k] by (simp add: put_data_Nil)
    have sent: "set (sy_streams ?y # sy_sent ?y) \<subseteq> insert (sy_streams ?y) (set (?p # sy_sent y))"
      "set (?p # sy_sent y) \<subseteq> insert [] (set (sy_sent ?y))" by auto
    have "\<exists>p \<in> set (sy_streams ?y # sy_sent ?y). data_at p k = Some d"
      if k: "(k, d) \<in> insert ((sid, nid), data) Q" "json_len (sync_payload s [(fst k, [(snd k, d)])]) \<le> cm_max_payload s" for k d
    proof (cases "(k, d) \<in> Q")
      case True
      then obtain p where p: "p \<in> set (?p # sy_sent y)" "data_at p k = Some d" using assms(1) k(2) unfolding packed_def by fastforce
      then have "p \<noteq> []" by auto
      then have "p \<in> set (sy_sent ?y)" using p(1) sent(2) by blast
      then show ?thesis using p(2) by auto
    next
      case new: False
      then show ?thesis using k one by auto
    qed
    moreover have "(k, d) \<in> insert ((sid, nid), data) Q" if "p \<in> set (sy_streams ?y # sy_sent ?y)" "data_at p k = Some d" for p k d
    proof (cases "p = sy_streams ?y")
      case True
      then show ?thesis using that(2) one by (auto split: if_splits)
    next
      case False
      then have "p \<in> set (?p # sy_sent y)" using that(1) sent(1) by blast
      then show ?thesis using assms(1) that(2) unfolding packed_def by blast
    qed
    moreover have "\<forall>p \<in> set (sy_sent ?y). json_len (sync_payload s p) \<le> cm_max_payload s"
      using assms(1) by (auto simp: packed_def)
    moreover have "data_finite (sy_streams ?y)" using fc(2) by (auto simp: put_data_Nil data_finite_def)
    ultimately have "packed s (insert ((sid, nid), data) Q) ?y" unfolding packed_def by (auto split: if_splits)
    then show ?thesis using q False by simp
  qed
qed

lemma queue_all_packed:
  assumes "packed s Q y" "distinct (map fst items)" "\<forall>(k, d) \<in> set items. json_finite d \<and> (\<forall>(k', d') \<in> Q. k' \<noteq> k)"
  shows "\<exists>y' r. sfor (\<lambda>n (k, d). queue_sync_update s sent_ok (fst k) (snd k) d) n items y = (y', Inr r) \<and> packed s (set items \<union> Q) y'"
  using assms
proof (induction items arbitrary: Q y n)
  case Nil
  then show ?case by simp
next
  case (Cons x items)
  obtain k d where x: "x = (k, d)" by (cases x)
  obtain y1 where y1: "queue_sync_update s sent_ok (fst k) (snd k) d y = (y1, Inr ())" "packed s (insert (k, d) Q) y1"
    using queue_packed [OF Cons.prems(1), of d "fst k" "snd k"] Cons.prems(3) by (auto simp: x)
  have "\<forall>(k2, d2) \<in> set items. json_finite d2 \<and> (\<forall>(k', d') \<in> insert (k, d) Q. k' \<noteq> k2)"
    using Cons.prems(2,3) by (auto simp: x image_iff)
  from Cons.IH [OF y1(2) _ this, of "Suc n"] Cons.prems(2) obtain y2 r where
    "sfor (\<lambda>n (k, d). queue_sync_update s sent_ok (fst k) (snd k) d) (Suc n) items y1 = (y2, Inr r)"
    "packed s (set items \<union> insert (k, d) Q) y2" by auto
  then show ?case using y1(1) by (auto simp: x sbind_def)
qed

text \<open>
  C32: packing requested snapshots into payloads loses nothing.  When the requests go through, every
  queued update that fits into a payload of its own is sent, nothing that was not queued is sent, no
  payload exceeds the limit, and nothing stays behind.
\<close>

theorem sync_batches_complete:
  assumes "distinct (map fst items)" and "\<forall>(k, d) \<in> set items. json_finite d"
  shows "\<exists>y. sthen (sfor (\<lambda>n (k, d). queue_sync_update s sent_ok (fst k) (snd k) d) 0 items) (flush_sync sent_ok)
      \<lparr>sy_streams = [], sy_sent = []\<rparr> = (y, Inr ())
    \<and> sy_streams y = [] \<and> (\<forall>p \<in> set (sy_sent y). json_len (sync_payload s p) \<le> cm_max_payload s)
    \<and> (\<forall>(k, d) \<in> set items. json_len (sync_payload s [(fst k, [(snd k, d)])]) \<le> cm_max_payload s
         \<longrightarrow> (\<exists>p \<in> set (sy_sent y). data_at p k = Some d))
    \<and> (\<forall>p \<in> set (sy_sent y). \<forall>k d. data_at p k = Some d \<longrightarrow> (k, d) \<in> set items)"
proof -
  have "packed s {} \<lparr>sy_streams = [], sy_sent = []\<rparr>" by (simp add: packed_def data_finite_def)
  from queue_all_packed [OF this assms(1), of 0] assms(2) obtain y r where
    y: "sfor (\<lambda>n (k, d). queue_sync_update s sent_ok (fst k) (snd k) d) 0 items \<lparr>sy_streams = [], sy_sent = []\<rparr> = (y, Inr r)"
      "packed s (set items) y" by auto
  let ?z = "if sy_streams y = [] then y else y\<lparr>sy_streams := [], sy_sent := sy_sent y @ [sy_streams y]\<rparr>"
  have "sthen (sfor (\<lambda>n (k, d). queue_sync_update s sent_ok (fst k) (snd k) d) 0 items) (flush_sync sent_ok)
      \<lparr>sy_streams = [], sy_sent = []\<rparr> = (?z, Inr ())"
    using y(1) by (simp add: sbind_def flush_sync_def)
  moreover have "sy_streams ?z = []" "\<forall>p \<in> set (sy_sent ?z). json_len (sync_payload s p) \<le> cm_max_payload s"
    using y(2) by (auto simp: packed_def)
  moreover have "set (sy_sent ?z) \<union> {[]} = set (sy_streams y # sy_sent y) \<union> {[]}" by auto
  then have "(\<exists>p \<in> set (sy_sent ?z). data_at p k = Some d) \<longleftrightarrow> (\<exists>p \<in> set (sy_streams y # sy_sent y). data_at p k = Some d)" for k d
    by (metis UnE UnI1 data_at_Nil option.distinct(1) singletonD)
  ultimately show ?thesis using y(2) unfolding packed_def by (intro exI [of _ ?z]) blast
qed

section \<open>Examples\<close>

definition demo_vector :: vector where
  "demo_vector = [(stream_key ''a'' ''b'', [(''n0'', PInt 3)]), (stream_key ''a'' ''c'', [(''n1'', PInt 4)])]"

theorem digest_response_bounded_witness:
  "\<exists>response. handle_gossip_digest libm_demo [] [(PStr ''versions'', PDict [(PStr (stream_key ''a'' ''b''), PDict [(PStr ''n1'', PInt 2)])])] demo_cluster = Inr response
     \<and> json_len response \<le> 1024"
proof -
  let ?h = "handle_gossip_digest libm_demo [] [(PStr ''versions'', PDict [(PStr (stream_key ''a'' ''b''), PDict [(PStr ''n1'', PInt 2)])])] demo_cluster"
  have "is_ok ?h" by code_simp
  then obtain response where r: "?h = Inr response" by (auto simp: is_ok_iff)
  have "json_len (digest_response demo_cluster [] []) \<le> 1024" "cm_max_payload demo_cluster = 1024" by code_simp+
  then show ?thesis using r digest_response_bounded [OF _ r] by simp
qed

theorem version_vector_fair_witness:
  "\<exists>sels. vector_rounds 2 demo_vector demo_cluster = Inr sels
    \<and> (\<exists>sel \<in> set sels. map_of sel (stream_key ''a'' ''c'') = Some [(''n1'', PInt 4)])"
proof -
  have d: "dict_ok demo_vector" by code_simp
  have f: "json_finite (digest_payload demo_cluster demo_vector)" by code_simp
  have l: "json_len (digest_payload demo_cluster [(stream_key ''a'' ''c'', [(''n1'', PInt 4)])]) \<le> cm_max_payload demo_cluster" by code_simp
  have m: "(stream_key ''a'' ''c'', [(''n1'', PInt 4)]) \<in> set demo_vector" "length demo_vector = 2" by (simp_all add: demo_vector_def)
  from version_vector_fair [OF d f] show ?thesis using l m by fastforce
qed

theorem sync_batches_complete_witness:
  "\<exists>y. sthen (sfor (\<lambda>n (k, d). queue_sync_update demo_cluster sent_ok (fst k) (snd k) d) 0 [((''s'', ''n1''), tombstone_data (PInt 1))])
      (flush_sync sent_ok) \<lparr>sy_streams = [], sy_sent = []\<rparr> = (y, Inr ())
    \<and> (\<exists>p \<in> set (sy_sent y). data_at p (''s'', ''n1'') = Some (tombstone_data (PInt 1)))"
proof -
  have f: "\<forall>(k, d) \<in> set [((''s'', ''n1''), tombstone_data (PInt 1))]. json_finite d"
    by (simp add: tombstone_data_def obj_def)
  have l: "json_len (sync_payload demo_cluster [(''s'', [(''n1'', tombstone_data (PInt 1))])]) \<le> cm_max_payload demo_cluster" by code_simp
  from sync_batches_complete [OF _ f, of demo_cluster] show ?thesis using l by fastforce
qed

end
