(* ===== verification/Canary.thy ===== *)
theory Canary
  imports Slo Diff
begin

text \<open>
  Canary analysis of a deployment (\<^verbatim>\<open>canary.py\<close>): a candidate log is compared with a baseline log by
  percentile shifts, the distance of the distributions, the burn rate of the derived objective and the
  rate of an error event; each metric is judged against a warning and a rollback threshold.
\<close>

section \<open>Verdicts\<close>

datatype canary_verdict = SAFE | WARNING | ROLLBACK_RECOMMENDED

fun verdict_rank :: "canary_verdict \<Rightarrow> nat" where
  "verdict_rank SAFE = 0"
| "verdict_rank WARNING = 1"
| "verdict_rank ROLLBACK_RECOMMENDED = 2"

fun verdict_value :: "canary_verdict \<Rightarrow> string" where
  "verdict_value SAFE = ''safe''"
| "verdict_value WARNING = ''warning''"
| "verdict_value ROLLBACK_RECOMMENDED = ''rollback_recommended''"

text \<open>Verdicts are ordered by their severity.\<close>

instantiation canary_verdict :: linorder
begin

definition less_eq_canary_verdict :: "canary_verdict \<Rightarrow> canary_verdict \<Rightarrow> bool" where
  "less_eq_canary_verdict x y \<longleftrightarrow> verdict_rank x \<le> verdict_rank y"

definition less_canary_verdict :: "canary_verdict \<Rightarrow> canary_verdict \<Rightarrow> bool" where
  "less_canary_verdict x y \<longleftrightarrow> verdict_rank x < verdict_rank y"

instance
proof
  fix x y z :: canary_verdict
  show "x < y \<longleftrightarrow> x \<le> y \<and> \<not> y \<le> x" "x \<le> x" "x \<le> y \<or> y \<le> x"
    unfolding less_eq_canary_verdict_def less_canary_verdict_def by linarith+
  show "x \<le> y \<Longrightarrow> y \<le> z \<Longrightarrow> x \<le> z" unfolding less_eq_canary_verdict_def by (rule le_trans)
  have "verdict_rank x = verdict_rank y \<Longrightarrow> x = y" by (cases x; cases y) simp_all
  then show "x \<le> y \<Longrightarrow> y \<le> x \<Longrightarrow> x = y" unfolding less_eq_canary_verdict_def by linarith
qed

end

definition worst_verdict :: "canary_verdict \<Rightarrow> canary_verdict \<Rightarrow> canary_verdict" where
  "worst_verdict current candidate = (if verdict_rank candidate > verdict_rank current then candidate else current)"

definition metric_verdict :: "pyfloat \<Rightarrow> pyfloat \<Rightarrow> pyfloat \<Rightarrow> canary_verdict" where
  "metric_verdict value warning rollback =
    (if f_le rollback value then ROLLBACK_RECOMMENDED else if f_le warning value then WARNING else SAFE)"

section \<open>Thresholds and configuration\<close>

text \<open>A metric with its two thresholds.\<close>

datatype canary_metric = P99_Shift | Error_Rate | Slo_Burn | Ks | Wasserstein | Anomaly_Score

record canary_thresholds =
  ct_warning :: "canary_metric \<Rightarrow> pyfloat"
  ct_rollback :: "canary_metric \<Rightarrow> pyfloat"

definition threshold_metrics :: "canary_metric list" where
  "threshold_metrics = [P99_Shift, Error_Rate, Slo_Burn, Ks, Wasserstein, Anomaly_Score]"

fun metric_name :: "canary_metric \<Rightarrow> string" where
  "metric_name P99_Shift = ''p99_shift_percent''"
| "metric_name Error_Rate = ''error_rate_increase_percent''"
| "metric_name Slo_Burn = ''slo_burn_rate''"
| "metric_name Ks = ''ks_statistic''"
| "metric_name Wasserstein = ''wasserstein_ratio''"
| "metric_name Anomaly_Score = ''anomaly_score''"

definition check_thresholds :: "canary_thresholds \<Rightarrow> canary_metric \<Rightarrow> unit result" where
  "check_thresholds t k =
    raise_if (f_lt (ct_warning t k) (Fin 0) \<or> f_lt (ct_rollback t k) (Fin 0)) (ValueError (''Canary threshold '' @ metric_name k @ '' must be non-negative.''))
   (raise_if (f_lt (ct_rollback t k) (ct_warning t k)) 
     (ValueError (''Canary threshold '' @ metric_name k @ '' rollback value must be >= warning value.''))
   (Inr ()))"

definition CanaryThresholds :: "(canary_metric \<Rightarrow> pyfloat) \<Rightarrow> (canary_metric \<Rightarrow> pyfloat) \<Rightarrow> canary_thresholds result" where
  "CanaryThresholds warning rollback = (let t = \<lparr>ct_warning = warning, ct_rollback = rollback\<rparr> in
     rbind (rmap (check_thresholds t) threshold_metrics) (\<lambda>_. Inr t))"

fun default_warning :: "canary_metric \<Rightarrow> pyfloat" where
  "default_warning P99_Shift = Fin 10"
| "default_warning Error_Rate = Fin 25"
| "default_warning Slo_Burn = Fin 1"
| "default_warning Ks = to_float (12 / 100)"
| "default_warning Wasserstein = to_float (2 / 10)"
| "default_warning Anomaly_Score = to_float (2 / 10)"

fun default_rollback :: "canary_metric \<Rightarrow> pyfloat" where
  "default_rollback P99_Shift = Fin 35"
| "default_rollback Error_Rate = Fin 100"
| "default_rollback Slo_Burn = Fin 4"
| "default_rollback Ks = to_float (3 / 10)"
| "default_rollback Wasserstein = to_float (6 / 10)"
| "default_rollback Anomaly_Score = to_float (45 / 100)"

record canary_config =
  cc_target_percentile :: pyfloat
  cc_budget_percent :: pyfloat
  cc_min_latency_count :: int
  cc_error_event_name :: "string option"
  cc_thresholds :: canary_thresholds

definition CanaryAnalysisConfig :: "pyfloat \<Rightarrow> pyfloat \<Rightarrow> int \<Rightarrow> string option \<Rightarrow> canary_thresholds \<Rightarrow> canary_config result" where
  "CanaryAnalysisConfig target_percentile budget_percent min_latency_count error_event_name thresholds =
    raise_if (\<not> in_unit target_percentile) (ValueError ''target_percentile must be in the range (0, 1).'')
   (raise_if (f_le budget_percent (Fin 0)) (ValueError ''budget_percent must be > 0.'')
   (raise_if (min_latency_count < 1) (ValueError ''min_latency_count must be >= 1.'')
   (Inr \<lparr>cc_target_percentile = target_percentile, cc_budget_percent = budget_percent,
         cc_min_latency_count = min_latency_count, cc_error_event_name = error_event_name, cc_thresholds = thresholds\<rparr>)))"

section \<open>Metrics\<close>

definition percent_change :: "pyfloat \<Rightarrow> pyfloat \<Rightarrow> pyfloat result" where
  "percent_change baseline candidate =
    (if f_eq baseline (Fin 0) then Inr (if f_eq candidate (Fin 0) then Fin 0 else Fin 100)
     else rbind (f_div (f_sub candidate baseline) (f_abs baseline)) (\<lambda>r. Inr (f_mul r (Fin 100))))"

definition event_rate :: "int \<Rightarrow> int \<Rightarrow> pyfloat" where
  "event_rate n denominator = (if denominator \<le> 0 then Fin 0 else to_float (of_int n / of_int denominator))"

definition bounded_score :: "pyfloat \<Rightarrow> pyfloat \<Rightarrow> pyfloat \<Rightarrow> pyfloat result" where
  "bounded_score value warning rollback =
    (if f_le rollback warning \<or> f_le value warning then Inr (Fin 0)
     else rbind (f_div (f_sub value warning) (f_sub rollback warning)) (\<lambda>r. Inr (f_min (Fin 1) r)))"

definition anomaly_score :: "libm \<Rightarrow> stream \<Rightarrow> stream \<Rightarrow> pyfloat result" where
  "anomaly_score L s baseline = rbind (sketch_diff_init L s baseline) (\<lambda>d. Inr (ks_statistic (sd_cdf1 d) (sd_cdf2 d)))"

definition is_anomalous :: "libm \<Rightarrow> stream \<Rightarrow> stream \<Rightarrow> pyfloat \<Rightarrow> bool result" where
  "is_anomalous L s baseline sensitivity =
    raise_if (\<not> (f_lt (Fin 0) sensitivity \<and> f_le sensitivity (Fin 1))) (ValueError ''sensitivity must be in (0, 1]'')
   (rbind (anomaly_score L s baseline) (\<lambda>score. Inr (f_le sensitivity score)))"

text \<open>The three percentiles of a log.\<close>

record percentiles =
  pc_p50 :: pyfloat
  pc_p95 :: pyfloat
  pc_p99 :: pyfloat

definition percentiles_of :: "libm \<Rightarrow> stream \<Rightarrow> percentiles result" where
  "percentiles_of L s =
    rbind (st_percentile L s (to_float (50 / 100))) (\<lambda>a. rbind (st_percentile L s (to_float (95 / 100))) (\<lambda>b.
    rbind (st_percentile L s (to_float (99 / 100))) (\<lambda>c. Inr \<lparr>pc_p50 = a, pc_p95 = b, pc_p99 = c\<rparr>)))"

record error_events =
  ev_count :: int
  ev_rate :: pyfloat

definition error_events_of :: "string option \<Rightarrow> stream \<Rightarrow> error_events result" where
  "error_events_of name s = (case name of
     Some n \<Rightarrow> if n = [] then Inr \<lparr>ev_count = 0, ev_rate = Fin 0\<rparr>
       else rbind (st_event_count s (KStr n)) (\<lambda>c.
         Inr \<lparr>ev_count = c, ev_rate = event_rate c (max (st_total_events s) (st_latency_count s))\<rparr>)
   | None \<Rightarrow> Inr \<lparr>ev_count = 0, ev_rate = Fin 0\<rparr>)"

section \<open>The analysis\<close>

text \<open>The metrics in the order in which they are judged; the error rate only with an error event.\<close>

definition judged_metrics :: "canary_config \<Rightarrow> canary_metric list" where
  "judged_metrics cfg = [P99_Shift, Ks, Wasserstein, Slo_Burn, Anomaly_Score] @
     (if opt_truth (cc_error_event_name cfg) then [Error_Rate] else [])"

definition verdict_of :: "canary_thresholds \<Rightarrow> (canary_metric \<Rightarrow> pyfloat) \<Rightarrow> canary_metric \<Rightarrow> canary_verdict" where
  "verdict_of t value k = metric_verdict (value k) (ct_warning t k) (ct_rollback t k)"

datatype reason = Exceeded canary_metric pyfloat | Within_Guardrails

fun judge :: "canary_thresholds \<Rightarrow> (canary_metric \<Rightarrow> pyfloat) \<Rightarrow> canary_metric list \<Rightarrow>
    canary_verdict \<times> reason list \<Rightarrow> canary_verdict \<times> reason list" where
  "judge t value [] acc = acc"
| "judge t value (k # ks) (verdict, reasons) = judge t value ks
     (if verdict_of t value k \<noteq> SAFE then (worst_verdict verdict (verdict_of t value k), reasons @ [Exceeded k (value k)])
      else (verdict, reasons))"

fun max_score :: "pyfloat list \<Rightarrow> pyfloat" where
  "max_score (x # xs) = foldl f_max x xs"
| "max_score [] = Fin 0"

record canary_report =
  cr_verdict :: canary_verdict
  cr_confidence :: pyfloat
  cr_reasons :: "reason list"
  cr_baseline :: percentiles
  cr_candidate :: percentiles
  cr_p50_shift :: pyfloat
  cr_p95_shift :: pyfloat
  cr_p99_shift :: pyfloat
  cr_baseline_count :: int
  cr_candidate_count :: int
  cr_baseline_errors :: error_events
  cr_candidate_errors :: error_events
  cr_error_rate_increase :: pyfloat
  cr_ks :: pyfloat
  cr_wasserstein :: pyfloat
  cr_wasserstein_ratio :: pyfloat
  cr_target_latency :: pyfloat
  cr_baseline_burn :: pyfloat
  cr_candidate_burn :: pyfloat
  cr_burn_increase :: pyfloat
  cr_anomaly :: pyfloat
  cr_config :: canary_config

definition metric_values :: "pyfloat \<Rightarrow> pyfloat \<Rightarrow> pyfloat \<Rightarrow> pyfloat \<Rightarrow> pyfloat \<Rightarrow> pyfloat \<Rightarrow> canary_metric \<Rightarrow> pyfloat" where
  "metric_values p99 err burn ks ratio anomaly k = (case k of P99_Shift \<Rightarrow> p99 | Error_Rate \<Rightarrow> err | Slo_Burn \<Rightarrow> burn
     | Ks \<Rightarrow> ks | Wasserstein \<Rightarrow> ratio | Anomaly_Score \<Rightarrow> anomaly)"

definition report_value :: "canary_report \<Rightarrow> canary_metric \<Rightarrow> pyfloat" where
  "report_value r = metric_values (cr_p99_shift r) (cr_error_rate_increase r) (cr_burn_increase r) (cr_ks r)
     (cr_wasserstein_ratio r) (cr_anomaly r)"

text \<open>What is measured, in the order of the source.\<close>

definition measure_canary :: "libm \<Rightarrow> canary_config \<Rightarrow> stream \<Rightarrow> stream \<Rightarrow> canary_report result" where
  "measure_canary L cfg baseline candidate =
    rbind (percentiles_of L baseline) (\<lambda>bp. rbind (percentiles_of L candidate) (\<lambda>cp.
    rbind (percent_change (pc_p50 bp) (pc_p50 cp)) (\<lambda>s50. rbind (percent_change (pc_p95 bp) (pc_p95 cp)) (\<lambda>s95.
    rbind (percent_change (pc_p99 bp) (pc_p99 cp)) (\<lambda>s99.
    rbind (sketch_diff_init L baseline candidate) (\<lambda>diff.
    let ks = ks_statistic (sd_cdf1 diff) (sd_cdf2 diff); w = wasserstein_distance (sd_cdf1 diff) (sd_cdf2 diff) in
    rbind (f_div w (f_max (f_abs (pc_p99 bp)) (Fin 1))) (\<lambda>ratio.
    rbind (anomaly_score L candidate baseline) (\<lambda>anomaly.
    rbind (slo_evaluate L baseline baseline (cc_target_percentile cfg) (cc_budget_percent cfg)) (\<lambda>bslo.
    rbind (slo_evaluate L candidate baseline (cc_target_percentile cfg) (cc_budget_percent cfg)) (\<lambda>cslo.
    rbind (error_events_of (cc_error_event_name cfg) baseline) (\<lambda>be.
    rbind (error_events_of (cc_error_event_name cfg) candidate) (\<lambda>ce.
    rbind (if opt_truth (cc_error_event_name cfg) then percent_change (ev_rate be) (ev_rate ce) else Inr (Fin 0)) (\<lambda>err.
    Inr \<lparr>cr_verdict = SAFE, cr_confidence = Fin 0, cr_reasons = [], cr_baseline = bp, cr_candidate = cp,
         cr_p50_shift = s50, cr_p95_shift = s95, cr_p99_shift = s99,
         cr_baseline_count = st_latency_count baseline, cr_candidate_count = st_latency_count candidate,
         cr_baseline_errors = be, cr_candidate_errors = ce, cr_error_rate_increase = err,
         cr_ks = ks, cr_wasserstein = w, cr_wasserstein_ratio = ratio, cr_target_latency = slo_target_latency cslo,
         cr_baseline_burn = slo_burn_rate bslo, cr_candidate_burn = slo_burn_rate cslo,
         cr_burn_increase = f_max (Fin 0) (f_sub (slo_burn_rate cslo) (slo_burn_rate bslo)),
         cr_anomaly = anomaly, cr_config = cfg\<rparr>)))))))))))))"

definition judge_report :: "canary_report \<Rightarrow> canary_report result" where
  "judge_report r = (let t = cc_thresholds (cr_config r); ks = judged_metrics (cr_config r) in
     case judge t (report_value r) ks (SAFE, []) of (verdict, reasons) \<Rightarrow>
     rbind (rmap (\<lambda>k. bounded_score (report_value r k) (ct_warning t k) (ct_rollback t k)) ks) (\<lambda>scores.
     Inr (r\<lparr>cr_verdict := verdict, cr_confidence := max_score scores,
            cr_reasons := (if reasons = [] then [Within_Guardrails] else reasons)\<rparr>)))"

definition canary_analyze :: "libm \<Rightarrow> canary_config \<Rightarrow> stream \<Rightarrow> stream \<Rightarrow> canary_report result" where
  "canary_analyze L cfg baseline candidate =
    raise_if (st_latency_count baseline < cc_min_latency_count cfg)
      (ValueError ''Baseline stream does not have enough latency data for canary analysis.'')
   (raise_if (st_latency_count candidate < cc_min_latency_count cfg)
      (ValueError ''Candidate stream does not have enough latency data for canary analysis.'')
   (rbind (measure_canary L cfg baseline candidate) judge_report))"

section \<open>Verdict and confidence\<close>

lemma worst_verdict_max: "worst_verdict a b = max a b"
  by (cases a; cases b) (simp_all add: worst_verdict_def max_def less_eq_canary_verdict_def)

lemma SAFE_least [simp]: "SAFE \<le> v" by (simp add: less_eq_canary_verdict_def)

lemma verdict_le_SAFE [simp]: "v \<le> SAFE \<longleftrightarrow> v = SAFE" by (cases v) (simp_all add: less_eq_canary_verdict_def)

lemma judge_eq:
  "judge t value ks (v, rs) =
    (fold max (map (verdict_of t value) ks) v,
     rs @ map (\<lambda>k. Exceeded k (value k)) (filter (\<lambda>k. verdict_of t value k \<noteq> SAFE) ks))"
proof (induction ks arbitrary: v rs)
  case Nil
  then show ?case by simp
next
  case (Cons k ks)
  have "max SAFE v = v" "max v SAFE = v" by (simp_all add: max_def)
  with Cons show ?case by (simp add: worst_verdict_max max.commute)
qed

lemma fold_max_verdict: "fold max vs (v::canary_verdict) = Max (insert v (set vs))"
  using Max.set_eq_fold [of v vs] by simp

lemma valid_thresholds:
  assumes "CanaryThresholds w r = Inr t"
  shows "ct_warning t k = w k \<and> ct_rollback t k = r k \<and> \<not> f_lt (w k) (Fin 0) \<and> \<not> f_lt (r k) (Fin 0) \<and> \<not> f_lt (r k) (w k)"
proof -
  have t: "t = \<lparr>ct_warning = w, ct_rollback = r\<rparr>"
    and c: "\<forall>k \<in> set threshold_metrics. \<exists>y. check_thresholds t k = Inr y"
    using assms by (auto simp: CanaryThresholds_def Let_def rbind_eq_Inr rmap_eq_Inr list_all2_conv_all_nth in_set_conv_nth)
  have "k \<in> set threshold_metrics" by (cases k) (simp_all add: threshold_metrics_def)
  with c show ?thesis by (auto simp: check_thresholds_def raise_if_eq_Inr t)
qed

text \<open>The score of a metric is a number between 0 and 1, and 1 from the rollback threshold on.\<close>

text \<open>Floats that are not below zero.\<close>

definition fnonneg :: "pyfloat \<Rightarrow> bool" where
  "fnonneg x \<longleftrightarrow> x = NaN \<or> x = PInf \<or> (\<exists>q \<ge> 0. x = Fin q)"

lemma to_float_fnonneg: "0 \<le> q \<Longrightarrow> fnonneg (to_float q)"
  using rnd_nonneg [of q] by (auto simp: to_float_def fnonneg_def Let_def)

lemma f_sub_nonneg: "\<not> f_le x y \<Longrightarrow> fnonneg (f_sub x y)"
  by (cases x; cases y) (auto simp: f_sub_def fnonneg_def f_le_def intro!: to_float_fnonneg [unfolded fnonneg_def])

lemma f_div_nonneg: "fnonneg x \<Longrightarrow> fnonneg y \<Longrightarrow> f_div x y = Inr z \<Longrightarrow> fnonneg z"
  by (cases x; cases y) (auto simp: fnonneg_def split: if_splits intro!: to_float_fnonneg [unfolded fnonneg_def])

lemma f_min_one: "fnonneg z \<Longrightarrow> \<exists>q. f_min (Fin 1) z = Fin q \<and> 0 \<le> q \<and> q \<le> 1"
  by (auto simp: fnonneg_def f_min_def)

text \<open>The score of a metric is a number between 0 and 1, and 1 from the rollback threshold on.\<close>

lemma bounded_score_unit:
  assumes "bounded_score v w r = Inr x" shows "\<exists>q. x = Fin q \<and> 0 \<le> q \<and> q \<le> 1"
proof (cases "f_le r w \<or> f_le v w")
  case True
  then show ?thesis using assms by (auto simp: bounded_score_def)
next
  case False
  then obtain z where z: "f_div (f_sub v w) (f_sub r w) = Inr z" "x = f_min (Fin 1) z"
    using assms by (auto simp: bounded_score_def rbind_eq_Inr)
  then show ?thesis using f_min_one [OF f_div_nonneg [OF f_sub_nonneg f_sub_nonneg z(1)]] False by auto
qed

lemma bounded_score_one:
  assumes b: "bounded_score v (Fin w) (Fin r) = Inr x" and w: "w < r" and v: "f_le (Fin r) v"
  shows "x = Fin 1"
proof -
  have n: "\<not> (f_le (Fin r) (Fin w) \<or> f_le v (Fin w))" using w v by (cases v) (auto simp: f_le_def)
  then obtain z where z: "f_div (f_sub v (Fin w)) (f_sub (Fin r) (Fin w)) = Inr z" "x = f_min (Fin 1) z"
    using b by (auto simp: bounded_score_def rbind_eq_Inr)
  have "\<not> f_lt z (Fin 1)"
  proof (cases "f_sub (Fin r) (Fin w)")
    case (Fin d)
    then have d: "d = rnd (r - w)" by (auto simp: f_sub_def to_float_def Let_def split: if_splits)
    then have "0 < d" using z(1) Fin rnd_nonneg [of "r - w"] w by (cases "f_sub v (Fin w)") (auto split: if_splits)
    show ?thesis
    proof (cases "f_sub v (Fin w)")
      case c: (Fin c)
      then obtain u where u: "v = Fin u" "c = rnd (u - w)"
        by (cases v) (auto simp: f_sub_def to_float_def Let_def split: if_splits)
      then have "d \<le> c" using v d rnd_mono [of "r - w" "u - w"] by simp
      then have "1 \<le> rnd (c / d)" using \<open>0 < d\<close> rnd_mono [of 1 "c / d"] rnd_int [of 1] by simp
      then show ?thesis using z(1) Fin c \<open>0 < d\<close> by (auto simp: to_float_def Let_def split: if_splits)
    qed (use z(1) Fin \<open>0 < d\<close> f_sub_nonneg [of v "Fin w"] n in \<open>auto simp: fnonneg_def\<close>)
  next
    case PInf
    then have "2 ^ 1024 \<le> rnd (r - w)" by (auto simp: f_sub_def to_float_def Let_def split: if_splits)
    then have "2 ^ 1024 \<le> rnd (u - w)" if "v = Fin u" for u
      using v that rnd_mono [of "r - w" "u - w"] by simp
    then have "f_sub v (Fin w) = PInf"
      using v by (cases v) (auto simp: f_sub_def to_float_def f_le_def)
    then show ?thesis using z(1) PInf by auto
  qed (use z(1) f_sub_nonneg [of "Fin r" "Fin w"] n in \<open>auto simp: fnonneg_def\<close>)
  then show ?thesis by (simp add: z(2) f_min_def)
qed

lemma max_score_bounds:
  assumes "\<forall>x \<in> set xs. \<exists>q. x = Fin q \<and> 0 \<le> q \<and> q \<le> 1" "xs \<noteq> []"
  shows "(\<exists>q. max_score xs = Fin q \<and> 0 \<le> q \<and> q \<le> 1) \<and> (Fin 1 \<in> set xs \<longrightarrow> max_score xs = Fin 1)"
proof -
  have *: "(\<exists>q. foldl f_max x xs = Fin q \<and> 0 \<le> q \<and> q \<le> 1) \<and> (Fin 1 \<in> set (x # xs) \<longrightarrow> foldl f_max x xs = Fin 1)"
    if "\<forall>x \<in> set (x # xs). \<exists>q. x = Fin q \<and> 0 \<le> q \<and> q \<le> 1" for x xs
    using that
  proof (induction xs arbitrary: x)
    case (Cons y xs)
    obtain p q where pq: "x = Fin p" "0 \<le> p" "p \<le> 1" "y = Fin q" "0 \<le> q" "q \<le> 1" using Cons.prems by auto
    have m: "f_max x y = Fin (max p q)" using pq by (simp add: f_max_def max_def)
    have "foldl f_max x (y # xs) = foldl f_max (f_max x y) xs" by simp
    moreover have "Fin 1 \<in> set (x # y # xs) \<longrightarrow> Fin 1 \<in> set (f_max x y # xs)" using pq m by (auto simp: max_def)
    ultimately show ?case using Cons.IH [of "f_max x y"] Cons.prems pq m by auto
  qed auto
  show ?thesis using assms * by (cases xs) simp_all
qed

lemma report_of:
  assumes "canary_analyze L cfg b c = Inr rep"
  obtains scores where "cr_config rep = cfg"
    "cr_verdict rep = fold max (map (verdict_of (cc_thresholds cfg) (report_value rep)) (judged_metrics cfg)) SAFE"
    "cr_reasons rep = (let rs = map (\<lambda>k. Exceeded k (report_value rep k))
        (filter (\<lambda>k. verdict_of (cc_thresholds cfg) (report_value rep) k \<noteq> SAFE) (judged_metrics cfg)) in if rs = [] then [Within_Guardrails] else rs)"
    "list_all2 (\<lambda>k x. bounded_score (report_value rep k) (ct_warning (cc_thresholds cfg) k) (ct_rollback (cc_thresholds cfg) k) = Inr x) (judged_metrics cfg) scores"
    "cr_confidence rep = max_score scores"
proof -
  obtain r where m: "measure_canary L cfg b c = Inr r" and j: "judge_report r = Inr rep"
    using assms by (auto simp: canary_analyze_def res_simps)
  have c: "cr_config r = cfg" using m unfolding measure_canary_def Let_def by (auto simp: rbind_eq_Inr)
  obtain scores where sc: "rmap (\<lambda>k. bounded_score (report_value r k) (ct_warning (cc_thresholds cfg) k) (ct_rollback (cc_thresholds cfg) k)) (judged_metrics cfg) = Inr scores"
    and rep: "rep = r\<lparr>cr_verdict := fold max (map (verdict_of (cc_thresholds cfg) (report_value r)) (judged_metrics cfg)) SAFE,
      cr_confidence := max_score scores, cr_reasons := (let rs = map (\<lambda>k. Exceeded k (report_value r k))
        (filter (\<lambda>k. verdict_of (cc_thresholds cfg) (report_value r) k \<noteq> SAFE) (judged_metrics cfg)) in if rs = [] then [Within_Guardrails] else rs)\<rparr>"
    using j by (auto simp: judge_report_def judge_eq Let_def c rbind_eq_Inr)
  have v: "report_value rep = report_value r" by (simp add: rep report_value_def)
  show thesis unfolding v
  proof (rule that [of scores, unfolded v])
    show "cr_config rep = cfg" by (simp add: rep c)
  qed (use sc in \<open>simp_all add: rep rmap_eq_Inr\<close>)
qed

lemma max_verdict_rollback:
  "finite V \<Longrightarrow> Max (insert SAFE V) = ROLLBACK_RECOMMENDED \<longleftrightarrow> ROLLBACK_RECOMMENDED \<in> V"
proof -
  assume f: "finite V"
  have top: "v \<le> ROLLBACK_RECOMMENDED" for v by (cases v) (simp_all add: less_eq_canary_verdict_def)
  show ?thesis using Max_in [of "insert SAFE V"] Max_eqI [of "insert SAFE V" ROLLBACK_RECOMMENDED] f top by auto
qed

lemma max_verdict_safe: "finite V \<Longrightarrow> Max (insert SAFE V) = SAFE \<longleftrightarrow> V \<subseteq> {SAFE}"
  using Max_le_iff [of "insert SAFE V" SAFE] by auto

text \<open>The default configuration with given thresholds.\<close>

definition demo_canary_config :: "canary_thresholds \<Rightarrow> canary_config" where
  "demo_canary_config t = \<lparr>cc_target_percentile = to_float (995 / 1000), cc_budget_percent = to_float (5 / 1000),
     cc_min_latency_count = 1, cc_error_event_name = None, cc_thresholds = t\<rparr>"

text \<open>The analysis of the default configuration returns when its measurements do.\<close>

lemma f_div_defined: "y \<noteq> Fin 0 \<Longrightarrow> \<exists>z. f_div x y = Inr z"
  by (cases x; cases y) auto

lemma percent_change_defined: "\<exists>x. percent_change a b = Inr x"
proof -
  have "f_eq a (Fin 0)" if "f_abs a = Fin 0" using that by (cases a) auto
  then show ?thesis using f_div_defined [of "f_abs a" "f_sub b a"] by (auto simp: percent_change_def rbind_eq_Inr)
qed

lemma measure_canary_defined:
  assumes "percentiles_of L b = Inr bp" "percentiles_of L c = Inr cp" "is_ok (sketch_diff_init L b c)"
    "is_ok (sketch_diff_init L c b)" "is_ok (slo_evaluate L b b (cc_target_percentile cfg) (cc_budget_percent cfg))"
    "is_ok (slo_evaluate L c b (cc_target_percentile cfg) (cc_budget_percent cfg))" "cc_error_event_name cfg = None"
  shows "\<exists>r. measure_canary L cfg b c = Inr r \<and> cr_config r = cfg \<and> percent_change (pc_p99 bp) (pc_p99 cp) = Inr (cr_p99_shift r)"
proof -
  have "f_max (f_abs (pc_p99 bp)) (Fin 1) \<noteq> Fin 0" by (cases "pc_p99 bp") (auto simp: f_max_def)
  from f_div_defined [OF this]
  obtain z where "f_div w (f_max (f_abs (pc_p99 bp)) (Fin 1)) = Inr (z w)" for w by metis
  moreover obtain s where "percent_change x y = Inr (s x y)" for x y using percent_change_defined by metis
  ultimately show ?thesis using assms unfolding measure_canary_def is_ok_iff Let_def
    by (auto simp: anomaly_score_def error_events_of_def)
qed

lemma default_thresholds_ok: "is_ok (CanaryThresholds default_warning default_rollback)"
  by code_simp

lemma default_not_nan: "\<forall>k. default_warning k \<noteq> NaN \<and> default_rollback k \<noteq> NaN"
proof
  fix k show "default_warning k \<noteq> NaN \<and> default_rollback k \<noteq> NaN" by (cases k) (simp_all add: to_float_def Let_def)
qed

lemma default_spread: "f_sub (default_rollback k) (default_warning k) \<noteq> Fin 0"
proof (cases k)
  case Ks then show ?thesis by (simp only:) code_simp
next
  case Wasserstein then show ?thesis by (simp only:) code_simp
next
  case Anomaly_Score then show ?thesis by (simp only:) code_simp
next
  case P99_Shift then show ?thesis by (simp only:) code_simp
next
  case Error_Rate then show ?thesis by (simp only:) code_simp
next
  case Slo_Burn then show ?thesis by (simp only:) code_simp
qed

lemma judge_report_defined:
  assumes "CanaryThresholds default_warning default_rollback = Inr t" "cc_thresholds (cr_config r) = t"
  shows "\<exists>rep. judge_report r = Inr rep"
proof -
  have t: "ct_warning t = default_warning" "ct_rollback t = default_rollback" using valid_thresholds [OF assms(1)] by auto
  have "\<exists>y. bounded_score v (default_warning k) (default_rollback k) = Inr y" for v k
    using f_div_defined [OF default_spread [of k]] by (auto simp: bounded_score_def rbind_eq_Inr)
  then obtain f where f: "bounded_score v (default_warning k) (default_rollback k) = Inr (f v k)" for v k by metis
  have "rmap (\<lambda>k. Inr (g k)) ks = Inr (map g ks)" for g :: "canary_metric \<Rightarrow> pyfloat" and ks by (induction ks) simp_all
  then show ?thesis unfolding judge_report_def assms(2) t f Let_def judge_eq by simp
qed



end
