(* ===== verification/Storage.thy ===== *)
theory Storage
  imports Shared_Log Serial_Laws Json_Text
begin

text \<open>
  Durable storage of logs (\<^verbatim>\<open>storage.py\<close>): the compressed JSON payload, the two tables behind
  \<^verbatim>\<open>SQLAlchemyStorage\<close> with its statements, and the contract of \<^verbatim>\<open>StorageBackend\<close> as a locale.
  A table is a dictionary from its primary key to the other columns.  Compression and the JSON reader
  are parameters (a codec); a log is \<^emph>\<open>storable\<close> when its payload is within the limit and the codec
  gives back what was written.
\<close>

section \<open>Payloads\<close>

definition MAX_SERIALIZED_STATE_BYTES :: int where
  "MAX_SERIALIZED_STATE_BYTES = 32 * 1024 * 1024"

text \<open>What \<^verbatim>\<open>zlib.decompressobj\<close> leaves after one bounded call and the flush.\<close>

record decompressed =
  zo_out :: string
  zo_tail :: string
  zo_flush :: string
  zo_eof :: bool
  zo_unused :: string

record codec =
  cd_compress :: "string \<Rightarrow> string"
  cd_decompress :: "string \<Rightarrow> int \<Rightarrow> decompressed result"
  cd_loads :: "string \<Rightarrow> pyval result"

definition serialize_and_compress_stream :: "codec \<Rightarrow> shared_log \<Rightarrow> string result" where
  "serialize_and_compress_stream C s =
    (let json_bytes = json_text '', '' '': '' (ts_to_dict s) in
     raise_if (MAX_SERIALIZED_STATE_BYTES < int (length json_bytes)) (ValueError ''Serialized state exceeds the 32 MiB limit'')
    (Inr (cd_compress C json_bytes)))"

definition decompress_and_deserialize_stream :: "codec \<Rightarrow> string \<Rightarrow> pyval result" where
  "decompress_and_deserialize_stream C payload =
    raise_if (MAX_SERIALIZED_STATE_BYTES < int (length payload)) (ValueError ''Compressed state exceeds the 32 MiB limit'')
   (rbind (cd_decompress C payload (MAX_SERIALIZED_STATE_BYTES + 1)) (\<lambda>d.
    raise_if (MAX_SERIALIZED_STATE_BYTES < int (length (zo_out d)) \<or> zo_tail d \<noteq> [])
      (ValueError ''Decompressed state exceeds the 32 MiB limit'')
   (let json_bytes = zo_out d @ zo_flush d in
    raise_if (MAX_SERIALIZED_STATE_BYTES < int (length json_bytes)) (ValueError ''Decompressed state exceeds the 32 MiB limit'')
   (raise_if (\<not> zo_eof d \<or> zo_unused d \<noteq> []) (ValueError ''Compressed state is truncated or has trailing data'')
   (cd_loads C json_bytes)))))"

section \<open>Tables\<close>

record sketch_state =
  sr_payload :: string
  sr_updated :: pyfloat

record sql_db =
  db_streams :: "(string \<times> string, sketch_state) dict"
  db_tombstones :: "(string \<times> string, pyfloat) dict"

text \<open>Selecting a row, then adding it or updating it if the new state is newer, then committing.\<close>

definition sql_write :: "string \<Rightarrow> string \<Rightarrow> string \<Rightarrow> pyfloat \<Rightarrow> sql_db \<Rightarrow> sql_db" where
  "sql_write ns sid payload updated db =
    (let row = \<lparr>sr_payload = payload, sr_updated = updated\<rparr> in
     case map_of (db_streams db) (ns, sid) of
       None \<Rightarrow> db\<lparr>db_streams := AList.update (ns, sid) row (db_streams db)\<rparr>
     | Some old \<Rightarrow> if f_lt (sr_updated old) updated then db\<lparr>db_streams := AList.update (ns, sid) row (db_streams db)\<rparr> else db)"

text \<open>
  Saving serializes the log in a worker thread and reads its time of update only when the thread has
  finished: \<open>seen\<close> is the log that was serialized, \<open>s\<close> the log when its time is read.
\<close>

definition sql_save_seen :: "codec \<Rightarrow> shared_log \<Rightarrow> string \<Rightarrow> string \<Rightarrow> shared_log \<Rightarrow> sql_db \<Rightarrow> sql_db result" where
  "sql_save_seen C seen ns sid s db =
    rbind (serialize_and_compress_stream C seen) (\<lambda>payload. Inr (sql_write ns sid payload (ts_updated s) db))"

definition sql_save :: "codec \<Rightarrow> string \<Rightarrow> string \<Rightarrow> shared_log \<Rightarrow> sql_db \<Rightarrow> sql_db result" where
  "sql_save C ns sid s db = sql_save_seen C s ns sid s db"

text \<open>An unreadable row is reported and treated as absent.\<close>

definition sql_load :: "libm \<Rightarrow> codec \<Rightarrow> string \<Rightarrow> string \<Rightarrow> sql_db \<Rightarrow> shared_log option" where
  "sql_load L C ns sid db = (case map_of (db_streams db) (ns, sid) of
     None \<Rightarrow> None
   | Some row \<Rightarrow> (case rbind (decompress_and_deserialize_stream C (sr_payload row)) (st_from_dict L) of
       Inl _ \<Rightarrow> None
     | Inr lg \<Rightarrow> Some \<lparr>ts_log = lg, ts_updated = sr_updated row\<rparr>))"

definition sql_delete :: "string \<Rightarrow> string \<Rightarrow> sql_db \<Rightarrow> sql_db \<times> bool" where
  "sql_delete ns sid db = (db\<lparr>db_streams := AList.delete (ns, sid) (db_streams db)\<rparr>, dict_mem (ns, sid) (db_streams db))"

definition put_tombstone :: "string \<Rightarrow> string \<Rightarrow> pyfloat \<Rightarrow> sql_db \<Rightarrow> sql_db" where
  "put_tombstone node_id key version db = (case map_of (db_tombstones db) (node_id, key) of
     None \<Rightarrow> db\<lparr>db_tombstones := AList.update (node_id, key) version (db_tombstones db)\<rparr>
   | Some old \<Rightarrow> if f_lt old version then db\<lparr>db_tombstones := AList.update (node_id, key) version (db_tombstones db)\<rparr> else db)"

definition sql_save_tombstone :: "string \<Rightarrow> string \<Rightarrow> pyfloat \<Rightarrow> sql_db \<Rightarrow> sql_db" where
  "sql_save_tombstone node_id key version db = put_tombstone node_id key version db"

text \<open>Deletion and tombstone in one transaction.\<close>

definition sql_delete_with_tombstone :: "string \<Rightarrow> string \<Rightarrow> string \<Rightarrow> string \<Rightarrow> pyfloat \<Rightarrow> sql_db \<Rightarrow> sql_db \<times> bool" where
  "sql_delete_with_tombstone ns sid node_id key version db =
    (let deleted = dict_mem (ns, sid) (db_streams db);
         db' = (if deleted then db\<lparr>db_streams := AList.delete (ns, sid) (db_streams db)\<rparr> else db) in
     (put_tombstone node_id key version db', deleted))"

definition sql_load_tombstones :: "string \<Rightarrow> sql_db \<Rightarrow> (string, pyfloat) dict" where
  "sql_load_tombstones node_id db = map (\<lambda>((_, key), version). (key, version)) (filter (\<lambda>((n, _), _). n = node_id) (db_tombstones db))"

section \<open>The contract of a backend\<close>

text \<open>
  The operations that the stream registry calls.  They may raise.
\<close>

record 'd backend =
  be_save :: "string \<Rightarrow> string \<Rightarrow> shared_log \<Rightarrow> 'd \<Rightarrow> 'd result"
  be_load :: "string \<Rightarrow> string \<Rightarrow> 'd \<Rightarrow> shared_log option result"
  be_delete :: "string \<Rightarrow> string \<Rightarrow> 'd \<Rightarrow> ('d \<times> bool) result"

definition stored_log :: "'d backend \<Rightarrow> 'd \<Rightarrow> string \<times> string \<Rightarrow> shared_log option" where
  "stored_log B d k = (case be_load B (fst k) (snd k) d of Inr x \<Rightarrow> x | Inl _ \<Rightarrow> None)"

text \<open>
  Laws: saving a storable log that is newer than what is stored makes it the stored one, a log that is
  not newer is ignored, and other keys are not touched; deleting makes a key absent.  \<open>stamp\<close> is the
  time of update of what is stored under a key.
\<close>

locale storage_backend =
  fixes B :: "'d backend"
    and stamp :: "string \<Rightarrow> string \<Rightarrow> 'd \<Rightarrow> pyfloat option"
    and storable :: "shared_log \<Rightarrow> bool"
  assumes load_returns: "\<exists>x. be_load B ns sid d = Inr x"
    and load_stamp: "be_load B ns sid d = Inr (Some s) \<Longrightarrow> stamp ns sid d = Some (ts_updated s)"
    and save_newer: "be_save B ns sid s d = Inr d' \<Longrightarrow> storable s \<Longrightarrow>
      (case stamp ns sid d of None \<Rightarrow> True | Some t \<Rightarrow> f_lt t (ts_updated s)) \<Longrightarrow>
      be_load B ns sid d' = Inr (Some s)"
    and save_older: "be_save B ns sid s d = Inr d' \<Longrightarrow> be_load B ns sid d = Inr (Some x) \<Longrightarrow> f_le (ts_updated s) (ts_updated x) \<Longrightarrow> d' = d"
    and save_other: "be_save B ns sid s d = Inr d' \<Longrightarrow> (ns', sid') \<noteq> (ns, sid) \<Longrightarrow>
      be_load B ns' sid' d' = be_load B ns' sid' d \<and> stamp ns' sid' d' = stamp ns' sid' d"
    and delete_key: "be_delete B ns sid d = Inr (d', found) \<Longrightarrow>
      be_load B ns sid d' = Inr None \<and> stamp ns sid d' = None \<and> (found \<longleftrightarrow> stamp ns sid d \<noteq> None)"
    and delete_other: "be_delete B ns sid d = Inr (d', found) \<Longrightarrow> (ns', sid') \<noteq> (ns, sid) \<Longrightarrow>
      be_load B ns' sid' d' = be_load B ns' sid' d \<and> stamp ns' sid' d' = stamp ns' sid' d"
begin

lemma load_eq: "be_load B ns sid d = Inr (stored_log B d (ns, sid))"
  using load_returns [of ns sid d] by (auto simp: stored_log_def)

lemma stored_other:
  "be_save B ns sid s d = Inr d' \<Longrightarrow> k \<noteq> (ns, sid) \<Longrightarrow> stored_log B d' k = stored_log B d k"
  "be_delete B ns sid d = Inr (d', found) \<Longrightarrow> k \<noteq> (ns, sid) \<Longrightarrow> stored_log B d' k = stored_log B d k"
  using save_other [of ns sid s d d' "fst k" "snd k"] delete_other [of ns sid d d' found "fst k" "snd k"]
  by (simp_all add: stored_log_def)

lemma stored_delete: "be_delete B ns sid d = Inr (d', found) \<Longrightarrow> stored_log B d' (ns, sid) = None"
  using delete_key [of ns sid d d' found] by (simp add: stored_log_def)

text \<open>
  A log in memory is \<^emph>\<open>safe\<close> when the next save cannot lose it: nothing or something older is stored
  under its key, or the log itself.
\<close>

definition safe :: "'d \<Rightarrow> string \<times> string \<Rightarrow> shared_log \<Rightarrow> bool" where
  "safe d k s \<longleftrightarrow> ts_updated s \<noteq> NaN \<and> (case stamp (fst k) (snd k) d of
     None \<Rightarrow> storable s
   | Some t \<Rightarrow> f_lt t (ts_updated s) \<and> storable s \<or> f_le (ts_updated s) t \<and> stored_log B d k = Some s)"

definition clocked :: "'d \<Rightarrow> bool" where
  "clocked d \<longleftrightarrow> (\<forall>k s. stored_log B d k = Some s \<longrightarrow> ts_updated s \<noteq> NaN)"

lemma stored_safe: "clocked d \<Longrightarrow> stored_log B d k = Some s \<Longrightarrow> safe d k s"
proof -
  assume c: "clocked d" "stored_log B d k = Some s"
  have "stamp (fst k) (snd k) d = Some (ts_updated s)" using load_eq [of "fst k" "snd k" d] c(2) by (intro load_stamp) simp
  moreover have "f_le x x" if "x \<noteq> NaN" for x using that by (cases x) (simp_all add: f_le_def)
  moreover have "ts_updated s \<noteq> NaN" using c unfolding clocked_def by blast
  ultimately show ?thesis using c(2) by (simp add: safe_def)
qed

lemma save_safe:
  assumes "be_save B ns sid s d = Inr d'" "safe d (ns, sid) s"
  shows "stored_log B d' (ns, sid) = Some s"
proof (cases "stamp ns sid d")
  case None
  then show ?thesis using save_newer [OF assms(1)] assms(2) by (simp add: stored_log_def safe_def)
next
  case (Some t)
  show ?thesis
  proof (cases "f_lt t (ts_updated s) \<and> storable s")
    case True
    then show ?thesis using save_newer [OF assms(1)] Some by (simp add: stored_log_def)
  next
    case False
    then have st: "stored_log B d (ns, sid) = Some s" and nn: "ts_updated s \<noteq> NaN" using assms(2) Some by (auto simp: safe_def)
    have "f_le (ts_updated s) (ts_updated s)" using nn by (cases "ts_updated s") (simp_all add: f_le_def)
    then have "d' = d" using save_older [OF assms(1)] load_eq [of ns sid d] st by simp
    then show ?thesis using st by simp
  qed
qed

lemma safe_other:
  "be_save B ns sid s d = Inr d' \<Longrightarrow> k \<noteq> (ns, sid) \<Longrightarrow> safe d k x \<Longrightarrow> safe d' k x"
  "be_delete B ns sid d = Inr (d', found) \<Longrightarrow> k \<noteq> (ns, sid) \<Longrightarrow> safe d k x \<Longrightarrow> safe d' k x"
  using save_other [of ns sid s d d' "fst k" "snd k"] delete_other [of ns sid d d' found "fst k" "snd k"]
    stored_other(1) [of ns sid s d d' k] stored_other(2) [of ns sid d d' found k]
  unfolding safe_def by (auto split: option.splits)

lemma save_clocked:
  assumes "be_save B ns sid s d = Inr d'" "safe d (ns, sid) s" "clocked d" shows "clocked d'"
  unfolding clocked_def
proof (intro allI impI)
  fix k x assume x: "stored_log B d' k = Some x"
  show "ts_updated x \<noteq> NaN"
  proof (cases "k = (ns, sid)")
    case True
    then show ?thesis using x save_safe [OF assms(1,2)] assms(2) by (simp add: safe_def)
  next
    case False
    then show ?thesis using x stored_other(1) [OF assms(1)] assms(3) unfolding clocked_def by metis
  qed
qed

lemma delete_clocked: "be_delete B ns sid d = Inr (d', found) \<Longrightarrow> clocked d \<Longrightarrow> clocked d'"
  using stored_other(2) [of ns sid d d' found] stored_delete [of ns sid d d' found] unfolding clocked_def
  by (metis option.distinct(1))

end

section \<open>The SQL backend\<close>

definition sql_backend :: "libm \<Rightarrow> codec \<Rightarrow> sql_db backend" where
  "sql_backend L C = \<lparr>be_save = sql_save C, be_load = (\<lambda>ns sid db. Inr (sql_load L C ns sid db)),
     be_delete = (\<lambda>ns sid db. Inr (sql_delete ns sid db))\<rparr>"

definition sql_stamp :: "string \<Rightarrow> string \<Rightarrow> sql_db \<Rightarrow> pyfloat option" where
  "sql_stamp ns sid db = map_option sr_updated (map_of (db_streams db) (ns, sid))"

definition sql_storable :: "libm \<Rightarrow> codec \<Rightarrow> shared_log \<Rightarrow> bool" where
  "sql_storable L C s \<longleftrightarrow> (case serialize_and_compress_stream C s of
     Inl _ \<Rightarrow> False
   | Inr p \<Rightarrow> rbind (decompress_and_deserialize_stream C p) (st_from_dict L) = Inr (ts_log s))"

lemma sql_load_write:
  "sql_load L C ns' sid' (sql_write ns sid p t db) = (if (ns', sid') = (ns, sid) \<and>
     (case sql_stamp ns sid db of None \<Rightarrow> True | Some u \<Rightarrow> f_lt u t)
     then (case rbind (decompress_and_deserialize_stream C p) (st_from_dict L) of
       Inl _ \<Rightarrow> None | Inr lg \<Rightarrow> Some \<lparr>ts_log = lg, ts_updated = t\<rparr>)
     else sql_load L C ns' sid' db)"
  by (auto simp: sql_load_def sql_write_def sql_stamp_def Let_def update_conv' split: option.splits sum.splits)

lemma sql_stamp_write:
  "(ns', sid') \<noteq> (ns, sid) \<Longrightarrow> sql_stamp ns' sid' (sql_write ns sid p t db) = sql_stamp ns' sid' db"
  by (auto simp: sql_write_def sql_stamp_def Let_def update_conv' split: option.splits)

interpretation sql: storage_backend "sql_backend L C" sql_stamp "sql_storable L C"
proof
  fix ns sid ns' sid' :: string and d d' :: sql_db and s x :: shared_log and found :: bool
  show "\<exists>x. be_load (sql_backend L C) ns sid d = Inr x" by (simp add: sql_backend_def)
  show "be_load (sql_backend L C) ns sid d = Inr (Some s) \<Longrightarrow> sql_stamp ns sid d = Some (ts_updated s)"
    by (auto simp: sql_backend_def sql_load_def sql_stamp_def split: option.splits sum.splits)
  show "be_load (sql_backend L C) ns sid d' = Inr (Some s)"
    if "be_save (sql_backend L C) ns sid s d = Inr d'" "sql_storable L C s"
      "case sql_stamp ns sid d of None \<Rightarrow> True | Some t \<Rightarrow> f_lt t (ts_updated s)"
    using that by (auto simp: sql_backend_def sql_save_def sql_save_seen_def sql_storable_def rbind_eq_Inr sql_load_write)
  show "d' = d" if save: "be_save (sql_backend L C) ns sid s d = Inr d'" and ld: "be_load (sql_backend L C) ns sid d = Inr (Some x)"
    and old: "f_le (ts_updated s) (ts_updated x)"
  proof -
    obtain row where "map_of (db_streams d) (ns, sid) = Some row" "sr_updated row = ts_updated x"
      using ld by (auto simp: sql_backend_def sql_load_def split: option.splits sum.splits)
    moreover have "\<not> f_lt (ts_updated x) (ts_updated s)" using old by (cases "ts_updated x"; cases "ts_updated s") (auto simp: f_le_def)
    ultimately show ?thesis using save
      by (auto simp: sql_backend_def sql_save_def sql_save_seen_def rbind_eq_Inr sql_write_def Let_def)
  qed
  show "be_load (sql_backend L C) ns' sid' d' = be_load (sql_backend L C) ns' sid' d \<and> sql_stamp ns' sid' d' = sql_stamp ns' sid' d"
    if "be_save (sql_backend L C) ns sid s d = Inr d'" "(ns', sid') \<noteq> (ns, sid)"
    using that sql_stamp_write [OF that(2)]
    by (auto simp: sql_backend_def sql_save_def sql_save_seen_def rbind_eq_Inr sql_load_write)
  show "be_load (sql_backend L C) ns sid d' = Inr None \<and> sql_stamp ns sid d' = None \<and> (found \<longleftrightarrow> sql_stamp ns sid d \<noteq> None)"
    if "be_delete (sql_backend L C) ns sid d = Inr (d', found)"
    using that by (auto simp: sql_backend_def sql_delete_def sql_load_def sql_stamp_def dict_mem_def delete_conv')
  show "be_load (sql_backend L C) ns' sid' d' = be_load (sql_backend L C) ns' sid' d \<and> sql_stamp ns' sid' d' = sql_stamp ns' sid' d"
    if "be_delete (sql_backend L C) ns sid d = Inr (d', found)" "(ns', sid') \<noteq> (ns, sid)"
    using that by (auto simp: sql_backend_def sql_delete_def sql_load_def sql_stamp_def delete_conv')
qed

text \<open>
  Because the time of update is read after the log was serialized, a row can carry the time of a
  change that its payload does not contain; the next save of that very log is then ignored.
\<close>

lemma sql_save_stale:
  assumes "map_of (db_streams db) (ns, sid) = None" "sql_storable L C seen"
    and "sql_save_seen C seen ns sid s db = Inr db1" "sql_save C ns sid s db1 = Inr db2"
  shows "db2 = db1 \<and> sql_load L C ns sid db2 = Some \<lparr>ts_log = ts_log seen, ts_updated = ts_updated s\<rparr>"
proof -
  obtain p where p: "serialize_and_compress_stream C seen = Inr p" "db1 = sql_write ns sid p (ts_updated s) db"
    using assms(3) by (auto simp: sql_save_seen_def rbind_eq_Inr)
  have row: "map_of (db_streams db1) (ns, sid) = Some \<lparr>sr_payload = p, sr_updated = ts_updated s\<rparr>"
    using assms(1) by (simp add: p(2) sql_write_def Let_def update_conv')
  have "\<not> f_lt x x" for x by (cases x) simp_all
  then have "db2 = db1" using assms(4) row by (auto simp: sql_save_def sql_save_seen_def rbind_eq_Inr sql_write_def Let_def)
  then show ?thesis using assms(2) p(1) row by (simp add: sql_load_def sql_storable_def)
qed

section \<open>Tombstones\<close>

definition tombstone :: "string \<Rightarrow> string \<Rightarrow> sql_db \<Rightarrow> pyfloat option" where
  "tombstone node_id key db = map_of (db_tombstones db) (node_id, key)"

lemma load_tombstones_eq: "map_of (sql_load_tombstones node_id db) key = tombstone node_id key db"
proof -
  have "map_of (map (\<lambda>((_, key), version). (key, version)) (filter (\<lambda>((n, _), _). n = node_id) xs)) key = map_of xs (node_id, key)"
    for xs :: "(string \<times> string, pyfloat) dict"
    by (induction xs) auto
  then show ?thesis by (simp add: sql_load_tombstones_def tombstone_def)
qed

lemma tombstone_put:
  "tombstone n' k' (put_tombstone n k v db) = (if (n', k') = (n, k) \<and>
    (case tombstone n k db of None \<Rightarrow> True | Some old \<Rightarrow> f_lt old v) then Some v else tombstone n' k' db)"
  by (auto simp: tombstone_def put_tombstone_def update_conv' split: option.splits)

lemma put_tombstone_streams: "db_streams (put_tombstone n k v db) = db_streams db"
  by (simp add: put_tombstone_def split: option.splits)

text \<open>
  Deleting with a tombstone removes exactly the named row, reports whether there was one, raises
  the tombstone to the version unless it is already as high, never lowers any tombstone, and what is
  restored at the next start is the recorded tombstone.
\<close>

lemma delete_with_tombstone_sound:
  assumes "sql_delete_with_tombstone ns sid node_id key version db = (db', deleted)" "version \<noteq> NaN"
    "\<forall>(k, t) \<in> set (db_tombstones db). t \<noteq> NaN"
  shows "sql_stamp ns sid db' = None \<and> (deleted \<longleftrightarrow> sql_stamp ns sid db \<noteq> None)
    \<and> (\<forall>ns' sid'. (ns', sid') \<noteq> (ns, sid) \<longrightarrow> sql_load L C ns' sid' db' = sql_load L C ns' sid' db)
    \<and> (\<exists>t. map_of (sql_load_tombstones node_id db') key = Some t \<and> f_le version t)
    \<and> (\<forall>n k t. map_of (sql_load_tombstones n db) k = Some t \<longrightarrow>
         (\<exists>t'. map_of (sql_load_tombstones n db') k = Some t' \<and> f_le t t'))"
proof -
  let ?db = "if dict_mem (ns, sid) (db_streams db) then db\<lparr>db_streams := AList.delete (ns, sid) (db_streams db)\<rparr> else db"
  have db': "db' = put_tombstone node_id key version ?db" "deleted = dict_mem (ns, sid) (db_streams db)"
    using assms(1) by (auto simp: sql_delete_with_tombstone_def Let_def)
  have rows: "map_of (db_streams db') k = (if k = (ns, sid) then None else map_of (db_streams db) k)" for k
    by (auto simp: db' put_tombstone_streams dict_mem_def delete_conv')
  have tb: "tombstone n k ?db = tombstone n k db" for n k by (simp add: tombstone_def)
  have refl: "f_le x x" if "x \<noteq> NaN" for x using that by (cases x) (simp_all add: f_le_def)
  have tot: "f_lt x y \<or> f_le y x" "f_lt x y \<Longrightarrow> f_le x y" if "x \<noteq> NaN" "y \<noteq> NaN" for x y
    using that by (cases x; cases y; auto simp: f_le_def)+
  have nn: "t \<noteq> NaN" if "tombstone n k db = Some t" for n k t
    using that assms(3) map_of_SomeD [of "db_tombstones db" "(n, k)" t] by (auto simp: tombstone_def)
  have new: "\<exists>t. tombstone node_id key db' = Some t \<and> f_le version t"
    using refl [OF assms(2)] tot [of _ version] nn [of node_id key] assms(2)
    by (auto simp: db' tombstone_put tb split: option.splits)
  have old: "\<exists>t'. tombstone n k db' = Some t' \<and> f_le t t'" if "tombstone n k db = Some t" for n k t
    using that refl [OF nn [OF that]] tot(2) [OF nn [OF that] assms(2)] by (auto simp: db' tombstone_put tb)
  show ?thesis unfolding load_tombstones_eq using new old
    by (auto simp: sql_stamp_def sql_load_def rows db'(2) dict_mem_def)
qed

end
