(* ===== verification/Registry.thy ===== *)
theory Registry
  imports Storage StateResult
begin

text \<open>
  The registry of the server (\<^verbatim>\<open>StreamRegistry\<close> in \<^verbatim>\<open>server.py\<close>): the logs in memory by namespace and
  name, in the order of last use, with a cap per namespace and one in total; the least recently used
  log is saved to the backend and removed when a new one needs its place.  Logs are objects: the
  dictionaries hold references into a heap.  Saving, loading and deleting run on the backend, which may
  raise; each method is one step, and the two halves of an eviction are separate definitions.
\<close>

section \<open>State\<close>

record 'd stream_registry =
  rg_spaces :: "(string, (string, nat) dict) dict"
  rg_heap :: "shared_log list"
  rg_max_ns :: int
  rg_max :: int
  rg_storage :: "'d option"
  rg_active :: int
  rg_evictions :: int

definition StreamRegistry :: "int \<Rightarrow> 'd option \<Rightarrow> int \<Rightarrow> 'd stream_registry" where
  "StreamRegistry max_streams_per_namespace storage max_streams =
    \<lparr>rg_spaces = [], rg_heap = [], rg_max_ns = max_streams_per_namespace, rg_max = max_streams,
     rg_storage = storage, rg_active = 0, rg_evictions = 0\<rparr>"

definition count_locked :: "'d stream_registry \<Rightarrow> int" where
  "count_locked r = sum_list (map (\<lambda>(_, streams). int (length streams)) (rg_spaces r))"

text \<open>The streams of a namespace; a missing namespace is like an empty one.\<close>

definition space :: "'d stream_registry \<Rightarrow> string \<Rightarrow> (string, nat) dict" where
  "space r ns = (case map_of (rg_spaces r) ns of None \<Rightarrow> [] | Some d \<Rightarrow> d)"

definition rg_peek :: "'d stream_registry \<Rightarrow> string \<Rightarrow> string \<Rightarrow> nat option" where
  "rg_peek r ns sid = map_of (space r ns) sid"

definition move_to_end :: "'k \<Rightarrow> ('k, 'v) dict \<Rightarrow> ('k, 'v) dict" where
  "move_to_end k d = (case map_of d k of None \<Rightarrow> d | Some v \<Rightarrow> AList.delete k d @ [(k, v)])"

definition touch :: "string \<Rightarrow> string \<Rightarrow> 'd stream_registry \<Rightarrow> 'd stream_registry" where
  "touch ns sid r = r\<lparr>rg_spaces := AList.update ns (move_to_end sid (space r ns)) (rg_spaces r)\<rparr>"

definition drop_stream :: "string \<Rightarrow> string \<Rightarrow> 'd stream_registry \<Rightarrow> 'd stream_registry" where
  "drop_stream ns sid r = (let d = AList.delete sid (space r ns) in
     r\<lparr>rg_spaces := (if d = [] then AList.delete ns (rg_spaces r) else AList.update ns d (rg_spaces r))\<rparr>)"

definition set_active :: "'d stream_registry \<Rightarrow> 'd stream_registry" where
  "set_active r = r\<lparr>rg_active := count_locked r\<rparr>"

section \<open>Eviction\<close>

fun first_stream :: "(string, (string, nat) dict) dict \<Rightarrow> (string \<times> string \<times> nat) option" where
  "first_stream [] = None"
| "first_stream ((ns, []) # rest) = first_stream rest"
| "first_stream ((ns, (sid, ref) # _) # rest) = Some (ns, sid, ref)"

definition find_victim :: "string \<Rightarrow> 'd stream_registry \<Rightarrow> (string \<times> string \<times> nat) option" where
  "find_victim ns r =
    (if space r ns \<noteq> [] \<and> rg_max_ns r \<le> int (length (space r ns))
     then (case hd (space r ns) of (sid, ref) \<Rightarrow> Some (ns, sid, ref))
     else if rg_max r \<le> count_locked r then first_stream (rg_spaces r)
     else None)"

definition save_stream :: "'d backend \<Rightarrow> string \<Rightarrow> string \<Rightarrow> nat \<Rightarrow> ('d stream_registry, unit) step" where
  "save_stream B ns sid ref r = (case rg_storage r of
     None \<Rightarrow> (r, Inr ())
   | Some d \<Rightarrow> (case be_save B ns sid (rg_heap r ! ref) d of
       Inl e \<Rightarrow> (r, Inl e)
     | Inr d' \<Rightarrow> (r\<lparr>rg_storage := Some d'\<rparr>, Inr ())))"

definition remove_victim :: "string \<Rightarrow> string \<Rightarrow> nat \<Rightarrow> 'd stream_registry \<Rightarrow> 'd stream_registry" where
  "remove_victim ns sid ref r =
    (if rg_peek r ns sid \<noteq> Some ref then r
     else set_active ((drop_stream ns sid r)\<lparr>rg_evictions := rg_evictions r + 1\<rparr>))"

definition evict_if_needed :: "'d backend \<Rightarrow> string \<Rightarrow> ('d stream_registry, unit) step" where
  "evict_if_needed B ns r = (case find_victim ns r of
     None \<Rightarrow> (r, Inr ())
   | Some (vns, vid, ref) \<Rightarrow> sthen (save_stream B vns vid ref) (smodify (remove_victim vns vid ref)) r)"

section \<open>Access\<close>

definition load_stream :: "'d backend \<Rightarrow> string \<Rightarrow> string \<Rightarrow> ('d stream_registry, shared_log option) step" where
  "load_stream B ns sid r = (case rg_storage r of None \<Rightarrow> (r, Inr None) | Some d \<Rightarrow> (r, be_load B ns sid d))"

definition new_log :: "libm \<Rightarrow> bool \<Rightarrow> pyfloat \<Rightarrow> shared_log result" where
  "new_log L det now = ts_init L (to_float (1/100)) 10 2048 5 det now"

text \<open>\<^verbatim>\<open>self._namespaces[namespace]\<close> on a default dictionary creates the namespace.\<close>

definition ensure_space :: "string \<Rightarrow> 'd stream_registry \<Rightarrow> 'd stream_registry" where
  "ensure_space ns r = r\<lparr>rg_spaces := AList.update ns (space r ns) (rg_spaces r)\<rparr>"

definition insert_stream :: "string \<Rightarrow> string \<Rightarrow> shared_log \<Rightarrow> 'd stream_registry \<Rightarrow> 'd stream_registry" where
  "insert_stream ns sid s r = set_active (r\<lparr>rg_heap := rg_heap r @ [s],
     rg_spaces := AList.update ns (AList.update sid (length (rg_heap r)) (space r ns)) (rg_spaces r)\<rparr>)"

definition place_stream :: "string \<Rightarrow> string \<Rightarrow> shared_log result \<Rightarrow> ('d stream_registry, nat) step" where
  "place_stream ns sid made r = (let r = ensure_space ns r in
     case rg_peek r ns sid of
       Some ref \<Rightarrow> (touch ns sid r, Inr ref)
     | None \<Rightarrow> (case made of Inl e \<Rightarrow> (r, Inl e) | Inr s \<Rightarrow> (insert_stream ns sid s r, Inr (length (rg_heap r)))))"

definition get_or_create :: "'d backend \<Rightarrow> libm \<Rightarrow> bool \<Rightarrow> pyfloat \<Rightarrow> string \<Rightarrow> string \<Rightarrow> ('d stream_registry, nat) step" where
  "get_or_create B L det now ns sid r = (case rg_peek r ns sid of
     Some ref \<Rightarrow> (touch ns sid r, Inr ref)
   | None \<Rightarrow> sbind (load_stream B ns sid) (\<lambda>loaded. sthen (evict_if_needed B ns)
       (place_stream ns sid (case loaded of Some s \<Rightarrow> Inr s | None \<Rightarrow> new_log L det now))) r)"

definition adopt_stream :: "string \<Rightarrow> string \<Rightarrow> shared_log \<Rightarrow> ('d stream_registry, nat) step" where
  "adopt_stream ns sid s r = (let r = ensure_space ns r in
     case rg_peek r ns sid of
       Some ref \<Rightarrow> (r, Inr ref)
     | None \<Rightarrow> (insert_stream ns sid s r, Inr (length (rg_heap r))))"

definition rg_get :: "'d backend \<Rightarrow> string \<Rightarrow> string \<Rightarrow> ('d stream_registry, nat option) step" where
  "rg_get B ns sid r = (case rg_peek r ns sid of
     Some ref \<Rightarrow> (touch ns sid r, Inr (Some ref))
   | None \<Rightarrow> sbind (load_stream B ns sid) (\<lambda>loaded. case loaded of
       None \<Rightarrow> sret None
     | Some s \<Rightarrow> sthen (evict_if_needed B ns) (sbind (adopt_stream ns sid s) (\<lambda>ref. sret (Some ref)))) r)"

definition storage_delete :: "'d backend \<Rightarrow> string \<Rightarrow> string \<Rightarrow> ('d stream_registry, bool) step" where
  "storage_delete B ns sid r = (case rg_storage r of
     None \<Rightarrow> (r, Inr False)
   | Some d \<Rightarrow> (case be_delete B ns sid d of Inl e \<Rightarrow> (r, Inl e) | Inr (d', found) \<Rightarrow> (r\<lparr>rg_storage := Some d'\<rparr>, Inr found)))"

definition forget_stream :: "string \<Rightarrow> string \<Rightarrow> 'd stream_registry \<Rightarrow> 'd stream_registry" where
  "forget_stream ns sid r = (if rg_peek r ns sid = None then r else set_active (drop_stream ns sid r))"

definition rg_delete :: "'d backend \<Rightarrow> string \<Rightarrow> string \<Rightarrow> bool \<Rightarrow> ('d stream_registry, bool) step" where
  "rg_delete B ns sid delete_storage =
    sbind (if delete_storage then storage_delete B ns sid else sret False) (\<lambda>found.
    sbind (sget (\<lambda>r. rg_peek r ns sid \<noteq> None)) (\<lambda>present.
    sthen (smodify (forget_stream ns sid)) (sret (found \<or> present))))"

definition get_namespace :: "'d stream_registry \<Rightarrow> string \<Rightarrow> nat list" where
  "get_namespace r ns = map snd (space r ns)"

definition snapshot_items :: "'d stream_registry \<Rightarrow> (string \<times> string \<times> nat) list" where
  "snapshot_items r = concat (map (\<lambda>(ns, streams). map (\<lambda>(sid, ref). (ns, sid, ref)) streams) (rg_spaces r))"

text \<open>
  The flush of the background task and of the shutdown: every log is saved, and one that cannot be
  saved is only reported.
\<close>

definition flush_one :: "'d backend \<Rightarrow> string \<times> string \<times> nat \<Rightarrow> 'd stream_registry \<Rightarrow> 'd stream_registry" where
  "flush_one B item r = (case item of (ns, sid, ref) \<Rightarrow> fst (save_stream B ns sid ref r))"

definition flush_all :: "'d backend \<Rightarrow> 'd stream_registry \<Rightarrow> 'd stream_registry" where
  "flush_all B r = fold (flush_one B) (snapshot_items r) r"

end
