(* ===== verification/Registry_Laws.thy ===== *)
theory Registry_Laws
  imports Registry
begin

text \<open>
  The registry keeps its caps in every run, and with a backend that keeps its contract the streams
  behave as an unbounded map from keys to logs: what was evicted is found again.
\<close>

section \<open>Lookup and count\<close>

definition rg_ok :: "'d stream_registry \<Rightarrow> bool" where
  "rg_ok r \<longleftrightarrow> dict_ok (rg_spaces r) \<and> (\<forall>ns. dict_ok (space r ns))"

named_theorems rg_simps \<open>lookup after an operation of the registry\<close>

lemma space_update [rg_simps]:
  "space (r\<lparr>rg_spaces := AList.update ns d (rg_spaces r)\<rparr>) ns' = (if ns' = ns then d else space r ns')"
  by (simp add: space_def update_conv')

lemma space_delete [rg_simps]:
  "space (r\<lparr>rg_spaces := AList.delete ns (rg_spaces r)\<rparr>) ns' = (if ns' = ns then [] else space r ns')"
  by (simp add: space_def delete_conv')

lemma space_more [rg_simps]:
  "space (r\<lparr>rg_heap := h\<rparr>) = space r" "space (r\<lparr>rg_storage := x\<rparr>) = space r" "space (r\<lparr>rg_active := n\<rparr>) = space r"
  "space (r\<lparr>rg_evictions := n\<rparr>) = space r"
  by (simp_all add: space_def fun_eq_iff)

lemma count_more [rg_simps]:
  "count_locked (r\<lparr>rg_heap := h\<rparr>) = count_locked r" "count_locked (r\<lparr>rg_storage := x\<rparr>) = count_locked r"
  "count_locked (r\<lparr>rg_active := n\<rparr>) = count_locked r" "count_locked (r\<lparr>rg_evictions := n\<rparr>) = count_locked r"
  by (simp_all add: count_locked_def)

lemma count_update [rg_simps]:
  "count_locked (r\<lparr>rg_spaces := AList.update ns d (rg_spaces r)\<rparr>) = count_locked r - int (length (space r ns)) + int (length d)"
proof -
  have "sum_list (map (\<lambda>(_, d). int (length d)) (AList.update ns d xs)) =
      sum_list (map (\<lambda>(_, d). int (length d)) xs) - int (length (case map_of xs ns of None \<Rightarrow> [] | Some d \<Rightarrow> d)) + int (length d)" for xs :: "(string, (string, nat) dict) dict"
    by (induction xs) auto
  then show ?thesis by (simp add: count_locked_def space_def)
qed

lemma count_delete [rg_simps]:
  "dict_ok (rg_spaces r) \<Longrightarrow>
   count_locked (r\<lparr>rg_spaces := AList.delete ns (rg_spaces r)\<rparr>) = count_locked r - int (length (space r ns))"
proof -
  have "dict_ok xs \<Longrightarrow> sum_list (map (\<lambda>(_, d). int (length d)) (AList.delete ns xs)) =
      sum_list (map (\<lambda>(_, d). int (length d)) xs) - int (length (case map_of xs ns of None \<Rightarrow> [] | Some d \<Rightarrow> d))" for xs :: "(string, (string, nat) dict) dict"
  proof (induction xs)
    case (Cons p xs)
    have "AList.delete ns xs = xs" if "ns \<notin> fst ` set xs" using that by (simp add: delete_idem)
    moreover have "map_of xs ns = None" if "ns \<notin> fst ` set xs" using that by (simp add: map_of_eq_None_iff)
    ultimately show ?case using Cons by (cases p) auto
  qed simp
  then show "dict_ok (rg_spaces r) \<Longrightarrow> ?thesis" by (simp add: count_locked_def space_def)
qed

lemma length_delete: "dict_ok d \<Longrightarrow> map_of d k \<noteq> None \<Longrightarrow> length d = Suc (length (AList.delete k d))"
proof (induction d)
  case (Cons p d)
  show ?case
  proof (cases "fst p = k")
    case True
    then have "AList.delete k d = d" using Cons.prems(1) by (auto simp: delete_idem)
    then show ?thesis using True by simp
  next
    case False
    then show ?thesis using Cons by (cases p) auto
  qed
qed simp

lemma move_to_end_props:
  assumes "dict_ok d"
  shows "map_of (move_to_end k d) = map_of d" "dict_ok (move_to_end k d)" "length (move_to_end k d) = length d"
proof -
  show "map_of (move_to_end k d) = map_of d"
    by (auto simp: move_to_end_def fun_eq_iff map_add_def delete_conv' split: option.splits)
  show "dict_ok (move_to_end k d)"
    using assms by (auto simp: move_to_end_def delete_keys distinct_removeAll split: option.splits)
  show "length (move_to_end k d) = length d"
    using length_delete [OF assms, of k] by (auto simp: move_to_end_def split: option.splits)
qed

lemma rg_peek_more [rg_simps]:
  "rg_peek (r\<lparr>rg_heap := h\<rparr>) = rg_peek r" "rg_peek (r\<lparr>rg_storage := x\<rparr>) = rg_peek r" "rg_peek (r\<lparr>rg_active := n\<rparr>) = rg_peek r"
  "rg_peek (r\<lparr>rg_evictions := n\<rparr>) = rg_peek r" "rg_peek (set_active r) = rg_peek r"
  by (simp_all add: rg_peek_def [abs_def] space_more set_active_def)

lemma rg_ok_more [rg_simps]:
  "rg_ok (r\<lparr>rg_heap := h\<rparr>) = rg_ok r" "rg_ok (r\<lparr>rg_storage := x\<rparr>) = rg_ok r" "rg_ok (r\<lparr>rg_active := n\<rparr>) = rg_ok r"
  "rg_ok (r\<lparr>rg_evictions := n\<rparr>) = rg_ok r" "rg_ok (set_active r) = rg_ok r"
  by (simp_all add: rg_ok_def space_more set_active_def)

lemma set_active_more [rg_simps]:
  "space (set_active r) = space r" "count_locked (set_active r) = count_locked r" "rg_heap (set_active r) = rg_heap r"
  "rg_storage (set_active r) = rg_storage r" "rg_active (set_active r) = count_locked r"
  "rg_max_ns (set_active r) = rg_max_ns r" "rg_max (set_active r) = rg_max r"
  by (simp_all add: set_active_def rg_simps)

lemma rg_ok_update: "rg_ok r \<Longrightarrow> dict_ok d \<Longrightarrow> rg_ok (r\<lparr>rg_spaces := AList.update ns d (rg_spaces r)\<rparr>)"
  by (simp add: rg_ok_def space_update distinct_update)

lemma rg_ok_space: "rg_ok r \<Longrightarrow> dict_ok (space r ns)" by (simp add: rg_ok_def)

text \<open>Moving a stream to the end of its namespace changes no lookup.\<close>

lemma touch_props:
  assumes "rg_ok r"
  shows "rg_peek (touch ns sid r) = rg_peek r" "rg_ok (touch ns sid r)" "count_locked (touch ns sid r) = count_locked r"
    "length (space (touch ns sid r) ns') = length (space r ns')"
    "rg_heap (touch ns sid r) = rg_heap r" "rg_storage (touch ns sid r) = rg_storage r" "rg_active (touch ns sid r) = rg_active r"
    "rg_max_ns (touch ns sid r) = rg_max_ns r" "rg_max (touch ns sid r) = rg_max r"
  using rg_ok_update [OF assms] move_to_end_props [OF rg_ok_space [OF assms]]
  by (simp_all add: touch_def rg_peek_def fun_eq_iff rg_simps)

lemma ensure_space_props:
  assumes "rg_ok r"
  shows "rg_peek (ensure_space ns r) = rg_peek r" "rg_ok (ensure_space ns r)" "count_locked (ensure_space ns r) = count_locked r"
    "space (ensure_space ns r) = space r"
    "rg_heap (ensure_space ns r) = rg_heap r" "rg_storage (ensure_space ns r) = rg_storage r" "rg_active (ensure_space ns r) = rg_active r"
    "rg_max_ns (ensure_space ns r) = rg_max_ns r" "rg_max (ensure_space ns r) = rg_max r"
  using rg_ok_update [OF assms rg_ok_space [OF assms]]
  by (auto simp: ensure_space_def rg_peek_def fun_eq_iff rg_simps)

text \<open>Removing a stream.\<close>

lemma drop_stream_props:
  assumes "rg_ok r"
  shows "rg_peek (drop_stream ns sid r) ns' sid' = (if (ns', sid') = (ns, sid) then None else rg_peek r ns' sid')"
    "rg_ok (drop_stream ns sid r)"
    "rg_peek r ns sid \<noteq> None \<Longrightarrow> count_locked (drop_stream ns sid r) = count_locked r - 1"
    "space (drop_stream ns sid r) ns' = (if ns' = ns then AList.delete sid (space r ns) else space r ns')"
    "rg_heap (drop_stream ns sid r) = rg_heap r" "rg_storage (drop_stream ns sid r) = rg_storage r"
    "rg_active (drop_stream ns sid r) = rg_active r"
    "rg_max_ns (drop_stream ns sid r) = rg_max_ns r" "rg_max (drop_stream ns sid r) = rg_max r"
proof -
  show sp: "space (drop_stream ns sid r) ns' = (if ns' = ns then AList.delete sid (space r ns) else space r ns')" for ns'
    by (simp add: drop_stream_def Let_def rg_simps)
  show "rg_peek (drop_stream ns sid r) ns' sid' = (if (ns', sid') = (ns, sid) then None else rg_peek r ns' sid')"
    by (simp add: rg_peek_def sp delete_conv')
  show "rg_ok (drop_stream ns sid r)"
    using assms by (auto simp: rg_ok_def sp distinct_delete) (auto simp: drop_stream_def Let_def distinct_update distinct_delete)
  have "length (space r ns) = Suc (length (AList.delete sid (space r ns)))" if "rg_peek r ns sid \<noteq> None"
    using that length_delete [OF rg_ok_space [OF assms]] by (simp add: rg_peek_def)
  then show "count_locked (drop_stream ns sid r) = count_locked r - 1" if "rg_peek r ns sid \<noteq> None"
    using that assms by (auto simp: drop_stream_def Let_def rg_simps rg_ok_def)
qed (simp_all add: drop_stream_def Let_def)

section \<open>Eviction\<close>

lemma first_stream_mem: "first_stream xs = Some (ns, sid, ref) \<Longrightarrow> \<exists>d. (ns, (sid, ref) # d) \<in> set xs"
  by (induction xs rule: first_stream.induct) auto

lemma first_stream_None: "first_stream xs = None \<Longrightarrow> sum_list (map (\<lambda>(_, d). int (length d)) xs) = 0"
  by (induction xs rule: first_stream.induct) auto

lemma find_victim_peek:
  assumes "rg_ok r" "find_victim ns r = Some (vns, vid, ref)"
  shows "rg_peek r vns vid = Some ref \<and> (vns = ns \<or> \<not> (space r ns \<noteq> [] \<and> rg_max_ns r \<le> int (length (space r ns))))"
proof (cases "space r ns \<noteq> [] \<and> rg_max_ns r \<le> int (length (space r ns))")
  case True
  then have "vns = ns" "hd (space r ns) = (vid, ref)" using assms(2) by (auto simp: find_victim_def split: prod.splits)
  then show ?thesis using True by (cases "space r ns") (auto simp: rg_peek_def)
next
  case False
  then have "first_stream (rg_spaces r) = Some (vns, vid, ref)" using assms(2) by (auto simp: find_victim_def split: if_splits)
  then obtain d where "(vns, (vid, ref) # d) \<in> set (rg_spaces r)" using first_stream_mem by blast
  then have "space r vns = (vid, ref) # d" using assms(1) by (simp add: space_def rg_ok_def)
  then show ?thesis using False by (simp add: rg_peek_def)
qed

lemma save_stream_cases:
  obtains (ok) d where "save_stream B ns sid ref r = (r\<lparr>rg_storage := d\<rparr>, Inr ())"
    "rg_storage r = None \<and> d = None \<or> (\<exists>x y. rg_storage r = Some x \<and> be_save B ns sid (rg_heap r ! ref) x = Inr y \<and> d = Some y)"
  | (raised) e where "save_stream B ns sid ref r = (r, Inl e)"
proof (cases "rg_storage r")
  case None
  then have "r\<lparr>rg_storage := None\<rparr> = r" by simp
  then show ?thesis using None ok [of None] by (simp add: save_stream_def)
next
  case (Some x)
  then show ?thesis using ok raised by (cases "be_save B ns sid (rg_heap r ! ref) x") (simp_all add: save_stream_def)
qed

lemma remove_victim_eq:
  assumes "rg_ok r" "rg_peek r ns sid = Some ref"
  shows "remove_victim ns sid ref r = set_active ((drop_stream ns sid r)\<lparr>rg_evictions := rg_evictions r + 1\<rparr>)"
  using assms by (simp add: remove_victim_def)

lemma evict_cases:
  assumes "rg_ok r"
  obtains (none) "find_victim ns r = None" "evict_if_needed B ns r = (r, Inr ())"
  | (raised) e where "evict_if_needed B ns r = (r, Inl e)"
  | (evicted) vns vid ref d where "find_victim ns r = Some (vns, vid, ref)" "rg_peek r vns vid = Some ref"
    "save_stream B vns vid ref r = (r\<lparr>rg_storage := d\<rparr>, Inr ())"
    "evict_if_needed B ns r = (set_active ((drop_stream vns vid (r\<lparr>rg_storage := d\<rparr>))\<lparr>rg_evictions := rg_evictions r + 1\<rparr>), Inr ())"
proof (cases "find_victim ns r")
  case None
  then show ?thesis using none by (simp add: evict_if_needed_def)
next
  case (Some v)
  obtain vns vid ref where v: "v = (vns, vid, ref)" by (cases v) auto
  have p: "rg_peek r vns vid = Some ref" using find_victim_peek [OF assms] Some v by simp
  show ?thesis
  proof (cases rule: save_stream_cases [of B vns vid ref r])
    case (ok d)
    have "remove_victim vns vid ref (r\<lparr>rg_storage := d\<rparr>) =
        set_active ((drop_stream vns vid (r\<lparr>rg_storage := d\<rparr>))\<lparr>rg_evictions := rg_evictions r + 1\<rparr>)"
      using remove_victim_eq [of "r\<lparr>rg_storage := d\<rparr>" vns vid ref] assms p by (simp add: rg_simps)
    then show ?thesis using evicted [OF _ p ok(1)] Some v ok(1) by (simp add: evict_if_needed_def sbind_def)
  next
    case (raised e)
    then show ?thesis using that(2) Some v by (simp add: evict_if_needed_def sbind_def)
  qed
qed

section \<open>Caps\<close>

definition caps :: "'d stream_registry \<Rightarrow> bool" where
  "caps r \<longleftrightarrow> 1 \<le> rg_max_ns r \<and> 1 \<le> rg_max r \<and> (\<forall>ns. int (length (space r ns)) \<le> rg_max_ns r)
    \<and> count_locked r \<le> rg_max r \<and> rg_active r = count_locked r"

lemma evict_caps:
  assumes "rg_ok r" "caps r" "evict_if_needed B ns r = (r', x)"
  shows "rg_ok r' \<and> caps r' \<and> rg_heap r' = rg_heap r
    \<and> (x = Inr () \<longrightarrow> int (length (space r' ns)) < rg_max_ns r' \<and> count_locked r' < rg_max r')"
  using assms(1)
proof (cases rule: evict_cases [where ns = ns and B = B])
  case none
  then have "\<not> (space r ns \<noteq> [] \<and> rg_max_ns r \<le> int (length (space r ns)))" "first_stream (rg_spaces r) = None \<or> count_locked r < rg_max r"
    by (auto simp: find_victim_def split: if_splits prod.splits)
  then show ?thesis using none assms first_stream_None [of "rg_spaces r"] by (fastforce simp: caps_def count_locked_def)
next
  case (raised e)
  then show ?thesis using assms by auto
next
  case (evicted vns vid ref d)
  let ?r = "r\<lparr>rg_storage := d\<rparr>"
  have ok: "rg_ok ?r" and pk: "rg_peek ?r vns vid = Some ref" using assms(1) evicted(2) by (simp_all add: rg_simps)
  note dr = drop_stream_props [OF ok, of vns vid, unfolded rg_simps]
  have r': "r' = set_active ((drop_stream vns vid ?r)\<lparr>rg_evictions := rg_evictions r + 1\<rparr>)" "x = Inr ()"
    using evicted(4) assms(3) by simp_all
  have len: "length (space r vns) = Suc (length (AList.delete vid (space r vns)))"
    using length_delete [OF rg_ok_space [OF assms(1)]] evicted(2) by (simp add: rg_peek_def)
  have sp: "int (length (space r' n)) \<le> int (length (space r n))" for n using len by (simp add: r' rg_simps dr)
  have n: "int (length (space r' ns)) < rg_max_ns r"
  proof (cases "vns = ns")
    case True
    have "int (length (space r vns)) \<le> rg_max_ns r" using assms(2) by (simp add: caps_def)
    then show ?thesis using len unfolding True [symmetric] by (simp add: r' rg_simps dr)
  next
    case False
    then show ?thesis using find_victim_peek [OF assms(1) evicted(1)] assms(2) by (auto simp: r' rg_simps dr caps_def)
  qed
  have "count_locked r' = count_locked r - 1" using dr(3) pk by (simp add: r' rg_simps)
  then show ?thesis using assms(2) sp n order_trans [OF sp] by (auto simp: r' rg_simps dr caps_def)
qed

lemma insert_stream_props:
  assumes "rg_ok r" "rg_peek r ns sid = None"
  shows "rg_peek (insert_stream ns sid s r) ns' sid' = (if (ns', sid') = (ns, sid) then Some (length (rg_heap r)) else rg_peek r ns' sid')"
    "rg_ok (insert_stream ns sid s r)" "count_locked (insert_stream ns sid s r) = count_locked r + 1"
    "length (space (insert_stream ns sid s r) ns') = length (space r ns') + (if ns' = ns then 1 else 0)"
    "rg_heap (insert_stream ns sid s r) = rg_heap r @ [s]" "rg_storage (insert_stream ns sid s r) = rg_storage r"
    "rg_active (insert_stream ns sid s r) = count_locked r + 1"
    "rg_max_ns (insert_stream ns sid s r) = rg_max_ns r" "rg_max (insert_stream ns sid s r) = rg_max r"
proof -
  let ?d = "AList.update sid (length (rg_heap r)) (space r ns)"
  let ?r = "(r\<lparr>rg_heap := rg_heap r @ [s]\<rparr>)\<lparr>rg_spaces := AList.update ns ?d (rg_spaces (r\<lparr>rg_heap := rg_heap r @ [s]\<rparr>))\<rparr>"
  have eq: "insert_stream ns sid s r = set_active ?r" by (simp add: insert_stream_def)
  have len: "length ?d = Suc (length (space r ns))"
    using assms(2) by (simp add: length_update rg_peek_def map_of_eq_None_iff)
  show "rg_peek (insert_stream ns sid s r) ns' sid' = (if (ns', sid') = (ns, sid) then Some (length (rg_heap r)) else rg_peek r ns' sid')"
    unfolding eq rg_peek_def set_active_more(1) space_update by (simp add: rg_simps update_conv')
  show "rg_ok (insert_stream ns sid s r)"
    using rg_ok_update [of "r\<lparr>rg_heap := rg_heap r @ [s]\<rparr>" ?d ns] assms(1) rg_ok_space [OF assms(1), of ns]
    by (simp add: eq rg_simps distinct_update)
  show "count_locked (insert_stream ns sid s r) = count_locked r + 1" "rg_active (insert_stream ns sid s r) = count_locked r + 1"
    unfolding eq set_active_more(2,5) count_update by (simp_all add: rg_simps len)
  show "length (space (insert_stream ns sid s r) ns') = length (space r ns') + (if ns' = ns then 1 else 0)"
    unfolding eq set_active_more(1) space_update by (simp add: rg_simps len)
qed (simp_all add: insert_stream_def rg_simps)

lemma caps_insert:
  assumes "rg_ok r" "caps r" "rg_peek r ns sid = None" "int (length (space r ns)) < rg_max_ns r" "count_locked r < rg_max r"
  shows "caps (insert_stream ns sid s r)"
  using assms(2,4,5) by (auto simp: caps_def insert_stream_props [OF assms(1,3)])

lemma caps_touch: "rg_ok r \<Longrightarrow> caps r \<Longrightarrow> caps (touch ns sid r)"
  by (simp add: caps_def touch_props)

lemma caps_ensure: "rg_ok r \<Longrightarrow> caps r \<Longrightarrow> caps (ensure_space ns r)"
  by (simp add: caps_def ensure_space_props)

lemma caps_more [rg_simps]: "caps (r\<lparr>rg_storage := x\<rparr>) = caps r" "caps (r\<lparr>rg_heap := h\<rparr>) = caps r"
  by (simp_all add: caps_def rg_simps)

section \<open>Runs\<close>

text \<open>
  The calls of the server on its registry, one after the other.  An update changes the log behind a
  reference (recording, batches, merging) at a time that lies after the last save of that stream.
\<close>

datatype rg_call = Rg_Open string string pyfloat | Rg_Get string string | Rg_Delete string string
  | Rg_Update string string "stream \<Rightarrow> stream result" pyfloat | Rg_Flush | Rg_Failed

definition clock_ok :: "(string \<Rightarrow> string \<Rightarrow> 'd \<Rightarrow> pyfloat option) \<Rightarrow> 'd stream_registry \<Rightarrow> string \<Rightarrow> string \<Rightarrow> pyfloat \<Rightarrow> bool" where
  "clock_ok stamp r ns sid now \<longleftrightarrow> now \<noteq> NaN \<and> (case rg_storage r of None \<Rightarrow> True | Some d \<Rightarrow>
     (case stamp ns sid d of None \<Rightarrow> True | Some t \<Rightarrow> f_lt t now))"

inductive rg_step :: "'d backend \<Rightarrow> libm \<Rightarrow> bool \<Rightarrow> (string \<Rightarrow> string \<Rightarrow> 'd \<Rightarrow> pyfloat option) \<Rightarrow> (shared_log \<Rightarrow> bool) \<Rightarrow>
    'd stream_registry \<Rightarrow> rg_call \<Rightarrow> 'd stream_registry \<Rightarrow> bool" for B L det stamp storable where
  rg_open: "get_or_create B L det now ns sid r = (r', Inr ref) \<Longrightarrow> clock_ok stamp r ns sid now \<Longrightarrow>
    (\<And>s. new_log L det now = Inr s \<Longrightarrow> storable s) \<Longrightarrow> rg_step B L det stamp storable r (Rg_Open ns sid now) r'"
| rg_open_failed: "get_or_create B L det now ns sid r = (r', Inl e) \<Longrightarrow> rg_step B L det stamp storable r Rg_Failed r'"
| rg_got: "rg_get B ns sid r = (r', Inr x) \<Longrightarrow> rg_step B L det stamp storable r (Rg_Get ns sid) r'"
| rg_get_failed: "rg_get B ns sid r = (r', Inl e) \<Longrightarrow> rg_step B L det stamp storable r Rg_Failed r'"
| rg_deleted: "rg_delete B ns sid True r = (r', Inr found) \<Longrightarrow> rg_step B L det stamp storable r (Rg_Delete ns sid) r'"
| rg_delete_failed: "rg_delete B ns sid True r = (r', Inl e) \<Longrightarrow> rg_step B L det stamp storable r Rg_Failed r'"
| rg_updated: "rg_peek r ns sid = Some ref \<Longrightarrow> ts_modify f now (rg_heap r ! ref) = Inr s \<Longrightarrow> storable s \<Longrightarrow>
    clock_ok stamp r ns sid now \<Longrightarrow>
    rg_step B L det stamp storable r (Rg_Update ns sid f now) (r\<lparr>rg_heap := (rg_heap r)[ref := s]\<rparr>)"
| rg_flushed: "rg_step B L det stamp storable r Rg_Flush (flush_all B r)"

inductive rg_steps :: "'d backend \<Rightarrow> libm \<Rightarrow> bool \<Rightarrow> (string \<Rightarrow> string \<Rightarrow> 'd \<Rightarrow> pyfloat option) \<Rightarrow> (shared_log \<Rightarrow> bool) \<Rightarrow>
    'd stream_registry \<Rightarrow> rg_call list \<Rightarrow> 'd stream_registry \<Rightarrow> bool" for B L det stamp storable where
  rg_done: "rg_steps B L det stamp storable r [] r"
| rg_more: "rg_steps B L det stamp storable r cs r' \<Longrightarrow> rg_step B L det stamp storable r' c r'' \<Longrightarrow>
    rg_steps B L det stamp storable r (cs @ [c]) r''"

lemma place_stream_cases:
  assumes "rg_ok r" "rg_peek r ns sid = None"
  shows "place_stream ns sid made r = (case made of Inl e \<Rightarrow> (ensure_space ns r, Inl e)
    | Inr s \<Rightarrow> (insert_stream ns sid s (ensure_space ns r), Inr (length (rg_heap r))))"
  using assms by (simp add: place_stream_def Let_def ensure_space_props split: sum.splits)

lemma adopt_stream_cases:
  assumes "rg_ok r" "rg_peek r ns sid = None"
  shows "adopt_stream ns sid s r = (insert_stream ns sid s (ensure_space ns r), Inr (length (rg_heap r)))"
  using assms by (simp add: adopt_stream_def Let_def ensure_space_props)

lemma evict_rg_ok:
  assumes "rg_ok r" "evict_if_needed B ns r = (r', x)"
  shows "rg_ok r' \<and> rg_heap r' = rg_heap r \<and> (x \<noteq> Inr () \<longrightarrow> r' = r)"
  using assms(1)
proof (cases rule: evict_cases [where ns = ns and B = B])
  case (evicted vns vid ref d)
  have ok: "rg_ok (r\<lparr>rg_storage := d\<rparr>)" using assms(1) by (simp add: rg_simps)
  show ?thesis using evicted(4) assms(2) by (auto simp: rg_simps drop_stream_props [OF ok])
qed (use assms in auto)

lemma evict_keeps_absent:
  assumes "rg_ok r" "evict_if_needed B ns r = (r', x)" "rg_peek r n s = None"
  shows "rg_peek r' n s = None"
  using assms(1)
proof (cases rule: evict_cases [where ns = ns and B = B])
  case (evicted vns vid ref d)
  have ok: "rg_ok (r\<lparr>rg_storage := d\<rparr>)" using assms(1) by (simp add: rg_simps)
  show ?thesis using evicted(4) assms(2,3) by (auto simp: rg_simps drop_stream_props [OF ok])
qed (use assms in auto)

text \<open>What opening and looking up do on a stream that is not in memory.\<close>

lemma open_absent:
  assumes "rg_ok r" "rg_peek r ns sid = None" "get_or_create B L det now ns sid r = (r', x)"
  obtains (loading) e where "load_stream B ns sid r = (r, Inl e)" "r' = r" "x = Inl e"
  | (evicting) e m where "load_stream B ns sid r = (r, Inr m)" "evict_if_needed B ns r = (r', Inl e)" "x = Inl e"
  | (making) e r1 where "load_stream B ns sid r = (r, Inr None)" "evict_if_needed B ns r = (r1, Inr ())" "new_log L det now = Inl e"
      "r' = ensure_space ns r1" "x = Inl e"
  | (opened) m s r1 where "load_stream B ns sid r = (r, Inr m)" "evict_if_needed B ns r = (r1, Inr ())" "rg_peek r1 ns sid = None"
      "m = Some s \<or> m = None \<and> new_log L det now = Inr s"
      "r' = insert_stream ns sid s (ensure_space ns r1)" "x = Inr (length (rg_heap r1))"
proof -
  obtain y where y: "load_stream B ns sid r = (r, y)" by (cases "rg_storage r") (auto simp: load_stream_def)
  show thesis
  proof (cases y)
    case (Inl e)
    then show ?thesis using loading y assms(2,3) by (simp add: get_or_create_def sbind_def)
  next
    case (Inr m)
    obtain r1 z where ev: "evict_if_needed B ns r = (r1, z)" by (cases "evict_if_needed B ns r")
    have ok: "rg_ok r1" using evict_rg_ok [OF assms(1) ev] by simp
    have ab: "rg_peek r1 ns sid = None" by (rule evict_keeps_absent [OF assms(1) ev assms(2)])
    let ?made = "case m of Some s \<Rightarrow> Inr s | None \<Rightarrow> new_log L det now"
    show ?thesis
    proof (cases z)
      case (Inl e)
      then show ?thesis using evicting y \<open>y = Inr m\<close> ev assms(2,3) by (simp add: get_or_create_def sbind_def)
    next
      case z: (Inr u)
      have "(r', x) = place_stream ns sid ?made r1"
        using y \<open>y = Inr m\<close> ev z assms(2,3) by (simp add: get_or_create_def sbind_def)
      then have rx: "(r', x) = (case ?made of Inl e \<Rightarrow> (ensure_space ns r1, Inl e)
          | Inr s \<Rightarrow> (insert_stream ns sid s (ensure_space ns r1), Inr (length (rg_heap r1))))"
        by (simp add: place_stream_cases [OF ok ab])
      show ?thesis
      proof (cases ?made)
        case made: (Inl e)
        then have "m = None" "new_log L det now = Inl e" by (cases m; simp)+
        then show ?thesis using making y \<open>y = Inr m\<close> ev z rx made by simp
      next
        case made: (Inr s)
        then have "m = Some s \<or> m = None \<and> new_log L det now = Inr s" by (cases m) auto
        then show ?thesis using opened y \<open>y = Inr m\<close> ev z rx made ab by simp
      qed
    qed
  qed
qed

lemma get_absent:
  assumes "rg_ok r" "rg_peek r ns sid = None" "rg_get B ns sid r = (r', x)"
  obtains (failed) e where "r' = r" "x = Inl e"
  | (missing) "load_stream B ns sid r = (r, Inr None)" "r' = r" "x = Inr None"
  | (adopted) s r1 where "load_stream B ns sid r = (r, Inr (Some s))" "evict_if_needed B ns r = (r1, Inr ())" "rg_peek r1 ns sid = None"
      "r' = insert_stream ns sid s (ensure_space ns r1)" "x = Inr (Some (length (rg_heap r1)))"
proof -
  obtain y where y: "load_stream B ns sid r = (r, y)" by (cases "rg_storage r") (auto simp: load_stream_def)
  show thesis
  proof (cases y)
    case (Inl e)
    then show ?thesis using failed y assms(2,3) by (auto simp: rg_get_def sbind_def)
  next
    case m: (Inr m)
    show ?thesis
    proof (cases m)
      case None
      then show ?thesis using missing y m assms(2,3) by (simp add: rg_get_def sbind_def)
    next
      case (Some s)
      obtain r1 z where ev: "evict_if_needed B ns r = (r1, z)" by (cases "evict_if_needed B ns r")
      note ok = evict_rg_ok [OF assms(1) ev]
      have ab: "rg_peek r1 ns sid = None" by (rule evict_keeps_absent [OF assms(1) ev assms(2)])
      show ?thesis
      proof (cases z)
        case (Inl e)
        then show ?thesis using failed y m Some ev ok assms(2,3) by (auto simp: rg_get_def sbind_def)
      next
        case (Inr u)
        have "adopt_stream ns sid s r1 = (insert_stream ns sid s (ensure_space ns r1), Inr (length (rg_heap r1)))"
          using adopt_stream_cases ok ab by blast
        then show ?thesis using adopted [of s r1] y m Some ev Inr ab assms(2,3) by (simp add: rg_get_def sbind_def)
      qed
    qed
  qed
qed

lemma rg_delete_cases:
  assumes "rg_delete B ns sid True r = (r', x)"
  obtains (failed) e where "r' = r" "x = Inl e"
  | (deleted) d found where "storage_delete B ns sid r = (r\<lparr>rg_storage := d\<rparr>, Inr found)"
      "r' = forget_stream ns sid (r\<lparr>rg_storage := d\<rparr>)" "x = Inr (found \<or> rg_peek r ns sid \<noteq> None)"
proof (cases "rg_storage r")
  case None
  then have eq: "r\<lparr>rg_storage := None\<rparr> = r" by simp
  show ?thesis using None deleted [of None False, unfolded eq] assms by (auto simp: storage_delete_def rg_delete_def sbind_def)
next
  case (Some d)
  show ?thesis
  proof (cases "be_delete B ns sid d")
    case (Inl e)
    then show ?thesis using Some failed assms by (auto simp: storage_delete_def rg_delete_def sbind_def)
  next
    case (Inr p)
    obtain d' f where "p = (d', f)" by (cases p)
    then show ?thesis using Some Inr deleted [of "Some d'" f] assms
      by (simp add: storage_delete_def rg_delete_def sbind_def rg_simps)
  qed
qed

lemma flush_one_eq: "\<exists>d. flush_one B item r = r\<lparr>rg_storage := d\<rparr>"
proof -
  obtain ns sid ref where i: "item = (ns, sid, ref)" by (cases item) auto
  show ?thesis
  proof (cases rule: save_stream_cases [of B ns sid ref r])
    case (ok d)
    then show ?thesis by (auto simp: flush_one_def i)
  next
    case (raised e)
    then have "flush_one B item r = r\<lparr>rg_storage := rg_storage r\<rparr>" by (simp add: flush_one_def i)
    then show ?thesis by blast
  qed
qed

lemma flush_all_eq: "\<exists>d. flush_all B r = r\<lparr>rg_storage := d\<rparr>"
proof -
  have "\<exists>d. fold (flush_one B) items x = r\<lparr>rg_storage := d\<rparr>" if "\<exists>d. x = r\<lparr>rg_storage := d\<rparr>" for items x
    using that
  proof (induction items arbitrary: x)
    case (Cons i items)
    obtain d where "x = r\<lparr>rg_storage := d\<rparr>" using Cons.prems by blast
    then have "\<exists>d. flush_one B i x = r\<lparr>rg_storage := d\<rparr>" using flush_one_eq [of B i x] by auto
    then show ?case using Cons.IH by simp
  qed simp
  moreover have "r = r\<lparr>rg_storage := rg_storage r\<rparr>" by simp
  ultimately show ?thesis unfolding flush_all_def by blast
qed

lemma forget_caps: "rg_ok r \<Longrightarrow> caps r \<Longrightarrow> rg_ok (forget_stream ns sid r) \<and> caps (forget_stream ns sid r)"
proof -
  assume a: "rg_ok r" "caps r"
  have "length (AList.delete sid (space r ns)) \<le> length (space r ns)" by (rule length_delete_le)
  then have "int (length (AList.delete sid (space r ns))) \<le> rg_max_ns r" using a(2) unfolding caps_def by (meson of_nat_le_iff order_trans)
  then show ?thesis using a drop_stream_props [OF a(1), of ns sid] by (auto simp: forget_stream_def caps_def rg_simps)
qed

lemma rg_step_caps:
  assumes "rg_step B L det stamp storable r c r'" "rg_ok r" "caps r"
  shows "rg_ok r' \<and> caps r'"
proof -
  have ins: "rg_ok (insert_stream ns sid s (ensure_space ns r1)) \<and> caps (insert_stream ns sid s (ensure_space ns r1))"
    if "evict_if_needed B ns r = (r1, Inr ())" "rg_peek r1 ns sid = None" for ns sid s r1
    using evict_caps [OF assms(2,3) that(1)] that(2) ensure_space_props [of r1 ns] caps_ensure [of r1 ns]
    by (auto intro!: caps_insert insert_stream_props(2))
  have op: "rg_ok r' \<and> caps r'" if "get_or_create B L det now ns sid r = (r', x)" for now ns sid x
  proof (cases "rg_peek r ns sid")
    case None
    show ?thesis using assms(2) None that
    proof (cases rule: open_absent)
      case (evicting e m)
      then show ?thesis using evict_caps [OF assms(2,3)] by blast
    next
      case (making e r1)
      then show ?thesis using evict_caps [OF assms(2,3) making(2)] ensure_space_props caps_ensure by metis
    qed (use assms ins in auto)
  qed (use that assms caps_touch touch_props in \<open>auto simp: get_or_create_def\<close>)
  have gt: "rg_ok r' \<and> caps r'" if "rg_get B ns sid r = (r', x)" for ns sid x
  proof (cases "rg_peek r ns sid")
    case None
    show ?thesis using assms(2) None that by (cases rule: get_absent) (use assms ins in auto)
  qed (use that assms caps_touch touch_props in \<open>auto simp: rg_get_def\<close>)
  have dl: "rg_ok r' \<and> caps r'" if "rg_delete B ns sid True r = (r', x)" for ns sid x
    using that
  proof (cases rule: rg_delete_cases)
    case (deleted d found)
    show ?thesis unfolding deleted(2) by (rule forget_caps) (use assms(2,3) in \<open>simp_all add: rg_simps\<close>)
  qed (use assms in auto)
  show ?thesis using assms(1) by cases (use op gt dl assms(2,3) flush_all_eq [of B r] in \<open>auto simp: rg_simps\<close>)
qed

section \<open>The streams as a map\<close>

text \<open>What a reader finds under a key: the log in memory, or else what the backend gives back.\<close>

definition visible :: "'d backend \<Rightarrow> 'd stream_registry \<Rightarrow> string \<times> string \<Rightarrow> shared_log option" where
  "visible B r k = (case rg_peek r (fst k) (snd k) of
     Some ref \<Rightarrow> Some (rg_heap r ! ref)
   | None \<Rightarrow> (case rg_storage r of None \<Rightarrow> None | Some d \<Rightarrow> stored_log B d k))"

text \<open>The specification: a map without caps, eviction or storage.\<close>

fun map_step :: "libm \<Rightarrow> bool \<Rightarrow> rg_call \<Rightarrow> (string \<times> string \<Rightarrow> shared_log option) \<Rightarrow> string \<times> string \<Rightarrow> shared_log option" where
  "map_step L det (Rg_Open ns sid now) m = m((ns, sid) := (case m (ns, sid) of Some s \<Rightarrow> Some s
     | None \<Rightarrow> (case new_log L det now of Inr s \<Rightarrow> Some s | Inl _ \<Rightarrow> None)))"
| "map_step L det (Rg_Update ns sid f now) m = m((ns, sid) := (case m (ns, sid) of None \<Rightarrow> None
     | Some s \<Rightarrow> (case ts_modify f now s of Inr s' \<Rightarrow> Some s' | Inl _ \<Rightarrow> Some s)))"
| "map_step L det (Rg_Delete ns sid) m = m((ns, sid) := None)"
| "map_step L det (Rg_Get ns sid) m = m"
| "map_step L det Rg_Flush m = m"
| "map_step L det Rg_Failed m = m"

definition refs_ok :: "'d stream_registry \<Rightarrow> bool" where
  "refs_ok r \<longleftrightarrow> (\<forall>ns sid ref. rg_peek r ns sid = Some ref \<longrightarrow> ref < length (rg_heap r)) \<and>
    (\<forall>ns sid ns' sid' ref. rg_peek r ns sid = Some ref \<longrightarrow> rg_peek r ns' sid' = Some ref \<longrightarrow> ns = ns' \<and> sid = sid')"

lemma refs_okD: "refs_ok r \<Longrightarrow> rg_peek r ns sid = Some ref \<Longrightarrow> ref < length (rg_heap r)"
  by (simp add: refs_ok_def)

lemma refs_ok_same: "refs_ok r \<Longrightarrow> rg_peek r' = rg_peek r \<Longrightarrow> length (rg_heap r') = length (rg_heap r) \<Longrightarrow> refs_ok r'"
  by (simp add: refs_ok_def)

lemma visible_same:
  assumes "rg_peek r' (fst k) (snd k) = rg_peek r (fst k) (snd k)"
    and "\<And>ref. rg_peek r (fst k) (snd k) = Some ref \<Longrightarrow> rg_heap r' ! ref = rg_heap r ! ref"
    and "rg_storage r' = Some d'" "rg_storage r = Some d" "stored_log B d' k = stored_log B d k"
  shows "visible B r' k = visible B r k"
  using assms by (cases "rg_peek r (fst k) (snd k)") (simp_all add: visible_def)

context storage_backend
begin

definition rg_inv :: "'d stream_registry \<Rightarrow> bool" where
  "rg_inv r \<longleftrightarrow> rg_ok r \<and> refs_ok r \<and> (\<exists>d. rg_storage r = Some d \<and> clocked d \<and>
     (\<forall>ns sid ref. rg_peek r ns sid = Some ref \<longrightarrow> safe d (ns, sid) (rg_heap r ! ref)))"

lemma rg_invE:
  assumes "rg_inv r"
  obtains d where "rg_ok r" "refs_ok r" "rg_storage r = Some d" "clocked d"
    "\<And>ns sid ref. rg_peek r ns sid = Some ref \<Longrightarrow> safe d (ns, sid) (rg_heap r ! ref)"
  using assms by (auto simp: rg_inv_def)

text \<open>Rearranging the dictionaries changes nothing.\<close>

lemma same_lookup:
  assumes "rg_inv r" "rg_ok r'" "rg_peek r' = rg_peek r" "rg_heap r' = rg_heap r" "rg_storage r' = rg_storage r"
  shows "rg_inv r' \<and> visible B r' = visible B r"
proof -
  have "visible B r' k = visible B r k" for k
    using assms(1) by (rule rg_invE) (rule visible_same, use assms(3-5) in auto)
  then show ?thesis using assms refs_ok_same [of r r'] by (auto simp: rg_inv_def)
qed

lemma save_visible:
  assumes "rg_inv r" "rg_peek r ns sid = Some ref" "save_stream B ns sid ref r = (r', x)"
  shows "rg_inv r' \<and> visible B r' = visible B r \<and> rg_peek r' = rg_peek r \<and> rg_heap r' = rg_heap r
    \<and> (x = Inr () \<longrightarrow> (\<exists>d. rg_storage r' = Some d \<and> stored_log B d (ns, sid) = Some (rg_heap r ! ref)))"
proof -
  obtain d where d: "rg_ok r" "refs_ok r" "rg_storage r = Some d" "clocked d"
    "\<And>ns sid ref. rg_peek r ns sid = Some ref \<Longrightarrow> safe d (ns, sid) (rg_heap r ! ref)" by (rule rg_invE [OF assms(1)]) blast
  show ?thesis
  proof (cases rule: save_stream_cases [of B ns sid ref r])
    case (ok d')
    then obtain y where y: "be_save B ns sid (rg_heap r ! ref) d = Inr y" "d' = Some y" using d(3) by auto
    have r': "r' = r\<lparr>rg_storage := Some y\<rparr>" "x = Inr ()" using ok(1) assms(3) y(2) by simp_all
    note sv = save_safe [OF y(1) d(5) [OF assms(2)]] and cl = save_clocked [OF y(1) d(5) [OF assms(2)] d(4)]
    have sf: "safe y (n, s) (rg_heap r ! z)" if "rg_peek r n s = Some z" for n s z
    proof (cases "(n, s) = (ns, sid)")
      case True
      then show ?thesis using stored_safe [OF cl sv] that assms(2) by simp
    qed (use safe_other(1) [OF y(1)] d(5) that in blast)
    have "visible B r' k = visible B r k" for k
    proof (cases "k = (ns, sid)")
      case True
      then show ?thesis using assms(2) by (simp add: visible_def r' rg_simps)
    qed (rule visible_same [where d' = y and d = d], use stored_other(1) [OF y(1), of k] d(3) in \<open>auto simp: r' rg_simps\<close>)
    then show ?thesis using d(1,2) sf cl sv refs_ok_same [of r r'] by (auto simp: rg_inv_def r' rg_simps)
  next
    case (raised e)
    then show ?thesis using assms(1,3) by simp
  qed
qed

lemma drop_visible:
  assumes "rg_inv r" "rg_peek r ns sid = Some ref" "rg_storage r = Some d" "stored_log B d (ns, sid) = Some (rg_heap r ! ref)"
  shows "rg_inv (drop_stream ns sid r) \<and> visible B (drop_stream ns sid r) = visible B r"
proof -
  have ok: "rg_ok r" "refs_ok r" using assms(1) by (auto simp: rg_inv_def)
  note dr = drop_stream_props [OF ok(1), of ns sid]
  have "visible B (drop_stream ns sid r) k = visible B r k" for k
  proof (cases "k = (ns, sid)")
    case True
    then show ?thesis using assms(2-4) by (simp add: visible_def dr)
  qed (rule visible_same, use assms(3) in \<open>auto simp: dr\<close>)
  moreover have "refs_ok (drop_stream ns sid r)" using ok(2) by (auto simp: refs_ok_def dr split: if_splits)
  ultimately show ?thesis using assms(1) by (auto simp: rg_inv_def dr split: if_splits)
qed

lemma evict_visible:
  assumes "rg_inv r" "evict_if_needed B ns r = (r', x)"
  shows "rg_inv r' \<and> visible B r' = visible B r"
proof -
  have ok: "rg_ok r" using assms(1) by (simp add: rg_inv_def)
  then show ?thesis
  proof (cases rule: evict_cases [where ns = ns and B = B])
    case (evicted vns vid ref d)
    let ?r = "r\<lparr>rg_storage := d\<rparr>"
    note sv = save_visible [OF assms(1) evicted(2,3)]
    then obtain y where y: "d = Some y" "stored_log B y (vns, vid) = Some (rg_heap r ! ref)" by auto
    have dr: "rg_inv (drop_stream vns vid ?r) \<and> visible B (drop_stream vns vid ?r) = visible B ?r"
      by (rule drop_visible [of _ _ _ ref y]) (use sv y evicted(2) in \<open>simp_all add: rg_simps\<close>)
    have "r' = set_active ((drop_stream vns vid ?r)\<lparr>rg_evictions := rg_evictions r + 1\<rparr>)" using evicted(4) assms(2) by simp
    then have "rg_inv r' \<and> visible B r' = visible B (drop_stream vns vid ?r)"
      using dr by (intro same_lookup) (auto simp: rg_simps rg_inv_def)
    then show ?thesis using dr sv by simp
  qed (use assms in auto)
qed

lemma insert_visible:
  assumes "rg_inv r" "rg_peek r ns sid = None" "rg_storage r = Some d" "safe d (ns, sid) s"
  shows "rg_inv (insert_stream ns sid s r) \<and> visible B (insert_stream ns sid s r) = (visible B r)((ns, sid) := Some s)"
proof -
  have ok: "rg_ok r" "refs_ok r" using assms(1) by (auto simp: rg_inv_def)
  note ins = insert_stream_props [OF ok(1) assms(2), of s]
  have lt: "ref < length (rg_heap r)" if "rg_peek r n t = Some ref" for n t ref using refs_okD [OF ok(2) that] .
  have "refs_ok (insert_stream ns sid s r)"
    using ok(2) lt unfolding refs_ok_def ins by (fastforce split: if_splits simp: less_Suc_eq)
  moreover have "visible B (insert_stream ns sid s r) k = ((visible B r)((ns, sid) := Some s)) k" for k
  proof (cases "k = (ns, sid)")
    case True
    then show ?thesis by (simp add: visible_def ins)
  next
    case False
    have "visible B (insert_stream ns sid s r) k = visible B r k"
      by (rule visible_same) (use False lt assms(3) in \<open>auto simp: ins nth_append\<close>)
    then show ?thesis using False by simp
  qed
  moreover have "safe d (n, t) ((rg_heap r @ [s]) ! ref)" if "rg_peek (insert_stream ns sid s r) n t = Some ref" for n t ref
    using that assms(1,3,4) lt by (auto simp: ins nth_append rg_inv_def split: if_splits)
  ultimately show ?thesis using assms(1,3) by (auto simp: rg_inv_def ins)
qed

lemma load_visible:
  assumes "rg_inv r" "rg_peek r ns sid = None" "load_stream B ns sid r = (r, Inr m)"
  shows "visible B r (ns, sid) = m"
proof -
  obtain d where "rg_storage r = Some d" using assms(1) by (auto simp: rg_inv_def)
  then show ?thesis using assms(2,3) load_eq [of ns sid d] by (simp add: load_stream_def visible_def)
qed

text \<open>Placing a log that was loaded, or a new one when nothing readable is stored.\<close>

lemma place_visible:
  assumes "rg_inv r1" "rg_peek r1 ns sid = None" "visible B r1 (ns, sid) = Some s \<or>
      visible B r1 (ns, sid) = None \<and> storable s \<and> clock_ok stamp r1 ns sid (ts_updated s)"
  shows "rg_inv (insert_stream ns sid s (ensure_space ns r1))
    \<and> visible B (insert_stream ns sid s (ensure_space ns r1)) = (visible B r1)((ns, sid) := Some s)"
proof -
  have ok: "rg_ok r1" using assms(1) by (simp add: rg_inv_def)
  note en = ensure_space_props [OF ok, of ns]
  have e: "rg_inv (ensure_space ns r1)" "visible B (ensure_space ns r1) = visible B r1"
    using same_lookup [OF assms(1) en(2,1)] en(5,6) by auto
  obtain d where d: "rg_storage r1 = Some d" "clocked d" using assms(1) by (auto simp: rg_inv_def)
  have "safe d (ns, sid) s"
    using assms(3)
  proof
    assume "visible B r1 (ns, sid) = Some s"
    then show ?thesis using stored_safe [OF d(2)] d(1) assms(2) by (simp add: visible_def)
  qed (use d(1) in \<open>auto simp: safe_def clock_ok_def split: option.splits\<close>)
  then show ?thesis using insert_visible [of "ensure_space ns r1" ns sid d s] e assms(2) d(1) by (simp add: en)
qed

lemma evict_clock:
  assumes "rg_inv r" "evict_if_needed B ns r = (r', x)" "rg_peek r n s = None" "clock_ok stamp r n s now"
  shows "clock_ok stamp r' n s now"
proof -
  have ok: "rg_ok r" using assms(1) by (simp add: rg_inv_def)
  then show ?thesis
  proof (cases rule: evict_cases [where ns = ns and B = B])
    case (evicted vns vid ref d)
    obtain d0 where d0: "rg_storage r = Some d0" using assms(1) by (auto simp: rg_inv_def)
    obtain y where y: "be_save B vns vid (rg_heap r ! ref) d0 = Inr y" "d = Some y"
      using evicted(3) d0 by (auto simp: save_stream_def split: sum.splits dest!: arg_cong [of _ _ rg_storage])
    have "(n, s) \<noteq> (vns, vid)" using assms(3) evicted(2) by auto
    then have "stamp n s y = stamp n s d0" using save_other [OF y(1)] by blast
    moreover have "rg_storage r' = Some y" using evicted(4) assms(2) y(2) ok
      by (auto simp: rg_simps drop_stream_props)
    ultimately show ?thesis using assms(4) d0 by (simp add: clock_ok_def)
  qed (use assms in auto)
qed

lemma open_visible:
  assumes "rg_inv r" "get_or_create B L det now ns sid r = (r', x)"
    and new: "\<And>ref. x = Inr ref \<Longrightarrow> clock_ok stamp r ns sid now \<and> (\<forall>s. new_log L det now = Inr s \<longrightarrow> storable s)"
  shows "rg_inv r' \<and> visible B r' = (case x of Inl _ \<Rightarrow> visible B r | Inr _ \<Rightarrow> map_step L det (Rg_Open ns sid now) (visible B r))"
proof (cases "rg_peek r ns sid")
  case (Some ref)
  have ok: "rg_ok r" using assms(1) by (simp add: rg_inv_def)
  have rx: "r' = touch ns sid r" "x = Inr ref" using assms(2) Some by (simp_all add: get_or_create_def)
  have "visible B r (ns, sid) = Some (rg_heap r ! ref)" using Some by (simp add: visible_def)
  then show ?thesis using same_lookup [OF assms(1) touch_props(2) [OF ok] touch_props(1) [OF ok]] touch_props(5,6) [OF ok]
    by (auto simp: rx fun_upd_idem_iff)
next
  case None
  have ok: "rg_ok r" using assms(1) by (simp add: rg_inv_def)
  show ?thesis using ok None assms(2)
  proof (cases rule: open_absent)
    case (evicting e m)
    then show ?thesis using evict_visible [OF assms(1)] by auto
  next
    case (making e r1)
    note ev = evict_visible [OF assms(1) making(2)]
    have ok1: "rg_ok r1" using ev by (simp add: rg_inv_def)
    show ?thesis using same_lookup [of r1 "ensure_space ns r1"] ev ensure_space_props [OF ok1] making(4,5) by auto
  next
    case (opened m s r1)
    note ev = evict_visible [OF assms(1) opened(2)] and v = load_visible [OF assms(1) None opened(1)]
    have u: "ts_updated s = now" if "new_log L det now = Inr s"
      using that by (auto simp: new_log_def ts_init_def rbind_eq_Inr)
    have "visible B r1 (ns, sid) = Some s \<or>
      visible B r1 (ns, sid) = None \<and> storable s \<and> clock_ok stamp r1 ns sid (ts_updated s)"
      using opened(4) ev v u new [OF opened(6)] evict_clock [OF assms(1) opened(2) None] by auto
    from place_visible [OF conjunct1 [OF ev] opened(3) this] show ?thesis using ev v opened(4-6) by auto
  qed (use assms in auto)
qed

lemma get_visible:
  assumes "rg_inv r" "rg_get B ns sid r = (r', x)"
  shows "rg_inv r' \<and> visible B r' = visible B r \<and>
    (\<forall>y. x = Inr y \<longrightarrow> map_option ((!) (rg_heap r')) y = visible B r (ns, sid))"
proof (cases "rg_peek r ns sid")
  case (Some ref)
  have ok: "rg_ok r" using assms(1) by (simp add: rg_inv_def)
  have rx: "r' = touch ns sid r" "x = Inr (Some ref)" using assms(2) Some by (simp_all add: rg_get_def)
  show ?thesis using same_lookup [OF assms(1) touch_props(2) [OF ok] touch_props(1) [OF ok]] touch_props(5,6) [OF ok] Some
    by (auto simp: rx visible_def)
next
  case None
  have ok: "rg_ok r" using assms(1) by (simp add: rg_inv_def)
  show ?thesis using ok None assms(2)
  proof (cases rule: get_absent)
    case missing
    then show ?thesis using load_visible [OF assms(1) None missing(1)] assms(1) by simp
  next
    case (adopted s r1)
    note ev = evict_visible [OF assms(1) adopted(2)] and v = load_visible [OF assms(1) None adopted(1)]
    have ok1: "rg_ok r1" using ev by (simp add: rg_inv_def)
    have "rg_heap r' ! length (rg_heap r1) = s"
      using insert_stream_props(5) [of "ensure_space ns r1" ns sid s] ensure_space_props [OF ok1] adopted(3,4) by simp
    then show ?thesis using place_visible [OF conjunct1 [OF ev] adopted(3), of s] ev v adopted(4,5) by auto
  qed (use assms in auto)
qed

lemma delete_visible:
  assumes "rg_inv r" "rg_delete B ns sid True r = (r', x)"
  shows "rg_inv r' \<and> visible B r' = (case x of Inl _ \<Rightarrow> visible B r | Inr _ \<Rightarrow> (visible B r)((ns, sid) := None))"
proof -
  obtain d where d: "rg_ok r" "refs_ok r" "rg_storage r = Some d" "clocked d"
    "\<And>ns sid ref. rg_peek r ns sid = Some ref \<Longrightarrow> safe d (ns, sid) (rg_heap r ! ref)" by (rule rg_invE [OF assms(1)]) blast
  show ?thesis using assms(2)
  proof (cases rule: rg_delete_cases)
    case (deleted d' found)
    obtain y where y: "be_delete B ns sid d = Inr (y, found)" "d' = Some y"
      using deleted(1) d(3) by (auto simp: storage_delete_def split: sum.splits prod.splits dest!: arg_cong [of _ _ rg_storage])
    let ?r = "r\<lparr>rg_storage := d'\<rparr>"
    have ok: "rg_ok ?r" using d(1) by (simp add: rg_simps)
    note dr = drop_stream_props [OF ok, of ns sid]
    have pk: "rg_peek r' n s = (if (n, s) = (ns, sid) then None else rg_peek r n s)" for n s
      using deleted(2) by (auto simp: forget_stream_def rg_simps dr)
    have st: "rg_storage r' = Some y" "rg_heap r' = rg_heap r" "rg_ok r'"
      using deleted(2) y(2) ok by (auto simp: forget_stream_def rg_simps dr [unfolded y(2)])
    have "visible B r' k = ((visible B r)((ns, sid) := None)) k" for k
    proof (cases "k = (ns, sid)")
      case True
      then show ?thesis using pk st stored_delete [OF y(1)] by (simp add: visible_def)
    next
      case False
      have "visible B r' k = visible B r k"
        by (rule visible_same [where d' = y and d = d]) (use False pk st d(3) stored_other(2) [OF y(1) False] in auto)
      then show ?thesis using False by simp
    qed
    moreover have "rg_inv r'"
      using d(2,5) pk st delete_clocked [OF y(1) d(4)] safe_other(2) [OF y(1)]
      by (auto simp: rg_inv_def refs_ok_def split: if_splits)
    ultimately show ?thesis using deleted(3) by auto
  qed (use assms in auto)
qed

lemma update_visible:
  assumes "rg_inv r" "rg_peek r ns sid = Some ref" "ts_modify f now (rg_heap r ! ref) = Inr s" "storable s" "clock_ok stamp r ns sid now"
  shows "rg_inv (r\<lparr>rg_heap := (rg_heap r)[ref := s]\<rparr>)
    \<and> visible B (r\<lparr>rg_heap := (rg_heap r)[ref := s]\<rparr>) = map_step L det (Rg_Update ns sid f now) (visible B r)"
proof -
  let ?r = "r\<lparr>rg_heap := (rg_heap r)[ref := s]\<rparr>"
  obtain d where d: "rg_ok r" "refs_ok r" "rg_storage r = Some d" "clocked d"
    "\<And>ns sid ref. rg_peek r ns sid = Some ref \<Longrightarrow> safe d (ns, sid) (rg_heap r ! ref)" by (rule rg_invE [OF assms(1)]) blast
  have lt: "ref < length (rg_heap r)" by (rule refs_okD [OF d(2) assms(2)])
  have other: "(rg_heap r)[ref := s] ! z = rg_heap r ! z" if "rg_peek r n t = Some z" "(n, t) \<noteq> (ns, sid)" for n t z
    using that assms(2) d(2) by (cases "z = ref") (auto simp: refs_ok_def)
  have "ts_updated s = now" using assms(3) by (auto simp: ts_modify_def rbind_eq_Inr)
  then have new: "safe d (ns, sid) s" using assms(4,5) d(3) by (auto simp: safe_def clock_ok_def split: option.splits)
  have "visible B ?r k = map_step L det (Rg_Update ns sid f now) (visible B r) k" for k
  proof (cases "k = (ns, sid)")
    case True
    then show ?thesis using assms(2,3) lt by (simp add: visible_def rg_simps)
  next
    case False
    have "visible B ?r k = visible B r k"
      by (rule visible_same [where d' = d and d = d]) (use False other [of "fst k" "snd k"] d(3) in \<open>auto simp: rg_simps\<close>)
    then show ?thesis using False by simp
  qed
  moreover have "safe d (n, t) ((rg_heap r)[ref := s] ! z)" if "rg_peek r n t = Some z" for n t z
  proof (cases "(n, t) = (ns, sid)")
    case True
    then show ?thesis using that new lt assms(2) by simp
  next
    case False
    then show ?thesis using other [OF that False] d(5) [OF that] by simp
  qed
  ultimately show ?thesis using d refs_ok_same [of r ?r] by (auto simp: rg_inv_def rg_simps)
qed

lemma flush_visible:
  assumes "rg_inv r" shows "rg_inv (flush_all B r) \<and> visible B (flush_all B r) = visible B r"
proof -
  have "rg_inv (fold (flush_one B) items x) \<and> visible B (fold (flush_one B) items x) = visible B r"
    if "rg_inv x" "visible B x = visible B r" "\<forall>(ns, sid, ref) \<in> set items. rg_peek x ns sid = Some ref" for items x
    using that
  proof (induction items arbitrary: x)
    case (Cons i items)
    obtain ns sid ref where i: "i = (ns, sid, ref)" by (cases i) auto
    have "rg_inv (flush_one B i x) \<and> visible B (flush_one B i x) = visible B x \<and> rg_peek (flush_one B i x) = rg_peek x"
      using save_visible [OF Cons.prems(1), of ns sid ref] Cons.prems(3)
      by (cases "save_stream B ns sid ref x") (simp add: flush_one_def i)
    then show ?case using Cons by simp
  qed simp
  moreover have "rg_peek r ns sid = Some ref" if "(ns, sid, ref) \<in> set (snapshot_items r)" for ns sid ref
    using that assms by (auto simp: snapshot_items_def rg_inv_def rg_ok_def rg_peek_def space_def)
  ultimately show ?thesis using assms unfolding flush_all_def by blast
qed

lemma step_visible:
  assumes "rg_step B L det stamp storable r c r'" "rg_inv r"
  shows "rg_inv r' \<and> visible B r' = map_step L det c (visible B r)"
  using assms(1)
proof cases
  case (rg_open now ns sid ref)
  then show ?thesis using open_visible [OF assms(2) rg_open(2)] by auto
next
  case (rg_open_failed now ns sid e)
  then show ?thesis using open_visible [OF assms(2) rg_open_failed(2)] by auto
next
  case (rg_updated ns sid ref f now s)
  then show ?thesis using update_visible [OF assms(2)] by blast
next
  case (rg_deleted ns sid found)
  then show ?thesis using delete_visible [OF assms(2) rg_deleted(2)] by simp
next
  case (rg_delete_failed ns sid e)
  then show ?thesis using delete_visible [OF assms(2) rg_delete_failed(2)] by simp
qed (use assms(2) get_visible flush_visible in auto)

lemma run_visible:
  assumes "rg_steps B L det stamp storable r cs r'" "rg_inv r"
  shows "rg_inv r' \<and> visible B r' = fold (map_step L det) cs (visible B r)"
  using assms by induction (auto dest: step_visible)

text \<open>
  The two halves of an eviction are not one step in the source: an update that reaches the victim
  between its save and its removal is not seen by any later reader.
\<close>

lemma evicted_update_lost:
  assumes "rg_inv r" "rg_peek r ns sid = Some ref" "save_stream B ns sid ref r = (r1, Inr ())"
  shows "visible B (remove_victim ns sid ref (r1\<lparr>rg_heap := (rg_heap r1)[ref := s]\<rparr>)) (ns, sid) = Some (rg_heap r ! ref)"
proof -
  let ?r = "r1\<lparr>rg_heap := (rg_heap r1)[ref := s]\<rparr>"
  note sv = save_visible [OF assms]
  then obtain d where d: "rg_storage r1 = Some d" "stored_log B d (ns, sid) = Some (rg_heap r ! ref)" by blast
  have ok: "rg_ok ?r" "rg_peek ?r ns sid = Some ref" using sv assms(2) by (simp_all add: rg_inv_def rg_simps)
  show ?thesis unfolding remove_victim_eq [OF ok] using d by (simp add: visible_def rg_simps drop_stream_props [OF ok(1)])
qed

lemma start_inv: "clocked d \<Longrightarrow> rg_inv (StreamRegistry n (Some d) m)"
  by (simp add: rg_inv_def StreamRegistry_def rg_ok_def refs_ok_def rg_peek_def space_def)

end

lemma rg_steps_caps:
  assumes "rg_steps B L det stamp storable r cs r'" "rg_ok r" "caps r" shows "rg_ok r' \<and> caps r'"
  using assms by induction (auto dest: rg_step_caps)

text \<open>
  An example: two stored streams, a registry with room for one.  The codec keeps the text; its reader
  knows the first log under its key and the second under any other text.
\<close>

definition demo_codec :: "stream \<Rightarrow> stream \<Rightarrow> codec" where
  "demo_codec s t = \<lparr>cd_compress = (\<lambda>x. x),
     cd_decompress = (\<lambda>x _. Inr \<lparr>zo_out = x, zo_tail = [], zo_flush = [], zo_eof = True, zo_unused = []\<rparr>),
     cd_loads = (\<lambda>x. Inr (st_to_dict (if x = ''s'' then s else t)))\<rparr>"

definition demo_db :: sql_db where
  "demo_db = \<lparr>db_streams = [((''n'', ''a''), \<lparr>sr_payload = ''s'', sr_updated = Fin 1\<rparr>), ((''n'', ''b''), \<lparr>sr_payload = ''s'', sr_updated = Fin 1\<rparr>)],
     db_tombstones = []\<rparr>"

definition demo_calls :: "rg_call list" where
  "demo_calls = [Rg_Get ''n'' ''a'', Rg_Update ''n'' ''a'' (rfold (st_apply libm_demo) demo_ops) (Fin 2), Rg_Get ''n'' ''b'', Rg_Get ''n'' ''a'']"

definition demo_text :: "stream \<Rightarrow> string" where
  "demo_text s = json_text '', '' '': '' (st_to_dict s)"

lemma demo_logs:
  obtains s t where "rfold (st_apply libm_demo) demo_ops s = Inr t" "st_from_dict libm_demo (st_to_dict s) = Inr s"
    "st_from_dict libm_demo (st_to_dict t) = Inr t"
    "int (length (demo_text s)) \<le> MAX_SERIALIZED_STATE_BYTES" "int (length (demo_text t)) \<le> MAX_SERIALIZED_STATE_BYTES"
proof -
  have "case st_init libm_demo (Fin (1/2)) 4 4 2 True of Inl _ \<Rightarrow> False | Inr s \<Rightarrow> int (length (demo_text s)) \<le> MAX_SERIALIZED_STATE_BYTES
      \<and> (case rfold (st_apply libm_demo) demo_ops s of Inl _ \<Rightarrow> False | Inr t \<Rightarrow> int (length (demo_text t)) \<le> MAX_SERIALIZED_STATE_BYTES)"
    by code_simp
  then obtain s t where st: "st_init libm_demo (Fin (1/2)) 4 4 2 True = Inr s" "rfold (st_apply libm_demo) demo_ops s = Inr t"
    and len: "int (length (demo_text s)) \<le> MAX_SERIALIZED_STATE_BYTES" "int (length (demo_text t)) \<le> MAX_SERIALIZED_STATE_BYTES"
    by (auto simp only: split: sum.splits)
  have "is_double 2" using rnd_int [of 2] by (simp add: is_double_def)
  then have "\<forall>op \<in> set demo_ops. op_double op" by (simp add: demo_ops_def op_double_def)
  then have "st_from_dict libm_demo (st_to_dict t) = Inr t"
    using dict_round_trip [OF st _ libm_ok_demo demo_bounds [OF st]] by blast
  moreover have "st_from_dict libm_demo (st_to_dict s) = Inr s"
    using dict_round_trip [of libm_demo "Fin (1/2)" 4 4 2 True s "[]" s] st(1) libm_ok_demo demo_bounds [of s "[]" s] by simp
  ultimately show thesis using that st(2) len by blast
qed

lemma demo_text_brace: "demo_text s \<noteq> ''s''"
  by (simp add: demo_text_def st_to_dict_def sl_to_dict_def)

lemma demo_backend:
  assumes "int (length (demo_text x)) \<le> MAX_SERIALIZED_STATE_BYTES"
  shows "sql_save (demo_codec s t) ns sid \<lparr>ts_log = x, ts_updated = u\<rparr> db = Inr (sql_write ns sid (demo_text x) u db)"
    "decompress_and_deserialize_stream (demo_codec s t) (demo_text x) = Inr (st_to_dict t)"
    "decompress_and_deserialize_stream (demo_codec s t) ''s'' = Inr (st_to_dict s)"
  using assms demo_text_brace [of x]
  by (simp_all add: sql_save_def sql_save_seen_def serialize_and_compress_stream_def decompress_and_deserialize_stream_def
      Let_def ts_to_dict_def demo_text_def [symmetric] demo_codec_def) (simp add: MAX_SERIALIZED_STATE_BYTES_def)

definition demo_end :: "stream \<Rightarrow> stream \<Rightarrow> sql_db stream_registry" where
  "demo_end s t = \<lparr>rg_spaces = [(''n'', [(''a'', 2)])],
     rg_heap = [\<lparr>ts_log = t, ts_updated = Fin 2\<rparr>, \<lparr>ts_log = s, ts_updated = Fin 1\<rparr>, \<lparr>ts_log = t, ts_updated = Fin 2\<rparr>],
     rg_max_ns = 1, rg_max = 1,
     rg_storage = Some (sql_write ''n'' ''a'' (demo_text t) (Fin 2) demo_db), rg_active = 1, rg_evictions = 2\<rparr>"

lemma demo_run:
  obtains s t where "rfold (st_apply libm_demo) demo_ops s = Inr t"
    "rg_steps (sql_backend libm_demo (demo_codec s t)) libm_demo False sql_stamp (sql_storable libm_demo (demo_codec s t))
       (StreamRegistry 1 (Some demo_db) 1) demo_calls (demo_end s t)"
    "sql_load libm_demo (demo_codec s t) ''n'' ''a'' demo_db = Some \<lparr>ts_log = s, ts_updated = Fin 1\<rparr>"
proof -
  obtain s t where st: "rfold (st_apply libm_demo) demo_ops s = Inr t" and rt: "st_from_dict libm_demo (st_to_dict s) = Inr s"
    "st_from_dict libm_demo (st_to_dict t) = Inr t"
    and len: "int (length (demo_text s)) \<le> MAX_SERIALIZED_STATE_BYTES" "int (length (demo_text t)) \<le> MAX_SERIALIZED_STATE_BYTES"
    by (rule demo_logs)
  let ?C = "demo_codec s t" and ?S = "\<lparr>ts_log = s, ts_updated = Fin 1\<rparr>" and ?T = "\<lparr>ts_log = t, ts_updated = Fin 2\<rparr>"
  let ?B = "sql_backend libm_demo ?C" and ?db = "sql_write ''n'' ''a'' (demo_text t) (Fin 2) demo_db"
  note cod = demo_backend [OF len(1), of s t] demo_backend [OF len(2), of s t]
  have ld: "sql_load libm_demo ?C ''n'' ''a'' demo_db = Some ?S" "sql_load libm_demo ?C ''n'' ''b'' demo_db = Some ?S"
    by (simp_all add: sql_load_def demo_db_def cod rt)
  have ld2: "sql_load libm_demo ?C ''n'' ''a'' ?db = Some ?T"
    by (simp add: sql_load_write sql_stamp_def demo_db_def cod rt)
  have w: "sql_write ''n'' ''b'' p (Fin 1) ?db = ?db" for p
    by (simp add: sql_write_def demo_db_def Let_def)
  have sto: "sql_storable libm_demo ?C ?T"
    using len(2) by (simp add: sql_storable_def serialize_and_compress_stream_def Let_def ts_to_dict_def demo_text_def [symmetric] demo_codec_def)
      (use cod(5) rt in \<open>simp add: demo_codec_def\<close>)
  let ?r = "\<lambda>sp h st n. \<lparr>rg_spaces = [(''n'', sp)], rg_heap = h, rg_max_ns = 1, rg_max = 1, rg_storage = Some st, rg_active = 1, rg_evictions = n\<rparr>"
  note defs = rg_get_def rg_peek_def space_def load_stream_def sql_backend_def ld ld2 evict_if_needed_def find_victim_def count_locked_def
    save_stream_def remove_victim_def drop_stream_def set_active_def adopt_stream_def ensure_space_def insert_stream_def Let_def sbind_def cod w
  have g1: "rg_get ?B ''n'' ''a'' (StreamRegistry 1 (Some demo_db) 1) = (?r [(''a'', 0)] [?S] demo_db 0, Inr (Some 0))"
    by (simp add: StreamRegistry_def defs)
  have g2: "rg_get ?B ''n'' ''b'' (?r [(''a'', 0)] [?T] demo_db 0) = (?r [(''b'', 1)] [?T, ?S] ?db 1, Inr (Some 1))"
    by (simp add: defs)
  have g3: "rg_get ?B ''n'' ''a'' (?r [(''b'', 1)] [?T, ?S] ?db 1) = (demo_end s t, Inr (Some 2))"
    by (simp add: defs demo_end_def)
  let ?step = "rg_step ?B libm_demo False sql_stamp (sql_storable libm_demo ?C)"
  have u: "?step (?r [(''a'', 0)] [?S] demo_db 0) (Rg_Update ''n'' ''a'' (rfold (st_apply libm_demo) demo_ops) (Fin 2)) (?r [(''a'', 0)] [?T] demo_db 0)"
    using rg_updated [of "?r [(''a'', 0)] [?S] demo_db 0" "''n''" "''a''" 0 "rfold (st_apply libm_demo) demo_ops" "Fin 2" ?T
        "sql_storable libm_demo ?C" sql_stamp ?B libm_demo False] sto st
    by (simp add: rg_peek_def space_def ts_modify_def clock_ok_def sql_stamp_def demo_db_def)
  have "rg_steps ?B libm_demo False sql_stamp (sql_storable libm_demo ?C) (StreamRegistry 1 (Some demo_db) 1)
      ((([] @ [Rg_Get ''n'' ''a'']) @ [Rg_Update ''n'' ''a'' (rfold (st_apply libm_demo) demo_ops) (Fin 2)]) @ [Rg_Get ''n'' ''b''] @ []) (?r [(''b'', 1)] [?T, ?S] ?db 1)"
    unfolding append_Nil2 by (rule rg_more [OF rg_more [OF rg_more [OF rg_done rg_got [OF g1]] u] rg_got [OF g2]])
  from rg_more [OF this rg_got [OF g3]] show thesis using that [OF st _ ld(1)] by (simp add: demo_calls_def)
qed

section \<open>Properties\<close>

text \<open>
  C20: Neither cap is ever exceeded.  In every run of the registry, with any backend or none and
  whatever the backend answers, no namespace holds more streams than its cap, all together not more
  than the total cap, and the gauge of active streams is their number.
\<close>

theorem registry_bounded:
  assumes "1 \<le> n" "1 \<le> m" and "rg_steps B L det stamp storable (StreamRegistry n storage m) cs r"
  shows "(\<forall>ns. int (length (space r ns)) \<le> rg_max_ns r) \<and> count_locked r \<le> rg_max r \<and> rg_active r = count_locked r"
proof -
  have "rg_ok (StreamRegistry n storage m) \<and> caps (StreamRegistry n storage m)"
    using assms(1,2) by (simp add: rg_ok_def caps_def StreamRegistry_def space_def count_locked_def)
  then show ?thesis using rg_steps_caps [OF assms(3)] by (simp add: caps_def)
qed



theorem registry_bounded_witness:
  "\<exists>s t. rg_steps (sql_backend libm_demo (demo_codec s t)) libm_demo False sql_stamp (sql_storable libm_demo (demo_codec s t))
      (StreamRegistry 1 (Some demo_db) 1) demo_calls (demo_end s t) \<and> rg_evictions (demo_end s t) = 2 \<and> count_locked (demo_end s t) \<le> rg_max (demo_end s t)"
  by (rule demo_run) (use registry_bounded [of 1 1] in \<open>fastforce simp: demo_end_def\<close>)

end
