(* ===== verification/Sql.thy ===== *)
theory Sql
  imports Stream_Laws Json_Text StateResult
begin

text \<open>
  Streaming SQL (\<^verbatim>\<open>sql.py\<close>): the scanner and parser of queries, the engine that ingests rows into one
  log per group, the evaluation of \<^verbatim>\<open>HAVING\<close>, and queries on a live log.  Text is ASCII; rows hold
  numbers, texts, truth values and \<^verbatim>\<open>None\<close>.  The parser of Python expressions is a parameter that gives
  the syntax tree.
\<close>

section \<open>Scanning\<close>

definition char_upper :: "char \<Rightarrow> char" where
  "char_upper c = (let n = of_char c :: nat in if 97 \<le> n \<and> n \<le> 122 then char_of (n - 32) else c)"

definition py_upper :: "string \<Rightarrow> string" where
  "py_upper s = map char_upper s"

definition is_quote :: "char \<Rightarrow> bool" where
  "is_quote c \<longleftrightarrow> c = CHR 0x27 \<or> c = CHR 0x22"

definition is_alnum :: "char \<Rightarrow> bool" where
  "is_alnum c \<longleftrightarrow> (let n = of_char c :: nat in (48 \<le> n \<and> n \<le> 57) \<or> (65 \<le> n \<and> n \<le> 90) \<or> (97 \<le> n \<and> n \<le> 122))"

text \<open>Collapsing white space outside quotes: the open quote, a pending space, whether there is output.\<close>

fun norm_space :: "char option \<Rightarrow> bool \<Rightarrow> bool \<Rightarrow> string \<Rightarrow> string" where
  "norm_space q pending out [] = []"
| "norm_space (Some q) pending out (c # cs) =
    (if c = q then (case cs of
       d # ds \<Rightarrow> if d = q then c # d # norm_space (Some q) pending True ds else c # norm_space None pending True cs
     | [] \<Rightarrow> [c])
     else c # norm_space (Some q) pending True cs)"
| "norm_space None pending out (c # cs) =
    (if is_quote c then (if pending \<and> out then '' '' else []) @ c # norm_space (Some c) False True cs
     else if is_space c then norm_space None True out cs
     else (if pending \<and> out then '' '' else []) @ c # norm_space None False True cs)"

definition normalize_whitespace :: "string \<Rightarrow> string" where
  "normalize_whitespace s = norm_space None False False s"

text \<open>
  Searching a keyword outside quotes and parentheses: position, whether the character before is the
  start or white space, open quote, depth.
\<close>

fun find_scan :: "string \<Rightarrow> nat \<Rightarrow> bool \<Rightarrow> char option \<Rightarrow> nat \<Rightarrow> string \<Rightarrow> nat option result" where
  "find_scan target i free q depth [] =
    (if q \<noteq> None \<or> depth \<noteq> 0 then Inl (ValueError ''Unbalanced SQL expression'') else Inr None)"
| "find_scan target i free (Some q) depth (c # cs) =
    (if c = q then (case cs of
       d # ds \<Rightarrow> if d = q then find_scan target (i + 2) False (Some q) depth ds else find_scan target (i + 1) (is_space c) None depth cs
     | [] \<Rightarrow> find_scan target (i + 1) (is_space c) None depth [])
     else find_scan target (i + 1) (is_space c) (Some q) depth cs)"
| "find_scan target i free None depth (c # cs) =
    (if is_quote c then find_scan target (i + 1) (is_space c) (Some c) depth cs
     else if c = CHR ''('' then find_scan target (i + 1) (is_space c) None (depth + 1) cs
     else if c = CHR '')'' then
       (if depth = 0 then Inl (ValueError ''Unbalanced SQL parentheses'') else find_scan target (i + 1) (is_space c) None (depth - 1) cs)
     else if depth = 0 \<and> take (length target) (py_upper (c # cs)) = target \<and> free \<and>
         (case drop (length target) (c # cs) of [] \<Rightarrow> True | x # _ \<Rightarrow> is_space x)
       then Inr (Some i)
     else find_scan target (i + 1) (is_space c) None depth cs)"

definition find_keyword :: "string \<Rightarrow> string \<Rightarrow> nat \<Rightarrow> nat option result" where
  "find_keyword s keyword start = find_scan (py_upper keyword) start
     (start = 0 \<or> (case drop (start - 1) s of [] \<Rightarrow> False | c # _ \<Rightarrow> is_space c)) None 0 (drop start s)"

text \<open>Splitting at commas outside quotes and parentheses; \<open>cur\<close> is the current part, reversed.\<close>

fun split_scan :: "char option \<Rightarrow> nat \<Rightarrow> string \<Rightarrow> string \<Rightarrow> string list result" where
  "split_scan q depth cur [] =
    raise_if (q \<noteq> None \<or> depth \<noteq> 0) (ValueError ''Unbalanced SQL expression'')
   (raise_if (py_strip (rev cur) = []) (ValueError ''Empty SQL expression'')
   (Inr [py_strip (rev cur)]))"
| "split_scan (Some q) depth cur (c # cs) =
    (if c = q then (case cs of
       d # ds \<Rightarrow> if d = q then split_scan (Some q) depth (d # c # cur) ds else split_scan None depth (c # cur) cs
     | [] \<Rightarrow> split_scan None depth (c # cur) [])
     else split_scan (Some q) depth (c # cur) cs)"
| "split_scan None depth cur (c # cs) =
    (if is_quote c then split_scan (Some c) depth (c # cur) cs
     else if c = CHR ''('' then split_scan None (depth + 1) (c # cur) cs
     else if c = CHR '')'' then
       (if depth = 0 then Inl (ValueError ''Unbalanced SQL parentheses'') else split_scan None (depth - 1) (c # cur) cs)
     else if c = CHR '','' \<and> depth = 0 then
       raise_if (py_strip (rev cur) = []) (ValueError ''Empty SQL expression'')
      (rbind (split_scan None 0 [] cs) (\<lambda>parts. Inr (py_strip (rev cur) # parts)))
     else split_scan None depth (c # cur) cs)"

definition split_top_level :: "string \<Rightarrow> string list result" where
  "split_top_level s = split_scan None 0 [] s"

section \<open>Parsing\<close>

datatype selection = Agg string string string | Col string string

record plan =
  pl_selects :: "selection list"
  pl_from :: string
  pl_group_by :: "string list"
  pl_having :: "string option"

definition strip_quotes :: "string \<Rightarrow> string" where
  "strip_quotes s = rev (dropWhile is_quote (rev (dropWhile is_quote s)))"

definition aggregates :: "string list" where
  "aggregates = [''p99'', ''p95'', ''p50'', ''unique_count'', ''event_count'']"

definition parse_aggregate :: "string \<Rightarrow> string \<Rightarrow> string \<Rightarrow> selection result" where
  "parse_aggregate name argument alias =
    (let f0 = py_lower (py_strip name) in
     raise_if (f0 = [] \<or> \<not> list_all (\<lambda>c. c = CHR ''_'' \<or> is_alnum c) f0) (ValueError ''Invalid aggregate function name'')
    (let f = (if f0 = ''count_unique'' then ''unique_count'' else f0) in
     raise_if (f \<notin> set aggregates) (ValueError (''Unsupported aggregate function: '' @ f))
    (let col = py_strip argument in
     raise_if (col = []) (ValueError (f @ '' requires an argument''))
    (if f = ''event_count'' then
       rbind (split_top_level col) (\<lambda>args. case args of
         [_, key] \<Rightarrow> Inr (Agg f (strip_quotes key) alias)
       | [_] \<Rightarrow> Inr (Agg f col alias)
       | _ \<Rightarrow> Inl (ValueError ''event_count accepts one key or (column, key)''))
     else Inr (Agg f col alias)))))"

definition parse_item :: "string \<Rightarrow> selection result" where
  "parse_item part0 = (let part = py_strip part0 in
    rbind (find_keyword part ''AS'' 0) (\<lambda>pos.
    rbind (case pos of
        None \<Rightarrow> Inr (part, part)
      | Some i \<Rightarrow> let expr = py_strip (take i part); alias = py_strip (drop (i + 2) part) in
          raise_if (expr = [] \<or> alias = []) (ValueError ''AS requires an expression and alias'') (Inr (expr, alias)))
      (\<lambda>(expr, alias).
      let name = takeWhile (\<lambda>c. c \<noteq> CHR ''('') expr in
      if length name < length expr \<and> name \<noteq> [] \<and> last expr = CHR '')''
      then parse_aggregate name (butlast (drop (length name + 1) expr)) alias
      else Inr (Col expr alias))))"

definition parse_select :: "string \<Rightarrow> selection list result" where
  "parse_select clause = rbind (split_top_level clause) (rmap parse_item)"

definition SQLParser :: "string \<Rightarrow> string result" where
  "SQLParser query = (let stripped = py_strip query in
     raise_if (4096 < length stripped) (ValueError ''SQL query exceeds 4096 characters'')
    (Inr (normalize_whitespace stripped)))"

text \<open>A slice \<^verbatim>\<open>s[i:j]\<close>, stripped.\<close>

definition clause :: "string \<Rightarrow> nat \<Rightarrow> nat \<Rightarrow> string" where
  "clause s i j = py_strip (drop i (take j s))"

definition sql_parse :: "string \<Rightarrow> plan result" where
  "sql_parse q =
    raise_if (py_upper (take 6 q) \<noteq> ''SELECT'') (ValueError ''Query must start with SELECT'')
   (raise_if (length q = 6 \<or> \<not> is_space (q ! 6)) (ValueError ''SELECT must be followed by an expression'')
   (rbind (find_keyword q ''FROM'' 7) (\<lambda>from_index. case from_index of
      None \<Rightarrow> Inl (ValueError ''Query must contain FROM'')
    | Some f \<Rightarrow>
      rbind (find_keyword q ''GROUP BY'' (f + 4)) (\<lambda>group_index.
      rbind (find_keyword q ''HAVING'' (f + 4)) (\<lambda>having_index.
      raise_if (case (group_index, having_index) of (Some g, Some h) \<Rightarrow> h < g | _ \<Rightarrow> False) (ValueError ''HAVING must follow GROUP BY'')
     (let select_clause = clause q 6 f;
          having_end = (case having_index of Some h \<Rightarrow> h | None \<Rightarrow> length q);
          from_end = (case group_index of Some g \<Rightarrow> g | None \<Rightarrow> having_end);
          from_clause = clause q (f + 4) from_end;
          group_clause = map_option (\<lambda>g. clause q (g + 8) having_end) group_index;
          having_clause = map_option (\<lambda>h. clause q (h + 6) (length q)) having_index in
      raise_if (select_clause = [] \<or> from_clause = []) (ValueError ''SELECT and FROM clauses must not be empty'')
     (raise_if (group_clause = Some []) (ValueError ''GROUP BY must not be empty'')
     (raise_if (having_clause = Some []) (ValueError ''HAVING must not be empty'')
     (rbind (parse_select select_clause) (\<lambda>selects.
      rbind (case group_clause of None \<Rightarrow> Inr [] | Some g \<Rightarrow> split_top_level g) (\<lambda>groups.
      Inr \<lparr>pl_selects = selects, pl_from = from_clause, pl_group_by = groups, pl_having = having_clause\<rparr>)))))))))))"

section \<open>Values\<close>

text \<open>\<^verbatim>\<open>str(v)\<close> and \<^verbatim>\<open>float(v)\<close> of a cell.\<close>

fun cell_str :: "pyval \<Rightarrow> string" where
  "cell_str (PStr s) = s"
| "cell_str (PInt n) = int_str n"
| "cell_str (PBool b) = (if b then ''True'' else ''False'')"
| "cell_str (PFloat f) = (case f of PInf \<Rightarrow> ''inf'' | NInf \<Rightarrow> ''-inf'' | NaN \<Rightarrow> ''nan'' | _ \<Rightarrow> float_repr f)"
| "cell_str _ = ''None''"

definition int_float :: "int \<Rightarrow> pyfloat result" where
  "int_float n = raise_if (f_isinf (f_of_int n)) (OverflowError ''int too large to convert to float'') (Inr (f_of_int n))"

fun cell_float :: "pyval \<Rightarrow> pyfloat result" where
  "cell_float (PInt n) = int_float n"
| "cell_float (PFloat f) = Inr f"
| "cell_float (PBool b) = Inr (Fin (if b then 1 else 0))"
| "cell_float (PStr s) = py_float_of_str s"
| "cell_float _ = Inl (TypeError ''float() argument must be a string or a real number'')"

fun cell_key :: "pyval \<Rightarrow> event_key" where
  "cell_key (PStr s) = KStr s"
| "cell_key (PInt n) = KInt n"
| "cell_key (PBool b) = KInt (if b then 1 else 0)"
| "cell_key v = KOther (cell_str v)"

text \<open>A number that stands for an integer, a float or a truth value.\<close>

fun as_number :: "pyval \<Rightarrow> pyval option" where
  "as_number (PInt n) = Some (PInt n)"
| "as_number (PFloat f) = Some (PFloat f)"
| "as_number (PBool b) = Some (PInt (if b then 1 else 0))"
| "as_number _ = None"

text \<open>Equal keys of a dictionary: numbers are equal by value.\<close>

definition hash_key :: "pyval \<Rightarrow> pyval" where
  "hash_key v = (case as_number v of
     Some (PFloat (Fin q)) \<Rightarrow> if of_int \<lfloor>q\<rfloor> = q then PInt \<lfloor>q\<rfloor> else PFloat (Fin q)
   | Some x \<Rightarrow> x
   | None \<Rightarrow> v)"

section \<open>Conditions\<close>

datatype arith_op = Add | Sub | Mult | Div
datatype cmp_op = Eq | NotEq | Lt | LtE | Gt | GtE | OtherCmp

text \<open>The nodes that are evaluated, and all others.\<close>

datatype expr =
    EConst pyval
  | EName string
  | EUnary bool expr
  | EBool bool "expr list"
  | EBin arith_op expr expr
  | ECompare expr "(cmp_op \<times> expr) list"
  | EOther

text \<open>\<^verbatim>\<open>re.sub(r'(?<![<>=!])=(?![=])', '==', s)\<close>.\<close>

fun double_equals :: "bool \<Rightarrow> string \<Rightarrow> string" where
  "double_equals blocked [] = []"
| "double_equals blocked (c # cs) =
    (if c = CHR ''='' \<and> \<not> blocked \<and> (case cs of d # _ \<Rightarrow> d \<noteq> CHR ''='' | [] \<Rightarrow> True) then ''=='' else [c])
     @ double_equals (c \<in> set ''<>=!'') cs"

fun arith_int :: "arith_op \<Rightarrow> int \<Rightarrow> int \<Rightarrow> pyval result" where
  "arith_int Add a b = Inr (PInt (a + b))"
| "arith_int Sub a b = Inr (PInt (a - b))"
| "arith_int Mult a b = Inr (PInt (a * b))"
| "arith_int Div a b = raise_if (b = 0) (ZeroDivisionError ''division by zero'')
    (let q = to_float (of_int a / of_int b) in
     raise_if (f_isinf q) (OverflowError ''integer division result too large for a float'') (Inr (PFloat q)))"

fun arith_float :: "arith_op \<Rightarrow> pyfloat \<Rightarrow> pyfloat \<Rightarrow> pyval result" where
  "arith_float Add a b = Inr (PFloat (f_add a b))"
| "arith_float Sub a b = Inr (PFloat (f_sub a b))"
| "arith_float Mult a b = Inr (PFloat (f_mul a b))"
| "arith_float Div a b = rbind (f_div a b) (\<lambda>q. Inr (PFloat q))"

definition repeat_str :: "int \<Rightarrow> string \<Rightarrow> pyval" where
  "repeat_str n s = PStr (concat (replicate (nat n) s))"

definition arith :: "arith_op \<Rightarrow> pyval \<Rightarrow> pyval \<Rightarrow> pyval result" where
  "arith oper a b = (case (as_number a, as_number b) of
     (Some (PInt m), Some (PInt n)) \<Rightarrow> arith_int oper m n
   | (Some x, Some y) \<Rightarrow> rbind (cell_float x) (\<lambda>p. rbind (cell_float y) (\<lambda>q. arith_float oper p q))
   | _ \<Rightarrow> (case (oper, a, b) of
       (Add, PStr s, PStr t) \<Rightarrow> Inr (PStr (s @ t))
     | (Mult, PStr s, _) \<Rightarrow> (case as_number b of Some (PInt n) \<Rightarrow> Inr (repeat_str n s) | _ \<Rightarrow> Inl (TypeError ''unsupported operand type(s)''))
     | (Mult, _, PStr s) \<Rightarrow> (case as_number a of Some (PInt n) \<Rightarrow> Inr (repeat_str n s) | _ \<Rightarrow> Inl (TypeError ''unsupported operand type(s)''))
     | _ \<Rightarrow> Inl (TypeError ''unsupported operand type(s)'')))"

fun str_lt :: "string \<Rightarrow> string \<Rightarrow> bool" where
  "str_lt [] t = (t \<noteq> [])"
| "str_lt (c # s) [] = False"
| "str_lt (c # s) (d # t) = (of_char c < (of_char d :: nat) \<or> c = d \<and> str_lt s t)"

definition cell_eq :: "pyval \<Rightarrow> pyval \<Rightarrow> bool" where
  "cell_eq a b = (case (as_number a, as_number b) of
     (Some x, Some y) \<Rightarrow> f_eq (num_value x) (num_value y) | (None, None) \<Rightarrow> a = b | _ \<Rightarrow> False)"

definition cell_lt :: "pyval \<Rightarrow> pyval \<Rightarrow> bool result" where
  "cell_lt a b = (case (as_number a, as_number b) of
     (Some x, Some y) \<Rightarrow> Inr (f_lt (num_value x) (num_value y))
   | _ \<Rightarrow> (case (a, b) of (PStr s, PStr t) \<Rightarrow> Inr (str_lt s t) | _ \<Rightarrow> Inl (TypeError ''not supported between instances'')))"

definition cell_le :: "pyval \<Rightarrow> pyval \<Rightarrow> bool result" where
  "cell_le a b = (case (as_number a, as_number b) of
     (Some x, Some y) \<Rightarrow> Inr (f_le (num_value x) (num_value y))
   | _ \<Rightarrow> (case (a, b) of (PStr s, PStr t) \<Rightarrow> Inr (s = t \<or> str_lt s t) | _ \<Rightarrow> Inl (TypeError ''not supported between instances'')))"

fun compare_cells :: "cmp_op \<Rightarrow> pyval \<Rightarrow> pyval \<Rightarrow> bool result" where
  "compare_cells Eq a b = Inr (cell_eq a b)"
| "compare_cells NotEq a b = Inr (\<not> cell_eq a b)"
| "compare_cells Lt a b = cell_lt a b"
| "compare_cells LtE a b = cell_le a b"
| "compare_cells Gt a b = cell_lt b a"
| "compare_cells GtE a b = cell_le b a"
| "compare_cells OtherCmp a b = Inl (ValueError ''Unsupported HAVING comparison'')"

fun is_constant :: "pyval \<Rightarrow> bool" where
  "is_constant (PStr _) = True"
| "is_constant (PInt _) = True"
| "is_constant (PFloat _) = True"
| "is_constant (PBool _) = True"
| "is_constant _ = False"

text \<open>Evaluation; a conjunction evaluates all its operands, a chain of comparisons stops at the first that fails.\<close>

lemma rmap_cong [fundef_cong]: "xs = ys \<Longrightarrow> (\<And>x. x \<in> set ys \<Longrightarrow> f x = g x) \<Longrightarrow> rmap f xs = rmap g ys"
  by (induction xs arbitrary: ys) auto

function (sequential) evaluate_node :: "(string, pyval) dict \<Rightarrow> expr \<Rightarrow> pyval result"
  and evaluate_chain :: "(string, pyval) dict \<Rightarrow> pyval \<Rightarrow> (cmp_op \<times> expr) list \<Rightarrow> pyval result" where
  "evaluate_node row (EConst v) = (if is_constant v then Inr v else Inl (ValueError ''Unsupported HAVING expression''))"
| "evaluate_node row (EName x) = (case map_of row x of None \<Rightarrow> Inl (KeyError x) | Some v \<Rightarrow> Inr v)"
| "evaluate_node row (EUnary negate e) = rbind (evaluate_node row e) (\<lambda>v. if negate then
     (case as_number v of Some n \<Rightarrow> Inr (num_neg n) | None \<Rightarrow> Inl (TypeError ''bad operand type for unary -'')) else Inr v)"
| "evaluate_node row (EBool every es) = rbind (rmap (evaluate_node row) es) (\<lambda>vs.
     Inr (PBool (if every then list_all py_truth vs else list_ex py_truth vs)))"
| "evaluate_node row (EBin oper a b) = rbind (evaluate_node row a) (\<lambda>x. rbind (evaluate_node row b) (\<lambda>y. arith oper x y))"
| "evaluate_node row (ECompare e cs) = rbind (evaluate_node row e) (\<lambda>v. evaluate_chain row v cs)"
| "evaluate_node row EOther = Inl (ValueError ''Unsupported HAVING expression'')"
| "evaluate_chain row left [] = Inr (PBool True)"
| "evaluate_chain row left ((c, e) # cs) = rbind (evaluate_node row e) (\<lambda>right.
     rbind (compare_cells c left right) (\<lambda>holds. if holds then evaluate_chain row right cs else Inr (PBool False)))"
  by pat_completeness auto

termination
proof (relation "measure (case_sum (\<lambda>(_, e). size e) (\<lambda>(_, _, cs). size_list (size_prod (\<lambda>_. 0) size) cs))", goal_cases)
  case (3 row every es x)
  then show ?case using size_list_estimation' [of x es "size x" size] by simp
qed simp_all

fun having_error :: "py_error \<Rightarrow> bool" where
  "having_error (TypeError _) = True"
| "having_error (ValueError _) = True"
| "having_error (KeyError _) = True"
| "having_error (ZeroDivisionError _) = True"
| "having_error _ = False"

text \<open>The parser gives nothing for a syntax error.\<close>

definition eval_having :: "(string \<Rightarrow> expr option) \<Rightarrow> string \<Rightarrow> (string, pyval) dict \<Rightarrow> bool result" where
  "eval_having parse condition row = (case parse (double_equals False condition) of
     None \<Rightarrow> Inr False
   | Some e \<Rightarrow> (case evaluate_node row e of
       Inr v \<Rightarrow> Inr (py_truth v)
     | Inl err \<Rightarrow> if having_error err then Inr False else Inl err))"

section \<open>The engine over rows\<close>

text \<open>
  Groups are found by equal keys; each keeps the key of its first row.  A log made for the engine is an
  argument, since its configuration is.
\<close>

record sql_engine =
  en_plan :: plan
  en_groups :: "(pyval list, pyval list \<times> stream) dict"
  en_global :: stream

definition SQLStreamEngine :: "string \<Rightarrow> stream result \<Rightarrow> sql_engine result" where
  "SQLStreamEngine query fresh = rbind (SQLParser query) (\<lambda>q. rbind (sql_parse q) (\<lambda>p. rbind fresh (\<lambda>s.
     Inr \<lparr>en_plan = p, en_groups = [], en_global = s\<rparr>)))"

definition add_selection :: "libm \<Rightarrow> (string, pyval) dict \<Rightarrow> selection \<Rightarrow> stream \<Rightarrow> stream result" where
  "add_selection L row sel s = (case sel of
     Col _ _ \<Rightarrow> Inr s
   | Agg func col _ \<Rightarrow>
     (let v = dict_get row col PNone in
      if func \<in> {''p99'', ''p95'', ''p50''} then (if v = PNone then Inr s else rbind (cell_float v) (\<lambda>x. st_add_latency L x s))
      else if func = ''unique_count'' then (if v = PNone then Inr s else st_add_unique (cell_key v) s)
      else if func = ''event_count'' then
        (if col = ''*'' then st_add_event (KStr ''*'') 1 s
         else if v = PNone then Inr s else st_add_event (KStr (cell_str v)) 1 s)
      else Inr s))"

text \<open>The log keeps what was added before a selection raises.\<close>

fun add_selections :: "libm \<Rightarrow> (string, pyval) dict \<Rightarrow> selection list \<Rightarrow> (stream, unit) step" where
  "add_selections L row [] s = (s, Inr ())"
| "add_selections L row (sel # sels) s = (case add_selection L row sel s of
     Inl e \<Rightarrow> (s, Inl e) | Inr s' \<Rightarrow> add_selections L row sels s')"

definition add_row :: "libm \<Rightarrow> stream result \<Rightarrow> (string, pyval) dict \<Rightarrow> (sql_engine, unit) step" where
  "add_row L fresh row e =
    (let sels = pl_selects (en_plan e); groups = pl_group_by (en_plan e) in
     if groups \<noteq> [] then
       let key = map (\<lambda>col. dict_get row col PNone) groups; k = map hash_key key in
       (case (case map_of (en_groups e) k of Some g \<Rightarrow> Inr g | None \<Rightarrow> rbind fresh (\<lambda>s. Inr (key, s))) of
          Inl err \<Rightarrow> (e, Inl err)
        | Inr (key0, s) \<Rightarrow> (case add_selections L row sels s of
            (s', r) \<Rightarrow> (e\<lparr>en_groups := AList.update k (key0, s') (en_groups e)\<rparr>, r)))
     else (case add_selections L row sels (en_global e) of (s', r) \<Rightarrow> (e\<lparr>en_global := s'\<rparr>, r)))"

definition aggregate_value :: "libm \<Rightarrow> stream \<Rightarrow> string \<Rightarrow> pyval result" where
  "aggregate_value L s func =
    (if func = ''p99'' then rbind (st_percentile L s (to_float (99 / 100))) (\<lambda>x. Inr (PFloat x))
     else if func = ''p95'' then rbind (st_percentile L s (to_float (95 / 100))) (\<lambda>x. Inr (PFloat x))
     else if func = ''p50'' then rbind (st_percentile L s (to_float (50 / 100))) (\<lambda>x. Inr (PFloat x))
     else rbind (st_unique_count L s) (\<lambda>n. Inr (PInt n)))"

definition output_selection :: "libm \<Rightarrow> stream \<Rightarrow> selection \<Rightarrow> (string, pyval) dict \<Rightarrow> (string, pyval) dict result" where
  "output_selection L s sel out = (case sel of
     Col _ alias \<Rightarrow> Inr (if dict_mem alias out then out else AList.update alias PNone out)
   | Agg func col alias \<Rightarrow>
     (if func \<in> {''p99'', ''p95'', ''p50'', ''unique_count''} then
        rbind (aggregate_value L s func) (\<lambda>v. Inr (AList.update alias v out))
      else if func = ''event_count'' then
        (if col = ''*'' then Inr (AList.update alias (PInt (st_total_events s)) out)
         else (case map_of out col of
            Some v \<Rightarrow> rbind (st_event_count s (KStr (cell_str v))) (\<lambda>n. Inr (AList.update alias (PInt n) out))
          | None \<Rightarrow> Inr (AList.update alias (PInt (st_total_events s)) out)))
      else Inr out))"

definition output_row :: "libm \<Rightarrow> plan \<Rightarrow> pyval list \<Rightarrow> stream \<Rightarrow> (string, pyval) dict result" where
  "output_row L p key s = rfold (output_selection L s) (pl_selects p)
     (fold (\<lambda>(col, v). AList.update col v) (zip (pl_group_by p) key) [])"

definition having_holds :: "(string \<Rightarrow> expr option) \<Rightarrow> plan \<Rightarrow> (string, pyval) dict \<Rightarrow> bool result" where
  "having_holds parse p out = (case pl_having p of
     None \<Rightarrow> Inr True | Some h \<Rightarrow> if h = [] then Inr True else eval_having parse h out)"

definition execute_query :: "libm \<Rightarrow> (string \<Rightarrow> expr option) \<Rightarrow> sql_engine \<Rightarrow> (string, pyval) dict list result" where
  "execute_query L parse e =
    (let p = en_plan e; items = (if pl_group_by p \<noteq> [] then map snd (en_groups e) else [([], en_global e)]) in
     rbind (rmap (\<lambda>(key, s). rbind (output_row L p key s) (\<lambda>out. rbind (having_holds parse p out) (\<lambda>b. Inr (b, out)))) items) (\<lambda>rows.
     Inr (map snd (filter fst rows))))"

section \<open>Queries on a live log\<close>

definition stream_selection :: "libm \<Rightarrow> stream \<Rightarrow> selection \<Rightarrow> (string, pyval) dict \<Rightarrow> (string, pyval) dict result" where
  "stream_selection L s sel out = (case sel of
     Col _ _ \<Rightarrow> Inl (ValueError ''Live stream queries support aggregate expressions only'')
   | Agg func col alias \<Rightarrow>
     rbind (if func \<in> {''p99'', ''p95'', ''p50'', ''unique_count''} then aggregate_value L s func
       else if func = ''event_count'' then
         (if col = ''*'' then Inr (PInt (st_total_events s)) else rbind (st_event_count s (KStr col)) (\<lambda>n. Inr (PInt n)))
       else Inl (ValueError (''Unsupported aggregate function: '' @ func))) (\<lambda>v.
     Inr (AList.update alias v out)))"

definition execute_stream_query :: "libm \<Rightarrow> (string \<Rightarrow> expr option) \<Rightarrow> plan \<Rightarrow> stream \<Rightarrow> (string, pyval) dict result" where
  "execute_stream_query L parse p s =
    raise_if (pl_group_by p \<noteq> []) (ValueError ''GROUP BY is available only in embedded row-ingestion mode'')
   (rbind (rfold (stream_selection L s) (pl_selects p) []) (\<lambda>out.
    rbind (having_holds parse p out) (\<lambda>b. Inr (if b then out else []))))"

end
