(* ===== verification/Sql_Print.thy ===== *)
theory Sql_Print
  imports Sql_Laws
begin

text \<open>
  A printer for query plans and the proof that the parser reads back what it prints.  A query is text
  made of tokens without white space; the scanner of the parser moves from token to token.
\<close>

section \<open>Printing\<close>

definition print_selection :: "selection \<Rightarrow> string" where
  "print_selection sel = (case sel of
     Agg func col shown \<Rightarrow> func @ ''('' @ col @ '') AS '' @ shown
   | Col col shown \<Rightarrow> col @ '' AS '' @ shown)"

definition print_plan :: "plan \<Rightarrow> string" where
  "print_plan p = ''SELECT '' @ py_join '', '' (map print_selection (pl_selects p)) @ '' FROM '' @ pl_from p
     @ (if pl_group_by p = [] then [] else '' GROUP BY '' @ py_join '', '' (pl_group_by p))
     @ (case pl_having p of None \<Rightarrow> [] | Some h \<Rightarrow> '' HAVING '' @ h)"

text \<open>Names that need no quoting: no white space, quote, parenthesis or comma, and no keyword.\<close>

definition name_char :: "char \<Rightarrow> bool" where
  "name_char c \<longleftrightarrow> \<not> is_space c \<and> \<not> is_quote c \<and> c \<noteq> CHR ''('' \<and> c \<noteq> CHR '')'' \<and> c \<noteq> CHR '',''"

definition plain_name :: "string \<Rightarrow> bool" where
  "plain_name w \<longleftrightarrow> w \<noteq> [] \<and> list_all name_char w \<and> py_upper w \<notin> {''AS'', ''FROM'', ''GROUP'', ''HAVING''}"

fun plain_selection :: "selection \<Rightarrow> bool" where
  "plain_selection (Agg func col shown) \<longleftrightarrow> func \<in> set aggregates \<and> plain_name col \<and> plain_name shown"
| "plain_selection (Col col shown) \<longleftrightarrow> plain_name col \<and> plain_name shown"

text \<open>A condition with its white space collapsed, balanced, and without a clause of its own.\<close>

definition plain_having :: "string \<Rightarrow> bool" where
  "plain_having h \<longleftrightarrow> h \<noteq> [] \<and> \<not> is_space (hd h) \<and> \<not> is_space (last h) \<and> normalize_whitespace h = h
     \<and> find_keyword h ''GROUP BY'' 0 = Inr None"

definition plain_plan :: "plan \<Rightarrow> bool" where
  "plain_plan p \<longleftrightarrow> pl_selects p \<noteq> [] \<and> list_all plain_selection (pl_selects p) \<and> plain_name (pl_from p)
     \<and> list_all plain_name (pl_group_by p) \<and> (case pl_having p of None \<Rightarrow> True | Some h \<Rightarrow> plain_having h)"

section \<open>Tokens\<close>

lemma name_char_simps [simp]:
  assumes "name_char c"
  shows "\<not> is_space c" "\<not> is_quote c" "c \<noteq> CHR ''(''" "c \<noteq> CHR '')''" "c \<noteq> CHR '',''"
  using assms by (simp_all add: name_char_def)

lemma is_space_upper [simp]: "is_space (char_upper c) = is_space c"
  by (auto simp: char_upper_def is_space_def Let_def)

lemma special_chars [simp]:
  "is_space CHR '' ''" "\<not> is_space CHR '',''" "\<not> is_space CHR ''(''" "\<not> is_space CHR '')''"
  "\<not> is_quote CHR '' ''" "\<not> is_quote CHR '',''" "\<not> is_quote CHR ''(''" "\<not> is_quote CHR '')''"
  by code_simp+

text \<open>The first token of what is scanned is a keyword whenever the scanner matches it.\<close>

lemma match_token:
  assumes "take (length t) (py_upper s) = t" "case drop (length t) s of [] \<Rightarrow> True | x # _ \<Rightarrow> is_space x"
  shows "takeWhile (\<lambda>c. \<not> is_space c) (py_upper s) = takeWhile (\<lambda>c. \<not> is_space c) t"
proof -
  obtain r where r: "py_upper s = t @ r" using assms(1) by (metis append_take_drop_id)
  have "r = py_upper (drop (length t) s)" using arg_cong [OF r, of "drop (length t)"] by (simp add: py_upper_def drop_map)
  then have "r = [] \<or> is_space (hd r)" using assms(2) by (cases "drop (length t) s") (auto simp: py_upper_def)
  then have "takeWhile (\<lambda>c. \<not> is_space c) r = []" by (cases r) auto
  then show ?thesis unfolding r by (auto simp: takeWhile_append intro: takeWhile_eq_all_conv [THEN iffD2, symmetric])
qed

lemma skip_name: "list_all name_char w \<Longrightarrow> find_scan t i False None 0 (w @ s) = find_scan t (i + length w) False None 0 s"
  by (induction w arbitrary: i) auto

lemma skip_inner: "list_all name_char w \<Longrightarrow> 0 < d \<Longrightarrow> find_scan t i b None d (w @ s) = find_scan t (i + length w) (w = [] \<and> b) None d s"
  by (induction w arbitrary: i b) auto

text \<open>Text that the search for a keyword passes over, up to white space or the end.\<close>

definition skipped :: "string \<Rightarrow> string \<Rightarrow> bool" where
  "skipped t s \<longleftrightarrow> (\<forall>i r. r = [] \<or> is_space (hd r) \<longrightarrow> find_scan t i True None 0 (s @ r) = find_scan t (i + length s) False None 0 r)"

lemma skipped_token:
  assumes "name_char c" "list_all (\<lambda>c. \<not> is_space c) w" "py_upper (c # w) \<noteq> takeWhile (\<lambda>c. \<not> is_space c) t"
    and rest: "\<And>i r. find_scan t i False None 0 (w @ r) = find_scan t (i + length w) False None 0 r"
  shows "skipped t (c # w)"
  unfolding skipped_def
proof (intro allI impI)
  fix i and r :: string assume r: "r = [] \<or> is_space (hd r)"
  have "takeWhile (\<lambda>c. \<not> is_space c) (py_upper (c # w @ r)) = py_upper (c # w)"
    using assms(1,2) r by (cases r) (auto simp: py_upper_def list_all_iff takeWhile_append)
  then have "\<not> (take (length t) (py_upper (c # w @ r)) = t \<and> (case drop (length t) (c # w @ r) of [] \<Rightarrow> True | x # _ \<Rightarrow> is_space x))"
    using match_token [of t "c # w @ r"] assms(3) by auto
  then show "find_scan t i True None 0 ((c # w) @ r) = find_scan t (i + length (c # w)) False None 0 r"
    using assms(1) rest [of "Suc i" r] by auto
qed

lemma skipped_space:
  assumes "skipped t a" "skipped t b"
  shows "skipped t (a @ '' '' @ b)"
  unfolding skipped_def
proof (intro allI impI)
  fix i and r :: string assume "r = [] \<or> is_space (hd r)"
  then have b: "find_scan t j True None 0 (b @ r) = find_scan t (j + length b) False None 0 r" for j
    using assms(2) unfolding skipped_def by blast
  have "find_scan t i True None 0 (a @ '' '' @ b @ r) = find_scan t (i + length a) False None 0 ('' '' @ b @ r)"
    using assms(1) unfolding skipped_def by simp
  then show "find_scan t i True None 0 ((a @ '' '' @ b) @ r) = find_scan t (i + length (a @ '' '' @ b)) False None 0 r"
    by (simp add: b add.commute add.left_commute)
qed

lemma skipped_step:
  assumes "skipped t s"
  shows "find_scan t i False None 0 ('' '' @ s @ '' '' @ r) = find_scan t (i + length s + 1) False None 0 ('' '' @ r)"
    and "find_scan t i False None 0 ('' '' @ s) = Inr None"
  using assms [unfolded skipped_def, rule_format, of "'' '' @ r"] assms [unfolded skipped_def, rule_format, of "[]"] by simp_all

lemma skipped_name:
  assumes "list_all name_char w" "w \<noteq> []" "k = [] \<or> k = '',''" "py_upper (w @ k) \<noteq> takeWhile (\<lambda>c. \<not> is_space c) t"
  shows "skipped t (w @ k)"
proof -
  obtain c v where w: "w = c # v" using assms(2) by (cases w) auto
  have "find_scan t i False None 0 ((v @ k) @ r) = find_scan t (i + length (v @ k)) False None 0 r" for i r
    using assms(1,3) skip_name [of v t i "k @ r"] by (auto simp: w)
  moreover have "list_all (\<lambda>c. \<not> is_space c) (v @ k)" using assms(1,3) by (auto simp: w list_all_iff)
  ultimately show ?thesis using assms(1,4) skipped_token [of c "v @ k" t] by (simp add: w)
qed

lemma skipped_call:
  assumes "list_all name_char f" "f \<noteq> []" "list_all name_char w" "\<forall>c \<in> set t. c \<noteq> CHR ''(''"
  shows "skipped t (f @ ''('' @ w @ '')'')"
proof -
  obtain c v where f: "f = c # v" using assms(2) by (cases f) auto
  have "find_scan t i False None 0 ((v @ ''('' @ w @ '')'') @ r) = find_scan t (i + length (v @ ''('' @ w @ '')'')) False None 0 r" for i r
    using assms(1,3) skip_name [of v t i "''('' @ w @ '')'' @ r"] skip_inner [of w 1 t _ _ "'')'' @ r"]
    by (simp add: f add.commute add.left_commute)
  moreover have "list_all (\<lambda>c. \<not> is_space c) (v @ ''('' @ w @ '')'')" using assms(1,3) by (auto simp: f list_all_iff)
  moreover have "py_upper (c # v @ ''('' @ w @ '')'') \<noteq> takeWhile (\<lambda>c. \<not> is_space c) t"
  proof
    assume eq: "py_upper (c # v @ ''('' @ w @ '')'') = takeWhile (\<lambda>c. \<not> is_space c) t"
    have "char_upper (CHR ''('') \<in> set (py_upper (c # v @ ''('' @ w @ '')''))" by (simp add: py_upper_def)
    then have "CHR ''('' \<in> set t" unfolding eq by (auto simp: char_upper_def dest: set_takeWhileD)
    then show False using assms(4) by blast
  qed
  ultimately show ?thesis using assms(1) skipped_token [of c "v @ ''('' @ w @ '')''" t] by (simp add: f)
qed

lemma plain_nameD:
  assumes "plain_name w"
  shows "list_all name_char w" "w \<noteq> []"
  using assms by (simp_all add: plain_name_def)

text \<open>The keywords that the parser searches.\<close>

definition sql_words :: "string list" where
  "sql_words = [''AS'', ''FROM'', ''GROUP BY'', ''HAVING'']"

definition searched :: "string \<Rightarrow> bool" where
  "searched t \<longleftrightarrow> t \<in> set sql_words"

lemma searched_head:
  assumes "searched t"
  shows "takeWhile (\<lambda>c. \<not> is_space c) t \<in> {''AS'', ''FROM'', ''GROUP'', ''HAVING''}"
    and "t \<noteq> ''AS'' \<Longrightarrow> takeWhile (\<lambda>c. \<not> is_space c) t \<noteq> ''AS''"
proof -
  have "list_all (\<lambda>t. (let h = takeWhile (\<lambda>c. \<not> is_space c) t in h \<in> {''AS'', ''FROM'', ''GROUP'', ''HAVING''} \<and> (t \<noteq> ''AS'' \<longrightarrow> h \<noteq> ''AS''))) sql_words"
    by code_simp
  then show "takeWhile (\<lambda>c. \<not> is_space c) t \<in> {''AS'', ''FROM'', ''GROUP'', ''HAVING''}"
    and "t \<noteq> ''AS'' \<Longrightarrow> takeWhile (\<lambda>c. \<not> is_space c) t \<noteq> ''AS''"
    using assms unfolding searched_def list_all_iff Let_def by blast+
qed

lemma searched_chars: "searched t \<Longrightarrow> CHR ''('' \<notin> set t \<and> CHR '','' \<notin> set t"
  by (auto simp: searched_def sql_words_def)

lemma skipped_plain:
  assumes "plain_name w" "searched t"
  shows "skipped t w" "skipped t (w @ '','')"
proof -
  note w = plain_nameD [OF assms(1)]
  show "skipped t w"
    using skipped_name [OF w, of "[]" t] assms(1) searched_head(1) [OF assms(2)] by (auto simp: plain_name_def)
  have "py_upper (w @ '','') \<noteq> takeWhile (\<lambda>c. \<not> is_space c) t"
  proof
    assume eq: "py_upper (w @ '','') = takeWhile (\<lambda>c. \<not> is_space c) t"
    have "CHR '','' \<in> set (py_upper (w @ '',''))" by (simp add: py_upper_def char_upper_def)
    then show False unfolding eq using searched_chars [OF assms(2)] by (auto dest: set_takeWhileD)
  qed
  then show "skipped t (w @ '','')" using skipped_name [OF w, of "'',''" t] by simp
qed

lemma skipped_join:
  assumes "xs \<noteq> []" "\<And>x. x \<in> set xs \<Longrightarrow> skipped t x \<and> skipped t (x @ '','')"
  shows "skipped t (py_join '', '' xs)"
  using assms
proof (induction "'', ''" xs rule: py_join.induct)
  case (3 x y ys)
  then have "skipped t ((x @ '','') @ '' '' @ py_join '', '' (y # ys))" by (intro skipped_space) auto
  then show ?case by simp
qed simp_all

definition expression :: "selection \<Rightarrow> string" where
  "expression sel = (case sel of Agg func col _ \<Rightarrow> func @ ''('' @ col @ '')'' | Col col _ \<Rightarrow> col)"

definition shown_as :: "selection \<Rightarrow> string" where
  "shown_as sel = (case sel of Agg _ _ shown \<Rightarrow> shown | Col _ shown \<Rightarrow> shown)"

lemma print_selection_eq: "print_selection sel = expression sel @ '' '' @ ''AS'' @ '' '' @ shown_as sel"
  by (cases sel) (simp_all add: print_selection_def expression_def shown_as_def)

lemma aggregates_plain: "f \<in> set aggregates \<Longrightarrow> list_all name_char f \<and> f \<noteq> []"
proof -
  have "list_all (\<lambda>f. list_all name_char f \<and> f \<noteq> []) aggregates" by code_simp
  then show "f \<in> set aggregates \<Longrightarrow> list_all name_char f \<and> f \<noteq> []" by (simp add: list_all_iff)
qed

lemma skipped_expression:
  assumes "plain_selection sel" "searched t"
  shows "skipped t (expression sel)"
proof (cases sel)
  case (Agg func col shown)
  then show ?thesis using assms aggregates_plain [of func] plain_nameD(1) [of col] searched_chars [OF assms(2)]
    skipped_call [of func col t] by (auto simp: expression_def)
next
  case (Col col shown)
  then show ?thesis using assms skipped_plain [of col t] by (simp add: expression_def)
qed

lemma plain_shown: "plain_selection sel \<Longrightarrow> plain_name (shown_as sel)"
  by (cases sel) (simp_all add: shown_as_def)

lemma skipped_selection:
  assumes "plain_selection sel" "searched t" "t \<noteq> ''AS''"
  shows "skipped t (print_selection sel)" "skipped t (print_selection sel @ '','')"
proof -
  have as_word: "skipped t ''AS''"
  proof -
    have "list_all name_char ''AS''" "py_upper ''AS'' = ''AS''" by code_simp+
    moreover have "takeWhile (\<lambda>c. \<not> is_space c) t \<noteq> ''AS''"
      using searched_head(2) [OF assms(2,3)] .
    ultimately show ?thesis using skipped_name [of "''AS''" "[]" t] by simp
  qed
  note parts = skipped_expression [OF assms(1,2)] as_word skipped_plain [OF plain_shown [OF assms(1)] assms(2)]
  show "skipped t (print_selection sel)"
    using skipped_space [OF parts(1) skipped_space [OF parts(2,3)]] by (simp add: print_selection_eq)
  show "skipped t (print_selection sel @ '','')"
    using skipped_space [OF parts(1) skipped_space [OF parts(2,4)]] by (simp add: print_selection_eq)
qed

section \<open>Splitting\<close>

text \<open>Text that the splitter takes over into the current part.\<close>

definition kept :: "string \<Rightarrow> bool" where
  "kept s \<longleftrightarrow> (\<forall>cur r. split_scan None 0 cur (s @ r) = split_scan None 0 (rev s @ cur) r)"

lemma kept_append: "kept a \<Longrightarrow> kept b \<Longrightarrow> kept (a @ b)"
  by (simp add: kept_def)

lemma kept_name: "list_all name_char w \<Longrightarrow> kept w"
proof (induction w)
  case (Cons c w)
  then show ?case by (simp add: kept_def)
qed (simp add: kept_def)

lemma kept_space: "kept '' ''"
  by (simp add: kept_def)

lemma kept_call:
  assumes "list_all name_char w"
  shows "kept (''('' @ w @ '')'')"
proof -
  have "split_scan None 1 cur (w @ s) = split_scan None 1 (rev w @ cur) s" for cur s
    using assms by (induction w arbitrary: cur) auto
  then show ?thesis by (simp add: kept_def)
qed

lemma kept_selection:
  assumes "plain_selection sel"
  shows "kept (print_selection sel)"
proof -
  have "kept (expression sel)"
  proof (cases sel)
    case (Agg func col shown)
    then have "kept func" "kept (''('' @ col @ '')'')"
      using assms aggregates_plain [of func] plain_nameD(1) [of col] kept_name kept_call by auto
    from kept_append [OF this] show ?thesis by (simp add: Agg expression_def)
  next
    case (Col col shown)
    then show ?thesis using assms plain_nameD [of col] by (simp add: expression_def kept_name)
  qed
  moreover have "kept ''AS''" by (rule kept_name) code_simp
  ultimately show ?thesis using kept_name [OF plain_nameD(1) [OF plain_shown [OF assms]]] unfolding print_selection_eq
    by (intro kept_append kept_space)
qed

lemma strip_between:
  assumes "s \<noteq> []" "\<not> is_space (hd s)" "\<not> is_space (last s)"
    and "list_all is_space a" "list_all is_space b"
  shows "py_strip (a @ s @ b) = s"
proof -
  have drop_all: "list_all is_space x \<Longrightarrow> dropWhile is_space (x @ y) = dropWhile is_space y" for x y
    by (induction x) simp_all
  have "dropWhile is_space (s @ b) = s @ b" using assms(1,2) by (cases s) auto
  moreover have "dropWhile is_space (rev s) = rev s" using assms(1,3) by (cases s rule: rev_cases) auto
  ultimately show ?thesis using assms(4,5) by (simp add: py_strip_def drop_all)
qed

lemma split_join:
  assumes "xs \<noteq> []" "\<And>x. x \<in> set xs \<Longrightarrow> kept x \<and> x \<noteq> [] \<and> \<not> is_space (hd x) \<and> \<not> is_space (last x)" "list_all is_space cur"
  shows "split_scan None 0 cur (py_join '', '' xs) = Inr xs"
  using assms
proof (induction "'', ''" xs arbitrary: cur rule: py_join.induct)
  case (2 x)
  have "split_scan None 0 cur (x @ []) = split_scan None 0 (rev x @ cur) []" using 2(2) unfolding kept_def by (metis list.set_intros(1))
  moreover have "py_strip (rev cur @ x) = x" using strip_between [of x "rev cur" "[]"] 2 by simp
  ultimately show ?case using 2 by simp
next
  case (3 x y ys)
  have "split_scan None 0 cur (x @ '', '' @ py_join '', '' (y # ys)) = split_scan None 0 (rev x @ cur) ('', '' @ py_join '', '' (y # ys))"
    using 3(3) [of x] unfolding kept_def by simp
  moreover have "py_strip (rev cur @ x) = x" using strip_between [of x "rev cur" "[]"] 3 by simp
  moreover have "split_scan None 0 '' '' (py_join '', '' (y # ys)) = Inr (y # ys)" using 3 by simp
  ultimately show ?case using 3(3) [of x] by simp
qed simp

section \<open>Reading back a selection\<close>

lemma name_ends:
  assumes "list_all name_char w" "w \<noteq> []"
  shows "\<not> is_space (hd w)" "\<not> is_space (last w)"
  using assms by (auto simp: list_all_iff)

lemma expression_ends:
  assumes "plain_selection sel"
  shows "expression sel \<noteq> []" "\<not> is_space (hd (expression sel))" "\<not> is_space (last (expression sel))"
proof -
  have "expression sel \<noteq> [] \<and> \<not> is_space (hd (expression sel)) \<and> \<not> is_space (last (expression sel))"
  proof (cases sel)
    case (Agg func col shown)
    then have "list_all name_char func" "func \<noteq> []" using assms aggregates_plain [of func] by auto
    then show ?thesis using name_ends(1) by (simp add: Agg expression_def)
  next
    case (Col col shown)
    then show ?thesis using assms name_ends plain_nameD by (simp add: expression_def)
  qed
  then show "expression sel \<noteq> []" "\<not> is_space (hd (expression sel))" "\<not> is_space (last (expression sel))" by auto
qed

lemma selection_ends:
  assumes "plain_selection sel"
  shows "print_selection sel \<noteq> []" "\<not> is_space (hd (print_selection sel))" "\<not> is_space (last (print_selection sel))"
  using expression_ends [OF assms] plain_nameD [OF plain_shown [OF assms]] name_ends(2) [of "shown_as sel"]
  by (simp_all add: print_selection_eq)

lemma find_as: "plain_selection sel \<Longrightarrow> find_keyword (print_selection sel) ''AS'' 0 = Inr (Some (length (expression sel) + 1))"
proof -
  assume sel: "plain_selection sel"
  have "skipped ''AS'' (expression sel)" using skipped_expression [OF sel] by (simp add: searched_def sql_words_def)
  then have step: "find_scan ''AS'' 0 True None 0 (expression sel @ '' '' @ r) = find_scan ''AS'' (length (expression sel)) False None 0 ('' '' @ r)" for r
    unfolding skipped_def by (metis add_0 append_Cons list.sel(1) special_chars(1))
  have up: "py_upper ''AS'' = ''AS''" by code_simp
  have chars: "char_upper (CHR ''A'') = CHR ''A''" "char_upper (CHR ''S'') = CHR ''S''" "\<not> is_quote (CHR ''A'')" by code_simp+
  show ?thesis unfolding find_keyword_def print_selection_eq up
    by (simp add: step [simplified]) (simp add: py_upper_def chars)
qed

lemma parse_selection:
  assumes "plain_selection sel"
  shows "parse_item (print_selection sel) = Inr sel"
proof -
  have strip: "py_strip (print_selection sel) = print_selection sel"
    using strip_between [OF selection_ends [OF assms], of "[]" "[]"] by simp
  have left: "py_strip (take (length (expression sel) + 1) (print_selection sel)) = expression sel"
    using strip_between [OF expression_ends [OF assms], of "[]" "'' ''"] by (simp add: print_selection_eq)
  have right: "py_strip (drop (length (expression sel) + 1 + 2) (print_selection sel)) = shown_as sel"
    using strip_between [OF _ name_ends, of "shown_as sel" "'' ''" "[]"] plain_nameD [OF plain_shown [OF assms]]
    by (simp add: print_selection_eq)
  have unnamed: "takeWhile (\<lambda>c. c \<noteq> CHR ''('') (w @ r) = w @ takeWhile (\<lambda>c. c \<noteq> CHR ''('') r" if "list_all name_char w" for w r
    using that by (induction w) auto
  have item: "parse_item (print_selection sel) = (let expr = expression sel; name = takeWhile (\<lambda>c. c \<noteq> CHR ''('') expr in
      if length name < length expr \<and> name \<noteq> [] \<and> last expr = CHR '')''
      then parse_aggregate name (butlast (drop (length name + 1) expr)) (shown_as sel) else Inr (Col expr (shown_as sel)))"
    using expression_ends(1) [OF assms] plain_nameD(2) [OF plain_shown [OF assms]]
    unfolding parse_item_def Let_def strip find_as [OF assms] rbind_Inr option.case left right by simp
  show ?thesis
  proof (cases sel)
    case (Agg func col shown)
    have f: "func \<in> set aggregates" "list_all name_char func" "func \<noteq> []" "plain_name col" "shown_as sel = shown"
      "expression sel = func @ ''('' @ col @ '')''"
      using assms aggregates_plain [of func] by (simp_all add: Agg shown_as_def expression_def)
    have strips: "py_strip func = func" "py_strip col = col"
      using strip_between [of func "[]" "[]"] strip_between [of col "[]" "[]"] f name_ends plain_nameD [OF f(4)] by simp_all
    have split: "split_top_level col = Inr [col]"
      using split_join [of "[col]" "[]"] kept_name plain_nameD [OF f(4)] name_ends by (simp add: split_top_level_def)
    have "list_all (\<lambda>f. py_lower f = f \<and> list_all (\<lambda>c. c = CHR ''_'' \<or> is_alnum c) f \<and> f \<noteq> ''count_unique'') aggregates"
      by code_simp
    then have g: "py_lower func = func" "list_all (\<lambda>c. c = CHR ''_'' \<or> is_alnum c) func" "func \<noteq> ''count_unique''"
      using f(1) unfolding list_all_iff by blast+
    have "parse_aggregate func col shown = Inr sel"
      using f(1,3) plain_nameD(2) [OF f(4)] by (simp add: parse_aggregate_def Let_def strips split g Agg)
    then show ?thesis using f(3) by (simp add: item f(5,6) unnamed [OF f(2)])
  next
    case (Col col shown)
    have c: "list_all name_char col" "expression sel = col" "shown_as sel = shown" "col \<noteq> []"
      using assms plain_nameD [of col] by (simp_all add: Col shown_as_def expression_def)
    have whole: "takeWhile (\<lambda>c. c \<noteq> CHR ''('') col = col" using unnamed [OF c(1), of "[]"] by (simp only: append_Nil2 takeWhile.simps)
    show ?thesis unfolding item c(2,3) Let_def whole by (simp add: Col)
  qed
qed

lemma parse_select_join:
  assumes "sels \<noteq> []" "list_all plain_selection sels"
  shows "parse_select (py_join '', '' (map print_selection sels)) = Inr sels"
proof -
  have "split_top_level (py_join '', '' (map print_selection sels)) = Inr (map print_selection sels)"
    unfolding split_top_level_def
    by (rule split_join) (use assms kept_selection selection_ends in \<open>auto simp: list_all_iff\<close>)
  moreover have "rmap parse_item (map print_selection sels) = Inr sels"
    using assms(2) by (induction sels) (simp_all add: parse_selection)
  ultimately show ?thesis by (simp add: parse_select_def)
qed

section \<open>Reading back a query\<close>

text \<open>Text whose white space is already collapsed.\<close>

definition settled :: "string \<Rightarrow> bool" where
  "settled s \<longleftrightarrow> (\<forall>pending out r. norm_space None pending out (s @ r)
     = (if pending \<and> out then '' '' else []) @ s @ norm_space None False True r)"

lemma settled_space:
  assumes "settled a" "settled b"
  shows "settled (a @ '' '' @ b)"
proof -
  have b: "norm_space None True True (b @ r) = '' '' @ b @ norm_space None False True r" for r
    using assms(2) by (simp add: settled_def)
  have a: "norm_space None pending out (a @ r) = (if pending \<and> out then '' '' else []) @ a @ norm_space None False True r" for pending out r
    using assms(1) unfolding settled_def by blast
  show ?thesis unfolding settled_def by (simp add: a b)
qed

lemma settled_token:
  assumes "w \<noteq> []" "list_all (\<lambda>c. \<not> is_space c \<and> \<not> is_quote c) w"
  shows "settled w"
proof -
  have "norm_space None False True (w @ r) = w @ norm_space None False True r" if "list_all (\<lambda>c. \<not> is_space c \<and> \<not> is_quote c) w" for w r
    using that by (induction w) auto
  then show ?thesis using assms unfolding settled_def by (cases w) auto
qed

lemma settled_join:
  assumes "xs \<noteq> []" "\<And>x. x \<in> set xs \<Longrightarrow> settled x \<and> settled (x @ '','')"
  shows "settled (py_join '', '' xs)"
  using assms
proof (induction "'', ''" xs rule: py_join.induct)
  case (3 x y ys)
  then have "settled ((x @ '','') @ '' '' @ py_join '', '' (y # ys))" by (intro settled_space) auto
  then show ?case by simp
qed simp_all

lemma settled_name:
  assumes "plain_name w"
  shows "settled w" "settled (w @ '','')"
  using plain_nameD [OF assms] by (auto intro!: settled_token simp: list_all_iff)

lemma settled_selection:
  assumes "plain_selection sel"
  shows "settled (print_selection sel)" "settled (print_selection sel @ '','')"
proof -
  have e: "settled (expression sel)"
  proof (cases sel)
    case (Agg func col shown)
    then show ?thesis using assms aggregates_plain [of func] plain_nameD [of col]
      by (auto simp: expression_def list_all_iff intro!: settled_token)
  next
    case (Col col shown)
    then show ?thesis using assms settled_name [of col] by (simp add: expression_def)
  qed
  have as_word: "settled ''AS''" by (rule settled_token) code_simp+
  note shown = settled_name [OF plain_shown [OF assms]]
  show "settled (print_selection sel)"
    using settled_space [OF e settled_space [OF as_word shown(1)]] by (simp add: print_selection_eq)
  show "settled (print_selection sel @ '','')"
    using settled_space [OF e settled_space [OF as_word shown(2)]] by (simp add: print_selection_eq)
qed

lemma settled_having:
  assumes "plain_having h"
  shows "norm_space None False True ('' HAVING '' @ h) = '' HAVING '' @ h"
proof -
  obtain c cs where h: "h = c # cs" "\<not> is_space c" using assms by (cases h) (auto simp: plain_having_def)
  have "norm_space None False False h = h" using assms by (simp add: plain_having_def normalize_whitespace_def)
  then have next_word: "norm_space None True True h = '' '' @ h" using h(2) unfolding h(1) by (auto split: if_splits)
  have "settled ''HAVING''" by (rule settled_token) code_simp+
  then show ?thesis using next_word unfolding settled_def by simp
qed

text \<open>The parts of a printed query.\<close>

definition sel_text :: "plan \<Rightarrow> string" where
  "sel_text p = py_join '', '' (map print_selection (pl_selects p))"

definition group_text :: "plan \<Rightarrow> string" where
  "group_text p = (if pl_group_by p = [] then [] else '' GROUP BY '' @ py_join '', '' (pl_group_by p))"

definition having_text :: "plan \<Rightarrow> string" where
  "having_text p = (case pl_having p of None \<Rightarrow> [] | Some h \<Rightarrow> '' HAVING '' @ h)"

lemma print_plan_eq: "print_plan p = ''SELECT '' @ sel_text p @ '' FROM '' @ pl_from p @ group_text p @ having_text p"
  by (simp add: print_plan_def sel_text_def group_text_def having_text_def)

lemma print_plan_normal:
  assumes "plain_plan p"
  shows "normalize_whitespace (print_plan p) = print_plan p"
proof -
  have sel: "settled (sel_text p)" unfolding sel_text_def
    by (rule settled_join) (use assms settled_selection in \<open>auto simp: plain_plan_def list_all_iff\<close>)
  have word: "settled ''SELECT''" "settled ''FROM''" "settled ''GROUP''" "settled ''BY''" by ((rule settled_token), code_simp, code_simp)+
  have from_name: "settled (pl_from p)" using assms settled_name by (simp add: plain_plan_def)
  have front: "settled (''SELECT'' @ '' '' @ sel_text p @ '' '' @ ''FROM'' @ '' '' @ pl_from p)"
    by (intro settled_space word sel from_name)
  have groups: "settled (''SELECT'' @ '' '' @ sel_text p @ '' '' @ ''FROM'' @ '' '' @ pl_from p @ group_text p)"
  proof (cases "pl_group_by p = []")
    case True
    then show ?thesis using front by (simp add: group_text_def)
  next
    case False
    have "settled (py_join '', '' (pl_group_by p))"
      by (rule settled_join) (use assms False settled_name in \<open>auto simp: plain_plan_def list_all_iff\<close>)
    from settled_space [OF front settled_space [OF word(3) settled_space [OF word(4) this]]]
    show ?thesis using False by (simp add: group_text_def)
  qed
  have "norm_space None False True (having_text p) = having_text p"
  proof (cases "pl_having p")
    case (Some h)
    then have "plain_having h" using assms unfolding plain_plan_def by simp
    then show ?thesis unfolding having_text_def Some option.case by (rule settled_having)
  qed (simp add: having_text_def)
  then show ?thesis using groups [unfolded settled_def, rule_format, of False False "having_text p"]
    unfolding normalize_whitespace_def print_plan_eq by (simp only: append.assoc append_Cons append_Nil simp_thms if_False)
qed

text \<open>Where the keywords stand.\<close>

lemma keyword_chars [simp]: "py_upper ''AS'' = ''AS''" "py_upper ''FROM'' = ''FROM''" "py_upper ''GROUP BY'' = ''GROUP BY''" "py_upper ''HAVING'' = ''HAVING''"
  by code_simp+

lemma keyword_found:
  assumes "searched t"
  shows "find_scan t i False None 0 ('' '' @ t @ '' '' @ r) = Inr (Some (i + 1))"
proof -
  have "list_all (\<lambda>t. py_upper t = t \<and> (case t of c # _ \<Rightarrow> \<not> is_quote c \<and> c \<noteq> CHR ''('' \<and> c \<noteq> CHR '')'' | [] \<Rightarrow> False)) sql_words"
    by code_simp
  then have "py_upper t = t" "case t of c # _ \<Rightarrow> \<not> is_quote c \<and> c \<noteq> CHR ''('' \<and> c \<noteq> CHR '')'' | [] \<Rightarrow> False"
    using assms unfolding list_all_iff searched_def by blast+
  then show ?thesis by (cases t) (auto simp: py_upper_def)
qed

lemma skipped_word: "list_all name_char w \<and> w \<noteq> [] \<and> py_upper w \<noteq> takeWhile (\<lambda>c. \<not> is_space c) t \<Longrightarrow> skipped t w"
  using skipped_name [of w "[]" t] by simp

lemma skipped_words:
  "skipped ''HAVING'' ''GROUP''" "skipped ''HAVING'' ''BY''" "skipped ''GROUP BY'' ''HAVING''"
  by (rule skipped_word, code_simp)+

lemma find_scan_shift: "find_scan t i b q d s = Inr None \<Longrightarrow> find_scan t j b q d s = Inr None"
proof (induction t i b q d s arbitrary: j rule: find_scan.induct)
  case (2 t i b q d c cs)
  show ?case
  proof (cases "c = q")
    case True
    show ?thesis
    proof (cases cs)
      case Nil
      then show ?thesis using 2(1) [OF True Nil] 2(5) True by simp
    next
      case (Cons x xs)
      then show ?thesis using 2(2) [OF True Cons] 2(3) [OF True Cons] 2(5) True by (cases "x = q") simp_all
    qed
  next
    case False
    then show ?thesis using 2(4) [OF False] 2(5) by simp
  qed
next
  case (3 t i b d c cs)
  let ?match = "d = 0 \<and> take (length t) (py_upper (c # cs)) = t \<and> b \<and> (case drop (length t) (c # cs) of [] \<Rightarrow> True | x # _ \<Rightarrow> is_space x)"
  consider "is_quote c" | "\<not> is_quote c" "c = CHR ''(''" | "\<not> is_quote c" "c = CHR '')''" | "\<not> is_quote c" "c \<noteq> CHR ''(''" "c \<noteq> CHR '')''" by blast
  then show ?case
  proof cases
    case 1
    then show ?thesis using 3(1,5) by simp
  next
    case 2
    then show ?thesis using 3(2,5) by simp
  next
    case paren: 3
    then show ?thesis using 3(3,5) by (cases "d = 0") simp_all
  next
    case 4
    then have step: "find_scan t i b None d (c # cs) = (if ?match then Inr (Some i) else find_scan t (i + 1) (is_space c) None d cs)" for i
      by (simp only: find_scan.simps if_False simp_thms)
    have "\<not> ?match"
    proof
      assume ?match
      then show False using 3(5) step [of i] by (metis option.distinct(1) sum.inject(2))
    qed
    then show ?thesis using 3(4) [OF 4] 3(5) step by metis
  qed
qed simp

lemma find_group:
  assumes "plain_plan p"
  shows "find_scan ''GROUP BY'' i False None 0 (group_text p @ having_text p) = Inr (if pl_group_by p = [] then None else Some (i + 1))"
proof (cases "pl_group_by p = []")
  case True
  show ?thesis
  proof (cases "pl_having p")
    case None
    then show ?thesis using True by (simp add: group_text_def having_text_def)
  next
    case (Some h)
    then have "find_scan ''GROUP BY'' 0 True None 0 h = Inr None"
      using assms by (simp add: plain_plan_def plain_having_def find_keyword_def)
    then have "find_scan ''GROUP BY'' j True None 0 h = Inr None" for j by (rule find_scan_shift)
    then show ?thesis using True Some skipped_step(1) [OF skipped_words(3), of i h] by (simp add: group_text_def having_text_def)
  qed
next
  case False
  then show ?thesis using keyword_found [of "''GROUP BY''" i "py_join '', '' (pl_group_by p) @ having_text p"]
    by (simp add: group_text_def searched_def sql_words_def)
qed

lemma find_having:
  assumes "plain_plan p"
  shows "find_scan ''HAVING'' i False None 0 (group_text p @ having_text p)
    = Inr (map_option (\<lambda>_. i + length (group_text p) + 1) (pl_having p))"
proof -
  have "find_scan ''HAVING'' i False None 0 (group_text p @ having_text p) = find_scan ''HAVING'' (i + length (group_text p)) False None 0 (having_text p)" for i
  proof (cases "pl_group_by p = []")
    case True
    then show ?thesis by (simp add: group_text_def)
  next
    case False
    have start: "having_text p = [] \<or> is_space (hd (having_text p))" by (cases "pl_having p") (simp_all add: having_text_def)
    have "skipped ''HAVING'' (py_join '', '' (pl_group_by p))"
      by (rule skipped_join) (use assms False skipped_plain in \<open>auto simp: plain_plan_def list_all_iff searched_def sql_words_def\<close>)
    then have "skipped ''HAVING'' (''GROUP'' @ '' '' @ ''BY'' @ '' '' @ py_join '', '' (pl_group_by p))"
      by (intro skipped_space skipped_words)
    then have "find_scan ''HAVING'' (i + 1) True None 0 ((''GROUP'' @ '' '' @ ''BY'' @ '' '' @ py_join '', '' (pl_group_by p)) @ having_text p)
      = find_scan ''HAVING'' (i + 1 + length (''GROUP'' @ '' '' @ ''BY'' @ '' '' @ py_join '', '' (pl_group_by p))) False None 0 (having_text p)"
      unfolding skipped_def using start by blast
    then show ?thesis using False by (simp add: group_text_def)
  qed
  moreover have "find_scan ''HAVING'' i False None 0 (having_text p) = Inr (map_option (\<lambda>_. i + 1) (pl_having p))" for i
    using keyword_found [of "''HAVING''" i] by (cases "pl_having p") (simp_all add: having_text_def searched_def sql_words_def)
  ultimately show ?thesis by simp
qed

lemma clause_between:
  assumes "q = a @ x @ s @ y @ b" "i = length a" "j = length (a @ x @ s @ y)"
    and "s \<noteq> [] \<and> \<not> is_space (hd s) \<and> \<not> is_space (last s)" "list_all is_space x" "list_all is_space y"
  shows "clause q i j = s"
proof -
  have "take j q = a @ x @ s @ y" unfolding assms(1,3) by simp
  then have "drop i (take j q) = x @ s @ y" by (simp add: assms(2))
  then show ?thesis using strip_between [of s x y] assms(4-6) by (simp add: clause_def)
qed

text \<open>Text that begins and ends with characters other than white space.\<close>

definition trimmed :: "string \<Rightarrow> bool" where
  "trimmed s \<longleftrightarrow> s \<noteq> [] \<and> \<not> is_space (hd s) \<and> \<not> is_space (last s)"

lemma trimmed_append: "trimmed a \<Longrightarrow> trimmed b \<Longrightarrow> trimmed (a @ r @ b)"
  by (simp add: trimmed_def)

lemma trimmed_join: "xs \<noteq> [] \<Longrightarrow> (\<And>x. x \<in> set xs \<Longrightarrow> trimmed x) \<Longrightarrow> trimmed (py_join '', '' xs)"
proof (induction "'', ''" xs rule: py_join.induct)
  case (3 x y ys)
  then show ?case using trimmed_append [of x "py_join '', '' (y # ys)" "'', ''"] by simp
qed simp_all

lemma trimmed_name: "plain_name w \<Longrightarrow> trimmed w"
  using plain_nameD [of w] name_ends [of w] by (simp add: trimmed_def)

lemma trimmed_parts:
  assumes "plain_plan p"
  shows "trimmed (sel_text p)" "trimmed (pl_from p)" "pl_group_by p \<noteq> [] \<Longrightarrow> trimmed (py_join '', '' (pl_group_by p))"
    "pl_having p = Some h \<Longrightarrow> trimmed h"
proof -
  show "trimmed (sel_text p)" unfolding sel_text_def
    by (rule trimmed_join) (use assms selection_ends in \<open>auto simp: plain_plan_def list_all_iff trimmed_def\<close>)
  show "trimmed (pl_from p)" using assms trimmed_name by (simp add: plain_plan_def)
  show "pl_group_by p \<noteq> [] \<Longrightarrow> trimmed (py_join '', '' (pl_group_by p))"
    by (rule trimmed_join) (use assms trimmed_name in \<open>auto simp: plain_plan_def list_all_iff\<close>)
  show "pl_having p = Some h \<Longrightarrow> trimmed h" using assms by (simp add: plain_plan_def plain_having_def trimmed_def)
qed

lemma trimmed_plan:
  assumes "plain_plan p"
  shows "trimmed (print_plan p)"
proof -
  note parts = trimmed_parts [OF assms]
  have word: "trimmed ''SELECT''" by code_simp
  show ?thesis
  proof (cases "pl_having p")
    case (Some h)
    then show ?thesis using trimmed_append [OF word parts(4) [OF Some], of "'' '' @ sel_text p @ '' FROM '' @ pl_from p @ group_text p @ '' HAVING ''"]
      by (simp add: print_plan_eq having_text_def)
  next
    case None
    show ?thesis
    proof (cases "pl_group_by p = []")
      case True
      then show ?thesis using None trimmed_append [OF word parts(2), of "'' '' @ sel_text p @ '' FROM ''"]
        by (simp add: print_plan_eq having_text_def group_text_def)
    next
      case False
      then show ?thesis using None trimmed_append [OF word parts(3) [OF False], of "'' '' @ sel_text p @ '' FROM '' @ pl_from p @ '' GROUP BY ''"]
        by (simp add: print_plan_eq having_text_def group_text_def)
    qed
  qed
qed

lemma drop_prefix: "q = a @ b \<Longrightarrow> k = length a \<Longrightarrow> drop k q = b"
  by simp

lemma find_in_plan:
  assumes "plain_plan p" "n = length (sel_text p)"
  shows "find_keyword (print_plan p) ''FROM'' 7 = Inr (Some (8 + n))"
    and "t \<in> {''GROUP BY'', ''HAVING''} \<Longrightarrow> find_keyword (print_plan p) t (8 + n + 4)
      = find_scan t (13 + n + length (pl_from p)) False None 0 (group_text p @ having_text p)"
proof -
  have "skipped ''FROM'' (sel_text p)" unfolding sel_text_def
    by (rule skipped_join) (use assms(1) skipped_selection in \<open>auto simp: plain_plan_def list_all_iff searched_def sql_words_def\<close>)
  then have "find_scan ''FROM'' 7 True None 0 (sel_text p @ '' '' @ r) = find_scan ''FROM'' (7 + n) False None 0 ('' '' @ r)" for r
    using assms(2) unfolding skipped_def by simp
  moreover have "drop 7 (print_plan p) = sel_text p @ '' '' @ ''FROM'' @ '' '' @ pl_from p @ group_text p @ having_text p"
    "case drop (7 - 1) (print_plan p) of [] \<Rightarrow> False | c # _ \<Rightarrow> is_space c"
    by (simp_all add: print_plan_eq)
  ultimately show "find_keyword (print_plan p) ''FROM'' 7 = Inr (Some (8 + n))"
    using keyword_found [of "''FROM''" "7 + n" "pl_from p @ group_text p @ having_text p"]
    by (simp add: find_keyword_def searched_def sql_words_def del: append_Cons find_scan.simps)
  assume t: "t \<in> {''GROUP BY'', ''HAVING''}"
  then have "skipped t (pl_from p)" using assms(1) skipped_plain(1) by (auto simp: plain_plan_def searched_def sql_words_def)
  moreover have "group_text p @ having_text p = [] \<or> is_space (hd (group_text p @ having_text p))"
    by (cases "pl_having p") (simp_all add: group_text_def having_text_def)
  ultimately have "find_scan t (13 + n) True None 0 (pl_from p @ group_text p @ having_text p)
      = find_scan t (13 + n + length (pl_from p)) False None 0 (group_text p @ having_text p)"
    unfolding skipped_def by blast
  moreover have "drop (8 + n + 4) (print_plan p) = '' '' @ pl_from p @ group_text p @ having_text p"
    "drop (8 + n + 4 - 1) (print_plan p) = ''M '' @ pl_from p @ group_text p @ having_text p"
    by (rule drop_prefix [where a = "''SELECT '' @ sel_text p @ '' FROM''"], simp_all add: print_plan_eq assms(2))
      (rule drop_prefix [where a = "''SELECT '' @ sel_text p @ '' FRO''"], simp_all add: print_plan_eq assms(2))
  moreover have "py_upper t = t" using t by auto
  moreover have "\<not> is_space (CHR ''M'')" by code_simp
  ultimately show "find_keyword (print_plan p) t (8 + n + 4)
      = find_scan t (13 + n + length (pl_from p)) False None 0 (group_text p @ having_text p)"
    by (simp add: find_keyword_def)
qed

lemma parse_print:
  assumes "plain_plan p"
  shows "sql_parse (print_plan p) = Inr p"
proof -
  define n where "n = length (sel_text p)"
  define m where "m = length (pl_from p)"
  define g where "g = (if pl_group_by p = [] then None else Some (14 + n + m))"
  define h where "h = map_option (\<lambda>_. 14 + n + m + length (group_text p)) (pl_having p)"
  let ?q = "print_plan p"
  let ?he = "case h of Some i \<Rightarrow> i | None \<Rightarrow> length ?q" let ?fe = "case g of Some i \<Rightarrow> i | None \<Rightarrow> ?he"
  note parts = trimmed_parts [OF assms, unfolded trimmed_def]
  have found: "find_keyword ?q ''FROM'' 7 = Inr (Some (8 + n))" "find_keyword ?q ''GROUP BY'' (8 + n + 4) = Inr g"
      "find_keyword ?q ''HAVING'' (8 + n + 4) = Inr h"
    using find_in_plan [OF assms n_def] find_group [OF assms] find_having [OF assms]
    by (simp_all add: g_def h_def m_def add.commute add.left_commute)
  have sel: "clause ?q 6 (8 + n) = sel_text p"
    by (rule clause_between [where a = "''SELECT''" and x = "'' ''" and y = "'' ''" and b = "''FROM '' @ pl_from p @ group_text p @ having_text p"])
      (simp_all add: print_plan_eq n_def parts(1))
  have from_part: "clause ?q (8 + n + 4) ?fe = pl_from p"
  proof (cases "group_text p @ having_text p")
    case Nil
    then show ?thesis
      by (intro clause_between [where a = "''SELECT '' @ sel_text p @ '' FROM''" and x = "'' ''" and y = "[]" and b = "[]"])
        (auto simp: print_plan_eq n_def m_def parts(2) g_def h_def group_text_def having_text_def split: if_splits option.splits)
  next
    case (Cons c r)
    have "c = CHR '' ''" using Cons by (cases "pl_having p"; cases "pl_group_by p") (auto simp: group_text_def having_text_def)
    then show ?thesis using Cons
      by (intro clause_between [where a = "''SELECT '' @ sel_text p @ '' FROM''" and x = "'' ''" and y = "'' ''" and b = r])
        (auto simp: print_plan_eq n_def m_def parts(2) g_def h_def group_text_def having_text_def split: if_splits option.splits)
  qed
  have group_part: "clause ?q (i + 8) ?he = py_join '', '' (pl_group_by p)" if "g = Some i" for i
  proof -
    have i: "pl_group_by p \<noteq> []" "i = 14 + n + m" using that by (auto simp: g_def split: if_splits)
    show ?thesis
    proof (cases "pl_having p")
      case None
      then show ?thesis using i parts(3)
        by (intro clause_between [where a = "''SELECT '' @ sel_text p @ '' FROM '' @ pl_from p @ '' GROUP BY''" and x = "'' ''" and y = "[]" and b = "[]"])
          (auto simp: print_plan_eq n_def m_def h_def group_text_def having_text_def)
    next
      case (Some c)
      then show ?thesis using i parts(3)
        by (intro clause_between [where a = "''SELECT '' @ sel_text p @ '' FROM '' @ pl_from p @ '' GROUP BY''" and x = "'' ''" and y = "'' ''" and b = "''HAVING '' @ c"])
          (auto simp: print_plan_eq n_def m_def h_def group_text_def having_text_def)
    qed
  qed
  have having_part: "clause ?q (i + 6) (length ?q) = c" if "h = Some i" "pl_having p = Some c" for i c
    using that parts(4) [OF that(2)]
    by (intro clause_between [where a = "''SELECT '' @ sel_text p @ '' FROM '' @ pl_from p @ group_text p @ '' HAVING''" and x = "'' ''" and y = "[]" and b = "[]"])
      (auto simp: print_plan_eq n_def m_def h_def having_text_def)
  have groups: "(case map_option (\<lambda>i. clause ?q (i + 8) ?he) g of None \<Rightarrow> Inr [] | Some c \<Rightarrow> split_top_level c) = Inr (pl_group_by p)
    \<and> map_option (\<lambda>i. clause ?q (i + 8) ?he) g \<noteq> Some []"
  proof (cases g)
    case None
    then show ?thesis by (simp add: g_def split: if_splits)
  next
    case (Some i)
    then have some: "pl_group_by p \<noteq> []" by (auto simp: g_def)
    have "split_top_level (py_join '', '' (pl_group_by p)) = Inr (pl_group_by p)" unfolding split_top_level_def
      by (rule split_join) (use assms some kept_name plain_nameD name_ends in \<open>auto simp: plain_plan_def list_all_iff\<close>)
    then show ?thesis using parts(3) [OF some] by (simp add: Some group_part [OF Some, unfolded Some])
  qed
  have having: "map_option (\<lambda>i. clause ?q (i + 6) (length ?q)) h = pl_having p \<and> pl_having p \<noteq> Some []"
  proof (cases "pl_having p")
    case None
    then show ?thesis by (simp add: h_def)
  next
    case (Some c)
    then obtain i where "h = Some i" by (simp add: h_def)
    then show ?thesis using having_part [OF _ Some] parts(4) [OF Some] Some by simp
  qed
  have begins: "py_upper (take 6 ?q) = ''SELECT''" "length ?q \<noteq> 6" "is_space (?q ! 6)"
  proof -
    have "take 6 ?q = ''SELECT''" by (simp add: print_plan_eq)
    then show "py_upper (take 6 ?q) = ''SELECT''" by simp code_simp
    show "length ?q \<noteq> 6" "is_space (?q ! 6)" by (simp_all add: print_plan_eq)
  qed
  have ordered: "\<not> (case (g, h) of (Some i, Some j) \<Rightarrow> j < i | _ \<Rightarrow> False)" by (auto simp: g_def h_def split: option.splits)
  have "parse_select (sel_text p) = Inr (pl_selects p)" using parse_select_join [of "pl_selects p"] assms by (simp add: sel_text_def plain_plan_def)
  then show ?thesis using begins ordered parts(1,2) groups having
    by (simp only: sql_parse_def found rbind_Inr option.case sel from_part Let_def raise_if_simps simp_thms) simp
qed

text \<open>
  C23: Queries survive printing.  For every plan over plain names, with any balanced condition whose white
  space is collapsed, the text that the printer gives is accepted by the parser and parsed to
  the same plan: selections, aliases, table, grouping columns and condition.
\<close>

theorem sql_parse_print:
  assumes "plain_plan p" "length (print_plan p) \<le> 4096"
  shows "rbind (SQLParser (print_plan p)) sql_parse = Inr p"
proof -
  have "py_strip (print_plan p) = print_plan p"
    using strip_between [of "print_plan p" "[]" "[]"] trimmed_plan [OF assms(1)] by (simp add: trimmed_def)
  then show ?thesis using assms(2) by (simp add: SQLParser_def Let_def print_plan_normal [OF assms(1)] parse_print [OF assms(1)])
qed

theorem sql_parse_print_witness:
  "rbind (SQLParser (''SELECT p99(latency) AS worst, host AS host FROM requests GROUP BY host HAVING worst > 10 and (host != '' @ [CHR 0x27] @ ''a  b'' @ [CHR 0x27] @ '')'')) sql_parse
    = Inr \<lparr>pl_selects = [Agg ''p99'' ''latency'' ''worst'', Col ''host'' ''host''], pl_from = ''requests'', pl_group_by = [''host''],
        pl_having = Some (''worst > 10 and (host != '' @ [CHR 0x27] @ ''a  b'' @ [CHR 0x27] @ '')'')\<rparr>"
proof -
  let ?h = "''worst > 10 and (host != '' @ [CHR 0x27] @ ''a  b'' @ [CHR 0x27] @ '')''"
  let ?p = "\<lparr>pl_selects = [Agg ''p99'' ''latency'' ''worst'', Col ''host'' ''host''], pl_from = ''requests'', pl_group_by = [''host''], pl_having = Some ?h\<rparr>"
  have plain: "plain_plan ?p" by code_simp
  have len: "length (print_plan ?p) \<le> 4096" by code_simp
  have printed: "print_plan ?p = ''SELECT p99(latency) AS worst, host AS host FROM requests GROUP BY host HAVING '' @ ?h" by code_simp
  show ?thesis using sql_parse_print [OF plain len] unfolding printed by (simp only: append.assoc append_Cons append_Nil)
qed

end
