(* ===== verification/Web_Auth.thy ===== *)
theory Web_Auth
  imports PyValue StateResult
begin

text \<open>
  Guards in front of the endpoints of the server (\<^verbatim>\<open>server.py\<close>): tokens and the namespaces they may
  reach, the limit on request bodies, the credential of the mesh, and readiness.  What the web framework
  hands over (path, headers, parameters, body chunks) are arguments.
\<close>

section \<open>Text\<close>

definition starts_with :: "string \<Rightarrow> string \<Rightarrow> bool" where
  "starts_with s prefix \<longleftrightarrow> take (length prefix) s = prefix"

text \<open>\<^verbatim>\<open>s.split(c)\<close> for a single character.\<close>

fun split_char :: "char \<Rightarrow> string \<Rightarrow> string list" where
  "split_char c [] = [[]]"
| "split_char c (x # xs) = (if x = c then [] # split_char c xs
     else (case split_char c xs of (y # ys) \<Rightarrow> (x # y) # ys | [] \<Rightarrow> [[x]]))"

definition split_names :: "string \<Rightarrow> string list" where
  "split_names s = map py_strip (filter (\<lambda>x. py_strip x \<noteq> []) (split_char (CHR '','') s))"

section \<open>Tokens\<close>

record auth_config =
  ac_token :: "string option"
  ac_namespace_tokens :: "(string, string list) dict"

fun is_name :: "pyval \<Rightarrow> bool" where
  "is_name (PStr s) = (s \<noteq> [])"
| "is_name _ = False"

fun name_text :: "pyval \<Rightarrow> string" where
  "name_text (PStr s) = s"
| "name_text _ = []"

fun token_entry :: "pyval \<times> pyval \<Rightarrow> (string \<times> string list) result" where
  "token_entry (token, PList names) = (if is_name token \<and> names \<noteq> [] \<and> list_all is_name names
     then Inr (name_text token, map name_text names)
     else Inl (ValueError ''Invalid SKETCHLOG_NAMESPACE_TOKENS: each non-empty token must map to a non-empty namespace list''))"
| "token_entry (token, _) =
     Inl (ValueError ''Invalid SKETCHLOG_NAMESPACE_TOKENS: each non-empty token must map to a non-empty namespace list'')"

text \<open>The parsed value of the environment variable; an empty text means no tokens.\<close>

definition namespace_tokens :: "pyval result option \<Rightarrow> (string, string list) dict result" where
  "namespace_tokens raw = (case raw of
     None \<Rightarrow> Inr []
   | Some (Inl _) \<Rightarrow> Inl (ValueError ''Invalid SKETCHLOG_NAMESPACE_TOKENS'')
   | Some (Inr (PDict d)) \<Rightarrow> rbind (rmap token_entry d) (\<lambda>es. Inr (fold (\<lambda>(t, ns). AList.update t ns) es []))
   | Some (Inr _) \<Rightarrow> Inl (ValueError ''Invalid SKETCHLOG_NAMESPACE_TOKENS: must be a JSON object''))"

definition auth_enabled :: "auth_config \<Rightarrow> bool" where
  "auth_enabled cfg \<longleftrightarrow> opt_truth (ac_token cfg) \<or> ac_namespace_tokens cfg \<noteq> []"

definition is_admin :: "auth_config \<Rightarrow> string \<Rightarrow> bool" where
  "is_admin cfg token \<longleftrightarrow> opt_truth (ac_token cfg) \<and> ac_token cfg = Some token"

definition allowed_namespaces :: "auth_config \<Rightarrow> string \<Rightarrow> string list option" where
  "allowed_namespaces cfg token = map_of (ac_namespace_tokens cfg) token"

text \<open>The namespaces that a path asks for.\<close>

definition requested_namespaces :: "string \<Rightarrow> string \<Rightarrow> string list" where
  "requested_namespaces path namespaces_param =
    (if path = ''/v1/namespaces/aggregate'' then split_names namespaces_param
     else if starts_with path ''/v1/namespaces/'' then [takeWhile (\<lambda>c. c \<noteq> CHR ''/'') (drop (length ''/v1/namespaces/'') path)]
     else if starts_with path ''/v1/streams/'' then [''default'']
     else [])"

text \<open>The answer of the middleware: a refusal, or the request goes on with the credentials found.\<close>

datatype auth_outcome = Refused int string | Open | Granted bool "string list option"

definition require_auth :: "auth_config \<Rightarrow> string \<Rightarrow> string option \<Rightarrow> string \<Rightarrow> auth_outcome" where
  "require_auth cfg path token namespaces_param =
    (if \<not> (auth_enabled cfg \<and> starts_with path ''/v1/'') then Open
     else case token of
       None \<Rightarrow> Refused 401 ''Unauthorized''
     | Some t \<Rightarrow>
       if t = [] then Refused 401 ''Unauthorized''
       else if is_admin cfg t then Granted True (allowed_namespaces cfg t)
       else (case allowed_namespaces cfg t of
         None \<Rightarrow> Refused 401 ''Unauthorized''
       | Some names \<Rightarrow>
         if requested_namespaces path namespaces_param \<noteq> [] \<and> \<not> set (requested_namespaces path namespaces_param) \<subseteq> set names
         then Refused 403 ''Forbidden namespace''
         else Granted False (Some names)))"

text \<open>The checks of the two endpoints that the path does not decide: the query and the web socket.\<close>

definition query_allowed :: "auth_config \<Rightarrow> auth_outcome \<Rightarrow> string \<Rightarrow> bool" where
  "query_allowed cfg outcome namespace = (case outcome of
     Granted admin names \<Rightarrow> admin \<or> (case names of None \<Rightarrow> False | Some ns \<Rightarrow> namespace \<in> set ns)
   | Open \<Rightarrow> \<not> auth_enabled cfg
   | Refused _ _ \<Rightarrow> False)"

definition websocket_allowed :: "auth_config \<Rightarrow> string option \<Rightarrow> string option \<Rightarrow> string \<Rightarrow> bool" where
  "websocket_allowed cfg header cookie namespace \<longleftrightarrow> (if auth_enabled cfg then
     let token = (if opt_truth header then header else cookie) in
     (case token of None \<Rightarrow> False | Some t \<Rightarrow> t \<noteq> [] \<and>
       (is_admin cfg t \<or> (case allowed_namespaces cfg t of None \<Rightarrow> False | Some ns \<Rightarrow> namespace \<in> set ns)))
     else True)"

section \<open>The mesh credential\<close>

definition check_mesh_auth :: "bool \<Rightarrow> string option \<Rightarrow> string option \<Rightarrow> unit result" where
  "check_mesh_auth mesh_enabled cluster_secret token =
    raise_if (\<not> mesh_enabled) (HTTPException 400 ''Mesh clustering is not enabled on this node'')
   (raise_if (\<not> opt_truth cluster_secret) (HTTPException 401 ''Cluster secret missing from server configuration'')
   (raise_if (\<not> opt_truth token \<or> token \<noteq> cluster_secret) (HTTPException 401 ''Unauthorized cluster node'')
   (Inr ())))"

section \<open>Request bodies\<close>

text \<open>\<^verbatim>\<open>int(s)\<close>: surrounding space, a sign, digits in groups.\<close>

definition py_int_of_str :: "string \<Rightarrow> int option" where
  "py_int_of_str s = (case split_sign (py_strip s) of (neg, body) \<Rightarrow>
     (case digit_part body of (ds, rest) \<Rightarrow>
       if ds = [] \<or> rest \<noteq> [] then None else Some (if neg then - int (digits_value ds) else int (digits_value ds))))"

definition request_limit :: "int \<Rightarrow> int \<Rightarrow> string \<Rightarrow> int" where
  "request_limit max_request max_mesh path =
    (if path \<in> {''/mesh/gossip/digest'', ''/mesh/gossip/sync''} then max_mesh else max_request)"

text \<open>A header that is not ASCII text cannot be decoded.\<close>

definition check_content_length :: "int \<Rightarrow> string option \<Rightarrow> unit result" where
  "check_content_length limit header = (case header of
     None \<Rightarrow> Inr ()
   | Some raw \<Rightarrow> (case (if list_all (\<lambda>c. of_char c < (128 :: nat)) raw then py_int_of_str raw else None) of
       None \<Rightarrow> Inl (HTTPException 400 ''Invalid Content-Length'')
     | Some n \<Rightarrow> if n < 0 then Inl (HTTPException 400 ''Invalid Content-Length'')
         else if limit < n then Inl (HTTPException 413 ''Request body too large'') else Inr ()))"

text \<open>
  The counting receiver: the state is the number of bytes so far and whether the limit was passed; a
  chunk is handed on only while the total is within the limit.
\<close>

definition limited_receive :: "int \<Rightarrow> string \<Rightarrow> (int \<times> bool, string) step" where
  "limited_receive limit body = (\<lambda>(received, too_large).
     let received = received + int (length body) in
     if limit < received then ((received, True), Inl (RuntimeError ''_RequestBodyTooLarge'')) else ((received, too_large), Inr body))"

text \<open>
  The application asks for some of the chunks of the body, in order; \<open>gives_up\<close> says whether it lets the
  exception of the receiver through or handles it, and then goes on reading.
\<close>

fun read_body :: "int \<Rightarrow> bool \<Rightarrow> string list \<Rightarrow> int \<times> bool \<Rightarrow> string list \<times> (int \<times> bool)" where
  "read_body limit gives_up [] st = ([], st)"
| "read_body limit gives_up (c # cs) st = (case limited_receive limit c st of
     (st', Inr b) \<Rightarrow> (case read_body limit gives_up cs st' of (bs, st'') \<Rightarrow> (b # bs, st''))
   | (st', Inl _) \<Rightarrow> if gives_up then ([], st') else read_body limit gives_up cs st')"

definition LimitUploadSize :: "int \<Rightarrow> int \<Rightarrow> string \<Rightarrow> string \<Rightarrow> string option \<Rightarrow> bool \<Rightarrow> string list \<Rightarrow> (string list result)" where
  "LimitUploadSize max_request max_mesh method path content_length gives_up chunks =
    (if method \<notin> {''POST'', ''PUT'', ''PATCH''} then Inr chunks
     else let limit = request_limit max_request max_mesh path in
       rbind (check_content_length limit content_length) (\<lambda>_.
       case read_body limit gives_up chunks (0, False) of (bs, (_, too_large)) \<Rightarrow>
         if too_large then Inl (HTTPException 413 ''Request body too large'') else Inr bs))"

section \<open>Readiness\<close>

text \<open>
  The threshold text, the measured bytes (or that measuring failed), and the health of the storage.
  Answers the cause that the gauge shows and the result.
\<close>

definition readiness_check :: "string \<Rightarrow> (pyfloat \<times> pyfloat) result \<Rightarrow> bool option \<Rightarrow> string \<times> unit result" where
  "readiness_check threshold_text memory storage_healthy =
    (case py_float_of_str threshold_text of
       Inl _ \<Rightarrow> (''configuration'', Inl (HTTPException 503 ''Service degraded: Invalid memory threshold''))
     | Inr threshold \<Rightarrow>
       if \<not> (f_lt (Fin 0) threshold \<and> f_le threshold (Fin 100)) then (''configuration'', Inl (HTTPException 503 ''Service degraded: Invalid memory threshold''))
       else (case rbind memory (\<lambda>(current, limit). f_div current limit) of
         Inl _ \<Rightarrow> (''memory_check'', Inl (HTTPException 503 ''Service degraded: Memory check failed''))
       | Inr ratio \<Rightarrow>
         if f_lt threshold (f_mul ratio (Fin 100)) then (''memory'', Inl (HTTPException 503 ''Service degraded: Memory usage critical''))
         else if storage_healthy = Some False then (''storage'', Inl (HTTPException 503 ''Service degraded: Storage unavailable''))
         else (''ready'', Inr ())))"

section \<open>Isolation of namespaces\<close>

text \<open>
  The namespaces that the endpoints behind a path work on: the segment after \<^verbatim>\<open>/v1/namespaces/\<close>, the
  default namespace for the paths without one, the listed ones for the aggregation.
\<close>

definition route_namespace :: "string \<Rightarrow> string \<Rightarrow> string \<Rightarrow> bool" where
  "route_namespace path namespaces_param n \<longleftrightarrow>
    (\<exists>rest. path = ''/v1/namespaces/'' @ n @ ''/'' @ rest \<and> CHR ''/'' \<notin> set n) \<or>
    (n = ''default'' \<and> (\<exists>rest. path = ''/v1/streams/'' @ rest)) \<or>
    (path = ''/v1/namespaces/aggregate'' \<and> n \<in> set (split_names namespaces_param))"

lemma starts_with_append [simp]: "starts_with (p @ s) p"
  by (simp add: starts_with_def)

lemma route_requested: "route_namespace path q n \<Longrightarrow> n \<in> set (requested_namespaces path q)"
proof -
  have seg: "takeWhile (\<lambda>c. c \<noteq> CHR ''/'') (n @ ''/'' @ rest) = n" if "CHR ''/'' \<notin> set n" for rest
    using that by (induction n) auto
  have agg: "''/v1/namespaces/'' @ n @ ''/'' @ rest \<noteq> ''/v1/namespaces/aggregate''" if "CHR ''/'' \<notin> set n" for rest
  proof
    assume "''/v1/namespaces/'' @ n @ ''/'' @ rest = ''/v1/namespaces/aggregate''"
    then have "n @ ''/'' @ rest = ''aggregate''" by simp
    then have "CHR ''/'' \<in> set ''aggregate''" by (metis in_set_conv_decomp append_Cons append_Nil)
    then show False by simp
  qed
  assume "route_namespace path q n"
  then consider (space) rest where "path = ''/v1/namespaces/'' @ n @ ''/'' @ rest" "CHR ''/'' \<notin> set n"
    | (dflt) rest where "n = ''default''" "path = ''/v1/streams/'' @ rest"
    | (agg) "path = ''/v1/namespaces/aggregate''" "n \<in> set (split_names q)"
    by (auto simp: route_namespace_def)
  then show ?thesis
  proof cases
    case (space rest)
    have "drop (length ''/v1/namespaces/'') path = n @ ''/'' @ rest" using space(1) by simp
    moreover have "starts_with path ''/v1/namespaces/''" unfolding space(1) by (rule starts_with_append)
    ultimately show ?thesis unfolding requested_namespaces_def
      using agg [OF space(2), of rest] seg [OF space(2), of rest] by (simp only: space(1) if_False if_True) simp
  next
    case (dflt rest)
    then show ?thesis by (simp add: requested_namespaces_def starts_with_def)
  next
    case agg
    then show ?thesis by (simp add: requested_namespaces_def)
  qed
qed


definition demo_auth :: auth_config where
  "demo_auth = \<lparr>ac_token = Some ''root'', ac_namespace_tokens = [(''t1'', [''team''])]\<rparr>"


section \<open>Bounded bodies\<close>

lemma read_body_bounded:
  assumes "read_body limit g cs (n, x) = (bs, (n', x'))" "0 \<le> n" "n \<le> limit \<or> x"
  shows "(if n \<le> limit then n else limit) + int (length (concat bs)) \<le> limit \<and> (x \<longrightarrow> x')
    \<and> (\<not> x' \<longrightarrow> bs = cs \<and> n' = n + int (length (concat cs))) \<and> (x' \<longrightarrow> x \<or> limit < n + int (length (concat cs)))"
  using assms
proof (induction cs arbitrary: n x bs)
  case (Cons c cs)
  show ?case
  proof (cases "limit < n + int (length c)")
    case True
    then have st: "limited_receive limit c (n, x) = ((n + int (length c), True), Inl (RuntimeError ''_RequestBodyTooLarge''))"
      by (simp add: limited_receive_def)
    show ?thesis
    proof (cases g)
      case True
      then show ?thesis using Cons.prems st \<open>limit < n + int (length c)\<close> by auto
    next
      case False
      then have "read_body limit g cs (n + int (length c), True) = (bs, (n', x'))" using Cons.prems(1) st by simp
      note ih = Cons.IH [OF this, unfolded if_not_P [OF iffD2 [OF not_le True]]]
      have z: "int (length (concat bs)) = 0" using ih Cons.prems(2) by simp
      show ?thesis unfolding z using ih [THEN conjunct2] Cons.prems(2,3) True by auto
    qed
  next
    case False
    then have st: "limited_receive limit c (n, x) = ((n + int (length c), x), Inr c)" by (simp add: limited_receive_def)
    then obtain bs' where bs: "read_body limit g cs (n + int (length c), x) = (bs', (n', x'))" "bs = c # bs'"
      using Cons.prems(1) by (auto split: prod.splits)
    from Cons.IH [OF bs(1)] show ?thesis using Cons.prems(2,3) False bs(2) by auto
  qed
qed auto



end
