(* ===== verification/Server.thy ===== *)
theory Server
  imports Registry Gossip Canary Web_Auth Sql
begin

text \<open>
  The endpoints of the server (\<^verbatim>\<open>server.py\<close>) over the registry, the mesh and the analyses.  A handler is
  one step on the state of the server; requests run one after the other.  An HTTP error is the error
  value \<open>HTTPException\<close>, any other error is an unhandled exception.  What the framework has parsed, the
  clock and the expression parser are arguments.
\<close>

section \<open>State\<close>

record 'd server =
  sv_registry :: "'d stream_registry"
  sv_cluster :: cluster
  sv_ingested :: int

text \<open>
  What does not change: the numeric library, the backend with its deletion that leaves a tombstone,
  whether peers or an advertised address are configured, and the name of the node.
\<close>

record 'd server_env =
  se_libm :: libm
  se_backend :: "'d backend"
  se_delete_with_tombstone :: "string \<Rightarrow> string \<Rightarrow> string \<Rightarrow> string \<Rightarrow> pyfloat \<Rightarrow> 'd \<Rightarrow> ('d \<times> bool) result"
  se_clustered :: bool
  se_node_id :: string

definition on_registry :: "('d stream_registry, 'a) step \<Rightarrow> ('d server, 'a) step" where
  "on_registry m sv = (case m (sv_registry sv) of (r, x) \<Rightarrow> (sv\<lparr>sv_registry := r\<rparr>, x))"

definition on_cluster :: "(cluster, 'a) step \<Rightarrow> ('d server, 'a) step" where
  "on_cluster m sv = (case m (sv_cluster sv) of (c, x) \<Rightarrow> (sv\<lparr>sv_cluster := c\<rparr>, x))"

definition log_at :: "'d server \<Rightarrow> nat \<Rightarrow> shared_log" where
  "log_at sv ref = rg_heap (sv_registry sv) ! ref"

text \<open>A method call on a log object; a call that raises changes nothing.\<close>

definition update_log :: "nat \<Rightarrow> (shared_log \<Rightarrow> shared_log result) \<Rightarrow> ('d server, unit) step" where
  "update_log ref f sv = (case f (log_at sv ref) of
     Inl e \<Rightarrow> (sv, Inl e)
   | Inr s \<Rightarrow> (sv\<lparr>sv_registry := (sv_registry sv)\<lparr>rg_heap := (rg_heap (sv_registry sv))[ref := s]\<rparr>\<rparr>, Inr ()))"

definition deny :: "bool \<Rightarrow> int \<Rightarrow> string \<Rightarrow> ('s, unit) step" where
  "deny b code detail = (if b then slift (Inl (HTTPException code detail)) else sret ())"

text \<open>The class of an exception, its text, and handlers that turn some classes into an HTTP error.\<close>

fun error_class :: "py_error \<Rightarrow> string" where
  "error_class (ValueError _) = ''ValueError''"
| "error_class (OverflowError _) = ''OverflowError''"
| "error_class (TypeError _) = ''TypeError''"
| "error_class (KeyError _) = ''KeyError''"
| "error_class (ZeroDivisionError _) = ''ZeroDivisionError''"
| "error_class (RuntimeError _) = ''RuntimeError''"
| "error_class (AttributeError _) = ''AttributeError''"
| "error_class (HTTPException _ _) = ''HTTPException''"

fun error_text :: "py_error \<Rightarrow> string" where
  "error_text (ValueError m) = m"
| "error_text (OverflowError m) = m"
| "error_text (TypeError m) = m"
| "error_text (KeyError k) = [CHR 0x27] @ k @ [CHR 0x27]"
| "error_text (ZeroDivisionError m) = m"
| "error_text (RuntimeError m) = m"
| "error_text (AttributeError m) = m"
| "error_text (HTTPException _ m) = m"

definition as_http :: "string list \<Rightarrow> int \<Rightarrow> string \<Rightarrow> 'a result \<Rightarrow> 'a result" where
  "as_http classes code lead m = (case m of
     Inl e \<Rightarrow> Inl (if error_class e \<in> set classes then HTTPException code (lead @ error_text e) else e)
   | Inr x \<Rightarrow> Inr x)"

definition handling :: "string list \<Rightarrow> int \<Rightarrow> string \<Rightarrow> ('s, 'a) step \<Rightarrow> ('s, 'a) step" where
  "handling classes code lead m s = (case m s of (s', x) \<Rightarrow> (s', as_http classes code lead x))"

section \<open>Configuration\<close>

datatype storage_choice = No_Storage | Sql_Storage string | Omnikv_Storage string

text \<open>The environment variables; a failure ends the process.\<close>

definition configure_storage_backend :: "string \<Rightarrow> string option \<Rightarrow> string option \<Rightarrow> storage_choice result" where
  "configure_storage_backend name db_uri data_dir =
    (let chosen = py_lower (py_strip name);
         backend = (if chosen = [] then (if opt_truth data_dir then ''omnikv'' else if opt_truth db_uri then ''sqlalchemy'' else []) else chosen) in
     if backend \<in> set [[], ''memory'', ''none''] then
       raise_if (opt_truth db_uri \<or> opt_truth data_dir)
         (ValueError ''storage backend is disabled but durable storage settings were provided'') (Inr No_Storage)
     else if backend \<in> set [''sqlalchemy'', ''sql''] then
       (case db_uri of
          Some uri \<Rightarrow> raise_if (uri = []) (ValueError ''SKETCHLOG_DB_URI is required for SQLAlchemy storage'')
            (raise_if (opt_truth data_dir) (ValueError ''SKETCHLOG_DB_URI and SKETCHLOG_OMNIKV_DATA_DIR cannot be used by the same storage backend'')
            (Inr (Sql_Storage uri)))
        | None \<Rightarrow> Inl (ValueError ''SKETCHLOG_DB_URI is required for SQLAlchemy storage''))
     else if backend = ''omnikv'' then
       raise_if (opt_truth db_uri) (ValueError ''SKETCHLOG_DB_URI cannot be combined with SKETCHLOG_STORAGE_BACKEND=omnikv'')
       (case data_dir of
          Some dir \<Rightarrow> raise_if (dir = []) (ValueError ''SKETCHLOG_OMNIKV_DATA_DIR is required for OmniKV storage'') (Inr (Omnikv_Storage dir))
        | None \<Rightarrow> Inl (ValueError ''SKETCHLOG_OMNIKV_DATA_DIR is required for OmniKV storage''))
     else Inl (ValueError ''SKETCHLOG_STORAGE_BACKEND must be one of: sqlalchemy, omnikv, memory, none''))"

definition STREAM_UPPER_BOUND_BYTES :: int where
  "STREAM_UPPER_BOUND_BYTES = 130 * 1024"

definition max_streams_per_namespace :: "int \<Rightarrow> int" where
  "max_streams_per_namespace quota_mb = (let n = (quota_mb * 1024 * 1024) div STREAM_UPPER_BOUND_BYTES in if n < 1 then 1 else n)"

definition max_streams :: "int \<Rightarrow> int result" where
  "max_streams n = raise_if (n < 1) (ValueError ''SKETCHLOG_MAX_STREAMS must be >= 1'') (Inr n)"

text \<open>Starting: an empty registry over the storage, and on a mesh node the tombstones of the node.\<close>

definition start_server :: "'d server_env \<Rightarrow> int \<Rightarrow> int \<Rightarrow> 'd option \<Rightarrow> ('d \<Rightarrow> (string, pyfloat) dict) \<Rightarrow> cluster \<Rightarrow> 'd server \<times> unit result" where
  "start_server E n m storage tombstones c =
    (let sv = \<lparr>sv_registry = StreamRegistry n storage m, sv_cluster = c, sv_ingested = 0\<rparr> in
     case storage of
       Some d \<Rightarrow> if se_clustered E
         then on_cluster (restore_local_tombstones (map (\<lambda>(k, v). (PStr k, PFloat v)) (tombstones d))) sv
         else (sv, Inr ())
     | None \<Rightarrow> (sv, Inr ()))"

section \<open>Ingestion\<close>

record event_batch =
  eb_latencies :: "pyfloat list"
  eb_uniques :: "string list"
  eb_events :: "(string, int) dict"

text \<open>The validator of the raw latencies; \<^verbatim>\<open>float\<close> of a huge integer raises.\<close>

fun check_latency :: "pyval \<Rightarrow> unit result" where
  "check_latency (PInt n) = raise_if (f_isinf (f_of_int n)) (OverflowError ''int too large to convert to float'') (Inr ())"
| "check_latency (PFloat f) = raise_if (\<not> f_isfinite f) (ValueError ''latencies must contain only finite numbers'') (Inr ())"
| "check_latency _ = Inl (ValueError ''latencies must contain only finite numbers'')"

fun validate_finite_latencies :: "pyval \<Rightarrow> unit result" where
  "validate_finite_latencies (PList vs) = rbind (rmap check_latency vs) (\<lambda>_. Inr ())"
| "validate_finite_latencies _ = Inr ()"

definition batch_size :: "event_batch \<Rightarrow> int" where
  "batch_size b = int (length (eb_latencies b)) + int (length (eb_uniques b)) + int (length (eb_events b))"

definition check_batch_size :: "int \<Rightarrow> event_batch \<Rightarrow> event_batch result" where
  "check_batch_size max_batch b = raise_if (max_batch < batch_size b) (ValueError ''Batch size exceeds maximum limit'') (Inr b)"

text \<open>The field constraints: \<^verbatim>\<open>ValidName\<close> and \<^verbatim>\<open>ValidEventCount\<close>.\<close>

definition valid_name :: "string \<Rightarrow> bool" where
  "valid_name s \<longleftrightarrow> 1 \<le> length s \<and> length s \<le> 255"

definition valid_event_count :: "int \<Rightarrow> bool" where
  "valid_event_count n \<longleftrightarrow> 0 < n \<and> n < 9223372036854775808"

definition valid_batch :: "event_batch \<Rightarrow> bool" where
  "valid_batch b \<longleftrightarrow> list_all f_isfinite (eb_latencies b) \<and> list_all valid_name (eb_uniques b)
     \<and> list_all (\<lambda>(k, n). valid_name k \<and> valid_event_count n) (eb_events b)"

definition new_events :: "event_batch \<Rightarrow> int" where
  "new_events b = int (length (eb_latencies b)) + sum_list (map snd (eb_events b))"

definition current_total :: "'d server_env \<Rightarrow> string \<Rightarrow> string \<Rightarrow> ('d server, int) step" where
  "current_total E ns sid sv = (case rg_peek (sv_registry sv) ns sid of
     Some ref \<Rightarrow> (sv, Inr (ts_total_events (log_at sv ref)))
   | None \<Rightarrow> sbind (on_registry (load_stream (se_backend E) ns sid)) (\<lambda>loaded.
       sret (case loaded of None \<Rightarrow> 0 | Some s \<Rightarrow> ts_total_events s)) sv)"

text \<open>The calls on the log; \<open>now n\<close> are the readings of the clock.\<close>

definition ingest_into :: "libm \<Rightarrow> (nat \<Rightarrow> pyfloat) \<Rightarrow> nat \<Rightarrow> event_batch \<Rightarrow> ('d server, unit) step" where
  "ingest_into L now ref b =
    sthen (if eb_latencies b = [] then sret () else update_log ref (ts_add_batch L (eb_latencies b) (now 1)))
   (sthen (sfor (\<lambda>n u. update_log ref (ts_add_unique (KStr u) (now n))) 2 (eb_uniques b))
   (sthen (sfor (\<lambda>n (k, c). update_log ref (ts_add_event (KStr k) c (now n))) (2 + length (eb_uniques b)) (eb_events b))
   (sret ())))"

definition count_ingested :: "int \<Rightarrow> 'd server \<Rightarrow> 'd server" where
  "count_ingested n sv = sv\<lparr>sv_ingested := sv_ingested sv + n\<rparr>"

definition ingest_events :: "'d server_env \<Rightarrow> (nat \<Rightarrow> pyfloat) \<Rightarrow> string \<Rightarrow> event_batch \<Rightarrow> string \<Rightarrow> ('d server, string) step" where
  "ingest_events E now stream_id batch namespace =
    sthen (deny (255 < length stream_id) 422 ''Stream ID too long'')
   (sthen (deny (255 < length namespace) 422 ''Namespace too long'')
   (sbind (current_total E namespace stream_id) (\<lambda>tot.
    sthen (deny (9223372036854775807 < tot + new_events batch) 422 ''Total stream event capacity exceeded'')
   (sbind (on_registry (get_or_create (se_backend E) (se_libm E) (se_clustered E) (now 0) namespace stream_id)) (\<lambda>ref.
    sthen (ingest_into (se_libm E) now ref batch)
   (sthen (smodify (count_ingested (new_events batch)))
   (sret ''accepted'')))))))"

section \<open>Merging a serialized log\<close>

text \<open>\<^verbatim>\<open>s.isdigit()\<close> and \<^verbatim>\<open>int(s)\<close> of digits.\<close>

definition decimal :: "string \<Rightarrow> nat option" where
  "decimal s = (if s = [] then None else parse_digits 0 s)"

text \<open>Counts may arrive as decimal text, which keeps their precision in JavaScript.\<close>

fun decode_count :: "string \<Rightarrow> pyval \<Rightarrow> pyval result" where
  "decode_count complaint (PStr s) = (case decimal s of
     None \<Rightarrow> Inl (ValueError complaint)
   | Some n \<Rightarrow> Inr (PInt (int n)))"
| "decode_count complaint v = Inr v"

fun decode_field :: "string \<Rightarrow> pyval \<Rightarrow> pyval result" where
  "decode_field key (PDict d) = rbind (d_item d key) (\<lambda>v.
     rbind (decode_count (key @ '' must be a decimal integer'') v) (\<lambda>w. Inr (PDict (d_set d key w))))"
| "decode_field key _ = Inl (TypeError ''object is not subscriptable'')"

definition decode_entry :: "pyval \<times> pyval \<Rightarrow> (pyval \<times> pyval) result" where
  "decode_entry kv = (case kv of (k, v) \<Rightarrow>
     rbind (decode_count ''bucket counts must be decimal integers'' v) (\<lambda>w. Inr (k, w)))"

fun decode_group :: "string \<Rightarrow> pyval \<Rightarrow> pyval result" where
  "decode_group g (PDict d) = rbind (d_item d g) (\<lambda>v. case v of
     PDict b \<Rightarrow> rbind (rmap decode_entry b) (\<lambda>b'. Inr (PDict (d_set d g (PDict b'))))
   | _ \<Rightarrow> Inl (AttributeError ''object has no attribute items''))"
| "decode_group g _ = Inl (TypeError ''object is not subscriptable'')"

text \<open>
  The rows of the table.  A row that is a text or an object is iterated too: a digit makes the
  assignment fail, and a dictionary changes its size.
\<close>

fun decode_row :: "pyval \<Rightarrow> pyval result" where
  "decode_row (PList vs) = rbind (rmap (decode_count ''event table counts must be decimal integers'') vs) (\<lambda>ws. Inr (PList ws))"
| "decode_row (PStr []) = Inr (PStr [])"
| "decode_row (PStr (c # cs)) = (if decimal [c] = None then Inl (ValueError ''event table counts must be decimal integers'')
     else Inl (TypeError ''object does not support item assignment''))"
| "decode_row (PDict []) = Inr (PDict [])"
| "decode_row (PDict ((k, v) # d)) = (case k of
     PStr s \<Rightarrow> if decimal s = None then Inl (ValueError ''event table counts must be decimal integers'')
       else Inl (RuntimeError ''dictionary changed size during iteration'')
   | _ \<Rightarrow> Inr (PDict ((k, v) # d)))"
| "decode_row _ = Inl (TypeError ''object is not iterable'')"

fun decode_table :: "pyval \<Rightarrow> pyval result" where
  "decode_table (PDict d) = rbind (d_item d ''table'') (\<lambda>t. case t of
     PList rows \<Rightarrow> rbind (rmap decode_row rows) (\<lambda>rows'. Inr (PDict (d_set d ''table'' (PList rows'))))
   | PStr s \<Rightarrow> rbind (rmap (\<lambda>c. decode_row (PStr [c])) s) (\<lambda>_. Inr (PDict d))
   | PDict r \<Rightarrow> rbind (rmap (\<lambda>(k, _). decode_row k) r) (\<lambda>_. Inr (PDict d))
   | _ \<Rightarrow> Inl (TypeError ''object is not iterable''))"
| "decode_table _ = Inl (TypeError ''object is not subscriptable'')"

definition decode_state :: "pydict \<Rightarrow> pyval result" where
  "decode_state state =
    rbind (d_item state ''latency'') (\<lambda>latency.
    rbind (d_item state ''events'') (\<lambda>events.
    rbind (rbind (d_item state ''total'') (decode_count ''total must be a decimal integer'')) (\<lambda>tot.
    rbind (decode_field ''zero_count'' latency) (\<lambda>latency.
    rbind (decode_field ''count'' latency) (\<lambda>latency.
    rbind (decode_field ''total'' events) (\<lambda>events.
    rbind (decode_group ''positive'' latency) (\<lambda>latency.
    rbind (decode_group ''negative'' latency) (\<lambda>latency.
    rbind (decode_table events) (\<lambda>events.
    Inr (PDict (d_set (d_set (d_set state ''total'' tot) ''latency'' latency) ''events'' events)))))))))))"

definition json_dict :: "pydict \<Rightarrow> pydict" where
  "json_dict d = (case json_trip (PDict d) of PDict d' \<Rightarrow> d' | _ \<Rightarrow> [])"

definition merge_stream :: "'d server_env \<Rightarrow> (nat \<Rightarrow> pyfloat) \<Rightarrow> string \<Rightarrow> pydict \<Rightarrow> string \<Rightarrow> ('d server, string) step" where
  "merge_stream E now stream_id state namespace =
    sbind (slift (as_http [''KeyError'', ''TypeError'', ''ValueError'', ''RuntimeError''] 422 ''Invalid sketch state: ''
      (rbind (decode_state (json_dict state)) (st_from_dict (se_libm E))))) (\<lambda>incoming.
    sbind (on_registry (get_or_create (se_backend E) (se_libm E) (se_clustered E) (now 0) namespace stream_id)) (\<lambda>ref.
    sthen (handling [''ValueError'', ''OverflowError'', ''RuntimeError''] 422 ''Incompatible sketch state: ''
      (update_log ref (ts_merge_log incoming (now 1))))
   (sthen (smodify (count_ingested (st_total_events incoming)))
   (sret ''accepted''))))"

section \<open>Reading a stream\<close>

definition not_found :: "string \<Rightarrow> string \<Rightarrow> string \<Rightarrow> string" where
  "not_found what stream_id namespace = what @ '' '' @ [CHR 0x27] @ stream_id @ [CHR 0x27] @ '' not found in namespace ''
     @ [CHR 0x27] @ namespace @ [CHR 0x27] @ ''.''"

definition has_remote :: "'d server_env \<Rightarrow> 'd server \<Rightarrow> string \<Rightarrow> string \<Rightarrow> bool" where
  "has_remote E sv ns sid \<longleftrightarrow> se_clustered E \<and> has_peer_data (sv_cluster sv) ns sid"

text \<open>The stream in memory or storage, or an error if it is neither there nor at a peer.\<close>

definition find_stream :: "'d server_env \<Rightarrow> string \<Rightarrow> string \<Rightarrow> string \<Rightarrow> ('d server, nat option) step" where
  "find_stream E what ns sid =
    sbind (on_registry (rg_get (se_backend E) ns sid)) (\<lambda>ref.
    sbind (sget (\<lambda>sv. has_remote E sv ns sid)) (\<lambda>remote.
    sthen (deny (ref = None \<and> \<not> remote) 404 (not_found what sid ns))
   (sret ref)))"

text \<open>What is reported: a snapshot, or on a mesh node the merge with what the peers have sent.\<close>

definition report_stream :: "'d server_env \<Rightarrow> string \<Rightarrow> string \<Rightarrow> nat option \<Rightarrow> ('d server, stream) step" where
  "report_stream E ns sid ref sv =
    (if se_clustered E then (sv, get_merged_stream (se_libm E) (sv_cluster sv) ns sid (map_option (log_at sv) ref))
     else (case ref of
        Some i \<Rightarrow> (sv, get_snapshot (se_libm E) (log_at sv i))
      | None \<Rightarrow> (sv, Inl (HTTPException 404 (not_found ''Stream'' sid ns)))))"

record metrics =
  mt_p50 :: pyfloat
  mt_p90 :: pyfloat
  mt_p99 :: pyfloat
  mt_p99_9 :: pyfloat
  mt_unique_count :: int
  mt_total_events :: int
  mt_memory_bytes :: int

definition metrics_of :: "libm \<Rightarrow> stream \<Rightarrow> metrics result" where
  "metrics_of L s =
    rbind (st_percentile L s (to_float (50 / 100))) (\<lambda>p50.
    rbind (st_percentile L s (to_float (90 / 100))) (\<lambda>p90.
    rbind (st_percentile L s (to_float (99 / 100))) (\<lambda>p99.
    rbind (st_percentile L s (to_float (999 / 1000))) (\<lambda>p999.
    rbind (st_unique_count L s) (\<lambda>u.
    Inr \<lparr>mt_p50 = p50, mt_p90 = p90, mt_p99 = p99, mt_p99_9 = p999, mt_unique_count = u,
         mt_total_events = st_total_events s, mt_memory_bytes = st_memory_bytes s\<rparr>)))))"

text \<open>On a mesh node the merge comes before the test whether the stream exists.\<close>

definition get_metrics :: "'d server_env \<Rightarrow> string \<Rightarrow> string \<Rightarrow> ('d server, metrics) step" where
  "get_metrics E stream_id namespace =
    sbind (on_registry (rg_get (se_backend E) namespace stream_id)) (\<lambda>ref.
    sbind (report_stream E namespace stream_id ref) (\<lambda>s.
    sbind (sget (\<lambda>sv. has_remote E sv namespace stream_id)) (\<lambda>remote.
    sthen (deny (ref = None \<and> \<not> remote) 404 (not_found ''Stream'' stream_id namespace))
   (slift (metrics_of (se_libm E) s)))))"

definition get_event_count :: "'d server_env \<Rightarrow> string \<Rightarrow> string \<Rightarrow> string \<Rightarrow> ('d server, int) step" where
  "get_event_count E stream_id name namespace =
    sbind (on_registry (rg_get (se_backend E) namespace stream_id)) (\<lambda>ref. case ref of
      None \<Rightarrow> slift (Inl (HTTPException 404 (not_found ''Stream'' stream_id namespace)))
    | Some i \<Rightarrow> sbind (sget (\<lambda>sv. ts_event_count (log_at sv i) (KStr name))) slift)"

section \<open>Analyses\<close>

text \<open>Two streams of a namespace: both are looked up before either is read.\<close>

definition report_pair :: "'d server_env \<Rightarrow> string \<Rightarrow> string \<Rightarrow> string \<Rightarrow> string \<Rightarrow> ('d server, stream \<times> stream) step" where
  "report_pair E what ns sid baseline_id =
    sbind (find_stream E what ns sid) (\<lambda>ref.
    sbind (find_stream E ''Baseline stream'' ns baseline_id) (\<lambda>ref_base.
    sbind (report_stream E ns sid ref) (\<lambda>s.
    sbind (report_stream E ns baseline_id ref_base) (\<lambda>base. sret (s, base)))))"

record canary_request =
  cq_baseline :: string
  cq_error_event :: "string option"
  cq_target :: pyfloat
  cq_budget :: pyfloat
  cq_min_count :: int
  cq_warning :: "canary_metric \<Rightarrow> pyfloat"
  cq_rollback :: "canary_metric \<Rightarrow> pyfloat"

text \<open>The validator of the request.\<close>

fun request_name :: "canary_metric \<Rightarrow> string" where
  "request_name P99_Shift = ''p99 shift''"
| "request_name Error_Rate = ''error rate''"
| "request_name Slo_Burn = ''SLO burn rate''"
| "request_name Ks = ''KS statistic''"
| "request_name Wasserstein = ''Wasserstein ratio''"
| "request_name Anomaly_Score = ''anomaly score''"

definition request_pair :: "canary_request \<Rightarrow> canary_metric \<Rightarrow> unit result" where
  "request_pair q k =
    raise_if (f_lt (cq_warning q k) (Fin 0) \<or> f_lt (cq_rollback q k) (Fin 0)) (ValueError (request_name k @ '' thresholds must be non-negative''))
   (raise_if (f_lt (cq_rollback q k) (cq_warning q k)) (ValueError (request_name k @ '' rollback threshold must be >= warning threshold''))
   (Inr ()))"

definition validate_canary_thresholds :: "canary_request \<Rightarrow> canary_request result" where
  "validate_canary_thresholds q =
    raise_if (\<not> in_unit (cq_target q)) (ValueError ''target_percentile must be in (0, 1)'')
   (raise_if (\<not> in_unit (cq_budget q)) (ValueError ''budget_percent must be in (0, 1)'')
   (raise_if (cq_min_count q < 1) (ValueError ''min_latency_count must be >= 1'')
   (rbind (rmap (request_pair q) threshold_metrics) (\<lambda>_. Inr q))))"

definition analyze_canary :: "'d server_env \<Rightarrow> string \<Rightarrow> canary_request \<Rightarrow> string \<Rightarrow> ('d server, canary_report) step" where
  "analyze_canary E stream_id q namespace =
    sbind (report_pair E ''Candidate stream'' namespace stream_id (cq_baseline q)) (\<lambda>(candidate, baseline).
    sbind (slift (CanaryThresholds (cq_warning q) (cq_rollback q))) (\<lambda>t.
    sbind (slift (CanaryAnalysisConfig (cq_target q) (cq_budget q) (cq_min_count q) (cq_error_event q) t)) (\<lambda>cfg.
    slift (as_http [''ValueError''] 400 [] (canary_analyze (se_libm E) cfg baseline candidate)))))"

definition evaluate_slo :: "'d server_env \<Rightarrow> string \<Rightarrow> string \<Rightarrow> pyfloat \<Rightarrow> pyfloat \<Rightarrow> string \<Rightarrow> ('d server, slo_report) step" where
  "evaluate_slo E stream_id baseline_id target_percentile budget_percent namespace =
    sbind (report_pair E ''Current stream'' namespace stream_id baseline_id) (\<lambda>(curr, base).
    slift (as_http [''ValueError''] 400 [] (slo_evaluate (se_libm E) curr base target_percentile budget_percent)))"

definition recommend_slo :: "'d server_env \<Rightarrow> string \<Rightarrow> string \<Rightarrow> pyfloat \<Rightarrow> pyfloat \<Rightarrow> ('d server, slo_target) step" where
  "recommend_slo E stream_id namespace target_percentile budget_percent =
    sbind (on_registry (rg_get (se_backend E) namespace stream_id)) (\<lambda>ref. case ref of
      None \<Rightarrow> slift (Inl (HTTPException 404 ''Baseline stream not found''))
    | Some i \<Rightarrow> sbind (sget (\<lambda>sv. get_snapshot (se_libm E) (log_at sv i))) (\<lambda>snap.
        slift (as_http [''ValueError''] 400 [] (rbind snap (\<lambda>s. slo_recommend (se_libm E) s target_percentile budget_percent)))))"

definition detect_anomaly :: "'d server_env \<Rightarrow> string \<Rightarrow> string \<Rightarrow> string \<Rightarrow> pyfloat \<Rightarrow> ('d server, pyfloat \<times> bool) step" where
  "detect_anomaly E stream_id baseline_id namespace sensitivity =
    sthen (deny (\<not> (f_lt (Fin 0) sensitivity \<and> f_le sensitivity (Fin 1))) 422 ''sensitivity must be in (0, 1]'')
   (sbind (on_registry (rg_get (se_backend E) namespace stream_id)) (\<lambda>ref.
    sbind (on_registry (rg_get (se_backend E) namespace baseline_id)) (\<lambda>ref_base. case (ref, ref_base) of
      (Some i, Some j) \<Rightarrow> sbind (sget (\<lambda>sv. rbind (get_snapshot (se_libm E) (log_at sv i)) (\<lambda>s.
          rbind (get_snapshot (se_libm E) (log_at sv j)) (\<lambda>b. anomaly_score (se_libm E) s b)))) (\<lambda>score.
        sbind (slift score) (\<lambda>x. sret (x, f_le sensitivity x)))
    | _ \<Rightarrow> slift (Inl (HTTPException 404 ''Current or baseline stream not found'')))))"

definition diff_streams :: "'d server_env \<Rightarrow> string \<Rightarrow> string option \<Rightarrow> string option \<Rightarrow> string \<Rightarrow> ('d server, sketch_diff) step" where
  "diff_streams E stream_id baseline_stream_id baseline namespace =
    (let chosen = (if opt_truth baseline_stream_id then baseline_stream_id else baseline) in
     sthen (deny (\<not> opt_truth chosen) 422 ''baseline_stream_id (or compatibility alias baseline) is required'')
    (sbind (report_pair E ''Current stream'' namespace stream_id (case chosen of Some b \<Rightarrow> b | None \<Rightarrow> [])) (\<lambda>(curr, base).
     sthen (deny (st_latency_count curr = 0 \<or> st_latency_count base = 0) 400 ''One or both streams have no latency data to compare.'')
    (slift (sketch_diff_init (se_libm E) curr base)))))"

section \<open>Queries\<close>

definition query_source :: "string \<Rightarrow> string" where
  "query_source src = (if src \<noteq> [] \<and> is_quote (hd src) \<and> last src = hd src then butlast (tl src) else src)"

definition query_target :: "string \<Rightarrow> (string \<times> string) result" where
  "query_target from_clause = (let src = query_source (py_strip from_clause);
      target = (if CHR ''/'' \<in> set src then (takeWhile (\<lambda>c. c \<noteq> CHR ''/'') src, tl (dropWhile (\<lambda>c. c \<noteq> CHR ''/'') src)) else (''default'', src)) in
    raise_if (fst target = [] \<or> snd target = []) (ValueError ''FROM must identify [namespace/]stream'') (Inr target))"

text \<open>The answer: the name of the stream and the selected values.\<close>

definition query_stream :: "'d server_env \<Rightarrow> (string \<Rightarrow> expr option) \<Rightarrow> auth_config \<Rightarrow> auth_outcome \<Rightarrow> string \<Rightarrow> ('d server, string \<times> (string, pyval) dict) step" where
  "query_stream E parse cfg outcome query = handling [''ValueError''] 422 []
    (sbind (slift (rbind (SQLParser query) sql_parse)) (\<lambda>p.
     sbind (slift (query_target (pl_from p))) (\<lambda>(namespace, stream_id).
     sthen (deny (\<not> query_allowed cfg outcome namespace) 403 ''Forbidden namespace'')
    (sbind (on_registry (rg_get (se_backend E) namespace stream_id)) (\<lambda>ref. case ref of
       None \<Rightarrow> slift (Inl (HTTPException 404 ''Query stream not found''))
     | Some i \<Rightarrow> sbind (sget (\<lambda>sv. rbind (get_snapshot (se_libm E) (log_at sv i)) (execute_stream_query (se_libm E) parse p))) (\<lambda>values.
         sbind (slift values) (\<lambda>out. sret (namespace @ ''/'' @ stream_id, out))))))))"

section \<open>Deleting a stream\<close>

definition place_tombstone :: "string \<Rightarrow> string \<Rightarrow> pyfloat \<Rightarrow> (cluster, string \<times> pyfloat \<times> pyfloat option) step" where
  "place_tombstone ns sid now c = (case begin_deletion ns sid now c of
     Inl e \<Rightarrow> (c, Inl e) | Inr (c', key, version, previous) \<Rightarrow> (c', Inr (key, version, previous)))"

definition roll_back :: "string \<Rightarrow> pyfloat \<Rightarrow> pyfloat option \<Rightarrow> 'd server \<Rightarrow> 'd server" where
  "roll_back key version previous sv = sv\<lparr>sv_cluster := rollback_deletion key version previous (sv_cluster sv)\<rparr>"

text \<open>With storage the row and the tombstone of the node are written in one transaction.\<close>

definition commit_deletion :: "'d server_env \<Rightarrow> string \<Rightarrow> string \<Rightarrow> string \<Rightarrow> pyfloat \<Rightarrow> pyfloat option \<Rightarrow> ('d server, unit) step" where
  "commit_deletion E ns sid key version previous sv = (case rg_storage (sv_registry sv) of
     Some d \<Rightarrow> (case se_delete_with_tombstone E ns sid (se_node_id E) key version d of
         Inl e \<Rightarrow> (roll_back key version previous sv, Inl e)
       | Inr (d', _) \<Rightarrow> sthen (on_registry (rg_delete (se_backend E) ns sid False)) (sret ())
           (sv\<lparr>sv_registry := (sv_registry sv)\<lparr>rg_storage := Some d'\<rparr>\<rparr>))
   | None \<Rightarrow> (case on_registry (rg_delete (se_backend E) ns sid True) sv of
         (sv', Inl e) \<Rightarrow> (roll_back key version previous sv', Inl e)
       | (sv', Inr _) \<Rightarrow> (sv', Inr ())))"

definition reset_stream :: "'d server_env \<Rightarrow> pyfloat \<Rightarrow> string \<Rightarrow> string \<Rightarrow> ('d server, unit) step" where
  "reset_stream E now stream_id namespace =
    sbind (on_registry (rg_get (se_backend E) namespace stream_id)) (\<lambda>ref.
    sthen (deny (ref = None) 404 (not_found ''Stream'' stream_id namespace))
   (if se_clustered E then
      sbind (handling [''RuntimeError''] 503 [] (on_cluster (place_tombstone namespace stream_id now))) (\<lambda>(key, version, previous).
      commit_deletion E namespace stream_id key version previous)
    else sthen (on_registry (rg_delete (se_backend E) namespace stream_id True)) (sret ())))"

section \<open>Aggregation over namespaces\<close>

definition dedupe :: "string list \<Rightarrow> string list" where
  "dedupe xs = rev (remdups (rev xs))"

definition aggregate_one :: "'d server_env \<Rightarrow> string \<Rightarrow> string \<Rightarrow> stream \<times> bool \<Rightarrow> ('d server, stream \<times> bool) step" where
  "aggregate_one E stream_id ns acc =
    sbind (on_registry (rg_get (se_backend E) ns stream_id)) (\<lambda>ref.
    sbind (case ref of
        None \<Rightarrow> sret acc
      | Some i \<Rightarrow> sbind (sget (\<lambda>sv. rbind (get_snapshot (se_libm E) (log_at sv i)) (st_merge (fst acc)))) (\<lambda>m. sbind (slift m) (\<lambda>x. sret (x, True)))) (\<lambda>acc.
    sbind (sget (\<lambda>sv. has_remote E sv ns stream_id)) (\<lambda>remote.
    if remote then sbind (sget (\<lambda>sv. rbind (get_merged_stream (se_libm E) (sv_cluster sv) ns stream_id None) (st_merge (fst acc)))) (\<lambda>m.
      sbind (slift m) (\<lambda>x. sret (x, True)))
    else sret acc)))"

fun aggregate_all :: "'d server_env \<Rightarrow> string \<Rightarrow> string list \<Rightarrow> stream \<times> bool \<Rightarrow> ('d server, stream \<times> bool) step" where
  "aggregate_all E stream_id [] acc = sret acc"
| "aggregate_all E stream_id (ns # nss) acc = sbind (aggregate_one E stream_id ns acc) (aggregate_all E stream_id nss)"

definition aggregate_streams :: "'d server_env \<Rightarrow> string \<Rightarrow> string \<Rightarrow> ('d server, metrics) step" where
  "aggregate_streams E namespaces stream_id = (let ns_list = dedupe (split_names namespaces) in
     sthen (deny (ns_list = []) 400 ''No namespaces provided.'')
    (sbind (slift (st_init (se_libm E) (to_float (1 / 100)) 10 2048 5 (se_clustered E))) (\<lambda>empty.
     sbind (aggregate_all E stream_id ns_list (empty, False)) (\<lambda>(merged, found).
     sthen (deny (\<not> found) 404 (''Stream '' @ [CHR 0x27] @ stream_id @ [CHR 0x27] @ '' not found in any of the specified namespaces.''))
    (slift (metrics_of (se_libm E) merged))))))"

section \<open>The web socket\<close>

definition count_text :: "pyval \<Rightarrow> pyval" where
  "count_text v = (case v of PInt n \<Rightarrow> PStr (int_str n) | _ \<Rightarrow> v)"

definition d_map :: "(pyval \<Rightarrow> pyval) \<Rightarrow> string \<Rightarrow> pyval \<Rightarrow> pyval" where
  "d_map f k v = (case v of PDict d \<Rightarrow> (case map_of d (PStr k) of None \<Rightarrow> v | Some x \<Rightarrow> PDict (d_set d k (f x))) | _ \<Rightarrow> v)"

definition text_group :: "pyval \<Rightarrow> pyval" where
  "text_group v = (case v of PDict b \<Rightarrow> PDict (map (\<lambda>(k, x). (k, count_text x)) b) | _ \<Rightarrow> v)"

definition text_row :: "pyval \<Rightarrow> pyval" where
  "text_row v = (case v of PList xs \<Rightarrow> PList (map count_text xs) | _ \<Rightarrow> v)"

definition text_table :: "pyval \<Rightarrow> pyval" where
  "text_table v = (case v of PList rows \<Rightarrow> PList (map text_row rows) | _ \<Rightarrow> v)"

definition encode_counts :: "pyval \<Rightarrow> pyval" where
  "encode_counts state =
    d_map (\<lambda>l. d_map text_group ''negative'' (d_map text_group ''positive'' (d_map count_text ''count'' (d_map count_text ''zero_count'' l)))) ''latency''
   (d_map (\<lambda>e. d_map text_table ''table'' (d_map count_text ''total'' e)) ''events''
   (d_map count_text ''total'' state))"

definition ws_metrics :: "libm \<Rightarrow> stream \<Rightarrow> pyval result" where
  "ws_metrics L s =
    rbind (st_percentile L s (to_float (50 / 100))) (\<lambda>p50.
    rbind (st_percentile L s (to_float (95 / 100))) (\<lambda>p95.
    rbind (st_percentile L s (to_float (99 / 100))) (\<lambda>p99.
    rbind (st_percentile L s (to_float (999 / 1000))) (\<lambda>p999.
    rbind (st_unique_count L s) (\<lambda>u.
    Inr (obj [(''p50'', PFloat p50), (''p95'', PFloat p95), (''p99'', PFloat p99), (''p99_9'', PFloat p999),
      (''unique_count'', PStr (int_str u)), (''total_events'', PStr (int_str (st_total_events s))),
      (''memory_footprint_bytes'', PStr (int_str (st_memory_bytes s)))]))))))"

definition ws_state :: "libm \<Rightarrow> stream \<Rightarrow> pydict result" where
  "ws_state L s = rbind (ws_metrics L s) (\<lambda>m. case encode_counts (st_to_dict s) of
     PDict d \<Rightarrow> Inr (d_set d ''metrics'' m) | _ \<Rightarrow> Inr [])"

text \<open>One turn of the loop that feeds an accepted connection.\<close>

definition ws_turn :: "'d server_env \<Rightarrow> string \<Rightarrow> string \<Rightarrow> ('d server, pydict) step" where
  "ws_turn E stream_id namespace =
    sbind (on_registry (rg_get (se_backend E) namespace stream_id)) (\<lambda>ref.
    sbind (sget (\<lambda>sv. has_remote E sv namespace stream_id)) (\<lambda>remote.
    if ref = None \<and> \<not> remote then sret [(PStr ''error'', PStr ''Stream not found'')]
    else sbind (report_stream E namespace stream_id ref) (\<lambda>s. slift (ws_state (se_libm E) s))))"

section \<open>Mesh endpoints\<close>

definition refuse_all :: "string \<Rightarrow> ('s, 'a) step \<Rightarrow> ('s, 'a) step" where
  "refuse_all detail m s = (case m s of (s', Inl e) \<Rightarrow> (s', Inl (HTTPException 400 detail)) | (s', Inr x) \<Rightarrow> (s', Inr x))"

text \<open>A ping whose body is no object: its timestamp is taken all the same.\<close>

definition ping_body :: "urlsplit \<Rightarrow> pyfloat \<Rightarrow> (nat \<Rightarrow> pyfloat) \<Rightarrow> pyval \<Rightarrow> (cluster, pyval) step" where
  "ping_body urlsplit now0 now data =
    (let bad = sthen (smodify (\<lambda>s. stamp (cm_node_id s) now0 s)) (slift (Inl (TypeError ''argument is not iterable''))) in
     case data of
       PDict payload \<Rightarrow> handle_ping urlsplit now0 now payload
     | PList xs \<Rightarrow> if PStr ''members'' \<in> set xs then bad else handle_ping urlsplit now0 now []
     | PStr s \<Rightarrow> if sublist ''members'' s then bad else handle_ping urlsplit now0 now []
     | _ \<Rightarrow> bad)"

definition mesh_ping :: "'d server_env \<Rightarrow> urlsplit \<Rightarrow> pyfloat \<Rightarrow> (nat \<Rightarrow> pyfloat) \<Rightarrow> string option \<Rightarrow> pyval result \<Rightarrow> ('d server, pyval) step" where
  "mesh_ping E urlsplit now0 now token body =
    sbind (sget (\<lambda>sv. cm_secret (sv_cluster sv))) (\<lambda>secret.
    sthen (slift (check_mesh_auth (se_clustered E) secret token))
   (refuse_all ''Invalid ping payload'' (sbind (slift body) (\<lambda>data. on_cluster (ping_body urlsplit now0 now data)))))"

definition local_registry :: "'d server \<Rightarrow> registry" where
  "local_registry sv = map (\<lambda>(ns, sid, ref). ((ns, sid), log_at sv ref)) (snapshot_items (sv_registry sv))"

definition mesh_gossip_digest :: "'d server_env \<Rightarrow> string option \<Rightarrow> pyval result \<Rightarrow> ('d server, pyval) step" where
  "mesh_gossip_digest E token body =
    sbind (sget (\<lambda>sv. cm_secret (sv_cluster sv))) (\<lambda>secret.
    sthen (slift (check_mesh_auth (se_clustered E) secret token))
   (refuse_all ''Invalid digest payload'' (sbind (slift body) (\<lambda>data. case data of
      PDict payload \<Rightarrow> sbind (sget (\<lambda>sv. handle_gossip_digest (se_libm E) (local_registry sv) payload (sv_cluster sv))) slift
    | _ \<Rightarrow> slift (Inl (AttributeError ''object has no attribute get''))))))"

definition mesh_gossip_sync :: "'d server_env \<Rightarrow> pyfloat \<Rightarrow> string option \<Rightarrow> pyval result \<Rightarrow> ('d server, string) step" where
  "mesh_gossip_sync E now token body =
    sbind (sget (\<lambda>sv. cm_secret (sv_cluster sv))) (\<lambda>secret.
    sthen (slift (check_mesh_auth (se_clustered E) secret token))
   (\<lambda>sv. case (sbind (slift body) (\<lambda>data. case data of
        PDict payload \<Rightarrow> on_cluster (handle_gossip_sync (se_libm E) payload now)
      | _ \<Rightarrow> slift (Inl (TypeError ''indices must be integers'')))) sv of
      (sv', Inr _) \<Rightarrow> (sv', Inr ''ok'')
    | (sv', Inl e) \<Rightarrow> (sv', Inl (if error_class e \<in> {''KeyError'', ''ValueError''} then HTTPException 400 ''Invalid sync payload'' else e))))"

end
