(* ===== verification/Server_Laws.thy ===== *)
theory Server_Laws
  imports Server Registry_Laws Serial_Laws Mesh_Laws
begin

text \<open>
  The endpoints: a batch is recorded as a whole or not at all, a deletion commits everywhere or is
  rolled back, reading requests change nothing, and the state sent over the web socket is accepted by the
  merge endpoint without loss.
\<close>

section \<open>Recording a batch\<close>

text \<open>A unique item always fits; an event fits while the total stays in range.\<close>

lemma add_unique_ok:
  assumes "st_inv L s"
  obtains t where "st_apply L (AddUnique (KStr u)) s = Inr t" "st_total_events t = st_total_events s"
proof -
  have inv: "sl_inv L (st_backend s)" by (rule st_inv_backend [OF assms])
  have "is_ok (rfold hll_add [KStr u] (sl_uniques (st_backend s)))"
    using hll_ingest_ok [of "sl_uniques (st_backend s)" "[KStr u]"] inv by (simp add: sl_inv_def hll_hash_def)
  then obtain v where "rfold hll_add [KStr u] (sl_uniques (st_backend s)) = Inr v" by (auto simp: is_ok_iff)
  then have "sl_apply L (AddUnique (KStr u)) (st_backend s) = Inr ((st_backend s)\<lparr>sl_uniques := v\<rparr>)"
    using inv by (subst sl_apply_eq [OF inv]) (auto simp: key_out_of_range_def sl_inv_def)
  then show ?thesis using that by (simp add: st_apply_lift st_lift_def st_total_events_def)
qed

lemma add_event_ok:
  assumes "st_inv L s" "0 < n" "st_total_events s + n \<le> MAX_INT64"
  obtains t where "st_apply L (AddEvent (KStr k) n) s = Inr t" "st_total_events t = st_total_events s + n"
proof -
  let ?b = "st_backend s"
  have inv: "sl_inv L ?b" by (rule st_inv_backend [OF assms(1)])
  have c: "cms_inv (sl_events ?b)" "sl_total ?b = dd_count (sl_latency ?b) + cms_total (sl_events ?b)" "0 \<le> dd_count (sl_latency ?b)"
    using inv dd_inv_count [of L "sl_latency ?b"] by (auto simp: sl_inv_def)
  have "0 \<le> cms_total (sl_events ?b)" by (rule cms_inv_total [OF c(1)])
  then obtain e where e: "rfold cms_add [(KStr k, n)] (sl_events ?b) = Inr e"
    using assms(2,3) c by (auto simp: cms_add_eq cms_key_def st_total_events_def)
  have "cms_total e = cms_total (sl_events ?b) + n" using cms_ingest_total [OF e] by simp
  then have "sl_apply L (AddEvent (KStr k) n) ?b = Inr (?b\<lparr>sl_events := e, sl_total := sl_total ?b + n\<rparr>)"
    using assms(3) c e by (subst sl_apply_eq [OF inv]) (auto simp: key_out_of_range_def st_total_events_def MAX_values)
  then show ?thesis using that by (simp add: st_apply_lift st_lift_def st_total_events_def)
qed

definition batch_ops :: "event_batch \<Rightarrow> sl_op list" where
  "batch_ops b = (if eb_latencies b = [] then [] else [AddBatch (eb_latencies b)]) @ map (\<lambda>u. AddUnique (KStr u)) (eb_uniques b)
     @ map (\<lambda>(k, n). AddEvent (KStr k) n) (eb_events b)"

lemma uniques_ok:
  assumes "st_inv L s"
  shows "\<exists>t. rfold (st_apply L) (map (\<lambda>u. AddUnique (KStr u)) us) s = Inr t \<and> st_inv L t \<and> st_total_events t = st_total_events s"
  using assms
proof (induction us arbitrary: s)
  case (Cons u us)
  obtain t where t: "st_apply L (AddUnique (KStr u)) s = Inr t" "st_total_events t = st_total_events s"
    by (rule add_unique_ok [OF Cons.prems])
  then show ?case using Cons.IH [of t] st_apply_inv [OF Cons.prems t(1)] by simp
qed simp

lemma events_ok:
  assumes "st_inv L s" "list_all (\<lambda>(k, n). 0 < n) es" "st_total_events s + sum_list (map snd es) \<le> MAX_INT64"
  shows "\<exists>t. rfold (st_apply L) (map (\<lambda>(k, n). AddEvent (KStr k) n) es) s = Inr t"
  using assms
proof (induction es arbitrary: s)
  case (Cons e es)
  obtain k n where e: "e = (k, n)" by (cases e)
  have pos: "0 \<le> sum_list (map snd es)" using Cons.prems(2) by (intro sum_list_nonneg) (auto simp: list_all_iff)
  obtain t where t: "st_apply L (AddEvent (KStr k) n) s = Inr t" "st_total_events t = st_total_events s + n"
    using Cons.prems e pos by (auto intro: add_event_ok [of L s n k])
  then show ?case using Cons.IH [of t] st_apply_inv [OF Cons.prems(1) t(1)] Cons.prems(2,3) by (simp add: e)
qed simp

lemma batch_tail_ok:
  assumes "st_inv L s" "valid_batch b" "st_total_events s + sum_list (map snd (eb_events b)) \<le> MAX_INT64"
  shows "\<exists>t. rfold (st_apply L) (map (\<lambda>u. AddUnique (KStr u)) (eb_uniques b) @ map (\<lambda>(k, n). AddEvent (KStr k) n) (eb_events b)) s = Inr t"
proof -
  obtain t where t: "rfold (st_apply L) (map (\<lambda>u. AddUnique (KStr u)) (eb_uniques b)) s = Inr t" "st_inv L t" "st_total_events t = st_total_events s"
    using uniques_ok [OF assms(1)] by blast
  have "list_all (\<lambda>(k, n). 0 < n) (eb_events b)" using assms(2) by (auto simp: valid_batch_def valid_event_count_def list_all_iff)
  then show ?thesis using events_ok [OF t(2)] assms(3) t by (simp add: rfold_append)
qed

text \<open>Method calls in sequence on one log object.\<close>

definition set_log :: "nat \<Rightarrow> shared_log \<Rightarrow> 'd server \<Rightarrow> 'd server" where
  "set_log ref s sv = sv\<lparr>sv_registry := (sv_registry sv)\<lparr>rg_heap := (rg_heap (sv_registry sv))[ref := s]\<rparr>\<rparr>"

lemma set_log_props [simp]:
  "set_log ref t (set_log ref s sv) = set_log ref t sv" "rg_peek (sv_registry (set_log ref s sv)) = rg_peek (sv_registry sv)"
  "length (rg_heap (sv_registry (set_log ref s sv))) = length (rg_heap (sv_registry sv))" "sv_ingested (set_log ref s sv) = sv_ingested sv"
  "ref < length (rg_heap (sv_registry sv)) \<Longrightarrow> log_at (set_log ref s sv) ref = s"
  "rg_heap (sv_registry (set_log ref s sv)) = (rg_heap (sv_registry sv))[ref := s]"
  by (simp_all add: set_log_def log_at_def rg_simps)

lemma set_log_same [simp]: "ref < length (rg_heap (sv_registry sv)) \<Longrightarrow> set_log ref (log_at sv ref) sv = sv"
  by (simp add: set_log_def log_at_def)

lemma update_log_add:
  "update_log ref (ts_add L op now) sv = (case st_apply L op (ts_log (log_at sv ref)) of
     Inl e \<Rightarrow> (sv, Inl e) | Inr t \<Rightarrow> (set_log ref (log_at sv ref\<lparr>ts_log := t, ts_updated := now\<rparr>) sv, Inr ()))"
  by (cases "st_apply L op (ts_log (log_at sv ref))") (simp_all add: update_log_def ts_add_eq ts_modify_def set_log_def)

lemma ts_add_calls [simp]:
  "ts_add L (AddBatch vs) now = ts_add_batch L vs now" "ts_add L (AddUnique k) now = ts_add_unique k now"
  "ts_add L (AddEvent k n) now = ts_add_event k n now"
  by (simp_all add: fun_eq_iff)

lemma update_run:
  assumes "ref < length (rg_heap (sv_registry sv))" "rfold (st_apply L) (map f xs) (ts_log (log_at sv ref)) = Inr t"
  shows "\<exists>s ys. sfor (\<lambda>n x. update_log ref (ts_add L (f x) (now n))) n xs sv = (set_log ref s sv, Inr ys) \<and> ts_log s = t"
  using assms
proof (induction xs arbitrary: sv n)
  case Nil
  then show ?case by (intro exI [of _ "log_at sv ref"]) simp
next
  case (Cons x xs)
  obtain t1 where t1: "st_apply L (f x) (ts_log (log_at sv ref)) = Inr t1" "rfold (st_apply L) (map f xs) t1 = Inr t"
    using Cons.prems(2) by (auto simp: rbind_eq_Inr)
  let ?s = "log_at sv ref\<lparr>ts_log := t1, ts_updated := now n\<rparr>"
  obtain s ys where "sfor (\<lambda>n x. update_log ref (ts_add L (f x) (now n))) (Suc n) xs (set_log ref ?s sv) = (set_log ref s (set_log ref ?s sv), Inr ys)" "ts_log s = t"
    using Cons.IH [of "set_log ref ?s sv" "Suc n"] Cons.prems(1) t1(2) by auto
  moreover have "update_log ref (ts_add L (f x) (now n)) sv = (set_log ref ?s sv, Inr ())" using t1(1) by (simp add: update_log_add)
  ultimately show ?case by (auto simp: sbind_def)
qed

lemma batch_total:
  assumes "st_inv L s" "st_apply L (AddBatch vs) s = Inr t" "list_all f_isfinite vs"
  shows "st_total_events t = st_total_events s + int (length vs)"
proof -
  let ?b = "st_backend s"
  have inv: "sl_inv L ?b" by (rule st_inv_backend [OF assms(1)])
  obtain c where c: "sl_apply L (AddBatch vs) ?b = Inr c" "t = s\<lparr>st_backend := c\<rparr>"
    using assms(2) by (auto simp: st_apply_lift st_lift_eq_Inr)
  obtain l where l: "dd_ingest L vs (sl_latency ?b) = Inr l" "sl_total c = dd_count l + cms_total (sl_events ?b)"
    using c(1) sl_apply_eq [OF inv, of "AddBatch vs" c] by auto
  have "filter f_isfinite vs = vs" using assms(3) by (simp add: list_all_iff)
  then have "dd_count l = dd_count (sl_latency ?b) + int (length vs)"
    using dd_ingest_count [OF _ l(1)] inv by (simp add: sl_inv_def)
  then show ?thesis using l(2) c(2) inv by (simp add: st_total_events_def sl_inv_def)
qed

lemma ingest_into_cases:
  assumes "ref < length (rg_heap (sv_registry sv))" "st_inv L (ts_log (log_at sv ref))" "valid_batch b"
    and "st_total_events (ts_log (log_at sv ref)) + new_events b \<le> MAX_INT64"
  obtains (refused) e where "ingest_into L now ref b sv = (sv, Inl e)"
  | (recorded) s where "ingest_into L now ref b sv = (set_log ref s sv, Inr ())"
      "rfold (st_apply L) (batch_ops b) (ts_log (log_at sv ref)) = Inr (ts_log s)"
proof -
  let ?first = "if eb_latencies b = [] then [] else [AddBatch (eb_latencies b)]"
  let ?us = "map (\<lambda>u. AddUnique (KStr u)) (eb_uniques b)" let ?es = "map (\<lambda>(k, n). AddEvent (KStr k) n) (eb_events b)"
  have rest: "\<exists>s. sthen (sfor (\<lambda>n u. update_log ref (ts_add_unique (KStr u) (now n))) 2 (eb_uniques b))
        (sthen (sfor (\<lambda>n (k, c). update_log ref (ts_add_event (KStr k) c (now n))) (2 + length (eb_uniques b)) (eb_events b)) (sret ())) v
      = (set_log ref s v, Inr ()) \<and> rfold (st_apply L) (?us @ ?es) (ts_log (log_at v ref)) = Inr (ts_log s)"
    if v: "ref < length (rg_heap (sv_registry v))" "st_inv L (ts_log (log_at v ref))"
      "st_total_events (ts_log (log_at v ref)) + sum_list (map snd (eb_events b)) \<le> MAX_INT64" for v :: "'a server"
  proof -
    obtain t where t: "rfold (st_apply L) (?us @ ?es) (ts_log (log_at v ref)) = Inr t" using batch_tail_ok [OF v(2) assms(3) v(3)] by blast
    then obtain t1 where t1: "rfold (st_apply L) ?us (ts_log (log_at v ref)) = Inr t1" "rfold (st_apply L) ?es t1 = Inr t"
      by (auto simp: rfold_append rbind_eq_Inr)
    obtain s1 ys where s1: "sfor (\<lambda>n u. update_log ref (ts_add_unique (KStr u) (now n))) 2 (eb_uniques b) v = (set_log ref s1 v, Inr ys)" "ts_log s1 = t1"
      using update_run [OF v(1) t1(1), of now 2] by auto
    have "rfold (st_apply L) (map (\<lambda>kc. AddEvent (KStr (fst kc)) (snd kc)) (eb_events b)) (ts_log (log_at (set_log ref s1 v) ref)) = Inr t"
      using t1(2) s1(2) v(1) by (simp add: case_prod_unfold)
    then obtain s2 zs where "sfor (\<lambda>n kc. update_log ref (ts_add L (AddEvent (KStr (fst kc)) (snd kc)) (now n))) (2 + length (eb_uniques b)) (eb_events b) (set_log ref s1 v)
        = (set_log ref s2 v, Inr zs)" "ts_log s2 = t"
      using update_run [of ref "set_log ref s1 v" L "\<lambda>kc. AddEvent (KStr (fst kc)) (snd kc)" "eb_events b" t now "2 + length (eb_uniques b)"] v(1) by auto
    then show ?thesis using s1 t by (auto simp: sbind_def case_prod_unfold)
  qed
  show thesis
  proof (cases "eb_latencies b = []")
    case True
    have "st_total_events (ts_log (log_at sv ref)) + sum_list (map snd (eb_events b)) \<le> MAX_INT64"
      using assms(4) True by (simp add: new_events_def)
    from rest [OF assms(1,2) this] show ?thesis using recorded True by (auto simp: ingest_into_def batch_ops_def)
  next
    case False
    show ?thesis
    proof (cases "st_apply L (AddBatch (eb_latencies b)) (ts_log (log_at sv ref))")
      case (Inl e)
      then have "update_log ref (ts_add_batch L (eb_latencies b) (now 1)) sv = (sv, Inl e)"
        using update_log_add [of ref L "AddBatch (eb_latencies b)" "now 1" sv] by simp
      then show ?thesis using refused False by (simp add: ingest_into_def sbind_def)
    next
      case (Inr t)
      let ?s = "log_at sv ref\<lparr>ts_log := t, ts_updated := now 1\<rparr>"
      have step: "update_log ref (ts_add_batch L (eb_latencies b) (now 1)) sv = (set_log ref ?s sv, Inr ())"
        using update_log_add [of ref L "AddBatch (eb_latencies b)" "now 1" sv] Inr by simp
      have inv: "st_inv L t" using st_apply_inv [OF assms(2) Inr] by simp
      have "st_total_events t = st_total_events (ts_log (log_at sv ref)) + int (length (eb_latencies b))"
        using batch_total [OF assms(2) Inr] assms(3) by (simp add: valid_batch_def)
      then have "st_total_events t + sum_list (map snd (eb_events b)) \<le> MAX_INT64" using assms(4) by (simp add: new_events_def)
      then show ?thesis using rest [of "set_log ref ?s sv"] assms(1) inv recorded step False Inr
        by (auto simp: ingest_into_def batch_ops_def sbind_def)
    qed
  qed
qed

text \<open>The log that opening returns is the one that was visible, or a fresh one.\<close>

lemma open_log:
  assumes "rg_ok r" "refs_ok r" "get_or_create B L det now ns sid r = (r', Inr ref)"
  shows "rg_ok r' \<and> rg_peek r' ns sid = Some ref \<and> ref < length (rg_heap r')
    \<and> (visible B r (ns, sid) = Some (rg_heap r' ! ref) \<or> visible B r (ns, sid) = None \<and> new_log L det now = Inr (rg_heap r' ! ref))"
proof (cases "rg_peek r ns sid")
  case (Some i)
  then have "r' = touch ns sid r" "ref = i" using assms(3) by (simp_all add: get_or_create_def)
  then show ?thesis using Some touch_props [OF assms(1), of ns sid] refs_okD [OF assms(2) Some] by (simp add: visible_def)
next
  case None
  show ?thesis using assms(1) None assms(3)
  proof (cases rule: open_absent)
    case (opened m s r1)
    have r1: "rg_ok r1" "rg_heap r1 = rg_heap r" using evict_rg_ok [OF assms(1) opened(2)] by simp_all
    note en = ensure_space_props [OF r1(1), of ns]
    have ab: "rg_peek (ensure_space ns r1) ns sid = None" using opened(3) en(1) by simp
    note ins = insert_stream_props [OF en(2) ab, of s]
    have "visible B r (ns, sid) = m" using None opened(1) by (auto simp: visible_def load_stream_def stored_log_def split: option.splits)
    then show ?thesis using opened(4-6) ins en r1 by auto
  qed simp_all
qed

lemma open_heap:
  assumes "rg_ok r" "get_or_create B L det now ns sid r = (r', x)"
  shows "\<exists>more. rg_heap r' = rg_heap r @ more"
proof (cases "rg_peek r ns sid")
  case (Some i)
  then show ?thesis using assms touch_props(5) [OF assms(1)] by (auto simp: get_or_create_def)
next
  case None
  show ?thesis using assms(1) None assms(2)
  proof (cases rule: open_absent)
    case (evicting e m)
    then show ?thesis using evict_rg_ok [OF assms(1)] by fastforce
  next
    case (making e r1)
    then show ?thesis using evict_rg_ok [OF assms(1)] ensure_space_props(5) [of r1] by fastforce
  next
    case (opened m s r1)
    have r1: "rg_ok r1" "rg_heap r1 = rg_heap r" using evict_rg_ok [OF assms(1) opened(2)] by simp_all
    have ab: "rg_peek (ensure_space ns r1) ns sid = None" using opened(3) ensure_space_props(1) [OF r1(1)] by simp
    then show ?thesis using opened(5) insert_stream_props(5) [OF ensure_space_props(2) [OF r1(1)] ab] ensure_space_props(5) [OF r1(1)] r1 by simp
  qed simp
qed

lemma on_registry_eq: "on_registry m sv = (sv\<lparr>sv_registry := fst (m (sv_registry sv))\<rparr>, snd (m (sv_registry sv)))"
  by (simp add: on_registry_def split: prod.splits)

lemma new_log_fresh: "new_log L det now = Inr s \<Longrightarrow> st_inv L (ts_log s) \<and> st_total_events (ts_log s) = 0"
proof -
  assume "new_log L det now = Inr s"
  then obtain e where e: "st_init L (to_float (1/100)) 10 2048 5 det = Inr e" "ts_log s = e"
    by (auto simp: new_log_def ts_init_def rbind_eq_Inr)
  have "st_total_events (st_reset e) = 0" by (simp add: st_total_events_def st_reset_def sl_reset_def)
  then show ?thesis using st_init_inv [OF e(1)] e(2) by simp
qed

text \<open>What the preflight reads is the total of the visible log.\<close>

lemma current_total_eq:
  assumes "current_total E ns sid sv = (sv', x)"
  shows "sv' = sv \<and> (\<forall>n. x = Inr n \<longrightarrow> n = (case visible (se_backend E) (sv_registry sv) (ns, sid) of None \<Rightarrow> 0 | Some s \<Rightarrow> st_total_events (ts_log s)))"
proof (cases "rg_peek (sv_registry sv) ns sid")
  case (Some ref)
  then show ?thesis using assms by (auto simp: current_total_def visible_def ts_total_events_def log_at_def)
next
  case None
  obtain y where y: "load_stream (se_backend E) ns sid (sv_registry sv) = (sv_registry sv, y)"
    by (cases "rg_storage (sv_registry sv)") (auto simp: load_stream_def)
  have "visible (se_backend E) (sv_registry sv) (ns, sid) = m" if "y = Inr m" for m
    using None y that by (auto simp: visible_def load_stream_def stored_log_def split: option.splits)
  then show ?thesis using assms None y
    by (cases y) (auto simp: current_total_def on_registry_def sbind_def ts_total_events_def split: option.splits)
qed

text \<open>The stages of ingestion: refused with nothing done, or the log is opened and the batch fits.\<close>

lemma ingest_stages:
  obtains (refused) e where "ingest_events E now sid b ns sv = (sv, Inl e)"
  | (begun) r1 z where "get_or_create (se_backend E) (se_libm E) (se_clustered E) (now 0) ns sid (sv_registry sv) = (r1, z)"
      "(case visible (se_backend E) (sv_registry sv) (ns, sid) of None \<Rightarrow> 0 | Some s \<Rightarrow> st_total_events (ts_log s)) + new_events b \<le> MAX_INT64"
      "ingest_events E now sid b ns sv = (case z of Inl e \<Rightarrow> (sv\<lparr>sv_registry := r1\<rparr>, Inl e) | Inr ref \<Rightarrow>
        sthen (ingest_into (se_libm E) now ref b) (sthen (smodify (count_ingested (new_events b))) (sret ''accepted'')) (sv\<lparr>sv_registry := r1\<rparr>))"
proof -
  obtain y where y: "current_total E ns sid sv = (sv, y)" and
    tot: "\<And>n. y = Inr n \<Longrightarrow> n = (case visible (se_backend E) (sv_registry sv) (ns, sid) of None \<Rightarrow> 0 | Some s \<Rightarrow> st_total_events (ts_log s))"
    using current_total_eq [of E ns sid sv] by (cases "current_total E ns sid sv") auto
  show thesis
  proof (cases "255 < length sid \<or> 255 < length ns \<or> (\<exists>e. y = Inl e) \<or> (\<exists>n. y = Inr n \<and> 9223372036854775807 < n + new_events b)")
    case True
    then have "\<exists>e. ingest_events E now sid b ns sv = (sv, Inl e)"
      using y by (cases y) (auto simp: ingest_events_def deny_def sbind_def split: if_splits)
    then show thesis using refused by blast
  next
    case False
    then obtain n where n: "y = Inr n" "n + new_events b \<le> MAX_INT64" "length sid \<le> 255" "length ns \<le> 255"
      by (cases y) (auto simp: MAX_values not_less)
    obtain r1 z where op: "get_or_create (se_backend E) (se_libm E) (se_clustered E) (now 0) ns sid (sv_registry sv) = (r1, z)"
      by (cases "get_or_create (se_backend E) (se_libm E) (se_clustered E) (now 0) ns sid (sv_registry sv)")
    show thesis
      by (rule begun [OF op])
        (use n y op tot [OF n(1)] in \<open>auto simp: ingest_events_def deny_def sbind_def on_registry_eq MAX_values split: sum.splits\<close>)
  qed
qed

text \<open>
  C9: A batch is recorded as a whole or not at all.  For every validated batch and every state of the
  registry: if the request is accepted, the log of the stream (the visible one, or a fresh one) has recorded
  exactly the batch, the counter grows by its events and no other log changes; if it fails, for
  whatever reason, every log is as before and the counter too.
\<close>

theorem ingest_all_or_nothing:
  assumes "rg_ok (sv_registry sv)" "refs_ok (sv_registry sv)" "valid_batch b"
    and "\<forall>s. visible (se_backend E) (sv_registry sv) (ns, sid) = Some s \<longrightarrow> st_inv (se_libm E) (ts_log s)"
    and "ingest_events E now sid b ns sv = (sv', x)"
  shows "case x of
      Inl _ \<Rightarrow> sv_ingested sv' = sv_ingested sv \<and> (\<forall>i < length (rg_heap (sv_registry sv)). log_at sv' i = log_at sv i)
    | Inr _ \<Rightarrow> sv_ingested sv' = sv_ingested sv + new_events b
        \<and> (\<exists>ref s. rg_peek (sv_registry sv') ns sid = Some ref
          \<and> (visible (se_backend E) (sv_registry sv) (ns, sid) = Some s
             \<or> visible (se_backend E) (sv_registry sv) (ns, sid) = None \<and> new_log (se_libm E) (se_clustered E) (now 0) = Inr s)
          \<and> rfold (st_apply (se_libm E)) (batch_ops b) (ts_log s) = Inr (ts_log (log_at sv' ref))
          \<and> (\<forall>i < length (rg_heap (sv_registry sv)). i \<noteq> ref \<longrightarrow> log_at sv' i = log_at sv i))"
proof -
  let ?B = "se_backend E" and ?L = "se_libm E" and ?r = "sv_registry sv"
  show ?thesis
  proof (cases rule: ingest_stages [of E now sid b ns sv])
    case (refused e)
    then show ?thesis using assms(5) by auto
  next
    case (begun r1 z)
    let ?v = "sv\<lparr>sv_registry := r1\<rparr>"
    obtain more where more: "rg_heap r1 = rg_heap ?r @ more" using open_heap [OF assms(1) begun(1)] by blast
    have same: "log_at ?v i = log_at sv i" if "i < length (rg_heap ?r)" for i using that more by (simp add: log_at_def nth_append)
    show ?thesis
    proof (cases z)
      case (Inl e)
      then show ?thesis using begun(3) assms(5) same by auto
    next
      case (Inr ref)
      note ol = open_log [OF assms(1,2) begun(1) [unfolded Inr]]
      have inv: "st_inv ?L (ts_log (log_at ?v ref))" and small: "st_total_events (ts_log (log_at ?v ref)) + new_events b \<le> MAX_INT64"
        using ol assms(4) new_log_fresh begun(2) by (auto simp: log_at_def)
      consider (failed) e where "ingest_into ?L now ref b ?v = (?v, Inl e)"
        | (recorded) s where "ingest_into ?L now ref b ?v = (set_log ref s ?v, Inr ())"
            "rfold (st_apply ?L) (batch_ops b) (ts_log (log_at ?v ref)) = Inr (ts_log s)"
        using ingest_into_cases [OF _ inv assms(3) small, of now] ol by auto
      then show ?thesis
      proof cases
        case (failed e)
        then show ?thesis using begun(3) Inr assms(5) same by (auto simp: sbind_def)
      next
        case (recorded s)
        have sv': "sv' = count_ingested (new_events b) (set_log ref s ?v)" "x = Inr ''accepted''"
          using begun(3) Inr assms(5) recorded(1) by (simp_all add: sbind_def)
        then have "log_at sv' ref = s" "rg_peek (sv_registry sv') ns sid = Some ref" using ol by (simp_all add: count_ingested_def log_at_def)
        moreover have "log_at sv' i = log_at sv i" if "i < length (rg_heap ?r)" "i \<noteq> ref" for i
          using same [OF that(1)] that(2) by (simp add: sv' count_ingested_def log_at_def)
        ultimately show ?thesis using ol recorded(2) by (auto simp: sv'(2) sv'(1) count_ingested_def log_at_def)
      qed
    qed
  qed
qed

section \<open>Deleting a stream\<close>

text \<open>What the server needs of a backend that deletes a row and leaves a tombstone in one transaction.\<close>

locale tombstone_backend = storage_backend B stamp storable
  for B :: "'d backend" and stamp :: "string \<Rightarrow> string \<Rightarrow> 'd \<Rightarrow> pyfloat option" and storable :: "shared_log \<Rightarrow> bool" +
  fixes remove :: "string \<Rightarrow> string \<Rightarrow> string \<Rightarrow> string \<Rightarrow> pyfloat \<Rightarrow> 'd \<Rightarrow> ('d \<times> bool) result"
  assumes remove_key: "remove ns sid nid key v d = Inr (d', found) \<Longrightarrow> be_load B ns sid d' = Inr None \<and> stamp ns sid d' = None"
    and remove_other: "remove ns sid nid key v d = Inr (d', found) \<Longrightarrow> (ns', sid') \<noteq> (ns, sid) \<Longrightarrow>
      be_load B ns' sid' d' = be_load B ns' sid' d \<and> stamp ns' sid' d' = stamp ns' sid' d"
begin

lemma remove_visible:
  assumes "rg_inv r" "rg_storage r = Some d" "remove ns sid nid key v d = Inr (y, found)"
  shows "rg_inv (forget_stream ns sid (r\<lparr>rg_storage := Some y\<rparr>))
    \<and> visible B (forget_stream ns sid (r\<lparr>rg_storage := Some y\<rparr>)) = (visible B r)((ns, sid) := None)"
proof -
  let ?r = "r\<lparr>rg_storage := Some y\<rparr>" let ?f = "forget_stream ns sid ?r"
  have inv: "rg_ok r" "refs_ok r" "clocked d" "\<And>ns sid ref. rg_peek r ns sid = Some ref \<Longrightarrow> safe d (ns, sid) (rg_heap r ! ref)"
    using assms(1,2) by (auto simp: rg_inv_def)
  have ok: "rg_ok ?r" using inv(1) by (simp add: rg_simps)
  note dr = drop_stream_props [OF ok, of ns sid]
  have pk: "rg_peek ?f n s = (if (n, s) = (ns, sid) then None else rg_peek r n s)" for n s
    by (auto simp: forget_stream_def rg_simps dr)
  have st: "rg_storage ?f = Some y" "rg_heap ?f = rg_heap r" "rg_ok ?f" using ok by (auto simp: forget_stream_def rg_simps dr)
  have gone: "stored_log B y (ns, sid) = None" using remove_key [OF assms(3)] by (simp add: stored_log_def)
  have other: "stored_log B y k = stored_log B d k" "stamp (fst k) (snd k) y = stamp (fst k) (snd k) d" if "k \<noteq> (ns, sid)" for k
    using remove_other [OF assms(3), of "fst k" "snd k"] that by (auto simp: stored_log_def)
  have "visible B ?f k = ((visible B r)((ns, sid) := None)) k" for k
  proof (cases "k = (ns, sid)")
    case True
    then show ?thesis using pk st gone by (simp add: visible_def)
  next
    case False
    have "visible B ?f k = visible B r k"
      by (rule visible_same [where d' = y and d = d]) (use False pk st assms(2) other(1) [OF False] in auto)
    then show ?thesis using False by simp
  qed
  moreover have "clocked y" using inv(3) gone other(1) unfolding clocked_def by (metis option.distinct(1))
  moreover have "safe y (n, s) (rg_heap r ! ref)" if "rg_peek r n s = Some ref" "(n, s) \<noteq> (ns, sid)" for n s ref
    using inv(4) [OF that(1)] other [OF that(2)] unfolding safe_def fst_conv snd_conv by metis
  ultimately show ?thesis using inv(2) pk st by (auto simp: rg_inv_def refs_ok_def split: if_splits)
qed

end

text \<open>The SQL backend; the transaction may fail, and then nothing is written.\<close>

definition sql_remove :: "py_error option \<Rightarrow> string \<Rightarrow> string \<Rightarrow> string \<Rightarrow> string \<Rightarrow> pyfloat \<Rightarrow> sql_db \<Rightarrow> (sql_db \<times> bool) result" where
  "sql_remove fault ns sid nid key v db = (case fault of Some e \<Rightarrow> Inl e | None \<Rightarrow> Inr (sql_delete_with_tombstone ns sid nid key v db))"

lemma sql_remove_streams:
  assumes "sql_remove fault ns sid nid key v db = Inr (db', found)"
  shows "map_of (db_streams db') k = (if k = (ns, sid) then None else map_of (db_streams db) k)"
  using assms by (auto simp: sql_remove_def sql_delete_with_tombstone_def Let_def put_tombstone_streams dict_mem_def delete_conv' split: option.splits)

interpretation sql_removal: tombstone_backend "sql_backend L C" sql_stamp "sql_storable L C" "sql_remove fault"
proof
  fix ns sid nid key ns' sid' :: string and v :: pyfloat and d d' :: sql_db and found :: bool
  assume rm: "sql_remove fault ns sid nid key v d = Inr (d', found)"
  note rows = sql_remove_streams [OF rm]
  show "be_load (sql_backend L C) ns sid d' = Inr None \<and> sql_stamp ns sid d' = None"
    using rows [of "(ns, sid)"] by (simp add: sql_backend_def sql_load_def sql_stamp_def)
  assume "(ns', sid') \<noteq> (ns, sid)"
  then have "map_of (db_streams d') (ns', sid') = map_of (db_streams d) (ns', sid')" using rows [of "(ns', sid')"] by auto
  then show "be_load (sql_backend L C) ns' sid' d' = be_load (sql_backend L C) ns' sid' d \<and> sql_stamp ns' sid' d' = sql_stamp ns' sid' d"
    by (simp add: sql_backend_def sql_load_def sql_stamp_def)
qed

definition sql_env :: "libm \<Rightarrow> codec \<Rightarrow> py_error option \<Rightarrow> bool \<Rightarrow> string \<Rightarrow> sql_db server_env" where
  "sql_env L C fault clustered node = \<lparr>se_libm = L, se_backend = sql_backend L C, se_delete_with_tombstone = sql_remove fault,
     se_clustered = clustered, se_node_id = node\<rparr>"

lemma sql_env_simps [simp]:
  "se_libm (sql_env L C fault clustered node) = L" "se_backend (sql_env L C fault clustered node) = sql_backend L C"
  "se_delete_with_tombstone (sql_env L C fault clustered node) = sql_remove fault"
  "se_clustered (sql_env L C fault clustered node) = clustered" "se_node_id (sql_env L C fault clustered node) = node"
  by (simp_all add: sql_env_def)

text \<open>The registry invariant of a server that started on a database.\<close>

lemma sql_run_inv:
  assumes "rg_steps (sql_backend L C) L det sql_stamp (sql_storable L C) (StreamRegistry n (Some db) m) cs r"
    and "\<forall>(k, row) \<in> set (db_streams db). sr_updated row \<noteq> NaN"
  shows "sql.rg_inv L C r"
proof -
  have "sql.clocked L C db" unfolding sql.clocked_def
  proof (intro allI impI)
    fix k s assume "stored_log (sql_backend L C) db k = Some s"
    then obtain row where "map_of (db_streams db) k = Some row" "ts_updated s = sr_updated row"
      by (auto simp: stored_log_def sql_backend_def sql_load_def split: option.splits sum.splits)
    then show "ts_updated s \<noteq> NaN" using assms(2) map_of_SomeD [of "db_streams db" k row] by auto
  qed
  then show ?thesis using sql.run_visible [OF assms(1)] sql.start_inv by blast
qed

lemma evict_storage:
  assumes "rg_ok r" "evict_if_needed B ns r = (r', x)"
  shows "rg_storage r' = rg_storage r \<or> (\<exists>vns vid s d d'. rg_storage r = Some d \<and> be_save B vns vid s d = Inr d' \<and> rg_storage r' = Some d')"
  using assms(1)
proof (cases rule: evict_cases [where ns = ns and B = B])
  case (evicted vns vid ref d)
  have ok: "rg_ok (r\<lparr>rg_storage := d\<rparr>)" using assms(1) by (simp add: rg_simps)
  have "rg_storage r' = d" using evicted(4) assms(2) by (auto simp: rg_simps drop_stream_props [OF ok])
  moreover have "d = rg_storage r \<or> (\<exists>e e'. rg_storage r = Some e \<and> be_save B vns vid (rg_heap r ! ref) e = Inr e' \<and> d = Some e')"
  proof (cases "rg_storage r")
    case None
    then show ?thesis using arg_cong [OF evicted(3), of "\<lambda>y. rg_storage (fst y)"] by (simp add: save_stream_def)
  next
    case (Some e)
    show ?thesis
    proof (cases "be_save B vns vid (rg_heap r ! ref) e")
      case (Inl err)
      then show ?thesis using arg_cong [OF evicted(3), of snd] Some by (simp add: save_stream_def)
    next
      case (Inr e')
      then show ?thesis using arg_cong [OF evicted(3), of "\<lambda>y. rg_storage (fst y)"] Some by (simp add: save_stream_def)
    qed
  qed
  ultimately show ?thesis by blast
qed (use assms in auto)

lemma get_storage:
  assumes "rg_ok r" "rg_get B ns sid r = (r', x)"
  shows "rg_storage r' = rg_storage r \<or> (\<exists>vns vid s d d'. rg_storage r = Some d \<and> be_save B vns vid s d = Inr d' \<and> rg_storage r' = Some d')"
proof (cases "rg_peek r ns sid")
  case (Some ref)
  then show ?thesis using assms touch_props(6) [OF assms(1), of ns sid] by (auto simp: rg_get_def)
next
  case None
  show ?thesis using assms(1) None assms(2)
  proof (cases rule: get_absent)
    case (adopted s r1)
    have r1: "rg_ok r1" using evict_rg_ok [OF assms(1) adopted(2)] by simp
    have ab: "rg_peek (ensure_space ns r1) ns sid = None" using adopted(3) ensure_space_props(1) [OF r1] by simp
    have "rg_storage r' = rg_storage r1"
      using insert_stream_props(6) [OF ensure_space_props(2) [OF r1] ab] ensure_space_props(6) [OF r1] adopted(4) by simp
    then show ?thesis using evict_storage [OF assms(1) adopted(2)] by simp
  qed simp_all
qed

lemma sql_save_tombstones: "be_save (sql_backend L C) ns sid s d = Inr d' \<Longrightarrow> db_tombstones d' = db_tombstones d"
  by (auto simp: sql_backend_def sql_save_def sql_save_seen_def sql_write_def rbind_eq_Inr Let_def split: option.splits)

lemma rg_delete_keep: "rg_delete B ns sid False r = (forget_stream ns sid r, Inr (rg_peek r ns sid \<noteq> None))"
  by (simp add: rg_delete_def)

text \<open>The stages of a deletion on a mesh node: refused, or the tombstone is placed and the deletion committed.\<close>

lemma reset_stages:
  assumes "se_clustered E" "rg_get (se_backend E) ns sid (sv_registry sv) = (r1, y)"
  obtains (refused) e where "reset_stream E now sid ns sv = (sv\<lparr>sv_registry := r1\<rparr>, Inl e)"
  | (placed) c key v previous where "begin_deletion ns sid now (sv_cluster sv) = Inr (c, key, v, previous)"
      "reset_stream E now sid ns sv = commit_deletion E ns sid key v previous (sv\<lparr>sv_registry := r1, sv_cluster := c\<rparr>)"
proof -
  note defs = reset_stream_def on_registry_eq on_cluster_def place_tombstone_def handling_def as_http_def sbind_def deny_def
  show thesis
  proof (cases "\<exists>ref. y = Inr (Some ref)")
    case False
    then have "\<exists>e. reset_stream E now sid ns sv = (sv\<lparr>sv_registry := r1\<rparr>, Inl e)" using assms by (cases y) (auto simp: defs)
    then show thesis using refused by blast
  next
    case True
    then obtain ref where ref: "y = Inr (Some ref)" by blast
    show thesis
    proof (cases "begin_deletion ns sid now (sv_cluster sv)")
      case (Inl e)
      then have "\<exists>e. reset_stream E now sid ns sv = (sv\<lparr>sv_registry := r1\<rparr>, Inl e)" using assms ref by (auto simp: defs)
      then show thesis using refused by blast
    next
      case (Inr q)
      obtain c key v previous where q: "q = (c, key, v, previous)" by (cases q) auto
      show thesis by (rule placed [OF Inr [unfolded q]]) (use assms ref Inr q in \<open>simp add: defs\<close>)
    qed
  qed
qed


section \<open>Reading requests\<close>

text \<open>The requests that only read, and the handler that serves each.\<close>

datatype read_request = Metrics_Of string string | Event_Count_Of string string string | Canary_Of string canary_request string
  | Slo_Of string string pyfloat pyfloat string | Recommend_Of string string pyfloat pyfloat | Anomaly_Of string string string pyfloat
  | Diff_Of string "string option" "string option" string | Query_Of string | Aggregate_Of string string | Feed_Of string string

fun serve_read :: "'d server_env \<Rightarrow> (string \<Rightarrow> expr option) \<Rightarrow> auth_config \<Rightarrow> auth_outcome \<Rightarrow> read_request \<Rightarrow> ('d server, unit) step" where
  "serve_read E parse cfg auth (Metrics_Of sid ns) = sthen (get_metrics E sid ns) (sret ())"
| "serve_read E parse cfg auth (Event_Count_Of sid name ns) = sthen (get_event_count E sid name ns) (sret ())"
| "serve_read E parse cfg auth (Canary_Of sid q ns) = sthen (analyze_canary E sid q ns) (sret ())"
| "serve_read E parse cfg auth (Slo_Of sid base target budget ns) = sthen (evaluate_slo E sid base target budget ns) (sret ())"
| "serve_read E parse cfg auth (Recommend_Of sid ns target budget) = sthen (recommend_slo E sid ns target budget) (sret ())"
| "serve_read E parse cfg auth (Anomaly_Of sid base ns sensitivity) = sthen (detect_anomaly E sid base ns sensitivity) (sret ())"
| "serve_read E parse cfg auth (Diff_Of sid base alt ns) = sthen (diff_streams E sid base alt ns) (sret ())"
| "serve_read E parse cfg auth (Query_Of query) = sthen (query_stream E parse cfg auth query) (sret ())"
| "serve_read E parse cfg auth (Aggregate_Of nss sid) = sthen (aggregate_streams E nss sid) (sret ())"
| "serve_read E parse cfg auth (Feed_Of sid ns) = sthen (ws_turn E sid ns) (sret ())"

text \<open>A step that readers cannot see: it keeps the invariant, what is visible, the mesh and the counter.\<close>

definition quiet :: "libm \<Rightarrow> codec \<Rightarrow> sql_db server \<Rightarrow> sql_db server \<Rightarrow> bool" where
  "quiet L C sv sv' \<longleftrightarrow> sv_cluster sv' = sv_cluster sv \<and> sv_ingested sv' = sv_ingested sv \<and>
     (sql.rg_inv L C (sv_registry sv) \<longrightarrow> sql.rg_inv L C (sv_registry sv')
        \<and> visible (sql_backend L C) (sv_registry sv') = visible (sql_backend L C) (sv_registry sv))"

named_theorems quiet_intros \<open>steps that change nothing a reader sees\<close>

lemma quiet_refl [simp]: "quiet L C sv sv" by (simp add: quiet_def)

lemma quiet_bind [quiet_intros]: "keeps (quiet L C) m \<Longrightarrow> (\<And>x. keeps (quiet L C) (f x)) \<Longrightarrow> keeps (quiet L C) (sbind m f)"
  by (rule keeps_sbind) (auto simp: quiet_def)

lemma quiet_pure [quiet_intros]:
  "keeps (quiet L C) (sret x)" "keeps (quiet L C) (slift y)" "keeps (quiet L C) (sget g)" "keeps (quiet L C) (deny b code detail)"
  by (simp_all add: keeps_def deny_def)

lemma quiet_get [quiet_intros]: "keeps (quiet L C) (on_registry (rg_get (sql_backend L C) ns sid))"
proof -
  have "quiet L C sv (fst (on_registry (rg_get (sql_backend L C) ns sid) sv))" for sv
    using sql.get_visible [of L C "sv_registry sv" ns sid] by (cases "rg_get (sql_backend L C) ns sid (sv_registry sv)") (simp add: on_registry_eq quiet_def)
  then show ?thesis by (simp add: keeps_def)
qed

lemma quiet_report [quiet_intros]: "keeps (quiet L C) (report_stream E ns sid ref)"
  by (simp add: keeps_def report_stream_def split: option.splits)

lemma quiet_handling [quiet_intros]: "keeps (quiet L C) m \<Longrightarrow> keeps (quiet L C) (handling classes code lead m)"
  by (simp add: keeps_def handling_def case_prod_unfold)

lemma quiet_if [quiet_intros]:
  "(b \<Longrightarrow> keeps (quiet L C) m) \<Longrightarrow> (\<not> b \<Longrightarrow> keeps (quiet L C) k) \<Longrightarrow> keeps (quiet L C) (if b then m else k)"
  "(z = None \<Longrightarrow> keeps (quiet L C) m) \<Longrightarrow> (\<And>x. z = Some x \<Longrightarrow> keeps (quiet L C) (g x)) \<Longrightarrow> keeps (quiet L C) (case z of None \<Rightarrow> m | Some x \<Rightarrow> g x)"
  "(\<And>a c. p = (a, c) \<Longrightarrow> keeps (quiet L C) (h a c)) \<Longrightarrow> keeps (quiet L C) (case p of (a, c) \<Rightarrow> h a c)"
  by (simp_all split: option.splits prod.splits)

lemma quiet_find [quiet_intros]: "keeps (quiet L C) (find_stream (sql_env L C fault cl node) what ns sid)"
  unfolding find_stream_def sql_env_simps by (intro quiet_intros)

lemma quiet_pair [quiet_intros]: "keeps (quiet L C) (report_pair (sql_env L C fault cl node) what ns sid base)"
  unfolding report_pair_def by (intro quiet_intros)

lemma quiet_aggregate [quiet_intros]: "keeps (quiet L C) (aggregate_all (sql_env L C fault cl node) sid nss acc)"
proof (induction nss arbitrary: acc)
  case (Cons ns nss)
  have "keeps (quiet L C) (aggregate_one (sql_env L C fault cl node) sid ns acc)"
    unfolding aggregate_one_def sql_env_simps by (intro quiet_intros)
  then show ?case using Cons by (simp add: quiet_intros)
qed (simp add: quiet_intros)

lemma quiet_read: "keeps (quiet L C) (serve_read (sql_env L C fault cl node) parse cfg auth q)"
  by (cases q) (simp_all only: serve_read.simps get_metrics_def get_event_count_def analyze_canary_def evaluate_slo_def recommend_slo_def
    detect_anomaly_def diff_streams_def query_stream_def aggregate_streams_def ws_turn_def Let_def sql_env_simps, (intro quiet_intros)+)

text \<open>
  C13: Reading is invisible.  On a server with SQL storage, no reading request - metrics, event counts,
  canary and objective analyses, anomaly detection, comparison, queries, aggregation over namespaces, a turn of
  the web socket - changes what any later reader finds, whether it succeeds or fails: it may load and evict
  streams, but every stream, the mesh and the counter of events are the same.
\<close>

theorem reads_change_nothing:
  assumes "rg_steps (sql_backend L C) L det sql_stamp (sql_storable L C) (StreamRegistry n (Some db) m) cs (sv_registry sv)"
    and "\<forall>(k, row) \<in> set (db_streams db). sr_updated row \<noteq> NaN"
    and "serve_read (sql_env L C fault clustered node) parse cfg auth q sv = (sv', x)"
  shows "visible (sql_backend L C) (sv_registry sv') = visible (sql_backend L C) (sv_registry sv)
    \<and> sv_cluster sv' = sv_cluster sv \<and> sv_ingested sv' = sv_ingested sv"
proof -
  have "quiet L C sv sv'" using quiet_read [of L C fault clustered node parse cfg auth q] assms(3) by (auto simp: keeps_def dest!: spec [of _ sv])
  then show ?thesis using sql_run_inv [OF assms(1,2)] by (simp add: quiet_def)
qed

section \<open>What the web socket sends\<close>

text \<open>Counts in decimal text are read back.\<close>

lemma decode_text: "0 \<le> n \<Longrightarrow> decode_count msg (PStr (int_str n)) = Inr (PInt n)"
  using nat_str_not_minus [of "nat n"] by (simp add: decimal_def int_str_def parse_nat_str)

lemma decode_bins:
  assumes "bins_ok d"
  shows "rmap decode_entry (map (\<lambda>(k, c). (PStr (int_str k), PStr (int_str c))) d) = Inr (map (\<lambda>(k, c). (PStr (int_str k), PInt c)) d)"
proof -
  have "rmap decode_entry xs = Inr (map (\<lambda>(k, c). (PStr (int_str k), PInt c)) d)"
    if "xs = map (\<lambda>(k, c). (PStr (int_str k), PStr (int_str c))) d" for xs
    using assms unfolding that bins_ok_def
    by (induction d) (auto simp: decode_entry_def decode_text simp del: decode_count.simps)
  then show ?thesis by blast
qed

lemma decode_rows:
  assumes "\<forall>row \<in> set rows. \<forall>c \<in> set row. (0 :: int) \<le> c"
  shows "rmap decode_row (map (\<lambda>row. PList (map (\<lambda>c. PStr (int_str c)) row)) rows) = Inr (map (\<lambda>row. PList (map PInt row)) rows)"
proof -
  have "rmap (decode_count msg) (map (\<lambda>c. PStr (int_str c)) row) = Inr (map PInt row)" if "\<forall>c \<in> set row. 0 \<le> c" for row msg
    using that by (induction row) (auto simp: decode_text simp del: decode_count.simps)
  then show ?thesis using assms by (induction rows) (auto simp del: decode_count.simps)
qed

text \<open>The state as it arrives: bucket keys and counts are text.\<close>

definition sent_latency :: "ddsketch \<Rightarrow> pydict" where
  "sent_latency l =
    [(PStr ''alpha'', PFloat (dd_alpha l)),
     (PStr ''positive'', PDict (map (\<lambda>(k, c). (PStr (int_str k), PStr (int_str c))) (dd_positive l))),
     (PStr ''negative'', PDict (map (\<lambda>(k, c). (PStr (int_str k), PStr (int_str c))) (dd_negative l))),
     (PStr ''zero_count'', PStr (int_str (dd_zero_count l))), (PStr ''count'', PStr (int_str (dd_count l))),
     (PStr ''min'', if dd_count l > 0 then PFloat (dd_min l) else PNone),
     (PStr ''max'', if dd_count l > 0 then PFloat (dd_max l) else PNone)]"

definition sent_events :: "cms \<Rightarrow> pydict" where
  "sent_events e = [(PStr ''width'', PInt (cms_width e)), (PStr ''depth'', PInt (cms_depth e)),
     (PStr ''table'', PList (map (\<lambda>row. PList (map (\<lambda>c. PStr (int_str c)) row)) (cms_table e))),
     (PStr ''total'', PStr (int_str (cms_total e)))]"

definition sent_items :: "pystream \<Rightarrow> pyval \<Rightarrow> pydict" where
  "sent_items s m = [(PStr ''version'', PInt 1), (PStr ''total'', PStr (int_str (sl_total s))),
     (PStr ''deterministic'', PBool (sl_deterministic s)), (PStr ''latency'', PDict (sent_latency (sl_latency s))),
     (PStr ''uniques'', sl_uniques_dict (sl_uniques s)), (PStr ''events'', PDict (sent_events (sl_events s))), (PStr ''metrics'', m)]"

lemma encode_dict: "\<exists>f. encode_counts (PDict d) = PDict f"
proof -
  have "\<exists>y. d_map f k (PDict x) = PDict y" for f k x by (auto simp: d_map_def split: option.splits)
  then show ?thesis unfolding encode_counts_def by metis
qed

lemma encoded_sent:
  assumes "encode_counts (sl_to_dict b) = PDict e"
  shows "json_dict (d_set e ''metrics'' m) = sent_items b (json_trip m)"
  using assms
  by (auto simp: to_dict_items stream_items_def latency_items_def sl_events_dict_def sl_uniques_dict_def encode_counts_def d_map_def d_set_def
    text_group_def text_row_def text_table_def count_text_def sent_items_def sent_latency_def sent_events_def json_dict_def comp_def case_prod_unfold)

lemma decode_sent:
  assumes "sl_inv L b"
  shows "decode_state (sent_items b m) = Inr (PDict (stream_items (\<lambda>k. PStr (int_str k)) b @ [(PStr ''metrics'', m)]))"
proof -
  let ?l = "sl_latency b" and ?e = "sl_events b"
  have inv: "dd_inv L ?l" "cms_inv ?e" "sl_total b = dd_count ?l + cms_total ?e" using assms(1) by (auto simp: sl_inv_def)
  have n: "0 \<le> dd_zero_count ?l" "0 \<le> dd_count ?l" "0 \<le> cms_total ?e" "0 \<le> sl_total b"
    using inv dd_inv_count [OF inv(1)] cms_inv_total [OF inv(2)] by (auto simp: dd_inv_def)
  have ok: "bins_ok (dd_positive ?l)" "bins_ok (dd_negative ?l)" using inv(1) by (auto simp: dd_inv_def)
  have rows: "\<forall>row \<in> set (cms_table ?e). \<forall>c \<in> set row. 0 \<le> c" using inv(2) by (auto simp: cms_inv_def)
  show ?thesis
    by (simp add: sent_items_def sent_latency_def sent_events_def stream_items_def latency_items_def sl_events_dict_def decode_state_def d_set_def
      decode_text n decode_bins ok decode_rows rows del: decode_count.simps)
qed

text \<open>The reader ignores the metrics.\<close>

lemma from_dict_extra:
  assumes "k \<notin> {''version'', ''total'', ''deterministic'', ''latency'', ''uniques'', ''events''}"
  shows "st_from_dict L (PDict (d @ [(PStr k, m)])) = st_from_dict L (PDict d)"
proof -
  have get: "d_get (d @ [(PStr k, m)]) j x = d_get d j x" "d_item (d @ [(PStr k, m)]) j = d_item d j" if "j \<noteq> k" for j x
  proof -
    have "map_of (d @ [(PStr k, m)]) (PStr j) = map_of d (PStr j)" using that by (induction d) auto
    then show "d_get (d @ [(PStr k, m)]) j x = d_get d j x" "d_item (d @ [(PStr k, m)]) j = d_item d j"
      by (simp_all only: d_item_def d_get_def dict_get_def)
  qed
  have "''version'' \<noteq> k" "''total'' \<noteq> k" "''deterministic'' \<noteq> k" "''latency'' \<noteq> k" "''uniques'' \<noteq> k" "''events'' \<noteq> k" using assms by auto
  note same = this [THEN get(1)] this [THEN get(2)]
  have "from_dict_body L (d @ [(PStr k, m)]) = from_dict_body L d" unfolding from_dict_body_def same by (rule refl)
  then show ?thesis by (simp add: st_from_dict_def sl_from_dict_def)
qed

text \<open>
  C14: What the web socket sends can be merged without loss.  The state of a log built by any accepted
  stream of calls, with its counts in decimal text and the metrics beside them, is decoded by the
  merge endpoint to exactly that log.
\<close>

theorem ws_state_merges:
  assumes "st_init L a p w d det = Inr e" and "rfold (st_apply L) ops e = Inr s"
    and "\<forall>op \<in> set ops. op_double op" and "libm_ok L"
    and "is_ok (dd_key L (sl_latency (st_backend s)) (Fin DBL_MAX))"
    and "is_ok (dd_key L (sl_latency (st_backend s)) (Fin DBL_TRUE_MIN))"
    and "ws_state L s = Inr sent"
  shows "rbind (decode_state (json_dict sent)) (st_from_dict L) = Inr s"
proof -
  have inv: "st_inv L s" using st_ingest_inv [OF assms(1,2)] by simp
  obtain f m where f: "encode_counts (sl_to_dict (st_backend s)) = PDict f" "sent = d_set f ''metrics'' m"
    using assms(7) encode_dict [of "stream_items PInt (st_backend s)"] by (auto simp: ws_state_def rbind_eq_Inr st_to_dict_def to_dict_items)
  have "st_from_dict L (PDict (stream_items (\<lambda>k. PStr (int_str k)) (st_backend s))) = Inr s"
    using dict_round_trip [OF assms(1-6)] by (simp add: st_to_dict_def json_trip_items)
  then show ?thesis
    by (simp add: f(2) encoded_sent [OF f(1)] decode_sent [OF st_inv_backend [OF inv]] from_dict_extra)
qed

section \<open>Instances\<close>

definition demo_batch :: event_batch where
  "demo_batch = \<lparr>eb_latencies = [], eb_uniques = [''u''], eb_events = [(''k'', 3)]\<rparr>"

definition demo_server :: "stream \<Rightarrow> sql_db server" where
  "demo_server s = \<lparr>sv_registry = (StreamRegistry 1 None 1)\<lparr>rg_spaces := [(''n'', [(''a'', 0)])],
     rg_heap := [\<lparr>ts_log = s, ts_updated = Fin 1\<rparr>], rg_active := 1\<rparr>, sv_cluster = demo_cluster, sv_ingested = 0\<rparr>"

lemma demo_server_peek: "rg_peek (sv_registry (demo_server s)) ns sid = (if ns = ''n'' \<and> sid = ''a'' then Some 0 else None)"
  by (simp add: demo_server_def rg_peek_def space_def StreamRegistry_def)

lemma demo_server_ok: "rg_ok (sv_registry (demo_server s))" "refs_ok (sv_registry (demo_server s))" "valid_batch demo_batch"
  using demo_server_peek [of s]
  by (auto simp: rg_ok_def refs_ok_def demo_server_def space_def valid_batch_def demo_batch_def valid_name_def valid_event_count_def split: if_splits)

lemma demo_accepts:
  assumes "st_inv libm_demo s" "st_total_events s = 0"
  obtains sv' where "ingest_events (sql_env libm_demo C None False ''n0'') now ''a'' demo_batch ''n'' (demo_server s) = (sv', Inr ''accepted'')"
proof -
  obtain t where t: "st_apply libm_demo (AddUnique (KStr ''u'')) s = Inr t" "st_total_events t = st_total_events s"
    by (rule add_unique_ok [OF assms(1)])
  obtain u where u: "st_apply libm_demo (AddEvent (KStr ''k'') 3) t = Inr u"
    using add_event_ok [OF conjunct1 [OF st_apply_inv [OF assms(1) t(1)]], of 3 "''k''"] assms(2) t(2) by (auto simp: MAX_values)
  note adds = ts_add_calls(2,3) [of libm_demo, symmetric]
  have peek: "rg_peek (sv_registry (demo_server s)) ''n'' ''a'' = Some 0" by (simp add: demo_server_peek)
  have log: "log_at (demo_server s) 0 = \<lparr>ts_log = s, ts_updated = Fin 1\<rparr>" "0 < length (rg_heap (sv_registry (demo_server s)))"
    by (simp_all add: log_at_def demo_server_def)
  have open0: "on_registry (get_or_create B L det (now 0) ''n'' ''a'') (demo_server s) = (demo_server s, Inr 0)" for B L det
    using peek by (simp add: on_registry_def get_or_create_def) (simp add: demo_server_def touch_def move_to_end_def space_def StreamRegistry_def)
  show thesis
    by (rule that)
      (use t u log peek assms(2) in \<open>simp add: ingest_events_def deny_def sbind_def current_total_def open0 ingest_into_def demo_batch_def new_events_def
        adds update_log_add ts_total_events_def del: ts_add_calls\<close>)
qed

theorem ingest_all_or_nothing_witness:
  "\<exists>s t. \<forall>C now. \<exists>sv' ref. ingest_events (sql_env libm_demo C None False ''n0'') now ''a'' demo_batch ''n'' (demo_server s) = (sv', Inr ''accepted'')
    \<and> sv_ingested sv' = 3 \<and> rfold (st_apply libm_demo) [AddUnique (KStr ''u''), AddEvent (KStr ''k'') 3] s = Inr t
    \<and> rg_peek (sv_registry sv') ''n'' ''a'' = Some ref \<and> ts_log (log_at sv' ref) = t"
proof -
  obtain s where s: "st_init libm_demo (Fin (1/2)) 4 4 2 True = Inr s" by (rule demo_stream)
  have "st_total_events (st_reset s) = 0" by (simp add: st_total_events_def st_reset_def sl_reset_def)
  then have inv: "st_inv libm_demo s" and tot: "st_total_events s = 0" using st_init_inv [OF s] by simp_all
  have vis: "visible B (sv_registry (demo_server s)) (''n'', ''a'') = Some \<lparr>ts_log = s, ts_updated = Fin 1\<rparr>" for B
    by (simp add: visible_def demo_server_peek) (simp add: demo_server_def)
  obtain t where t: "rfold (st_apply libm_demo) (batch_ops demo_batch) s = Inr t"
    using batch_tail_ok [OF inv demo_server_ok(3)] tot by (auto simp: batch_ops_def demo_batch_def MAX_values)
  have "\<exists>sv' ref. ingest_events (sql_env libm_demo C None False ''n0'') now ''a'' demo_batch ''n'' (demo_server s) = (sv', Inr ''accepted'')
      \<and> sv_ingested sv' = 3 \<and> rg_peek (sv_registry sv') ''n'' ''a'' = Some ref \<and> ts_log (log_at sv' ref) = t" for C now
  proof -
    obtain sv' where run: "ingest_events (sql_env libm_demo C None False ''n0'') now ''a'' demo_batch ''n'' (demo_server s) = (sv', Inr ''accepted'')"
      by (rule demo_accepts [OF inv tot])
    have "sv_ingested (demo_server s) = 0" "new_events demo_batch = 3" by (simp_all add: demo_server_def new_events_def demo_batch_def)
    then show ?thesis using ingest_all_or_nothing [OF demo_server_ok _ run] run inv t by (auto simp: vis)
  qed
  then show ?thesis using t by (intro exI [of _ s] exI [of _ t]) (simp add: batch_ops_def demo_batch_def)
qed

lemma demo_database:
  "\<forall>(k, row) \<in> set (db_streams demo_db). sr_updated row \<noteq> NaN"
  "rg_storage (demo_end s t) = Some d \<Longrightarrow> db_tombstones d = []"
  by (auto simp: demo_db_def demo_end_def sql_write_def Let_def)

lemma demo_peek: "rg_get B ''n'' ''a'' (demo_end s t) = (demo_end s t, Inr (Some 2))"
  by (simp add: rg_get_def rg_peek_def touch_def move_to_end_def space_def demo_end_def)

definition demo_node :: "stream \<Rightarrow> stream \<Rightarrow> sql_db server" where
  "demo_node s t = \<lparr>sv_registry = demo_end s t, sv_cluster = demo_cluster, sv_ingested = 0\<rparr>"


theorem reads_change_nothing_witness:
  "\<exists>s t sv' x. serve_read (sql_env libm_demo (demo_codec s t) None True ''n0'') (\<lambda>_. None) \<lparr>ac_token = None, ac_namespace_tokens = []\<rparr> Open (Event_Count_Of ''b'' ''k'' ''n'') (demo_node s t) = (sv', x)
    \<and> visible (sql_backend libm_demo (demo_codec s t)) (sv_registry sv') = visible (sql_backend libm_demo (demo_codec s t)) (demo_end s t)"
proof -
  obtain s t where run: "rg_steps (sql_backend libm_demo (demo_codec s t)) libm_demo False sql_stamp (sql_storable libm_demo (demo_codec s t))
       (StreamRegistry 1 (Some demo_db) 1) demo_calls (demo_end s t)" by (rule demo_run)
  have node: "sv_registry (demo_node s t) = demo_end s t" by (simp add: demo_node_def)
  show ?thesis
    using reads_change_nothing [OF run [folded node] demo_database(1)] node
    by (metis prod.exhaust)
qed

definition demo_latency :: "stream result" where
  "demo_latency = rbind (st_init libm_demo (Fin (1/2)) 4 4 2 True) (rfold (st_apply libm_demo) [AddLatency (Fin 2)])"

lemma demo_percentiles: "is_ok (rbind demo_latency (\<lambda>s. rbind (st_percentile libm_demo s (to_float (50 / 100))) (\<lambda>_.
    rbind (st_percentile libm_demo s (to_float (95 / 100))) (\<lambda>_. rbind (st_percentile libm_demo s (to_float (99 / 100))) (\<lambda>_.
    st_percentile libm_demo s (to_float (999 / 1000)))))))"
  by code_simp

lemma demo_uniques: "is_ok (rbind demo_latency (st_unique_count libm_demo))"
  by code_simp

theorem ws_state_merges_witness:
  "\<exists>e s sent. st_init libm_demo (Fin (1/2)) 4 4 2 True = Inr e \<and> rfold (st_apply libm_demo) [AddLatency (Fin 2)] e = Inr s
    \<and> ws_state libm_demo s = Inr sent \<and> rbind (decode_state (json_dict sent)) (st_from_dict libm_demo) = Inr s"
proof -
  obtain s where s: "demo_latency = Inr s" using demo_uniques by (auto simp: is_ok_iff rbind_eq_Inr)
  have "is_ok (ws_metrics libm_demo s)"
    using demo_percentiles [unfolded s] demo_uniques [unfolded s] by (auto simp: is_ok_iff rbind_eq_Inr ws_metrics_def)
  then obtain m where m: "ws_metrics libm_demo s = Inr m" by (auto simp: is_ok_iff)
  obtain f where "encode_counts (st_to_dict s) = PDict f"
    using encode_dict [of "stream_items PInt (st_backend s)"] by (auto simp: st_to_dict_def to_dict_items)
  then obtain sent where sent: "ws_state libm_demo s = Inr sent" using m by (simp add: ws_state_def)
  obtain e where es: "st_init libm_demo (Fin (1/2)) 4 4 2 True = Inr e" "rfold (st_apply libm_demo) [AddLatency (Fin 2)] e = Inr s"
    using s by (auto simp: demo_latency_def rbind_eq_Inr)
  have "is_double 2" using rnd_int [of 2] by (simp add: is_double_def)
  then have "\<forall>op \<in> set [AddLatency (Fin 2)]. op_double op" by (simp add: op_double_def)
  then show ?thesis using ws_state_merges [OF es _ libm_ok_demo demo_bounds [OF es] sent] es sent by blast
qed

end
