(* ===== verification/Alert_Center.thy ===== *)
theory Alert_Center
  imports StateResult Json_Text Sql
begin

text \<open>
  The alert management center (\<^verbatim>\<open>alert_manager.py\<close>): alerts with validation, silences, routes, delivery
  with retries, the store with its file, and the manager over them.  Fields have their annotated
  types; of an alert, whose constructor also reads stored files, the checked fields are arbitrary values.
  The network, the environment variables and the platform's \<^verbatim>\<open>strftime\<close> are arguments, as are the readings of the clock.
  Text is a sequence of bytes in UTF-8.
\<close>

section \<open>Alerts\<close>

definition SEVERITIES :: "string list" where
  "SEVERITIES = [''critical'', ''warning'', ''info'']"

definition STATUSES :: "string list" where
  "STATUSES = [''firing'', ''resolved'', ''silenced'']"

definition ADAPTERS :: "string list" where
  "ADAPTERS = [''slack'', ''discord'', ''pagerduty'', ''opsgenie'', ''webhook'']"

text \<open>The arguments of the constructor; \<open>None\<close> for labels or annotations that are no dictionary.\<close>

record alert_args =
  aa_name :: pyval
  aa_namespace :: pyval
  aa_stream :: pyval
  aa_severity :: pyval
  aa_status :: pyval
  aa_labels :: "(string, string) dict option"
  aa_annotations :: "(string, string) dict option"
  aa_fired_at :: pyval
  aa_resolved_at :: pyval
  aa_tenant :: string
  aa_id :: string

record alert =
  al_name :: string
  al_namespace :: string
  al_stream :: string
  al_severity :: string
  al_status :: string
  al_labels :: "(string, string) dict"
  al_annotations :: "(string, string) dict"
  al_fired_at :: pyval
  al_resolved_at :: pyval
  al_tenant :: string
  al_id :: string

text \<open>\<^verbatim>\<open>isinstance(v, (int, float)) and math.isfinite(float(v))\<close>; a huge integer raises.\<close>

fun finite_number :: "pyval \<Rightarrow> bool result" where
  "finite_number (PInt n) = raise_if (f_isinf (f_of_int n)) (OverflowError ''int too large to convert to float'') (Inr True)"
| "finite_number (PBool _) = Inr True"
| "finite_number (PFloat f) = Inr (f_isfinite f)"
| "finite_number _ = Inr False"

definition complain :: "bool \<Rightarrow> string \<Rightarrow> string list" where
  "complain ok msg = (if ok then [] else [msg])"

fun non_blank :: "pyval \<Rightarrow> bool" where
  "non_blank (PStr s) = (py_strip s \<noteq> [])"
| "non_blank _ = False"

fun is_text :: "pyval \<Rightarrow> bool" where
  "is_text (PStr _) = True"
| "is_text _ = False"

fun text_of :: "pyval \<Rightarrow> string" where
  "text_of (PStr s) = s"
| "text_of _ = []"

definition alert_errors :: "alert_args \<Rightarrow> string list result" where
  "alert_errors a =
    rbind (finite_number (aa_fired_at a)) (\<lambda>fired.
    rbind (if aa_resolved_at a = PNone then Inr True else finite_number (aa_resolved_at a)) (\<lambda>resolved.
    Inr (complain (non_blank (aa_name a)) ''name must be a non-empty string''
      @ complain (non_blank (aa_namespace a)) ''namespace must be a non-empty string''
      @ complain (is_text (aa_stream a)) ''stream must be a string''
      @ complain (aa_severity a \<in> PStr ` set SEVERITIES) ''severity must be one of''
      @ complain (aa_status a \<in> PStr ` set STATUSES) ''status must be one of''
      @ complain (aa_labels a \<noteq> None) ''labels must be a dict''
      @ complain (aa_annotations a \<noteq> None) ''annotations must be a dict''
      @ complain fired ''fired_at must be a finite number''
      @ complain resolved ''resolved_at must be a finite number or None'')))"

definition alert_of :: "alert_args \<Rightarrow> alert" where
  "alert_of a = \<lparr>al_name = text_of (aa_name a), al_namespace = text_of (aa_namespace a), al_stream = text_of (aa_stream a),
     al_severity = text_of (aa_severity a), al_status = text_of (aa_status a),
     al_labels = (case aa_labels a of None \<Rightarrow> [] | Some d \<Rightarrow> d), al_annotations = (case aa_annotations a of None \<Rightarrow> [] | Some d \<Rightarrow> d),
     al_fired_at = aa_fired_at a, al_resolved_at = aa_resolved_at a, al_tenant = aa_tenant a, al_id = aa_id a\<rparr>"

definition Alert :: "alert_args \<Rightarrow> alert result" where
  "Alert a = rbind (alert_errors a) (\<lambda>errors.
     raise_if (errors \<noteq> []) (ValueError (''Alert validation errors: '' @ py_join ''; '' errors)) (Inr (alert_of a)))"

text \<open>\<^verbatim>\<open>to_dict\<close>, and \<^verbatim>\<open>dataclasses.replace\<close>, which constructs a new alert and so validates again.\<close>

definition alert_args_of :: "alert \<Rightarrow> alert_args" where
  "alert_args_of a = \<lparr>aa_name = PStr (al_name a), aa_namespace = PStr (al_namespace a), aa_stream = PStr (al_stream a),
     aa_severity = PStr (al_severity a), aa_status = PStr (al_status a), aa_labels = Some (al_labels a), aa_annotations = Some (al_annotations a),
     aa_fired_at = al_fired_at a, aa_resolved_at = al_resolved_at a, aa_tenant = al_tenant a, aa_id = al_id a\<rparr>"

definition alert_resolve :: "pyval \<Rightarrow> pyfloat \<Rightarrow> alert \<Rightarrow> alert result" where
  "alert_resolve resolved_at now a = Alert ((alert_args_of a)\<lparr>aa_status := PStr ''resolved'',
     aa_resolved_at := (if resolved_at = PNone then PFloat now else resolved_at)\<rparr>)"

definition alert_silence :: "alert \<Rightarrow> alert result" where
  "alert_silence a = Alert ((alert_args_of a)\<lparr>aa_status := PStr ''silenced''\<rparr>)"

section \<open>Silences, routes and channels\<close>

record silence =
  sn_starts_at :: pyfloat
  sn_ends_at :: pyfloat
  sn_namespace :: string
  sn_stream :: string
  sn_severity :: string
  sn_tenant :: string
  sn_labels :: "(string, string) dict"
  sn_comment :: string
  sn_created_by :: string
  sn_id :: string

definition Silence :: "silence \<Rightarrow> silence result" where
  "Silence s = (let errors = complain (f_isfinite (sn_starts_at s)) ''starts_at must be a finite number''
       @ complain (f_isfinite (sn_ends_at s)) ''ends_at must be a finite number''
       @ complain (\<not> (f_isfinite (sn_starts_at s) \<and> f_isfinite (sn_ends_at s) \<and> f_le (sn_ends_at s) (sn_starts_at s)))
           ''ends_at must be strictly greater than starts_at''
       @ complain (sn_severity s = [] \<or> sn_severity s \<in> set SEVERITIES) ''match_severity must be one of'' in
     raise_if (errors \<noteq> []) (ValueError (''Silence validation errors: '' @ py_join ''; '' errors)) (Inr s))"

definition is_active :: "pyfloat \<Rightarrow> silence \<Rightarrow> bool" where
  "is_active t s \<longleftrightarrow> f_le (sn_starts_at s) t \<and> f_lt t (sn_ends_at s)"

text \<open>An empty pattern matches everything; labels are looked up one by one.\<close>

definition fits :: "string \<Rightarrow> string \<Rightarrow> bool" where
  "fits pattern v \<longleftrightarrow> pattern = [] \<or> pattern = v"

definition labels_match :: "(string, string) dict \<Rightarrow> alert \<Rightarrow> bool" where
  "labels_match d a \<longleftrightarrow> list_all (\<lambda>(k, v). map_of (al_labels a) k = Some v) d"

definition silence_matches :: "pyfloat \<Rightarrow> alert \<Rightarrow> silence \<Rightarrow> bool" where
  "silence_matches t a s \<longleftrightarrow> is_active t s \<and> fits (sn_namespace s) (al_namespace a) \<and> fits (sn_stream s) (al_stream a)
     \<and> fits (sn_severity s) (al_severity a) \<and> fits (sn_tenant s) (al_tenant a) \<and> labels_match (sn_labels s) a"

record route =
  rt_channels :: "string list"
  rt_namespace :: string
  rt_stream :: string
  rt_severity :: string
  rt_tenant :: string
  rt_labels :: "(string, string) dict"
  rt_continue :: bool

definition Route :: "route \<Rightarrow> route result" where
  "Route r = (let errors = complain (rt_channels r \<noteq> []) ''channels must be a non-empty list''
       @ complain (rt_severity r = [] \<or> rt_severity r \<in> set SEVERITIES) ''match_severity must be one of'' in
     raise_if (errors \<noteq> []) (ValueError (''Route validation errors: '' @ py_join ''; '' errors)) (Inr r))"

definition route_matches :: "alert \<Rightarrow> route \<Rightarrow> bool" where
  "route_matches a r \<longleftrightarrow> fits (rt_namespace r) (al_namespace a) \<and> fits (rt_stream r) (al_stream a)
     \<and> fits (rt_severity r) (al_severity a) \<and> fits (rt_tenant r) (al_tenant a) \<and> labels_match (rt_labels r) a"

record channel_config =
  ch_name :: string
  ch_adapter :: string
  ch_url :: string
  ch_token :: string
  ch_token_env :: string
  ch_timeout_s :: int
  ch_send_resolved :: bool

definition ChannelConfig :: "channel_config \<Rightarrow> channel_config result" where
  "ChannelConfig c = (let errors = complain (py_strip (ch_name c) \<noteq> []) ''name must be a non-empty string''
       @ complain (ch_adapter c \<in> set ADAPTERS) ''adapter must be one of''
       @ complain (take 8 (ch_url c) = ''https://'') ''url must start with https:// (cleartext http:// is not allowed for delivery endpoints)''
       @ complain (1 \<le> ch_timeout_s c) ''timeout_s must be a positive integer'' in
     raise_if (errors \<noteq> []) (ValueError (''ChannelConfig validation errors: '' @ py_join ''; '' errors)) (Inr c))"

definition resolved_token :: "(string \<Rightarrow> string option) \<Rightarrow> channel_config \<Rightarrow> string" where
  "resolved_token env c = (if ch_token_env c \<noteq> [] \<and> opt_truth (env (ch_token_env c)) then the (env (ch_token_env c)) else ch_token c)"

section \<open>Payloads\<close>

definition texts_of :: "(string, string) dict \<Rightarrow> pyval" where
  "texts_of d = PDict (map (\<lambda>(k, v). (PStr k, PStr v)) d)"

definition pick :: "string \<Rightarrow> (string, 'v) dict \<Rightarrow> 'v \<Rightarrow> 'v" where
  "pick k d v = (case map_of d k of None \<Rightarrow> v | Some x \<Rightarrow> x)"

definition dash :: string where
  "dash = [CHR 0xE2, CHR 0x80, CHR 0x94]"

definition description :: "alert \<Rightarrow> string" where
  "description a = pick ''description'' (al_annotations a) []"

definition build_slack_payload :: "alert \<Rightarrow> pyval" where
  "build_slack_payload a =
    (let emoji = pick (al_severity a) [(''critical'', '':red_circle:''), (''warning'', '':large_yellow_circle:''), (''info'', '':large_blue_circle:'')] '':white_circle:'';
         line = emoji @ '' *['' @ py_upper (al_status a) @ '']* *'' @ al_name a @ ''*'' @ [CHR 0x0A]
           @ ''Namespace: `'' @ al_namespace a @ ''`  Stream: `'' @ (if al_stream a = [] then dash else al_stream a) @ ''`  ''
           @ ''Severity: `'' @ al_severity a @ ''`'';
         tail = (if description a = [] then [] else [CHR 0x0A] @ ''>'' @ description a) in
     obj [(''text'', PStr (line @ tail))])"

definition embed_field :: "string \<Rightarrow> string \<Rightarrow> pyval" where
  "embed_field n v = obj [(''name'', PStr n), (''value'', PStr v), (''inline'', PBool True)]"

definition build_discord_payload :: "(pyval \<Rightarrow> string result) \<Rightarrow> alert \<Rightarrow> pyval result" where
  "build_discord_payload strftime a =
    rbind (strftime (al_fired_at a)) (\<lambda>stamp.
    Inr (obj [(''embeds'', PList [obj (
      [(''title'', PStr (''['' @ py_upper (al_status a) @ ''] '' @ al_name a)),
       (''color'', PInt (pick (al_severity a) [(''critical'', 0xE53935), (''warning'', 0xFB8C00), (''info'', 0x1E88E5)] 0x90A4AE)),
       (''fields'', PList [embed_field ''Namespace'' (al_namespace a), embed_field ''Stream'' (if al_stream a = [] then ''N/A'' else al_stream a),
          embed_field ''Severity'' (al_severity a)]),
       (''timestamp'', PStr stamp)]
      @ (if description a = [] then [] else [(''description'', PStr (description a))]))])]))"

text \<open>\<^verbatim>\<open>{**labels, **annotations}\<close>\<close>

definition merge_texts :: "(string, string) dict \<Rightarrow> (string, string) dict \<Rightarrow> (string, string) dict" where
  "merge_texts d e = fold (\<lambda>(k, v). AList.update k v) e d"

definition build_pagerduty_payload :: "alert \<Rightarrow> string \<Rightarrow> pyval" where
  "build_pagerduty_payload a routing_key = obj
    [(''routing_key'', PStr routing_key),
     (''event_action'', PStr (if al_status a = ''resolved'' then ''resolve'' else ''trigger'')),
     (''dedup_key'', PStr (al_id a)),
     (''payload'', obj [(''summary'', PStr (al_name a)),
        (''source'', PStr (if al_stream a \<noteq> [] then al_namespace a @ ''/'' @ al_stream a else al_namespace a)),
        (''severity'', PStr (al_severity a)), (''custom_details'', texts_of (merge_texts (al_labels a) (al_annotations a)))])]"

definition rstrip_slash :: "string \<Rightarrow> string" where
  "rstrip_slash s = rev (dropWhile (\<lambda>c. c = CHR ''/'') (rev s))"

definition build_opsgenie_payload :: "alert \<Rightarrow> string \<Rightarrow> string \<Rightarrow> pyval \<times> (string, string) dict \<times> string" where
  "build_opsgenie_payload a api_key base_url =
    (let headers = [(''Authorization'', ''GenieKey '' @ api_key)] in
     if al_status a = ''resolved'' then
       (obj [(''source'', PStr ''sketchlog-alert-manager''), (''note'', PStr ''Resolved by SketchLog'')], headers,
        rstrip_slash base_url @ ''/'' @ al_id a @ ''/close?identifierType=alias'')
     else
       (obj [(''message'', PStr (al_name a)), (''alias'', PStr (al_id a)), (''description'', PStr (description a)),
          (''source'', PStr ''sketchlog-alert-manager''),
          (''priority'', PStr (pick (al_severity a) [(''critical'', ''P1''), (''warning'', ''P3''), (''info'', ''P5'')] ''P3'')),
          (''tags'', PList (map (\<lambda>(k, v). PStr (k @ '':'' @ v)) (al_labels a))), (''details'', texts_of (al_annotations a))], headers, base_url))"

definition build_webhook_payload :: "alert \<Rightarrow> pyval" where
  "build_webhook_payload a = obj
    [(''name'', PStr (al_name a)), (''namespace'', PStr (al_namespace a)), (''stream'', PStr (al_stream a)), (''severity'', PStr (al_severity a)),
     (''status'', PStr (al_status a)), (''labels'', texts_of (al_labels a)), (''annotations'', texts_of (al_annotations a)),
     (''fired_at'', al_fired_at a), (''resolved_at'', al_resolved_at a), (''tenant'', PStr (al_tenant a)), (''alert_id'', PStr (al_id a))]"

section \<open>Delivery\<close>

text \<open>What the network answers: a status, an HTTP error with its body, or another exception.\<close>

datatype reply = Status int | Http_Error int string | Net_Error py_error

fun check_reply :: "reply \<Rightarrow> unit result" where
  "check_reply (Status n) = raise_if (\<not> (200 \<le> n \<and> n < 300)) (RuntimeError (''HTTP '' @ int_str n @ '': unexpected response'')) (Inr ())"
| "check_reply (Http_Error code body) = Inl (RuntimeError (''HTTP '' @ int_str code @ '': '' @ take 300 body))"
| "check_reply (Net_Error e) = Inl e"

text \<open>The surroundings: the network per channel and attempt, environment variables, \<^verbatim>\<open>strftime\<close>, the clock, \<^verbatim>\<open>str\<close> of an exception.\<close>

record surroundings =
  ev_post :: "nat \<Rightarrow> nat \<Rightarrow> string \<Rightarrow> pyval \<Rightarrow> (string, string) dict \<Rightarrow> int \<Rightarrow> reply"
  ev_environ :: "string \<Rightarrow> string option"
  ev_strftime :: "pyval \<Rightarrow> string result"
  ev_clock :: "nat \<Rightarrow> nat \<Rightarrow> pyfloat \<times> pyfloat"
  ev_str :: "py_error \<Rightarrow> string"

definition prepare :: "surroundings \<Rightarrow> alert \<Rightarrow> channel_config \<Rightarrow> (string \<times> pyval \<times> (string, string) dict) result" where
  "prepare env a c = (let token = resolved_token (ev_environ env) c in
     if ch_adapter c = ''slack'' then Inr (ch_url c, build_slack_payload a, [])
     else if ch_adapter c = ''discord'' then rbind (build_discord_payload (ev_strftime env) a) (\<lambda>p. Inr (ch_url c, p, []))
     else if ch_adapter c = ''pagerduty'' then Inr (ch_url c, build_pagerduty_payload a token, [])
     else if ch_adapter c = ''opsgenie'' then (case build_opsgenie_payload a token (ch_url c) of (p, h, url) \<Rightarrow> Inr (url, p, h))
     else Inr (ch_url c, build_webhook_payload a, if token = [] then [] else [(''Authorization'', ''Bearer '' @ token)]))"

definition deliver_to_channel :: "surroundings \<Rightarrow> nat \<Rightarrow> nat \<Rightarrow> alert \<Rightarrow> channel_config \<Rightarrow> unit result" where
  "deliver_to_channel env i attempt a c =
    rbind (prepare env a c) (\<lambda>(url, payload, headers).
      check_reply (ev_post env i attempt url payload (AList.update ''Content-Type'' ''application/json'' headers) (ch_timeout_s c)))"

record delivery_record =
  dr_alert_id :: string
  dr_channel :: string
  dr_adapter :: string
  dr_status :: string
  dr_attempts :: nat
  dr_last_attempt_at :: "pyfloat option"
  dr_last_error :: string
  dr_sent_at :: "pyfloat option"

definition new_record :: "alert \<Rightarrow> string \<Rightarrow> string \<Rightarrow> delivery_record" where
  "new_record a ch adapter = \<lparr>dr_alert_id = al_id a, dr_channel = ch, dr_adapter = adapter, dr_status = ''pending'', dr_attempts = 0,
     dr_last_attempt_at = None, dr_last_error = [], dr_sent_at = None\<rparr>"

definition MAX_RETRY :: nat where
  "MAX_RETRY = 3"

fun try_attempts :: "surroundings \<Rightarrow> nat \<Rightarrow> alert \<Rightarrow> channel_config \<Rightarrow> nat list \<Rightarrow> delivery_record \<Rightarrow> delivery_record" where
  "try_attempts env i a c [] r = r"
| "try_attempts env i a c (k # ks) r =
    (let r1 = r\<lparr>dr_attempts := k, dr_last_attempt_at := Some (fst (ev_clock env i k))\<rparr> in
     case deliver_to_channel env i k a c of
       Inr _ \<Rightarrow> r1\<lparr>dr_status := ''sent'', dr_sent_at := Some (snd (ev_clock env i k)), dr_last_error := []\<rparr>
     | Inl e \<Rightarrow> (let r2 = r1\<lparr>dr_last_error := take 300 (ev_str env e)\<rparr> in
         if k < MAX_RETRY then try_attempts env i a c ks r2 else try_attempts env i a c ks (r2\<lparr>dr_status := ''failed''\<rparr>)))"

record delivery_engine =
  de_channels :: "(string, channel_config) dict"
  de_records :: "(string, delivery_record) dict"

definition de_add_channel :: "channel_config \<Rightarrow> delivery_engine \<Rightarrow> delivery_engine" where
  "de_add_channel c e = e\<lparr>de_channels := AList.update (ch_name c) c (de_channels e)\<rparr>"

definition record_key :: "string \<Rightarrow> string \<Rightarrow> string" where
  "record_key alert_id channel = alert_id @ '':'' @ channel"

definition store_record :: "delivery_record \<Rightarrow> delivery_engine \<Rightarrow> delivery_engine" where
  "store_record r e = e\<lparr>de_records := AList.update (record_key (dr_alert_id r) (dr_channel r)) r (de_records e)\<rparr>"

definition deliver_one :: "surroundings \<Rightarrow> alert \<Rightarrow> nat \<Rightarrow> string \<Rightarrow> (string, channel_config) dict \<Rightarrow> delivery_record" where
  "deliver_one env a i ch channels = (case map_of channels ch of
     None \<Rightarrow> (new_record a ch ''unknown'')\<lparr>dr_status := ''failed'', dr_last_error := ''channel '' @ [CHR 0x27] @ ch @ [CHR 0x27] @ '' not configured''\<rparr>
   | Some c \<Rightarrow>
      if al_status a = ''resolved'' \<and> \<not> ch_send_resolved c then (new_record a ch (ch_adapter c))\<lparr>dr_status := ''skipped''\<rparr>
      else try_attempts env i a c [1..<Suc MAX_RETRY] (new_record a ch (ch_adapter c)))"

text \<open>A record is stored before the attempts and again after them, and changes in place between.\<close>

fun am_deliver :: "surroundings \<Rightarrow> alert \<Rightarrow> nat \<Rightarrow> string list \<Rightarrow> delivery_engine \<Rightarrow> delivery_engine \<times> delivery_record list" where
  "am_deliver env a i [] e = (e, [])"
| "am_deliver env a i (ch # chs) e =
    (let r = deliver_one env a i ch (de_channels e) in
     case am_deliver env a (Suc i) chs (store_record r e) of (e', rs) \<Rightarrow> (e', r # rs))"

definition get_record :: "string \<Rightarrow> string \<Rightarrow> delivery_engine \<Rightarrow> delivery_record option" where
  "get_record alert_id channel e = map_of (de_records e) (record_key alert_id channel)"

definition all_records :: "delivery_engine \<Rightarrow> delivery_record list" where
  "all_records e = map snd (de_records e)"

section \<open>The store\<close>

text \<open>
  The file that persists the store, as \<^verbatim>\<open>json.load\<close> reads it: unreadable, not an object, or the two lists of
  entries; an entry that the constructor cannot take as keywords is \<open>None\<close>.
\<close>

datatype alert_file = Unreadable | No_Object | Saved "alert_args option list" "alert_args option list"

record alert_store =
  as_active :: "(string, alert) dict"
  as_history :: "alert list"
  as_persist :: bool
  as_file :: "alert_file option"

definition save_locked :: "alert_store \<Rightarrow> alert_store" where
  "save_locked s = s\<lparr>as_file := Some (Saved (map (\<lambda>(_, a). Some (alert_args_of a)) (as_active s)) (map (\<lambda>a. Some (alert_args_of a)) (as_history s)))\<rparr>"

definition upsert :: "alert \<Rightarrow> alert_store \<Rightarrow> alert_store" where
  "upsert a s =
    (let s1 = (if al_status a \<in> set [''resolved'', ''silenced''] then s\<lparr>as_active := AList.delete (al_id a) (as_active s), as_history := as_history s @ [a]\<rparr>
         else s\<lparr>as_active := AList.update (al_id a) a (as_active s)\<rparr>) in
     if as_persist s then save_locked s1 else s1)"

definition get_active :: "string \<Rightarrow> alert_store \<Rightarrow> alert option" where
  "get_active alert_id s = map_of (as_active s) alert_id"

definition list_active :: "alert_store \<Rightarrow> alert list" where
  "list_active s = map snd (as_active s)"

definition take_limit :: "int \<Rightarrow> 'a list \<Rightarrow> 'a list" where
  "take_limit n xs = take (nat (if n < 0 then int (length xs) + n else n)) xs"

definition list_history :: "string \<Rightarrow> string \<Rightarrow> string \<Rightarrow> int \<Rightarrow> alert_store \<Rightarrow> alert list" where
  "list_history namespace stream severity limit s = take_limit limit
     (filter (\<lambda>a. fits namespace (al_namespace a) \<and> fits stream (al_stream a) \<and> fits severity (al_severity a)) (rev (as_history s)))"

text \<open>Entries that raise \<^verbatim>\<open>TypeError\<close> or \<^verbatim>\<open>ValueError\<close> are left out; other errors end the loading.\<close>

definition read_entry :: "alert_args option \<Rightarrow> alert option result" where
  "read_entry e = (case e of
     None \<Rightarrow> Inr None
   | Some args \<Rightarrow> (case Alert args of
       Inr a \<Rightarrow> Inr (Some a)
     | Inl (ValueError _) \<Rightarrow> Inr None
     | Inl (TypeError _) \<Rightarrow> Inr None
     | Inl err \<Rightarrow> Inl err))"

definition load_active :: "alert_args option \<Rightarrow> (string, alert) dict \<Rightarrow> (string, alert) dict result" where
  "load_active e d = rbind (read_entry e) (\<lambda>x. Inr (case x of None \<Rightarrow> d | Some a \<Rightarrow> AList.update (al_id a) a d))"

definition load_history :: "alert_args option \<Rightarrow> alert list \<Rightarrow> alert list result" where
  "load_history e h = rbind (read_entry e) (\<lambda>x. Inr (case x of None \<Rightarrow> h | Some a \<Rightarrow> h @ [a]))"

definition AlertStore :: "bool \<Rightarrow> alert_file option \<Rightarrow> alert_store result" where
  "AlertStore persist file =
    (let s = \<lparr>as_active = [], as_history = [], as_persist = persist, as_file = file\<rparr> in
     if \<not> persist then Inr s
     else case file of
       None \<Rightarrow> Inr s
     | Some Unreadable \<Rightarrow> Inr s
     | Some No_Object \<Rightarrow> Inl (AttributeError ''object has no attribute get'')
     | Some (Saved act hist) \<Rightarrow>
         rbind (rfold load_active act []) (\<lambda>d. rbind (rfold load_history hist []) (\<lambda>h. Inr (s\<lparr>as_active := d, as_history := h\<rparr>))))"

section \<open>Silencing and routing\<close>

definition silence_add :: "silence \<Rightarrow> (string, silence) dict \<Rightarrow> (string, silence) dict" where
  "silence_add s d = AList.update (sn_id s) s d"

definition silence_remove :: "string \<Rightarrow> (string, silence) dict \<Rightarrow> (string, silence) dict \<times> bool" where
  "silence_remove sid d = (AList.delete sid d, map_of d sid \<noteq> None)"

definition is_silenced :: "pyfloat \<Rightarrow> alert \<Rightarrow> (string, silence) dict \<Rightarrow> bool" where
  "is_silenced t a d \<longleftrightarrow> list_ex (\<lambda>(_, s). silence_matches t a s) d"

definition silences_active :: "pyfloat \<Rightarrow> (string, silence) dict \<Rightarrow> silence list" where
  "silences_active t d = filter (is_active t) (map snd d)"

record alert_router =
  ar_routes :: "route list"
  ar_default :: "string list"

definition router_add :: "route \<Rightarrow> alert_router \<Rightarrow> alert_router" where
  "router_add r ar = ar\<lparr>ar_routes := ar_routes ar @ [r]\<rparr>"

text \<open>The generator that feeds \<^verbatim>\<open>extend\<close> sees what has been appended so far.\<close>

definition extend_new :: "string list \<Rightarrow> string list \<Rightarrow> string list" where
  "extend_new chs matched = fold (\<lambda>ch m. if ch \<in> set m then m else m @ [ch]) chs matched"

fun scan_routes :: "alert \<Rightarrow> string list \<Rightarrow> route list \<Rightarrow> string list \<Rightarrow> string list" where
  "scan_routes a dflt [] matched = (if matched \<noteq> [] then matched else dflt)"
| "scan_routes a dflt (r # rs) matched =
    (if route_matches a r then
       (let m = extend_new (rt_channels r) matched in if \<not> rt_continue r then m else scan_routes a dflt rs m)
     else scan_routes a dflt rs matched)"

definition resolve_channels :: "alert \<Rightarrow> alert_router \<Rightarrow> string list" where
  "resolve_channels a ar = scan_routes a (ar_default ar) (ar_routes ar) []"

section \<open>The manager\<close>

record alert_manager =
  am_store :: alert_store
  am_silences :: "(string, silence) dict"
  am_router :: alert_router
  am_delivery :: delivery_engine

definition AlertManager :: "channel_config list \<Rightarrow> route list \<Rightarrow> string list \<Rightarrow> bool \<Rightarrow> alert_file option \<Rightarrow> alert_manager result" where
  "AlertManager channels routes dflt persist file =
    rbind (AlertStore persist file) (\<lambda>store.
    Inr \<lparr>am_store = store, am_silences = [], am_router = \<lparr>ar_routes = routes, ar_default = dflt\<rparr>,
      am_delivery = \<lparr>de_channels = fold (\<lambda>c. AList.update (ch_name c) c) channels [], de_records = []\<rparr>\<rparr>)"

definition notify_channels :: "surroundings \<Rightarrow> alert \<Rightarrow> (alert_manager, delivery_record list) step" where
  "notify_channels env a am = (let channels = resolve_channels a (am_router am) in
     if channels = [] then (am, Inr [])
     else case am_deliver env a 0 channels (am_delivery am) of (e, rs) \<Rightarrow> (am\<lparr>am_delivery := e\<rparr>, Inr rs))"

definition put_alert :: "alert \<Rightarrow> alert_manager \<Rightarrow> alert_manager" where
  "put_alert a am = am\<lparr>am_store := upsert a (am_store am)\<rparr>"

definition am_ingest :: "surroundings \<Rightarrow> pyfloat \<Rightarrow> alert \<Rightarrow> (alert_manager, delivery_record list) step" where
  "am_ingest env now a =
    sbind (sget (\<lambda>am. is_silenced now a (am_silences am))) (\<lambda>silenced.
    if silenced then sbind (slift (alert_silence a)) (\<lambda>b. sthen (smodify (put_alert b)) (sret []))
    else sthen (smodify (put_alert a)) (notify_channels env a))"

definition am_resolve :: "surroundings \<Rightarrow> pyfloat \<Rightarrow> string \<Rightarrow> (alert_manager, delivery_record list option) step" where
  "am_resolve env now alert_id =
    sbind (sget (\<lambda>am. get_active alert_id (am_store am))) (\<lambda>found. case found of
      None \<Rightarrow> sret None
    | Some a \<Rightarrow> sbind (slift (alert_resolve PNone now a)) (\<lambda>b.
        sthen (smodify (put_alert b)) (sbind (notify_channels env b) (\<lambda>rs. sret (Some rs)))))"

definition add_silence :: "silence \<Rightarrow> alert_manager \<Rightarrow> alert_manager" where
  "add_silence s am = am\<lparr>am_silences := silence_add s (am_silences am)\<rparr>"

definition remove_silence :: "string \<Rightarrow> alert_manager \<Rightarrow> alert_manager \<times> bool" where
  "remove_silence sid am = (case silence_remove sid (am_silences am) of (d, found) \<Rightarrow> (am\<lparr>am_silences := d\<rparr>, found))"

definition add_channel :: "channel_config \<Rightarrow> alert_manager \<Rightarrow> alert_manager" where
  "add_channel c am = am\<lparr>am_delivery := de_add_channel c (am_delivery am)\<rparr>"

definition add_route :: "route \<Rightarrow> alert_manager \<Rightarrow> alert_manager" where
  "add_route r am = am\<lparr>am_router := router_add r (am_router am)\<rparr>"

end
