(* ===== verification/Alert_Center_Laws.thy ===== *)
theory Alert_Center_Laws
  imports Alert_Center
begin

text \<open>
  The alert center: the file always restores the store, routing selects exactly the channels of the
  reachable matching routes, and an alert is either silenced or delivered to each of its channels with at most three attempts.
\<close>

section \<open>Alerts\<close>

definition valid_alert :: "alert \<Rightarrow> bool" where
  "valid_alert a \<longleftrightarrow> Alert (alert_args_of a) = Inr a"

lemma complain_Nil [simp]: "complain ok msg = [] \<longleftrightarrow> ok"
  by (simp add: complain_def)

lemma alert_errors_Nil: "alert_errors a = Inr [] \<longleftrightarrow> finite_number (aa_fired_at a) = Inr True
    \<and> (aa_resolved_at a = PNone \<or> finite_number (aa_resolved_at a) = Inr True) \<and> non_blank (aa_name a) \<and> non_blank (aa_namespace a) \<and> is_text (aa_stream a)
    \<and> aa_severity a \<in> PStr ` set SEVERITIES \<and> aa_status a \<in> PStr ` set STATUSES \<and> aa_labels a \<noteq> None \<and> aa_annotations a \<noteq> None"
  by (auto simp: alert_errors_def rbind_eq_Inr ex_bool_eq)

lemma Alert_eq_Inr: "Alert args = Inr a \<longleftrightarrow> alert_errors args = Inr [] \<and> a = alert_of args"
  by (cases "alert_errors args") (auto simp: Alert_def raise_if_def)

lemma args_trip:
  assumes "alert_errors args = Inr []"
  shows "alert_args_of (alert_of args) = args"
proof -
  have "is_text (aa_name args)" "is_text (aa_namespace args)" "is_text (aa_stream args)" "is_text (aa_severity args)" "is_text (aa_status args)"
    "aa_labels args \<noteq> None" "aa_annotations args \<noteq> None"
    using assms by (auto simp: alert_errors_Nil elim: non_blank.elims)
  then show ?thesis by (cases args) (auto simp: alert_args_of_def alert_of_def elim!: is_text.elims)
qed

lemma Alert_valid: "Alert args = Inr a \<Longrightarrow> valid_alert a"
  using args_trip by (auto simp: valid_alert_def Alert_eq_Inr)

lemma valid_errors: "valid_alert a \<Longrightarrow> alert_errors (alert_args_of a) = Inr []"
  by (simp add: valid_alert_def Alert_eq_Inr)

lemma silence_valid:
  assumes "valid_alert a"
  shows "alert_silence a = Inr (a\<lparr>al_status := ''silenced''\<rparr>)" "valid_alert (a\<lparr>al_status := ''silenced''\<rparr>)"
proof -
  have "alert_errors ((alert_args_of a)\<lparr>aa_status := PStr ''silenced''\<rparr>) = Inr []"
    using valid_errors [OF assms] by (auto simp: alert_errors_Nil STATUSES_def)
  then show "alert_silence a = Inr (a\<lparr>al_status := ''silenced''\<rparr>)"
    by (cases a) (simp add: alert_silence_def Alert_eq_Inr, simp add: alert_of_def alert_args_of_def)
  then show "valid_alert (a\<lparr>al_status := ''silenced''\<rparr>)" unfolding alert_silence_def by (rule Alert_valid)
qed

lemma resolve_valid:
  assumes "alert_resolve at0 now a = Inr b"
  shows "valid_alert b" "al_status b = ''resolved''" "al_id b = al_id a"
  using assms Alert_valid unfolding alert_resolve_def by (blast, auto simp: Alert_eq_Inr alert_of_def alert_args_of_def)

lemma valid_status: "valid_alert a \<Longrightarrow> al_status a \<in> {''firing'', ''resolved'', ''silenced''}"
  using valid_errors [of a] by (auto simp: alert_errors_Nil STATUSES_def alert_args_of_def)

section \<open>The store and its file\<close>

definition store_ok :: "alert_store \<Rightarrow> bool" where
  "store_ok s \<longleftrightarrow> dict_ok (as_active s) \<and> (\<forall>(k, a) \<in> set (as_active s). k = al_id a \<and> valid_alert a \<and> al_status a = ''firing'')
     \<and> (\<forall>a \<in> set (as_history s). valid_alert a \<and> al_status a \<in> {''resolved'', ''silenced''})
     \<and> (as_persist s \<longrightarrow> (case as_file s of None \<Rightarrow> as_active s = [] \<and> as_history s = [] | Some f \<Rightarrow> as_file (save_locked s) = Some f))"

lemma upsert_parts:
  "as_persist (upsert a s) = as_persist s"
  "al_status a = ''firing'' \<Longrightarrow> as_active (upsert a s) = AList.update (al_id a) a (as_active s) \<and> as_history (upsert a s) = as_history s"
  "al_status a \<in> {''resolved'', ''silenced''} \<Longrightarrow> as_active (upsert a s) = AList.delete (al_id a) (as_active s) \<and> as_history (upsert a s) = as_history s @ [a]"
  "as_persist s \<Longrightarrow> as_file (upsert a s) = as_file (save_locked (upsert a s))"
  by (simp_all add: upsert_def Let_def save_locked_def)

lemma upsert_ok:
  assumes "store_ok s" "valid_alert a"
  shows "store_ok (upsert a s) \<and> as_persist (upsert a s) = as_persist s"
proof -
  have d: "dict_ok (AList.delete (al_id a) (as_active s))" "dict_ok (AList.update (al_id a) a (as_active s))"
    using assms(1) by (simp_all add: store_ok_def distinct_delete distinct_update)
  have u: "set (AList.update (al_id a) a (as_active s)) = insert (al_id a, a) {p \<in> set (as_active s). fst p \<noteq> al_id a}"
    using assms(1) by (simp add: store_ok_def set_update_dict)
  have l: "set (AList.delete (al_id a) (as_active s)) \<subseteq> set (as_active s)" by (auto simp: AList.delete_eq)
  have f: "as_persist s \<longrightarrow> (case as_file (upsert a s) of None \<Rightarrow> as_active (upsert a s) = [] \<and> as_history (upsert a s) = []
      | Some f \<Rightarrow> as_file (save_locked (upsert a s)) = Some f)"
    using upsert_parts(4) [of s a] by (simp add: save_locked_def)
  consider "al_status a = ''firing''" | "al_status a \<in> {''resolved'', ''silenced''}" using valid_status [OF assms(2)] by blast
  then show ?thesis
  proof cases
    case 1
    then show ?thesis using assms d(2) u f upsert_parts(1,2) unfolding store_ok_def by auto
  next
    case 2
    have "\<forall>(k, b) \<in> set (AList.delete (al_id a) (as_active s)). k = al_id b \<and> valid_alert b \<and> al_status b = ''firing''"
      using assms(1) l unfolding store_ok_def by blast
    then show ?thesis using assms d(1) f upsert_parts(1,3) 2 unfolding store_ok_def by simp
  qed
qed

lemma load_active_all:
  assumes "dict_ok (d @ act)" "\<forall>(k, a) \<in> set act. k = al_id a \<and> valid_alert a"
  shows "rfold load_active (map (\<lambda>(_, a). Some (alert_args_of a)) act) d = Inr (d @ act)"
  using assms
proof (induction act arbitrary: d)
  case (Cons x act)
  obtain a where x: "x = (al_id a, a)" "valid_alert a" using Cons.prems(2) by (cases x) auto
  have "AList.update (al_id a) a d = d @ [x]" using Cons.prems(1) x(1) dict_update_append [of "al_id a" d a] by auto
  then show ?case using Cons.IH [of "d @ [x]"] Cons.prems x by (simp add: load_active_def read_entry_def valid_alert_def)
qed simp

lemma load_history_all:
  assumes "\<forall>a \<in> set hist. valid_alert a"
  shows "rfold load_history (map (\<lambda>a. Some (alert_args_of a)) hist) h = Inr (h @ hist)"
  using assms by (induction hist arbitrary: h) (simp_all add: load_history_def read_entry_def valid_alert_def)

lemma load_saved:
  assumes "store_ok s" "as_persist s"
  shows "AlertStore True (as_file s) = Inr s"
proof (cases "as_file s")
  case None
  then show ?thesis using assms by (cases s) (simp add: store_ok_def AlertStore_def)
next
  case (Some f)
  then have f: "f = Saved (map (\<lambda>(_, a). Some (alert_args_of a)) (as_active s)) (map (\<lambda>a. Some (alert_args_of a)) (as_history s))"
    using assms by (auto simp: store_ok_def save_locked_def)
  have "rfold load_active (map (\<lambda>(_, a). Some (alert_args_of a)) (as_active s)) [] = Inr (as_active s)"
    using load_active_all [of "[]" "as_active s"] assms(1) by (fastforce simp: store_ok_def)
  moreover have "rfold load_history (map (\<lambda>a. Some (alert_args_of a)) (as_history s)) [] = Inr (as_history s)"
    using load_history_all [of "as_history s" "[]"] assms(1) by (simp add: store_ok_def)
  ultimately show ?thesis using Some f assms(2) by (cases s) (simp add: AlertStore_def)
qed

section \<open>Runs of the manager\<close>

inductive am_step :: "alert_manager \<Rightarrow> alert_manager \<Rightarrow> bool" where
  am_ingested: "Alert args = Inr a \<Longrightarrow> am_ingest env now a am = (am', x) \<Longrightarrow> am_step am am'"
| am_resolved: "am_resolve env now alert_id am = (am', y) \<Longrightarrow> am_step am am'"
| am_silenced: "Silence s = Inr s' \<Longrightarrow> am_step am (add_silence s' am)"
| am_unsilenced: "remove_silence sid am = (am', found) \<Longrightarrow> am_step am am'"
| am_channel: "ChannelConfig c = Inr c' \<Longrightarrow> am_step am (add_channel c' am)"
| am_routed: "Route r = Inr r' \<Longrightarrow> am_step am (add_route r' am)"

inductive am_steps :: "alert_manager \<Rightarrow> alert_manager \<Rightarrow> bool" where
  am_start: "am_steps am am"
| am_more: "am_steps am am' \<Longrightarrow> am_step am' am'' \<Longrightarrow> am_steps am am''"

lemma notify_store: "notify_channels env a am = (am', x) \<Longrightarrow> am_store am' = am_store am"
  by (auto simp: notify_channels_def Let_def split: if_splits prod.splits)

lemma ingest_store:
  assumes "valid_alert a" "am_ingest env now a am = (am', x)"
  shows "am_store am' = upsert (if is_silenced now a (am_silences am) then a\<lparr>al_status := ''silenced''\<rparr> else a) (am_store am)"
  using assms notify_store [of env a "put_alert a am" am' x] silence_valid(1) [OF assms(1)]
  by (auto simp: am_ingest_def put_alert_def split: if_splits)

lemma resolve_store:
  assumes "am_resolve env now alert_id am = (am', y)"
  shows "am_store am' = am_store am \<or> (\<exists>a b. alert_resolve PNone now a = Inr b \<and> am_store am' = upsert b (am_store am))"
proof (cases "get_active alert_id (am_store am)")
  case None
  then show ?thesis using assms by (simp add: am_resolve_def)
next
  case (Some a)
  show ?thesis
  proof (cases "alert_resolve PNone now a")
    case (Inl e)
    then show ?thesis using assms Some by (simp add: am_resolve_def)
  next
    case (Inr b)
    obtain am1 z where n: "notify_channels env b (put_alert b am) = (am1, z)" by (cases "notify_channels env b (put_alert b am)")
    have "am' = am1" using assms Some Inr n by (cases z) (auto simp: am_resolve_def sbind_def)
    then show ?thesis using notify_store [OF n] Inr by (auto simp: put_alert_def)
  qed
qed

lemma step_store_ok:
  assumes "am_step am am'" "store_ok (am_store am)"
  shows "store_ok (am_store am') \<and> as_persist (am_store am') = as_persist (am_store am)"
  using assms
proof cases
  case (am_ingested args a env now x)
  then have "valid_alert a" by (auto intro: Alert_valid)
  then show ?thesis
    using ingest_store [OF _ am_ingested(2)] upsert_ok [OF assms(2)] silence_valid(2) by auto
next
  case (am_resolved env now alert_id y)
  then show ?thesis using resolve_store upsert_ok [OF assms(2)] resolve_valid(1) assms(2) by metis
next
  case (am_unsilenced sid found)
  then show ?thesis using assms(2) by (auto simp: remove_silence_def silence_remove_def)
qed (use assms(2) in \<open>simp_all add: add_silence_def add_channel_def add_route_def\<close>)

lemma steps_store_ok:
  assumes "am_steps am am'" "store_ok (am_store am)"
  shows "store_ok (am_store am') \<and> as_persist (am_store am') = as_persist (am_store am)"
  using assms by (induction rule: am_steps.induct) (auto dest: step_store_ok)


section \<open>Routing\<close>

lemma extend_new_set: "set (extend_new chs m) = set chs \<union> set m" "distinct m \<Longrightarrow> distinct (extend_new chs m)"
  unfolding extend_new_def by (induction chs arbitrary: m) auto

lemma scan_routes_set:
  assumes "\<forall>r \<in> set rs. rt_channels r \<noteq> []" "distinct m"
  shows "ch \<in> set (scan_routes a dflt rs m) \<longleftrightarrow> ch \<in> set m
      \<or> (\<exists>i < length rs. route_matches a (rs ! i) \<and> ch \<in> set (rt_channels (rs ! i)) \<and> (\<forall>j < i. route_matches a (rs ! j) \<longrightarrow> rt_continue (rs ! j)))
      \<or> (m = [] \<and> (\<forall>r \<in> set rs. \<not> route_matches a r) \<and> ch \<in> set dflt)"
  using assms
proof (induction rs arbitrary: m)
  case (Cons r rs)
  let ?m = "extend_new (rt_channels r) m"
  have ne: "?m \<noteq> []" using Cons.prems(1) extend_new_set(1) [of "rt_channels r" m] by fastforce
  show ?case
  proof (cases "route_matches a r")
    case True
    then show ?thesis
      using Cons.IH [of ?m] Cons.prems extend_new_set [where chs = "rt_channels r" and m = m] ne
      by (cases "rt_continue r") (auto simp: Ex_less_Suc2 All_less_Suc2 Let_def)
  next
    case False
    then show ?thesis using Cons.IH [of m] Cons.prems by (auto simp: Ex_less_Suc2 All_less_Suc2)
  qed
qed simp

lemma scan_routes_distinct: "distinct m \<Longrightarrow> distinct dflt \<Longrightarrow> distinct (scan_routes a dflt rs m)"
  by (induction a dflt rs m rule: scan_routes.induct) (auto simp: Let_def extend_new_set)


section \<open>Delivery\<close>

text \<open>The outcome of the attempts: sent at the first success, failed after the last one.\<close>

definition attempted :: "(nat \<Rightarrow> bool) \<Rightarrow> delivery_record \<Rightarrow> bool" where
  "attempted ok r \<longleftrightarrow> (dr_status r = ''sent'' \<and> 1 \<le> dr_attempts r \<and> dr_attempts r \<le> 3 \<and> ok (dr_attempts r) \<and> (\<forall>k \<in> {1..<dr_attempts r}. \<not> ok k))
     \<or> (dr_status r = ''failed'' \<and> dr_attempts r = 3 \<and> (\<forall>k \<in> {1..3}. \<not> ok k))"

definition delivered :: "surroundings \<Rightarrow> alert \<Rightarrow> nat \<Rightarrow> (string, channel_config) dict \<Rightarrow> delivery_record \<Rightarrow> bool" where
  "delivered env a i channels r \<longleftrightarrow> dr_alert_id r = al_id a \<and> (case map_of channels (dr_channel r) of
     None \<Rightarrow> dr_status r = ''failed'' \<and> dr_attempts r = 0
   | Some c \<Rightarrow> if al_status a = ''resolved'' \<and> \<not> ch_send_resolved c then dr_status r = ''skipped'' \<and> dr_attempts r = 0
       else attempted (\<lambda>k. is_ok (deliver_to_channel env i k a c)) r)"

lemma attempts_upt: "[1..<Suc MAX_RETRY] = [1, 2, 3]"
  by (simp add: MAX_RETRY_def upt_rec numeral_eq_Suc)

lemma three_attempts: "attempted (\<lambda>k. is_ok (deliver_to_channel env i k a c)) (try_attempts env i a c [1, 2, 3] r)"
proof -
  have "{1..<2 :: nat} = {1}" "{1..<3 :: nat} = {1, 2}" "{1..3 :: nat} = {1, 2, 3}" by auto
  then show ?thesis
    by (cases "deliver_to_channel env i 1 a c"; cases "deliver_to_channel env i 2 a c"; cases "deliver_to_channel env i 3 a c")
      (simp_all add: attempted_def MAX_RETRY_def Let_def)
qed

lemma try_attempts_same: "dr_alert_id (try_attempts env i a c ks r) = dr_alert_id r \<and> dr_channel (try_attempts env i a c ks r) = dr_channel r"
  by (induction env i a c ks r rule: try_attempts.induct) (auto simp: Let_def split: sum.splits)

lemma deliver_one_delivered:
  "delivered env a i channels (deliver_one env a i ch channels)" "dr_channel (deliver_one env a i ch channels) = ch"
proof -
  have upt: "deliver_one env a i ch channels = (case map_of channels ch of
     None \<Rightarrow> (new_record a ch ''unknown'')\<lparr>dr_status := ''failed'', dr_last_error := ''channel '' @ [CHR 0x27] @ ch @ [CHR 0x27] @ '' not configured''\<rparr>
   | Some c \<Rightarrow>
      if al_status a = ''resolved'' \<and> \<not> ch_send_resolved c then (new_record a ch (ch_adapter c))\<lparr>dr_status := ''skipped''\<rparr>
      else try_attempts env i a c [1, 2, 3] (new_record a ch (ch_adapter c)))"
    unfolding deliver_one_def attempts_upt by (rule refl)
  have new: "dr_alert_id (new_record a ch x) = al_id a" "dr_channel (new_record a ch x) = ch" "dr_attempts (new_record a ch x) = 0" for x
    by (simp_all add: new_record_def)
  show ch: "dr_channel (deliver_one env a i ch channels) = ch"
    unfolding upt using try_attempts_same new by (simp del: try_attempts.simps split: option.splits)
  show "delivered env a i channels (deliver_one env a i ch channels)"
    unfolding delivered_def ch unfolding upt using three_attempts try_attempts_same new by (simp del: try_attempts.simps One_nat_def split: option.splits)
qed

lemma record_key_inject: "record_key x ch = record_key x ch' \<longleftrightarrow> ch = ch'"
  by (simp add: record_key_def)

lemma am_deliver_records:
  assumes "am_deliver env a i chs e = (e', rs)"
  shows "map dr_channel rs = chs \<and> de_channels e' = de_channels e
    \<and> (\<forall>n < length rs. delivered env a (i + n) (de_channels e) (rs ! n))
    \<and> (\<forall>ch. ch \<notin> set chs \<longrightarrow> get_record (al_id a) ch e' = get_record (al_id a) ch e)
    \<and> (distinct chs \<longrightarrow> (\<forall>r \<in> set rs. get_record (al_id a) (dr_channel r) e' = Some r))"
  using assms
proof (induction chs arbitrary: i e e' rs)
  case (Cons ch chs)
  let ?r = "deliver_one env a i ch (de_channels e)"
  obtain rs1 where rs1: "am_deliver env a (Suc i) chs (store_record ?r e) = (e', rs1)" "rs = ?r # rs1"
    using Cons.prems by (auto simp: Let_def split: prod.splits)
  have r: "delivered env a i (de_channels e) ?r" "dr_channel ?r = ch" "dr_alert_id ?r = al_id a"
    using deliver_one_delivered by (auto simp: delivered_def)
  have g: "get_record (al_id a) ch' (store_record ?r e) = (if ch' = ch then Some ?r else get_record (al_id a) ch' e)" for ch'
    using r by (simp add: get_record_def store_record_def update_conv' record_key_inject)
  note ih = Cons.IH [OF rs1(1)]
  have "delivered env a (i + n) (de_channels e) (rs ! n)" if "n < length rs" for n
    using that ih r(1) rs1(2) by (cases n) (auto simp: store_record_def)
  then show ?case using ih r(2) g rs1(2) by (auto simp: store_record_def)
qed simp

text \<open>
  C27: An ingested alert is silenced or delivered.  If an active silence matches, nothing is sent
  and the alert goes to the history as silenced.  Otherwise every channel that the routes
  select gets one record in order: sent at its first successful attempt out of at most three, failed after
  three failures or if the channel is not configured, skipped for a resolved alert where the channel does not want
  them; and if the channels are distinct, each of these records can be looked up afterwards.
\<close>

theorem ingest_silenced_or_delivered:
  assumes "Alert args = Inr a" and "am_ingest env now a am = (am', x)"
  shows "if \<exists>s \<in> snd ` set (am_silences am). silence_matches now a s
    then x = Inr [] \<and> am_delivery am' = am_delivery am \<and> get_active (al_id a) (am_store am') = None
      \<and> as_history (am_store am') = as_history (am_store am) @ [a\<lparr>al_status := ''silenced''\<rparr>]
    else \<exists>rs. x = Inr rs \<and> map dr_channel rs = resolve_channels a (am_router am)
      \<and> (\<forall>n < length rs. delivered env a n (de_channels (am_delivery am)) (rs ! n))
      \<and> (distinct (resolve_channels a (am_router am)) \<longrightarrow> (\<forall>r \<in> set rs. get_record (al_id a) (dr_channel r) (am_delivery am') = Some r))
      \<and> (al_status a = ''firing'' \<longrightarrow> get_active (al_id a) (am_store am') = Some a)"
proof -
  have v: "valid_alert a" by (rule Alert_valid [OF assms(1)])
  have ex: "is_silenced now a (am_silences am) \<longleftrightarrow> (\<exists>s \<in> snd ` set (am_silences am). silence_matches now a s)"
    by (force simp: is_silenced_def list_ex_iff)
  note st = ingest_store [OF v assms(2)]
  show ?thesis
  proof (cases "is_silenced now a (am_silences am)")
    case True
    then have "x = Inr [] \<and> am_delivery am' = am_delivery am" using assms(2) silence_valid(1) [OF v] by (auto simp: am_ingest_def put_alert_def)
    then show ?thesis using True st ex by (simp add: upsert_def Let_def get_active_def save_locked_def delete_conv')
  next
    case False
    obtain e rs where d: "am_deliver env a 0 (resolve_channels a (am_router am)) (am_delivery am) = (e, rs)"
      by (cases "am_deliver env a 0 (resolve_channels a (am_router am)) (am_delivery am)")
    have "x = Inr rs \<and> am_delivery am' = e"
      using assms(2) False d by (auto simp: am_ingest_def notify_channels_def put_alert_def Let_def split: if_splits)
    then show ?thesis using am_deliver_records [OF d] False st ex
      by (auto simp: upsert_def Let_def get_active_def save_locked_def update_conv')
  qed
qed

section \<open>Instances\<close>

definition demo_args :: alert_args where
  "demo_args = \<lparr>aa_name = PStr ''cpu'', aa_namespace = PStr ''n'', aa_stream = PStr [], aa_severity = PStr ''info'', aa_status = PStr ''firing'',
     aa_labels = Some [], aa_annotations = Some [], aa_fired_at = PFloat (Fin 1), aa_resolved_at = PNone, aa_tenant = [], aa_id = ''i''\<rparr>"

definition demo_alert :: alert where
  "demo_alert = alert_of demo_args"

lemma demo_Alert: "Alert demo_args = Inr demo_alert"
  unfolding demo_alert_def Alert_eq_Inr by (simp add: alert_errors_Nil demo_args_def SEVERITIES_def STATUSES_def py_strip_def is_space_def)

definition demo_env :: surroundings where
  "demo_env = \<lparr>ev_post = (\<lambda>i k url payload headers timeout. Status (if k = 1 then 503 else 200)), ev_environ = (\<lambda>_. None), ev_strftime = (\<lambda>_. Inr []),
     ev_clock = (\<lambda>i k. (Fin 2, Fin 3)), ev_str = (\<lambda>_. [])\<rparr>"

definition demo_route :: route where
  "demo_route = \<lparr>rt_channels = [''ops''], rt_namespace = ''n'', rt_stream = [], rt_severity = [], rt_tenant = [], rt_labels = [], rt_continue = False\<rparr>"

definition demo_manager :: "alert_manager" where
  "demo_manager = \<lparr>am_store = \<lparr>as_active = [], as_history = [], as_persist = True, as_file = None\<rparr>, am_silences = [],
     am_router = \<lparr>ar_routes = [demo_route], ar_default = [''all'']\<rparr>,
     am_delivery = \<lparr>de_channels = [(''ops'', \<lparr>ch_name = ''ops'', ch_adapter = ''webhook'', ch_url = ''https://x'', ch_token = [], ch_token_env = [],
        ch_timeout_s = 10, ch_send_resolved = True\<rparr>)], de_records = []\<rparr>\<rparr>"

lemma demo_fields: "al_status demo_alert = ''firing''" "al_id demo_alert = ''i''" "al_namespace demo_alert = ''n''"
  by (simp_all add: demo_alert_def alert_of_def demo_args_def)

lemma demo_matches: "route_matches demo_alert demo_route" "resolve_channels demo_alert (am_router demo_manager) = [''ops'']"
  by (simp_all add: resolve_channels_def demo_manager_def route_matches_def demo_route_def fits_def labels_match_def demo_fields extend_new_def)



theorem ingest_silenced_or_delivered_witness:
  "\<exists>am' rs. am_ingest demo_env (Fin 0) demo_alert demo_manager = (am', Inr rs) \<and> map dr_channel rs = [''ops'']
    \<and> dr_status (rs ! 0) = ''sent'' \<and> dr_attempts (rs ! 0) = 2"
proof -
  obtain am' x where run: "am_ingest demo_env (Fin 0) demo_alert demo_manager = (am', x)" by (cases "am_ingest demo_env (Fin 0) demo_alert demo_manager")
  have quiet: "\<not> (\<exists>s \<in> snd ` set (am_silences demo_manager). silence_matches (Fin 0) demo_alert s)" by (simp add: demo_manager_def)
  obtain rs where rs: "x = Inr rs" "map dr_channel rs = [''ops'']" "\<forall>n < length rs. delivered demo_env demo_alert n (de_channels (am_delivery demo_manager)) (rs ! n)"
    using ingest_silenced_or_delivered [OF demo_Alert run] quiet demo_matches(2) by auto
  then obtain r where r: "rs = [r]" "dr_channel r = ''ops''" by auto
  let ?c = "\<lparr>ch_name = ''ops'', ch_adapter = ''webhook'', ch_url = ''https://x'', ch_token = [], ch_token_env = [], ch_timeout_s = 10, ch_send_resolved = True\<rparr>"
  have ok: "is_ok (deliver_to_channel demo_env 0 k demo_alert ?c) \<longleftrightarrow> k \<noteq> 1" for k
    by (simp add: deliver_to_channel_def prepare_def Let_def demo_env_def raise_if_def)
  have "delivered demo_env demo_alert 0 (de_channels (am_delivery demo_manager)) r" using rs(3) r(1) by simp
  then have "attempted (\<lambda>k. is_ok (deliver_to_channel demo_env 0 k demo_alert ?c)) r" using r(2) by (simp add: delivered_def demo_manager_def)
  then have "dr_status r = ''sent'' \<and> dr_attempts r \<noteq> 1 \<and> 1 \<le> dr_attempts r \<and> (\<forall>k \<in> {1..<dr_attempts r}. k = 1)" unfolding attempted_def ok by auto
  then have "dr_status r = ''sent'' \<and> dr_attempts r = 2"
    by (cases "2 < dr_attempts r") (auto dest: bspec [of _ _ 2])
  then show ?thesis using run rs(1) r by auto
qed

end
