(* ===== verification/Omnikv.thy ===== *)
theory Omnikv
  imports Storage Registry_Laws Web_Auth "HOL-Library.Sublist"
begin

text \<open>
  The storage backend over an embedded key-value store (\<^verbatim>\<open>OmniKVEmbeddedStorage\<close> of \<^verbatim>\<open>storage.py\<close>): keys made of
  base64 parts, JSON envelopes, saving the newer state, tombstones, and the deletion that writes its
  tombstone first.  The store itself is a parameter with the methods of \<^verbatim>\<open>_OmniKVEmbeddedClient\<close>; \<open>kv_ok\<close> states what is
  expected of it.  Text is its bytes in UTF-8; opening the native module is not modelled.
\<close>

section \<open>Base64\<close>

text \<open>Groups of three bytes as four numbers below 64, and back.\<close>

fun sextets :: "nat list \<Rightarrow> nat list" where
  "sextets [] = []"
| "sextets [a] = [a div 4, a mod 4 * 16]"
| "sextets [a, b] = [a div 4, a mod 4 * 16 + b div 16, b mod 16 * 4]"
| "sextets (a # b # c # bs) = a div 4 # (a mod 4 * 16 + b div 16) # (b mod 16 * 4 + c div 64) # c mod 64 # sextets bs"

fun unsextets :: "nat list \<Rightarrow> nat list" where
  "unsextets (w # x # y # z # vs) = (w * 4 + x div 16) # (x mod 16 * 16 + y div 4) # (y mod 4 * 64 + z) # unsextets vs"
| "unsextets [w, x, y] = [w * 4 + x div 16, x mod 16 * 16 + y div 4]"
| "unsextets [w, x] = [w * 4 + x div 16]"
| "unsextets _ = []"

text \<open>The standard alphabet ends in plus and slash, the one for keys in dash and underscore.\<close>

definition b64_char :: "char \<Rightarrow> char \<Rightarrow> nat \<Rightarrow> char" where
  "b64_char c62 c63 n = (if n < 26 then char_of (65 + n) else if n < 52 then char_of (71 + n) else if n < 62 then char_of (n - 4)
     else if n = 62 then c62 else c63)"

definition b64_value :: "char \<Rightarrow> nat option" where
  "b64_value c = (let n = of_char c :: nat in
     if 65 \<le> n \<and> n \<le> 90 then Some (n - 65) else if 97 \<le> n \<and> n \<le> 122 then Some (n - 71) else if 48 \<le> n \<and> n \<le> 57 then Some (n + 4)
     else if n = 43 then Some 62 else if n = 47 then Some 63 else None)"

definition bytes_of :: "string \<Rightarrow> nat list" where
  "bytes_of s = map of_char s"

definition b64encode :: "char \<Rightarrow> char \<Rightarrow> string \<Rightarrow> string" where
  "b64encode c62 c63 s = map (b64_char c62 c63) (sextets (bytes_of s)) @ replicate ((3 - length s mod 3) mod 3) CHR ''=''"

text \<open>With \<^verbatim>\<open>validate=True\<close>: only the alphabet, then the padding that completes the last group; left-over bits are ignored.\<close>

definition b64decode :: "string \<Rightarrow> string result" where
  "b64decode s = (let body = takeWhile (\<lambda>c. c \<noteq> CHR ''='') s; pad = dropWhile (\<lambda>c. c \<noteq> CHR ''='') s in
     if list_all (\<lambda>c. b64_value c \<noteq> None) body \<and> pad = replicate ((4 - length body mod 4) mod 4) CHR ''='' \<and> length body mod 4 \<noteq> 1
     then Inr (map char_of (unsextets (map (\<lambda>c. the (b64_value c)) body)))
     else Inl (ValueError ''Only base64 data is allowed''))"

section \<open>Keys and envelopes\<close>

definition rstrip_pad :: "string \<Rightarrow> string" where
  "rstrip_pad s = rev (dropWhile (\<lambda>c. c = CHR ''='') (rev s))"

definition encode_key_part :: "string \<Rightarrow> string" where
  "encode_key_part s = rstrip_pad (b64encode CHR ''-'' CHR ''_'' s)"

definition STATE_KEY_PREFIX :: string where
  "STATE_KEY_PREFIX = ''sketchlog/v1/streams''"

definition TOMBSTONE_KEY_PREFIX :: string where
  "TOMBSTONE_KEY_PREFIX = ''sketchlog/v1/tombstones''"

definition state_key :: "string \<Rightarrow> string \<Rightarrow> string" where
  "state_key ns sid = STATE_KEY_PREFIX @ ''/'' @ encode_key_part ns @ ''/'' @ encode_key_part sid"

definition tombstone_prefix :: "string \<Rightarrow> string" where
  "tombstone_prefix node_id = TOMBSTONE_KEY_PREFIX @ ''/'' @ encode_key_part node_id @ ''/''"

definition tombstone_key :: "string \<Rightarrow> string \<Rightarrow> string" where
  "tombstone_key node_id key = tombstone_prefix node_id @ encode_key_part key"

definition tombstone_fields :: "string \<Rightarrow> pyfloat \<Rightarrow> pyval" where
  "tombstone_fields key version = obj [(''schema'', PInt 1), (''stream_key'', PStr key), (''version'', PFloat version)]"

definition tombstone_envelope :: "string \<Rightarrow> pyfloat \<Rightarrow> string" where
  "tombstone_envelope key version = json_compact (tombstone_fields key version)"

text \<open>\<^verbatim>\<open>float(v)\<close> of a JSON value.\<close>

fun float_of :: "pyval \<Rightarrow> pyfloat result" where
  "float_of (PFloat f) = Inr f"
| "float_of (PInt n) = raise_if (f_isinf (f_of_int n)) (OverflowError ''int too large to convert to float'') (Inr (f_of_int n))"
| "float_of (PBool b) = Inr (Fin (if b then 1 else 0))"
| "float_of (PStr s) = py_float_of_str s"
| "float_of _ = Inl (TypeError ''float() argument must be a string or a real number'')"

fun subscript :: "pyval \<Rightarrow> string \<Rightarrow> pyval result" where
  "subscript (PDict d) k = d_item d k"
| "subscript _ k = Inl (TypeError ''object is not subscriptable by text'')"

text \<open>\<^verbatim>\<open>except (KeyError, TypeError, ValueError)\<close>\<close>

fun data_error :: "py_error \<Rightarrow> bool" where
  "data_error (KeyError _) = True"
| "data_error (TypeError _) = True"
| "data_error (ValueError _) = True"
| "data_error _ = False"

definition tombstone_version :: "codec \<Rightarrow> string option \<Rightarrow> pyfloat result" where
  "tombstone_version C v = (case v of
     None \<Rightarrow> Inr NInf
   | Some text \<Rightarrow> (case rbind (rbind (cd_loads C text) (\<lambda>p. subscript p ''version'')) float_of of
       Inl e \<Rightarrow> if data_error e then Inr NInf else Inl e
     | Inr t \<Rightarrow> Inr t))"

definition state_data :: "string \<Rightarrow> pyfloat \<Rightarrow> pyval" where
  "state_data payload updated = obj [(''last_updated'', PFloat updated), (''payload'', PStr (b64encode CHR ''+'' CHR ''/'' payload)),
     (''payload_encoding'', PStr ''zlib+base64''), (''schema'', PInt 1)]"

definition state_envelope :: "codec \<Rightarrow> shared_log \<Rightarrow> pyfloat \<Rightarrow> string result" where
  "state_envelope C s updated = rbind (serialize_and_compress_stream C s) (\<lambda>payload. Inr (json_compact (state_data payload updated)))"

definition envelope_fields :: "pyval \<Rightarrow> (string \<times> pyfloat) result" where
  "envelope_fields v = (case v of
     PDict d \<Rightarrow>
       raise_if (d_get d ''schema'' PNone \<notin> {PInt 1, PFloat (Fin 1), PBool True}) (ValueError ''unsupported state envelope schema'')
      (raise_if (d_get d ''payload_encoding'' PNone \<noteq> PStr ''zlib+base64'') (ValueError ''unsupported state payload encoding'')
      (rbind (rbind (d_item d ''last_updated'') float_of) (\<lambda>updated.
       rbind (d_item d ''payload'') (\<lambda>raw. case raw of
         PStr s \<Rightarrow> rbind (b64decode s) (\<lambda>payload. Inr (payload, updated))
       | _ \<Rightarrow> Inl (ValueError ''state payload must be a string'')))))
   | _ \<Rightarrow> Inl (ValueError ''state envelope must be a JSON object''))"

definition parse_state_envelope :: "codec \<Rightarrow> string \<Rightarrow> (pyval \<times> pyfloat) result" where
  "parse_state_envelope C text = (case rbind (cd_loads C text) envelope_fields of
     Inl e \<Rightarrow> Inl (if data_error e then ValueError ''Malformed storage state envelope'' else e)
   | Inr (payload, updated) \<Rightarrow> rbind (decompress_and_deserialize_stream C payload) (\<lambda>data. Inr (data, updated)))"

section \<open>The store and the backend\<close>

record 'k kv_client =
  kv_put :: "string \<Rightarrow> string \<Rightarrow> 'k \<Rightarrow> 'k result"
  kv_get :: "string \<Rightarrow> 'k \<Rightarrow> string option"
  kv_delete :: "string \<Rightarrow> 'k \<Rightarrow> 'k result"
  kv_scan :: "string \<Rightarrow> 'k \<Rightarrow> (string \<times> string) list"
  kv_sync :: "'k \<Rightarrow> 'k result"

text \<open>What the backend expects of the store: it is a map from keys to texts; synchronizing changes nothing in it.\<close>

definition kv_ok :: "'k kv_client \<Rightarrow> bool" where
  "kv_ok K \<longleftrightarrow> (\<forall>k v d d' k'. kv_put K k v d = Inr d' \<longrightarrow> kv_get K k' d' = (if k' = k then Some v else kv_get K k' d))
     \<and> (\<forall>k d d' k'. kv_delete K k d = Inr d' \<longrightarrow> kv_get K k' d' = (if k' = k then None else kv_get K k' d))
     \<and> (\<forall>d d' k. kv_sync K d = Inr d' \<longrightarrow> kv_get K k d' = kv_get K k d)
     \<and> (\<forall>p d k v. (k, v) \<in> set (kv_scan K p d) \<longleftrightarrow> prefix p k \<and> kv_get K k d = Some v)"

definition kv_do :: "('k \<Rightarrow> 'k result) \<Rightarrow> ('k, unit) step" where
  "kv_do f d = (case f d of Inl e \<Rightarrow> (d, Inl e) | Inr d' \<Rightarrow> (d', Inr ()))"

definition put_tombstone_if_newer :: "codec \<Rightarrow> 'k kv_client \<Rightarrow> string \<Rightarrow> string \<Rightarrow> pyfloat \<Rightarrow> ('k, bool) step" where
  "put_tombstone_if_newer C K key sk version =
    sbind (sget (kv_get K key)) (\<lambda>text.
    sbind (slift (tombstone_version C text)) (\<lambda>current.
    if f_le version current then sret False
    else sthen (kv_do (kv_put K key (tombstone_envelope sk version))) (sret True)))"

text \<open>A stored state that is no newer is replaced, and so is one that cannot be parsed as an envelope.\<close>

definition omni_save :: "codec \<Rightarrow> 'k kv_client \<Rightarrow> string \<Rightarrow> string \<Rightarrow> shared_log \<Rightarrow> 'k \<Rightarrow> 'k result" where
  "omni_save C K ns sid s d =
    (let key = state_key ns sid in
     rbind (state_envelope C s (ts_updated s)) (\<lambda>v.
     case kv_get K key d of
       None \<Rightarrow> kv_put K key v d
     | Some old \<Rightarrow> (case parse_state_envelope C old of
         Inl (ValueError _) \<Rightarrow> kv_put K key v d
       | Inl e \<Rightarrow> Inl e
       | Inr (_, t) \<Rightarrow> if f_le (ts_updated s) t then Inr d else kv_put K key v d)))"

definition omni_load :: "libm \<Rightarrow> codec \<Rightarrow> 'k kv_client \<Rightarrow> string \<Rightarrow> string \<Rightarrow> 'k \<Rightarrow> shared_log option" where
  "omni_load L C K ns sid d = (case kv_get K (state_key ns sid) d of
     None \<Rightarrow> None
   | Some v \<Rightarrow> (case rbind (parse_state_envelope C v) (\<lambda>(data, t). rbind (st_from_dict L data) (\<lambda>lg. Inr \<lparr>ts_log = lg, ts_updated = t\<rparr>)) of
       Inl _ \<Rightarrow> None
     | Inr s \<Rightarrow> Some s))"

definition omni_delete :: "'k kv_client \<Rightarrow> string \<Rightarrow> string \<Rightarrow> 'k \<Rightarrow> ('k \<times> bool) result" where
  "omni_delete K ns sid d = (case kv_get K (state_key ns sid) d of
     None \<Rightarrow> Inr (d, False)
   | Some _ \<Rightarrow> rbind (kv_delete K (state_key ns sid) d) (\<lambda>d'. Inr (d', True)))"

definition omni_save_tombstone :: "codec \<Rightarrow> 'k kv_client \<Rightarrow> string \<Rightarrow> string \<Rightarrow> pyfloat \<Rightarrow> ('k, unit) step" where
  "omni_save_tombstone C K node_id sk version =
    sbind (put_tombstone_if_newer C K (tombstone_key node_id sk) sk version) (\<lambda>updated.
    if updated then kv_do (kv_sync K) else sret ())"

text \<open>Rows that are no envelope of a tombstone are skipped; \<open>str_of\<close> is \<^verbatim>\<open>str\<close> of a value that is no text.\<close>

definition read_tombstone :: "codec \<Rightarrow> (pyval \<Rightarrow> string) \<Rightarrow> string \<times> string \<Rightarrow> (string, pyfloat) dict \<Rightarrow> (string, pyfloat) dict result" where
  "read_tombstone C str_of row d = (case rbind (cd_loads C (snd row)) (\<lambda>p. rbind (subscript p ''stream_key'') (\<lambda>k.
       rbind (rbind (subscript p ''version'') float_of) (\<lambda>v. Inr (case k of PStr s \<Rightarrow> s | _ \<Rightarrow> str_of k, v)))) of
     Inl e \<Rightarrow> if data_error e then Inr d else Inl e
   | Inr (k, v) \<Rightarrow> Inr (AList.update k (f_max v (case map_of d k of None \<Rightarrow> v | Some t \<Rightarrow> t)) d))"

definition omni_load_tombstones :: "codec \<Rightarrow> (pyval \<Rightarrow> string) \<Rightarrow> 'k kv_client \<Rightarrow> string \<Rightarrow> 'k \<Rightarrow> (string, pyfloat) dict result" where
  "omni_load_tombstones C str_of K node_id d = rfold (read_tombstone C str_of) (kv_scan K (tombstone_prefix node_id) d) []"

text \<open>The tombstone is durable before the state is deleted.\<close>

definition omni_delete_with_tombstone :: "codec \<Rightarrow> 'k kv_client \<Rightarrow> string \<Rightarrow> string \<Rightarrow> string \<Rightarrow> string \<Rightarrow> pyfloat \<Rightarrow> ('k, bool) step" where
  "omni_delete_with_tombstone C K ns sid node_id sk version =
    sbind (put_tombstone_if_newer C K (tombstone_key node_id sk) sk version) (\<lambda>updated.
    sthen (if updated then kv_do (kv_sync K) else sret ())
   (sbind (sget (kv_get K (state_key ns sid))) (\<lambda>state.
    if state = None then sret False
    else sthen (kv_do (kv_delete K (state_key ns sid))) (sthen (kv_do (kv_sync K)) (sret True)))))"

definition omni_backend :: "libm \<Rightarrow> codec \<Rightarrow> 'k kv_client \<Rightarrow> 'k backend" where
  "omni_backend L C K = \<lparr>be_save = omni_save C K, be_load = (\<lambda>ns sid d. Inr (omni_load L C K ns sid d)), be_delete = omni_delete K\<rparr>"

definition omni_stamp :: "codec \<Rightarrow> 'k kv_client \<Rightarrow> string \<Rightarrow> string \<Rightarrow> 'k \<Rightarrow> pyfloat option" where
  "omni_stamp C K ns sid d = (case kv_get K (state_key ns sid) d of
     None \<Rightarrow> None
   | Some v \<Rightarrow> (case parse_state_envelope C v of Inr (_, t) \<Rightarrow> Some t | Inl _ \<Rightarrow> Some NInf))"

text \<open>A log is storable if its payload is and the JSON reader gives back the envelope.\<close>

definition omni_storable :: "libm \<Rightarrow> codec \<Rightarrow> shared_log \<Rightarrow> bool" where
  "omni_storable L C s \<longleftrightarrow> sql_storable L C s \<and> (case serialize_and_compress_stream C s of
     Inl _ \<Rightarrow> False
   | Inr p \<Rightarrow> cd_loads C (json_compact (state_data p (ts_updated s))) = Inr (state_data p (ts_updated s)))"

end
