(* ===== verification/Omnikv_Laws.thy ===== *)
theory Omnikv_Laws
  imports Omnikv
begin

text \<open>
  The backend over the key-value store: base64 and the envelopes round-trip, keys never collide, the backend
  keeps the contract of the registry, and a deletion is recoverable wherever it fails.
\<close>

section \<open>Base64\<close>

lemma bytes_small: "\<forall>b \<in> set (bytes_of s). b < 256"
  by (auto simp: bytes_of_def)

lemma digits: "r < n \<Longrightarrow> (q * n + r) div n = q" "r < n \<Longrightarrow> (q * n + r) mod n = r" for q n r :: nat
  by simp_all

lemma byte_parts: "b div 16 < 16" "b div 64 < 4" "b div 4 < 64" if "b < 256" for b :: nat
  using that by (simp_all add: less_mult_imp_div_less)

lemma mod_bounds: "a mod 4 \<le> 3" "b mod 16 \<le> 15" "c mod 64 < 64" for a b c :: nat
  using mod_less_divisor [of 4 a] mod_less_divisor [of 16 b] by simp_all

lemma sextet_small:
  "a < 256 \<Longrightarrow> a div 4 < (64 :: nat)" "b < 256 \<Longrightarrow> a mod 4 * 16 + b div 16 < (64 :: nat)" "c < 256 \<Longrightarrow> b mod 16 * 4 + c div 64 < (64 :: nat)"
  "a mod 4 * 16 < (64 :: nat)" "b mod 16 * 4 < (64 :: nat)" "c mod 64 < (64 :: nat)"
  using byte_parts(3) [of a] byte_parts(1) [of b] byte_parts(2) [of c] mod_bounds(1) [of a] mod_bounds(2) [of b] mod_bounds(3) [of c] by linarith+

lemma sextet_back:
  "b < 256 \<Longrightarrow> a div 4 * 4 + (a mod 4 * 16 + b div 16) div 16 = (a :: nat)"
  "b < 256 \<Longrightarrow> c < 256 \<Longrightarrow> (a mod 4 * 16 + b div 16) mod 16 * 16 + (b mod 16 * 4 + c div 64) div 4 = (b :: nat)"
  "c < 256 \<Longrightarrow> (b mod 16 * 4 + c div 64) mod 4 * 64 + c mod 64 = (c :: nat)"
  "a div 4 * 4 + a mod 4 * 16 div 16 = (a :: nat)"
  "b < 256 \<Longrightarrow> (a mod 4 * 16 + b div 16) mod 16 * 16 + b mod 16 * 4 div 4 = (b :: nat)"
  by (simp_all only: digits byte_parts div_mult_mod_eq nonzero_mult_div_cancel_right zero_neq_numeral not_False_eq_True)

lemma unsextets_sextets: "\<forall>b \<in> set bs. b < 256 \<Longrightarrow> unsextets (sextets bs) = bs"
proof (induction bs rule: sextets.induct)
  case (2 a)
  then show ?case using sextet_back(4) [of a] by simp
next
  case (3 a b)
  then show ?case using sextet_back(1) [of b a] sextet_back(5) [of b a] by simp
next
  case (4 a b c bs)
  then show ?case using sextet_back(1) [of b a] sextet_back(2) [of b c a] sextet_back(3) [of c b] by simp
qed simp

lemma sextets_small: "\<forall>b \<in> set bs. b < 256 \<Longrightarrow> \<forall>v \<in> set (sextets bs). v < 64"
  by (induction bs rule: sextets.induct) (simp_all add: sextet_small)

lemma sextets_length: "length (sextets bs) mod 4 = (if length bs mod 3 = 0 then 0 else length bs mod 3 + 1)"
proof (induction bs rule: sextets.induct)
  case (4 a b c bs)
  have "length (sextets (a # b # c # bs)) = length (sextets bs) + 4" "length (a # b # c # bs) = length bs + 3" by simp_all
  then show ?case using 4 by simp
qed simp_all

lemma b64_padding: "(4 - length (sextets bs) mod 4) mod 4 = (3 - length bs mod 3) mod 3" "length (sextets bs) mod 4 \<noteq> 1"
proof -
  have "length bs mod 3 = 0 \<or> length bs mod 3 = 1 \<or> length bs mod 3 = 2" by presburger
  then show "(4 - length (sextets bs) mod 4) mod 4 = (3 - length bs mod 3) mod 3" "length (sextets bs) mod 4 \<noteq> 1"
    using sextets_length [of bs] by auto
qed

lemma b64_value_char: "n < 64 \<Longrightarrow> b64_value (b64_char CHR ''+'' CHR ''/'' n) = Some n"
  by (auto simp: b64_char_def b64_value_def Let_def of_char_of)

lemma b64_char_code:
  assumes "n < 64"
  shows "(of_char (b64_char c62 c63 n) :: nat) = (if n < 26 then 65 + n else if n < 52 then 71 + n else if n < 62 then n - 4
    else if n = 62 then of_char c62 else of_char c63)"
  using assms by (simp add: b64_char_def of_char_of)

lemma b64_char_no_pad:
  assumes "n < 64" "c62 \<noteq> CHR ''=''" "c63 \<noteq> CHR ''=''"
  shows "b64_char c62 c63 n \<noteq> CHR ''=''"
proof (cases "n < 62")
  case True
  then have "(of_char (b64_char c62 c63 n) :: nat) \<noteq> of_char CHR ''=''" using b64_char_code [OF assms(1), of c62 c63] by auto
  then show ?thesis by auto
qed (use assms(2,3) in \<open>simp add: b64_char_def\<close>)

definition key_code :: "nat \<Rightarrow> nat" where
  "key_code n = (if n < 26 then 65 + n else if n < 52 then 71 + n else if n < 62 then n - 4 else if n = 62 then 45 else 95)"

lemma key_code_facts: "m < 64 \<Longrightarrow> n < 64 \<Longrightarrow> key_code m = key_code n \<Longrightarrow> m = n" "key_code n \<noteq> 47"
  unfolding key_code_def by (simp split: if_splits, auto)

lemma key_char_code: "n < 64 \<Longrightarrow> (of_char (b64_char CHR ''-'' CHR ''_'' n) :: nat) = key_code n"
  using b64_char_code [of n "CHR ''-''" "CHR ''_''"] by (simp add: key_code_def)

lemma key_char_no_slash: "n < 64 \<Longrightarrow> b64_char CHR ''-'' CHR ''_'' n \<noteq> CHR ''/''"
  using key_char_code [of n] key_code_facts(2) [of n] by force

lemma key_char_inj: "inj_on (b64_char CHR ''-'' CHR ''_'') {..<64}"
  by (intro inj_onI) (metis key_char_code key_code_facts(1) lessThan_iff)

lemma takeWhile_pad:
  assumes "\<forall>c \<in> set xs. c \<noteq> CHR ''=''"
  shows "takeWhile (\<lambda>c. c \<noteq> CHR ''='') (xs @ replicate k CHR ''='') = xs" "dropWhile (\<lambda>c. c \<noteq> CHR ''='') (xs @ replicate k CHR ''='') = replicate k CHR ''=''"
  using assms by (induction xs) (cases k, auto)

lemma b64_round_trip: "b64decode (b64encode CHR ''+'' CHR ''/'' s) = Inr s"
proof -
  let ?v = "sextets (bytes_of s)"
  have small: "\<forall>v \<in> set ?v. v < 64" by (rule sextets_small [OF bytes_small])
  have nopad: "\<forall>c \<in> set (map (b64_char CHR ''+'' CHR ''/'') ?v). c \<noteq> CHR ''=''" using small b64_char_no_pad by auto
  have vals: "map (\<lambda>c. the (b64_value c)) (map (b64_char CHR ''+'' CHR ''/'') ?v) = ?v"
    using small by (simp add: b64_value_char map_idI)
  have len: "length (bytes_of s) = length s" by (simp add: bytes_of_def)
  have "map char_of (bytes_of s) = s" by (simp add: bytes_of_def comp_def)
  then show ?thesis
    using small b64_padding [of "bytes_of s"] unsextets_sextets [OF bytes_small, of s] len
    unfolding b64decode_def b64encode_def takeWhile_pad [OF nopad] vals Let_def
    by (auto simp: list_all_iff b64_value_char)
qed

section \<open>Keys\<close>

lemma rstrip_pad_append: "\<forall>c \<in> set xs. c \<noteq> CHR ''='' \<Longrightarrow> rstrip_pad (xs @ replicate k CHR ''='') = xs"
proof -
  assume "\<forall>c \<in> set xs. c \<noteq> CHR ''=''"
  then have "dropWhile (\<lambda>c. c = CHR ''='') (replicate k CHR ''='' @ rev xs) = rev xs"
    by (induction k) (cases "rev xs"; auto simp: rev_eq_Cons_iff)+
  then show ?thesis by (simp add: rstrip_pad_def)
qed

lemma encode_key_part_eq: "encode_key_part s = map (b64_char CHR ''-'' CHR ''_'') (sextets (bytes_of s))"
  unfolding encode_key_part_def b64encode_def
  using sextets_small [OF bytes_small, of s] b64_char_no_pad by (intro rstrip_pad_append) auto

lemma encode_key_part_inject: "encode_key_part s = encode_key_part t \<longleftrightarrow> s = t"
proof
  assume "encode_key_part s = encode_key_part t"
  moreover have "set (sextets (bytes_of x)) \<subseteq> {..<64}" for x using sextets_small [OF bytes_small, of x] by auto
  ultimately have "sextets (bytes_of s) = sextets (bytes_of t)"
    unfolding encode_key_part_eq by (intro map_inj_on [of "b64_char CHR ''-'' CHR ''_''"] inj_on_subset [OF key_char_inj]) auto
  then have "bytes_of s = bytes_of t" using unsextets_sextets [OF bytes_small] by metis
  then show "s = t" unfolding bytes_of_def by (intro map_injective [of of_char]) (auto intro: inj_of_char)
qed simp

lemma encode_key_part_slash: "CHR ''/'' \<notin> set (encode_key_part s)"
  unfolding encode_key_part_eq using sextets_small [OF bytes_small, of s] key_char_no_slash by (fastforce simp del: set_map simp: set_map)

lemma split_slash: "c \<notin> set a \<Longrightarrow> c \<notin> set b \<Longrightarrow> a @ c # x = b @ c # y \<longleftrightarrow> a = b \<and> x = y"
proof (induction a arbitrary: b)
  case Nil then show ?case by (cases b) auto
next
  case (Cons z a) then show ?case by (cases b) auto
qed

lemma state_key_inject: "state_key ns sid = state_key ns' sid' \<longleftrightarrow> ns = ns' \<and> sid = sid'"
  using split_slash [of "CHR ''/''" "encode_key_part ns" "encode_key_part ns'"] encode_key_part_slash
  by (auto simp: state_key_def encode_key_part_inject)

lemma state_not_tombstone: "state_key ns sid \<noteq> tombstone_key node_id sk"
  by (simp add: state_key_def tombstone_key_def tombstone_prefix_def STATE_KEY_PREFIX_def TOMBSTONE_KEY_PREFIX_def)

text \<open>The rows scanned for a node are those of its own tombstones.\<close>

lemma tombstone_prefix_own: "prefix (tombstone_prefix n) (tombstone_key n' sk) \<longleftrightarrow> n = n'"
proof -
  have "prefix (tombstone_prefix n) (tombstone_key n' sk) \<longleftrightarrow> (\<exists>x. encode_key_part n' @ CHR ''/'' # encode_key_part sk = encode_key_part n @ CHR ''/'' # x)"
    by (auto simp: tombstone_key_def tombstone_prefix_def prefix_def)
  then show ?thesis using split_slash [of "CHR ''/''" "encode_key_part n'" "encode_key_part n"] encode_key_part_slash
    by (auto simp: encode_key_part_inject)
qed

section \<open>The contract\<close>

lemma kv_laws:
  assumes "kv_ok K"
  shows "kv_put K k v d = Inr d' \<Longrightarrow> kv_get K k' d' = (if k' = k then Some v else kv_get K k' d)"
    "kv_delete K k d = Inr d' \<Longrightarrow> kv_get K k' d' = (if k' = k then None else kv_get K k' d)"
    "kv_sync K d = Inr d' \<Longrightarrow> kv_get K k d' = kv_get K k d"
  using assms unfolding kv_ok_def by blast+

lemma parse_envelope:
  assumes "cd_loads C (json_compact (state_data p t)) = Inr (state_data p t)"
  shows "parse_state_envelope C (json_compact (state_data p t)) = rbind (decompress_and_deserialize_stream C p) (\<lambda>data. Inr (data, t))"
proof -
  have "envelope_fields (state_data p t) = Inr (p, t)"
    using b64_round_trip [of p] by (simp add: envelope_fields_def state_data_def obj_def d_get_def d_item_def)
  then show ?thesis by (simp add: parse_state_envelope_def assms)
qed

lemma omni_save_cases:
  assumes "omni_save C K ns sid s d = Inr d'"
  obtains (kept) old data t where "kv_get K (state_key ns sid) d = Some old" "parse_state_envelope C old = Inr (data, t)" "f_le (ts_updated s) t" "d' = d"
  | (stored) v where "state_envelope C s (ts_updated s) = Inr v" "kv_put K (state_key ns sid) v d = Inr d'"
      "\<And>old data t. kv_get K (state_key ns sid) d = Some old \<Longrightarrow> parse_state_envelope C old = Inr (data, t) \<Longrightarrow> \<not> f_le (ts_updated s) t"
proof -
  obtain v where v: "state_envelope C s (ts_updated s) = Inr v" using assms by (auto simp: omni_save_def Let_def rbind_eq_Inr)
  show thesis
  proof (cases "kv_get K (state_key ns sid) d")
    case None
    then have "kv_put K (state_key ns sid) v d = Inr d'" using assms v by (simp add: omni_save_def)
    then show thesis by (rule stored [OF v]) (use None in simp)
  next
    case (Some old)
    show thesis
    proof (cases "parse_state_envelope C old")
      case (Inl e)
      then have "kv_put K (state_key ns sid) v d = Inr d'" using assms v Some by (cases e) (simp_all add: omni_save_def)
      then show thesis by (rule stored [OF v]) (use Some Inl in auto)
    next
      case (Inr p)
      obtain data t where p: "p = (data, t)" by (cases p)
      show thesis
      proof (cases "f_le (ts_updated s) t")
        case True
        then have "d' = d" using assms v Some Inr p by (simp add: omni_save_def)
        then show thesis using kept [OF Some Inr [unfolded p] True] by simp
      next
        case False
        then have "kv_put K (state_key ns sid) v d = Inr d'" using assms v Some Inr p by (simp add: omni_save_def)
        then show thesis by (rule stored [OF v]) (use Some Inr p False in auto)
      qed
    qed
  qed
qed

lemma load_saved_envelope:
  assumes "omni_storable L C s" "state_envelope C s (ts_updated s) = Inr v" "kv_get K (state_key ns sid) d = Some v"
  shows "omni_load L C K ns sid d = Some s"
proof -
  obtain p where p: "serialize_and_compress_stream C s = Inr p" "v = json_compact (state_data p (ts_updated s))"
    using assms(2) by (auto simp: state_envelope_def rbind_eq_Inr)
  have "cd_loads C v = Inr (state_data p (ts_updated s))" "rbind (decompress_and_deserialize_stream C p) (st_from_dict L) = Inr (ts_log s)"
    using assms(1) p by (simp_all add: omni_storable_def sql_storable_def)
  then show ?thesis using parse_envelope [of C p "ts_updated s"] assms(3) by (auto simp: omni_load_def p(2) rbind_eq_Inr)
qed

lemma omni_contract:
  assumes K: "kv_ok K"
  shows "storage_backend (omni_backend L C K) (omni_stamp C K) (omni_storable L C)"
proof
  fix ns sid ns' sid' :: string and d d' :: 'a and s x :: shared_log and found :: bool
  note laws = kv_laws [OF K]
  show "\<exists>x. be_load (omni_backend L C K) ns sid d = Inr x" by (simp add: omni_backend_def)
  show "be_load (omni_backend L C K) ns sid d = Inr (Some s) \<Longrightarrow> omni_stamp C K ns sid d = Some (ts_updated s)"
    by (auto simp: omni_backend_def omni_load_def omni_stamp_def rbind_eq_Inr split: option.splits sum.splits prod.splits)
  have strict: "f_lt t u \<Longrightarrow> \<not> f_le u t" for t u by (cases t; cases u) (auto simp: f_le_def)
  show "be_load (omni_backend L C K) ns sid d' = Inr (Some s)"
    if save: "be_save (omni_backend L C K) ns sid s d = Inr d'" and ok: "omni_storable L C s"
      and new: "case omni_stamp C K ns sid d of None \<Rightarrow> True | Some t \<Rightarrow> f_lt t (ts_updated s)"
  proof -
    have "omni_save C K ns sid s d = Inr d'" using save by (simp add: omni_backend_def)
    then show ?thesis
    proof (cases rule: omni_save_cases)
      case (kept old data t)
      then show ?thesis using new strict [of t "ts_updated s"] by (simp add: omni_stamp_def)
    next
      case (stored v)
      then show ?thesis using load_saved_envelope [OF ok stored(1), of K ns sid d'] laws(1) [OF stored(2)] by (simp add: omni_backend_def)
    qed
  qed
  show "d' = d" if save: "be_save (omni_backend L C K) ns sid s d = Inr d'" and ld: "be_load (omni_backend L C K) ns sid d = Inr (Some x)"
    and less: "f_le (ts_updated s) (ts_updated x)"
  proof -
    have "omni_save C K ns sid s d = Inr d'" using save by (simp add: omni_backend_def)
    then show ?thesis
    proof (cases rule: omni_save_cases)
      case (stored v)
      obtain old data where "kv_get K (state_key ns sid) d = Some old" "parse_state_envelope C old = Inr (data, ts_updated x)"
        using ld by (auto simp: omni_backend_def omni_load_def rbind_eq_Inr split: option.splits sum.splits prod.splits)
      then show ?thesis using stored(3) less by blast
    qed
  qed
  show "be_load (omni_backend L C K) ns' sid' d' = be_load (omni_backend L C K) ns' sid' d \<and> omni_stamp C K ns' sid' d' = omni_stamp C K ns' sid' d"
    if "be_save (omni_backend L C K) ns sid s d = Inr d'" "(ns', sid') \<noteq> (ns, sid)"
  proof -
    have "omni_save C K ns sid s d = Inr d'" using that(1) by (simp add: omni_backend_def)
    then have "kv_get K (state_key ns' sid') d' = kv_get K (state_key ns' sid') d"
      using laws(1) that(2) by (cases rule: omni_save_cases) (auto simp: state_key_inject)
    then show ?thesis by (simp add: omni_backend_def omni_load_def omni_stamp_def)
  qed
  show "be_load (omni_backend L C K) ns sid d' = Inr None \<and> omni_stamp C K ns sid d' = None \<and> (found \<longleftrightarrow> omni_stamp C K ns sid d \<noteq> None)"
    if "be_delete (omni_backend L C K) ns sid d = Inr (d', found)"
    using that laws(2) by (auto simp: omni_backend_def omni_delete_def omni_load_def omni_stamp_def rbind_eq_Inr split: option.splits sum.splits)
  show "be_load (omni_backend L C K) ns' sid' d' = be_load (omni_backend L C K) ns' sid' d \<and> omni_stamp C K ns' sid' d' = omni_stamp C K ns' sid' d"
    if "be_delete (omni_backend L C K) ns sid d = Inr (d', found)" "(ns', sid') \<noteq> (ns, sid)"
  proof -
    have "kv_get K (state_key ns' sid') d' = kv_get K (state_key ns' sid') d"
      using that laws(2) by (auto simp: omni_backend_def omni_delete_def rbind_eq_Inr state_key_inject split: option.splits)
    then show ?thesis by (simp add: omni_backend_def omni_load_def omni_stamp_def)
  qed
qed


section \<open>Deleting with a tombstone\<close>

text \<open>The version that the store holds for a tombstone.\<close>

definition version_at :: "codec \<Rightarrow> 'k kv_client \<Rightarrow> string \<Rightarrow> string \<Rightarrow> 'k \<Rightarrow> pyfloat result" where
  "version_at C K node_id sk d = tombstone_version C (kv_get K (tombstone_key node_id sk) d)"

lemma tombstone_reads:
  assumes "cd_loads C (tombstone_envelope sk version) = Inr (tombstone_fields sk version)"
  shows "tombstone_version C (Some (tombstone_envelope sk version)) = Inr version"
  by (simp add: tombstone_version_def assms) (simp add: tombstone_fields_def obj_def d_item_def)

lemma kv_do_cases: "kv_do f d = (d', x) \<Longrightarrow> (x = Inr () \<and> f d = Inr d') \<or> (\<exists>e. x = Inl e \<and> d' = d)"
  by (auto simp: kv_do_def split: sum.splits)

lemma put_tombstone_cases:
  assumes "kv_ok K" "cd_loads C (tombstone_envelope sk version) = Inr (tombstone_fields sk version)" "version \<noteq> NaN"
    and "put_tombstone_if_newer C K (tombstone_key node_id sk) sk version d = (d', x)"
  shows "(\<forall>k. k \<noteq> tombstone_key node_id sk \<longrightarrow> kv_get K k d' = kv_get K k d)
    \<and> (case x of Inl _ \<Rightarrow> d' = d | Inr _ \<Rightarrow> \<exists>t. version_at C K node_id sk d' = Inr t \<and> f_le version t)"
proof (cases "version_at C K node_id sk d")
  case (Inl e)
  then show ?thesis using assms(4) by (auto simp: put_tombstone_if_newer_def version_at_def)
next
  case (Inr t)
  show ?thesis
  proof (cases "f_le version t")
    case True
    then show ?thesis using assms(4) Inr by (auto simp: put_tombstone_if_newer_def version_at_def)
  next
    case False
    obtain d1 y where y: "kv_do (kv_put K (tombstone_key node_id sk) (tombstone_envelope sk version)) d = (d1, y)"
      by (cases "kv_do (kv_put K (tombstone_key node_id sk) (tombstone_envelope sk version)) d")
    have x: "d' = d1" "x = (case y of Inl e \<Rightarrow> Inl e | Inr _ \<Rightarrow> Inr True)"
      using assms(4) Inr False y by (auto simp: put_tombstone_if_newer_def version_at_def sbind_def split: sum.splits)
    have "f_le version version" using assms(3) by (cases version) (simp_all add: f_le_def)
    then show ?thesis using kv_do_cases [OF y] kv_laws(1) [OF assms(1)] tombstone_reads [OF assms(2)] x
      by (auto simp: version_at_def)
  qed
qed

text \<open>The second half: the state is looked up and deleted.\<close>

definition remove_state :: "'k kv_client \<Rightarrow> string \<Rightarrow> ('k, bool) step" where
  "remove_state K sk = sbind (sget (kv_get K sk)) (\<lambda>state.
    if state = None then sret False else sthen (kv_do (kv_delete K sk)) (sthen (kv_do (kv_sync K)) (sret True)))"

lemma remove_state_cases:
  assumes "kv_ok K" "remove_state K sk d = (d', x)"
  shows "(\<forall>k. k \<noteq> sk \<longrightarrow> kv_get K k d' = kv_get K k d)
    \<and> (\<forall>found. x = Inr found \<longrightarrow> kv_get K sk d' = None \<and> (found \<longleftrightarrow> kv_get K sk d \<noteq> None))"
proof (cases "kv_get K sk d")
  case None
  then show ?thesis using assms(2) by (auto simp: remove_state_def)
next
  case (Some v)
  obtain d1 w where w: "kv_do (kv_delete K sk) d = (d1, w)" by (cases "kv_do (kv_delete K sk) d")
  obtain d2 z where z: "kv_do (kv_sync K) d1 = (d2, z)" by (cases "kv_do (kv_sync K) d1")
  have "d' = (if w = Inr () then d2 else d1)" "x = Inr found \<Longrightarrow> found \<and> w = Inr ()" for found
    using assms(2) Some w z by (cases w; cases z; simp add: remove_state_def sbind_def)+
  then show ?thesis using kv_do_cases [OF w] kv_do_cases [OF z] kv_laws(2,3) [OF assms(1)] Some by auto
qed

lemma delete_halves:
  "omni_delete_with_tombstone C K ns sid node_id sk version = sthen (omni_save_tombstone C K node_id sk version) (remove_state K (state_key ns sid))"
  by (rule ext) (simp add: omni_delete_with_tombstone_def omni_save_tombstone_def remove_state_def sbind_def split: prod.splits sum.splits)

lemma save_tombstone_cases:
  assumes "kv_ok K" "cd_loads C (tombstone_envelope sk version) = Inr (tombstone_fields sk version)" "version \<noteq> NaN"
    and "omni_save_tombstone C K node_id sk version d = (d', x)"
  shows "(\<forall>k. k \<noteq> tombstone_key node_id sk \<longrightarrow> kv_get K k d' = kv_get K k d)
    \<and> (x = Inr () \<longrightarrow> (\<exists>t. version_at C K node_id sk d' = Inr t \<and> f_le version t))"
proof -
  obtain d1 y where y: "put_tombstone_if_newer C K (tombstone_key node_id sk) sk version d = (d1, y)"
    by (cases "put_tombstone_if_newer C K (tombstone_key node_id sk) sk version d")
  have "d' = d1 \<or> (kv_sync K d1 = Inr d')" "x = Inr () \<Longrightarrow> \<exists>b. y = Inr b"
    using assms(4) y kv_do_cases [of "kv_sync K" d1] by (auto simp: omni_save_tombstone_def sbind_def split: sum.splits if_splits)
  then show ?thesis using put_tombstone_cases [OF assms(1-3) y] kv_laws(3) [OF assms(1)] by (auto simp: version_at_def)
qed


section \<open>Instances\<close>

definition demo_kv :: "(string, string) dict kv_client" where
  "demo_kv = \<lparr>kv_put = (\<lambda>k v d. Inr (AList.update k v d)), kv_get = (\<lambda>k d. map_of d k), kv_delete = (\<lambda>k d. Inr (AList.delete k d)),
     kv_scan = (\<lambda>p d. filter (\<lambda>(k, v). prefix p k \<and> map_of d k = Some v) d), kv_sync = Inr\<rparr>"

lemma demo_kv_ok: "kv_ok demo_kv"
  by (auto simp: kv_ok_def demo_kv_def update_conv' delete_conv' dest: map_of_SomeD)

definition tomb_codec :: codec where
  "tomb_codec = (demo_codec undefined undefined)\<lparr>cd_loads := (\<lambda>s. if s = tombstone_envelope ''k'' (Fin 3) then Inr (tombstone_fields ''k'' (Fin 3)) else Inl (ValueError ''bad''))\<rparr>"



end
