(* ===== verification/Spec2Isabelle.thy ===== *)
theory Spec2Isabelle
  imports Serial_Laws Windowed_Laws Shared_Log Rate_Limit_Laws Rbac Alerts_Laws Slo Diff Mesh_Laws Gossip_Laws Canary Registry_Laws Sql_Print Server_Laws
    Alert_Center_Laws Omnikv_Laws
begin

text \<open>
  Verification of SketchLog, a service that summarizes streams of events in sketches of bounded
  size: latencies in a quantile sketch, distinct items in a cardinality sketch, named events in a frequency
  sketch.  The model follows the Python package \<^verbatim>\<open>src/python/sketchlog\<close>; file names below are relative to it.

  \<^bold>\<open>The parts and how they interact.\<close>  \<^verbatim>\<open>core/\<close> holds the three sketches.  \<^verbatim>\<open>facade.py\<close> combines them into a
  stream log with one counter of events, validates serialized logs, and merges them.  \<^verbatim>\<open>windowed.py\<close> keeps a ring of
  logs for a sliding window, \<^verbatim>\<open>concurrent.py\<close> a log behind a lock.  \<^verbatim>\<open>server.py\<close> keeps logs per namespace and
  stream in a registry with caps, which evicts to and reloads from \<^verbatim>\<open>storage.py\<close>; its endpoints ingest batches, merge
  serialized logs, report percentiles, run queries (\<^verbatim>\<open>sql.py\<close>) and analyses (\<^verbatim>\<open>slo.py\<close>, \<^verbatim>\<open>diff.py\<close>, \<^verbatim>\<open>canary.py\<close>,
  \<^verbatim>\<open>drift.py\<close>, \<^verbatim>\<open>alerts.py\<close>), and delete streams.  \<^verbatim>\<open>cluster.py\<close> is a mesh of servers that exchange membership and
  snapshots of their logs by gossip; a deletion travels as a tombstone.  \<^verbatim>\<open>rbac.py\<close> and \<^verbatim>\<open>rate_limit.py\<close> decide
  who may do how much; \<^verbatim>\<open>alert_manager.py\<close> silences, routes and delivers alerts.

  \<^bold>\<open>Foundations.\<close>
  \<^item> \<^verbatim>\<open>Prelude\<close>: exceptions as values of a sum type, dictionaries as association lists in insertion order, and the
    contract \<open>mergeable_sketch\<close> (merging two sketches is the same as ingesting both histories) that every sketch interprets.
  \<^item> \<^verbatim>\<open>PyFloat\<close>: floats as rationals with the two infinities and not-a-number; each operation computes exactly and rounds
    once to 53 bits, ties to even.  \<^verbatim>\<open>PyValue\<close>, \<^verbatim>\<open>Json_Text\<close>: values of JSON, integer notation, the
    text that \<^verbatim>\<open>json.dumps\<close> writes.  \<^verbatim>\<open>StateResult\<close>: methods that change state and may raise half-way.

  \<^bold>\<open>Sketches and logs.\<close>
  \<^item> \<^verbatim>\<open>HyperLogLog\<close> (\<^verbatim>\<open>core/hll.py\<close>): 64-bit hashing, registers, estimate; adding is idempotent and independent of order,
    merging is the union.
  \<^item> \<^verbatim>\<open>CountMin\<close> (\<^verbatim>\<open>core/cms.py\<close>): the estimate is never below the true count and never above the total.
  \<^item> \<^verbatim>\<open>DDSketch\<close>, \<^verbatim>\<open>DDSketch_Laws\<close>, \<^verbatim>\<open>DDSketch_Order\<close>, \<^verbatim>\<open>DDQuantile\<close> (\<^verbatim>\<open>core/ddsketch.py\<close>): insertion, bulk insertion,
    merging and quantiles; the answer is within the relative accuracy of the sample at the requested rank.
  \<^item> \<^verbatim>\<open>Stream_Log\<close>, \<^verbatim>\<open>Stream_Laws\<close> (\<^verbatim>\<open>facade.py\<close>): the engine and its wrapper; the counter is the sum of its parts, bulk and
    repeated ingestion agree, merging is concatenation, memory is bounded.  \<^verbatim>\<open>Stream_Serial\<close>, \<^verbatim>\<open>Serial_Laws\<close>: writing and
    validated reading; reading a dictionary never yields a log outside the invariant and returns every written log.
  \<^item> \<^verbatim>\<open>Windowed\<close>, \<^verbatim>\<open>Windowed_Laws\<close> (\<^verbatim>\<open>windowed.py\<close>): what the window reports is the sum over the calls of its
    span, by the contract \<open>additive_view\<close>.  \<^verbatim>\<open>Shared_Log\<close> (\<^verbatim>\<open>concurrent.py\<close>): draining conserves events.

  \<^bold>\<open>Server.\<close>
  \<^item> \<^verbatim>\<open>Storage\<close> (\<^verbatim>\<open>storage.py\<close>): the contract \<open>storage_backend\<close> and the SQL backend that interprets it.
    \<^verbatim>\<open>Omnikv\<close>, \<^verbatim>\<open>Omnikv_Laws\<close>: the backend over an embedded key-value store; base64 and envelopes round-trip, keys never
    collide, the contract holds for every store that is a map, and a deletion is recoverable wherever it fails.
  \<^item> \<^verbatim>\<open>Registry\<close>, \<^verbatim>\<open>Registry_Laws\<close> (\<^verbatim>\<open>StreamRegistry\<close> of \<^verbatim>\<open>server.py\<close>): caps are never exceeded, and with storage the
    registry refines a plain map from keys to logs: eviction is invisible.
  \<^item> \<^verbatim>\<open>Web_Auth\<close>: tokens per namespace, the mesh secret, the limit on uploads, readiness.
  \<^item> \<^verbatim>\<open>Server\<close>, \<^verbatim>\<open>Server_Laws\<close>: the endpoints as steps on registry, mesh and counter; a batch is recorded as a whole or not at
    all, a deletion commits everywhere or is rolled back (contract \<open>tombstone_backend\<close>), reading changes nothing, and
    the state sent over the web socket is accepted by the merge endpoint without loss.
  \<^item> \<^verbatim>\<open>Sql\<close>, \<^verbatim>\<open>Sql_Laws\<close>, \<^verbatim>\<open>Sql_Print\<close> (\<^verbatim>\<open>sql.py\<close>): scanner, parser, grouping and conditions; rows are partitioned
    into the logs of their groups, and a printed plan is read back.

  \<^bold>\<open>Mesh.\<close>
  \<^item> \<^verbatim>\<open>Cluster\<close>, \<^verbatim>\<open>Mesh_Store\<close>, \<^verbatim>\<open>Mesh_Inv\<close>, \<^verbatim>\<open>Mesh_Laws\<close> (\<^verbatim>\<open>cluster.py\<close>): membership, snapshots, tombstones.  Every method that
    changes the manager is a step of a relation; the invariant holds in all reachable states, no step takes back a known
    version, only allowed peers are contacted, and the store converges whatever the order and repetition of
    messages (contract \<open>lww_store\<close>, a last-writer-wins register per stream and origin).
  \<^item> \<^verbatim>\<open>Gossip\<close>, \<^verbatim>\<open>Gossip_Laws\<close>: digests and synchronization; answers stay within the payload limit, the bounded
    version vector comes round to every entry, packing loses no snapshot that fits.

  \<^bold>\<open>Analyses and guards.\<close>
  \<^item> \<^verbatim>\<open>Drift\<close>, \<^verbatim>\<open>Alerts\<close>, \<^verbatim>\<open>Alerts_Laws\<close> (\<^verbatim>\<open>drift.py\<close>, \<^verbatim>\<open>alerts.py\<close>): an alert fires exactly after enough violating windows in a row.
  \<^item> \<^verbatim>\<open>Slo\<close>, \<^verbatim>\<open>Diff\<close>, \<^verbatim>\<open>Canary\<close>: objectives and burn rates, distances between distributions, and the verdict on a deployment.
  \<^item> \<^verbatim>\<open>Rate_Limit\<close>, \<^verbatim>\<open>Rate_Limit_Laws\<close>, \<^verbatim>\<open>Rbac\<close>: token buckets and quotas under interleaving, grants and the audit trail.
  \<^item> \<^verbatim>\<open>Alert_Center\<close>, \<^verbatim>\<open>Alert_Center_Laws\<close> (\<^verbatim>\<open>alert_manager.py\<close>): the file always restores the store, routing is exact, and an
    alert is silenced or delivered with at most three attempts per channel.

  \<^bold>\<open>Parameters.\<close>  What is not in the repository is an argument: the mathematical library of the platform
  (record \<open>libm\<close>; hypothesis \<open>libm_ok\<close> states that its logarithm is monotone and what it returns at special arguments, and
  \<open>libm_demo\<close> is an instance), URL splitting, clocks, random choices, answers of the network, compression and the JSON reader of
  stored payloads (record \<open>codec\<close>), the embedded key-value store (record \<open>kv_client\<close>, hypothesis \<open>kv_ok\<close>), the parser of Python expressions, environment variables, \<^verbatim>\<open>strftime\<close>.  Requests enter
  as the framework has parsed them.

  \<^bold>\<open>Bounds and fuel.\<close>  No definition uses fuel: loops recurse over lists or have a termination proof.  Integers that
  the program keeps at 64 bits are words (hashing) or integers with the checks the code makes; Python's integers are
  unbounded.  Text is a list of characters, with ASCII case and white space.

  \<^bold>\<open>Not modelled.\<close>  Handlers run one after the other, since the event loop interleaves them only at
  awaits; what another handler can do between an await and its continuation is outside the model.  The native module of the embedded
  key-value store and opening it are not in the repository.  Clients, exporters, integrations, the
  eBPF collector, the Kubernetes operator, and the command-line tools for benchmarks, regression checks, certificates, databases,
  namespaces and mesh reports are input and output around the parts above.  The C++ and WebAssembly engines are other
  implementations of the sketches in other languages.
\<close>

end
